(* ===== verification/Kernel_Prelude.thy ===== *)
theory Kernel_Prelude
  imports Main "HOL-Library.Word" "HOL-Library.Sublist"
begin

text \<open>
  Shared vocabulary of the development: the fixed width integer types of the C sources, the
  utility macros of \<^verbatim>\<open>src/kernel/common.h\<close>, byte addressed memory with little-endian
  32-bit accesses (the i386 target of the kernel), and the generic lemmas on words and lists
  that the component theories rely on.
\<close>

unbundle bit_operations_syntax

type_synonym u8 = "8 word"
type_synonym u16 = "16 word"
type_synonym u32 = "32 word"
type_synonym u64 = "64 word"
type_synonym memory = "u32 \<Rightarrow> u8"

text \<open>A C string literal, without its terminator.\<close>

definition bytes_of :: "string \<Rightarrow> u8 list" where
  "bytes_of s = map of_char s"

named_theorems mem_frame \<open>reads of memory that a write does not touch\<close>
named_theorems nat_of_word \<open>values of word expressions as natural numbers\<close>

section \<open>Macros of common.h\<close>

definition ALIGN_UP :: "u32 \<Rightarrow> u32 \<Rightarrow> u32" where
  "ALIGN_UP val align = (val + align - 1) AND NOT (align - 1)"

definition ALIGN_DOWN :: "u32 \<Rightarrow> u32 \<Rightarrow> u32" where
  "ALIGN_DOWN val align = val AND NOT (align - 1)"

definition IS_POWER_OF_2 :: "u32 \<Rightarrow> bool" where
  "IS_POWER_OF_2 x \<longleftrightarrow> x \<noteq> 0 \<and> x AND (x - 1) = 0"

section \<open>Little-endian 32-bit memory accesses\<close>

definition load32 :: "memory \<Rightarrow> u32 \<Rightarrow> u32" where
  "load32 m a = ucast (m a) OR push_bit 8 (ucast (m (a + 1)))
     OR push_bit 16 (ucast (m (a + 2))) OR push_bit 24 (ucast (m (a + 3)))"

definition store32 :: "memory \<Rightarrow> u32 \<Rightarrow> u32 \<Rightarrow> memory" where
  "store32 m a v = m(a := ucast v, a + 1 := ucast (drop_bit 8 v),
     a + 2 := ucast (drop_bit 16 v), a + 3 := ucast (drop_bit 24 v))"

lemma four_le_one_u32 [simp]: "\<not> (4::u32) \<le> 1"
  by (simp add: word_le_nat_alt)

lemma load32_store32 [simp]: "load32 (store32 m a v) a = v"
proof (rule bit_eqI)
  fix n :: nat
  assume "possible_bit TYPE(u32) n"
  moreover have "n < 8 \<or> (8 \<le> n \<and> n < 16) \<or> (16 \<le> n \<and> n < 24) \<or> 24 \<le> n" by auto
  ultimately show "bit (load32 (store32 m a v) a) n = bit v n"
    unfolding load32_def store32_def by (auto simp: bit_simps)
qed

lemma store32_other [mem_frame]: "4 \<le> b - a \<Longrightarrow> store32 m a v b = m b"
  unfolding store32_def by auto

lemma load32_byte_other [mem_frame]: "4 \<le> b - a \<Longrightarrow> load32 (m(b := x)) a = load32 m a"
  unfolding load32_def by auto

lemma load32_cong:
  assumes "\<And>i. i < 4 \<Longrightarrow> m (a + i) = m' (a + i)"
  shows "load32 m a = load32 m' a"
  using assms[of 0] assms[of 1] assms[of 2] assms[of 3] unfolding load32_def by simp

lemma diff_ge4: "4 \<le> b - a \<Longrightarrow> 4 \<le> a - b \<Longrightarrow> i < (4::u32) \<Longrightarrow> 4 \<le> (b + i) - a"
  by unat_arith

lemma load32_store32_other [mem_frame]:
  "4 \<le> b - a \<Longrightarrow> 4 \<le> a - b \<Longrightarrow> load32 (store32 m a v) b = load32 m b"
  by (rule load32_cong) (simp add: store32_other diff_ge4)

section \<open>Masks and alignment\<close>

lemma and_not_mask_eq: "v AND NOT (mask k) = push_bit k (drop_bit k (v :: 'a::len word))"
  by (rule bit_eqI) (auto simp: bit_simps)

lemma unat_and_not_mask [nat_of_word]:
  "unat (v AND NOT (mask k) :: 'a::len word) = unat v div 2 ^ k * 2 ^ k"
proof -
  have "unat v div 2 ^ k * 2 ^ k \<le> unat v" by (simp add: div_times_less_eq_dividend)
  then have "unat v div 2 ^ k * 2 ^ k < 2 ^ LENGTH('a)"
    using unsigned_less[of v] by (meson le_less_trans)
  then show ?thesis unfolding and_not_mask_eq unsigned_push_bit_eq unat_drop_bit_eq
    by (simp add: push_bit_eq_mult drop_bit_eq_div take_bit_eq_mod)
qed

lemma unat_and_mask [nat_of_word]: "unat (v AND mask k :: 'a::len word) = unat v mod 2 ^ k"
  unfolding take_bit_eq_mask [symmetric] unsigned_take_bit_eq by (simp add: take_bit_eq_mod)

lemma IS_POWER_OF_2_power: "k < 32 \<Longrightarrow> IS_POWER_OF_2 (2 ^ k)"
  unfolding IS_POWER_OF_2_def mask_eq_exp_minus_1[symmetric] take_bit_eq_mask[symmetric]
  by (auto intro!: bit_eqI simp: bit_simps)

lemma unat_add1_less [nat_of_word]:
  assumes "i < (n :: 'a::len word)" shows "unat (i + 1) = Suc (unat i)"
proof -
  have "unat i < unat n" using assms by (simp add: word_less_nat_alt)
  moreover have "unat n < 2 ^ LENGTH('a)" by (rule unsigned_less)
  ultimately have "Suc (unat i) < 2 ^ LENGTH('a)" by linarith
  then show ?thesis by (simp add: unat_word_ariths)
qed

lemma add1_le_iff: "i < (n :: 'a::len word) \<Longrightarrow> i + 1 \<le> w \<longleftrightarrow> i < w"
  by (simp add: word_le_nat_alt word_less_nat_alt[of i w] unat_add1_less Suc_le_eq)

lemma less_add1_iff: "i < (n :: 'a::len word) \<Longrightarrow> w < i + 1 \<longleftrightarrow> w \<le> i"
  by (simp add: word_le_nat_alt word_less_nat_alt[of w] unat_add1_less less_Suc_eq_le)

lemma interval_add1:
  assumes "lo \<le> k" and "k < (n :: 'a::len word)"
  shows "lo \<le> g \<and> g < k + 1 \<longleftrightarrow> lo \<le> g \<and> g < k \<or> g = k"
  using assms unfolding less_add1_iff[OF assms(2)] by (auto simp: le_less)

lemma loop_measure:
  "i < (n :: 'a::len word) \<Longrightarrow> unat n \<le> k \<Longrightarrow> k - unat (i + 1) < k - unat i"
  using unat_add1_less[of i n] by (simp add: word_less_nat_alt)

lemma div_mod_less_cases:
  fixes x a j :: nat
  assumes "x < a * 32 + j" and "j < 32"
  shows "x div 32 < a \<or> x div 32 = a \<and> x mod 32 < j"
proof -
  have "x < Suc a * 32" using assms by simp
  then have "x div 32 \<le> a" by (metis less_Suc_eq_le less_mult_imp_div_less)
  moreover have "x = x div 32 * 32 + x mod 32" by simp
  ultimately show ?thesis using assms by (cases "x div 32 = a") auto
qed

lemma unat_u32_less: "unat (x :: u32) < 4294967296"
proof -
  have "unat x < 2 ^ LENGTH(32)" by (rule unsigned_less)
  then show ?thesis by simp
qed

lemma unat_ucast_u64 [simp]: "unat (ucast (x :: u32) :: u64) = unat x"
proof -
  have "unat x < 2 ^ 64" by (rule less_trans[OF unat_u32_less]) simp
  then show ?thesis by (simp only: unsigned_ucast_eq take_bit_nat_eq_self) (simp add: take_bit_nat_eq_self)
qed

lemma unat_ALIGN_UP [nat_of_word]:
  assumes "k < 32" and "unat v + 2 ^ k \<le> 2 ^ 32"
  shows "unat (ALIGN_UP v (2 ^ k)) = (unat v + 2 ^ k - 1) div 2 ^ k * 2 ^ k"
proof -
  have k: "(2::nat) ^ k < 2 ^ 32" "(1::nat) \<le> 2 ^ k"
    using power_strict_increasing[OF assms(1), of "2::nat"] by auto
  have "(2 ^ k :: u32) = of_nat (2 ^ k)" by simp
  then have p: "unat (2 ^ k :: u32) = 2 ^ k" using k by (simp only: unat_of_nat) simp
  have eq: "v + 2 ^ k - 1 = v + (2 ^ k - 1)" by simp
  have "unat (2 ^ k - 1 :: u32) = 2 ^ k - 1"
    using k p by (subst unat_sub) (simp_all add: word_le_nat_alt)
  then have "unat (v + 2 ^ k - 1) = unat v + (2 ^ k - 1)"
    unfolding eq using assms(2) k by (subst unat_add_lem[THEN iffD1]) auto
  then show ?thesis using k
    by (simp add: ALIGN_UP_def mask_eq_exp_minus_1[symmetric] unat_and_not_mask)
qed

lemma unat_ALIGN_DOWN [nat_of_word]:
  "unat (ALIGN_DOWN v (2 ^ k)) = unat v div 2 ^ k * 2 ^ k"
  by (simp add: ALIGN_DOWN_def mask_eq_exp_minus_1[symmetric] unat_and_not_mask)

section \<open>Counting loops on unsigned integers\<close>

text \<open>
  \<^verbatim>\<open>for (uint32_t i = lo; i < hi; i++) s = body(i, s);\<close>  The increment cannot wrap, because
  \<^term>\<open>i < hi\<close> when it is executed.
\<close>

function for_u32 :: "u32 \<Rightarrow> u32 \<Rightarrow> (u32 \<Rightarrow> 's \<Rightarrow> 's) \<Rightarrow> 's \<Rightarrow> 's" where
  "for_u32 i hi body s = (if i < hi then for_u32 (i + 1) hi body (body i s) else s)"
  by auto
termination
  by (relation "measure (\<lambda>(i, hi, _, _). unat hi - unat i)") (auto intro: loop_measure)

declare for_u32.simps [simp del]

lemma for_u32_invariant:
  assumes "P i s" and "i \<le> hi"
    and "\<And>k t. i \<le> k \<Longrightarrow> k < hi \<Longrightarrow> P k t \<Longrightarrow> P (k + 1) (body k t)"
  shows "P hi (for_u32 i hi body s)"
  using assms
proof (induction i hi body s rule: for_u32.induct)
  case (1 i hi body s)
  show ?case
  proof (cases "i < hi")
    case True
    then have next_bounds: "i + 1 \<le> hi" "i \<le> i + 1" by unat_arith+
    have "P (i + 1) (body i s)" using 1 True by auto
    then have "P hi (for_u32 (i + 1) hi body (body i s))"
      using 1 True next_bounds by (auto intro: order_trans)
    then show ?thesis using True by (simp add: for_u32.simps)
  next
    case False
    then show ?thesis using 1 by (auto simp: for_u32.simps)
  qed
qed

lemma for_u32_cong:
  assumes "\<And>k s. i \<le> k \<Longrightarrow> k < hi \<Longrightarrow> body k s = body' k s"
  shows "for_u32 i hi body s = for_u32 i hi body' s"
  using assms
proof (induction i hi body s rule: for_u32.induct)
  case (1 i hi body s)
  show ?case
  proof (cases "i < hi")
    case True
    have "for_u32 (i + 1) hi body (body i s) = for_u32 (i + 1) hi body' (body i s)"
      using True 1(2) by (intro 1(1)) (auto intro: order.trans[OF less_imp_le, of i "i + 1"] simp: add1_le_iff[OF True])
    then show ?thesis using True 1(2)[of i s] by (subst (1 2) for_u32.simps) simp
  next
    case False
    then show ?thesis by (subst (1 2) for_u32.simps) simp
  qed
qed

section \<open>Words bit by bit\<close>

lemma unat_ucast_up: "LENGTH('a) \<le> LENGTH('b) \<Longrightarrow> unat (ucast (x :: 'a::len word) :: 'b::len word) = unat x"
proof -
  assume "LENGTH('a) \<le> LENGTH('b)"
  then have "(2 :: nat) ^ LENGTH('a) \<le> 2 ^ LENGTH('b)" by (rule power_increasing) simp
  then have "unat x < 2 ^ LENGTH('b)" using unsigned_less[of x, where ?'a = nat] by (rule less_le_trans[rotated])
  then show ?thesis by (simp add: unsigned_ucast_eq take_bit_nat_eq_self)
qed

lemma unat_u8_less: "unat (x :: u8) < 256"
  using unsigned_less[of x, where ?'a = nat] by simp

lemma unat_u16_less: "unat (x :: u16) < 65536"
  using unsigned_less[of x, where ?'a = nat] by simp

lemma word_eq_bits: "(x :: 'a::len word) = y \<longleftrightarrow> (\<forall>n < LENGTH('a). bit x n = bit y n)"
  by (auto intro: bit_word_eqI)

lemma all_less_upt: "(\<forall>i < (n :: nat). P i) \<longleftrightarrow> list_all P [0..<n]"
  by (auto simp: list_all_iff)

lemma all_less_8: "(\<forall>i < (8 :: nat). P i) \<longleftrightarrow> list_all P [0, 1, 2, 3, 4, 5, 6, 7]"
  unfolding all_less_upt by (simp add: upt_rec numeral_eq_Suc)

lemma all_less_16: "(\<forall>i < (16 :: nat). P i) \<longleftrightarrow> list_all P [0, 1, 2, 3, 4, 5, 6, 7, 8, 9, 10, 11, 12, 13, 14, 15]"
  unfolding all_less_upt by (simp add: upt_rec numeral_eq_Suc)

lemma all_less_32: "(\<forall>i < (32 :: nat). P i) \<longleftrightarrow> list_all P [0, 1, 2, 3, 4, 5, 6, 7, 8, 9, 10, 11, 12, 13, 14, 15, 16, 17, 18, 19, 20, 21, 22, 23, 24, 25, 26, 27, 28, 29, 30, 31]"
  unfolding all_less_upt by (simp add: upt_rec numeral_eq_Suc)

lemmas word_all_bits = word_eq_bits all_less_8 all_less_16 all_less_32

lemma u32_max: "(x :: u32) \<le> 0xFFFFFFFF"
  using unat_u32_less[of x] by (simp add: word_le_nat_alt)

lemma ucast_u8_u32: "ucast (ucast (x :: u8) :: u32) = x"
  by (rule bit_word_eqI) (simp add: bit_simps)

lemma unat_of_nat_u32: "k < 4294967296 \<Longrightarrow> unat (of_nat k :: u32) = k"
  by (simp add: unat_of_nat take_bit_nat_eq_self)

lemma unat_of_int_u32: "0 \<le> k \<Longrightarrow> k < 4294967296 \<Longrightarrow> unat (of_int k :: u32) = nat k"
  using unat_of_nat_u32[of "nat k"] by simp

lemma u32_Suc_neq_0:
  assumes "i < 4294967295"
  shows "1 + of_nat i \<noteq> (0 :: u32)"
proof -
  have "unat (of_nat (Suc i) :: u32) = Suc i" using assms by (intro unat_of_nat_u32) simp
  then have "(of_nat (Suc i) :: u32) \<noteq> 0" by (metis nat.distinct(1) unat_0)
  then show ?thesis by simp
qed

lemma bit_u8_less: "bit (v :: u8) n \<Longrightarrow> n < 8"
  using bit_imp_le_length[of v n] by simp

lemma bit_u8_high: "8 \<le> n \<Longrightarrow> \<not> bit (v :: u8) n"
  by (auto dest: bit_u8_less)

end
