(* ===== verification/Memops.thy ===== *)
theory Memops
  imports Kernel_Prelude
begin

text \<open>
  \<^verbatim>\<open>memset\<close>, \<^verbatim>\<open>memcpy\<close>, \<^verbatim>\<open>memmove\<close> and \<^verbatim>\<open>memcmp\<close> of \<^verbatim>\<open>src/kernel/common.c\<close> over byte memory, with the
  aligned 32-bit fast paths of the code.  They are shown equal to their one-line descriptions
  \<^verbatim>\<open>mfill\<close> and \<^verbatim>\<open>mcopy\<close>.  The length counters only decrease while positive, so natural numbers carry them.
\<close>

unbundle bit_operations_syntax

section \<open>memset\<close>

function memset_head :: "u32 \<Rightarrow> u8 \<Rightarrow> nat \<Rightarrow> memory \<Rightarrow> u32 \<times> nat \<times> memory" where
  "memset_head d val len m =
     (if d AND 3 \<noteq> 0 \<and> len > 0 then memset_head (d + 1) val (len - 1) (m(d := val))
      else (d, len, m))"
  by auto
termination by (relation "measure (\<lambda>(_, _, len, _). len)") auto

function memset_words :: "u32 \<Rightarrow> u32 \<Rightarrow> nat \<Rightarrow> memory \<Rightarrow> u32 \<times> nat \<times> memory" where
  "memset_words d val32 len m =
     (if len \<ge> 4 then memset_words (d + 4) val32 (len - 4) (store32 m d val32)
      else (d, len, m))"
  by auto
termination by (relation "measure (\<lambda>(_, _, len, _). len)") auto

fun memset_tail :: "u32 \<Rightarrow> u8 \<Rightarrow> nat \<Rightarrow> memory \<Rightarrow> memory" where
  "memset_tail d val 0 m = m"
| "memset_tail d val (Suc len) m = memset_tail (d + 1) val len (m(d := val))"

definition memset :: "u32 \<Rightarrow> u8 \<Rightarrow> u32 \<Rightarrow> memory \<Rightarrow> memory" where
  "memset dest val len m =
     (if unat len \<ge> 4 then
        let val32 = ucast val OR push_bit 8 (ucast val) OR push_bit 16 (ucast val) OR push_bit 24 (ucast val);
            (d, n, m) = memset_head dest val (unat len) m;
            (d, n, m) = memset_words d val32 n m
        in memset_tail d val n m
      else memset_tail dest val (unat len) m)"

section \<open>memcpy, memmove and memcmp\<close>

fun memcpy_back :: "u32 \<Rightarrow> u32 \<Rightarrow> nat \<Rightarrow> memory \<Rightarrow> memory" where
  "memcpy_back d s 0 m = m"
| "memcpy_back d s (Suc len) m = memcpy_back (d - 1) (s - 1) len (m(d - 1 := m (s - 1)))"

function memcpy_words :: "u32 \<Rightarrow> u32 \<Rightarrow> nat \<Rightarrow> memory \<Rightarrow> u32 \<times> u32 \<times> nat \<times> memory" where
  "memcpy_words d s len m =
     (if len \<ge> 4 then memcpy_words (d + 4) (s + 4) (len - 4) (store32 m d (load32 m s))
      else (d, s, len, m))"
  by auto
termination by (relation "measure (\<lambda>(_, _, len, _). len)") auto

fun memcpy_bytes :: "u32 \<Rightarrow> u32 \<Rightarrow> nat \<Rightarrow> memory \<Rightarrow> memory" where
  "memcpy_bytes d s 0 m = m"
| "memcpy_bytes d s (Suc len) m = memcpy_bytes (d + 1) (s + 1) len (m(d := m s))"

declare memset_head.simps [simp del] memset_words.simps [simp del] memcpy_words.simps [simp del]

definition memcpy :: "u32 \<Rightarrow> u32 \<Rightarrow> u32 \<Rightarrow> memory \<Rightarrow> memory" where
  "memcpy d s len m =
     (if d = s \<or> len = 0 then m
      else if d > s \<and> d < s + len then memcpy_back (d + len) (s + len) (unat len) m
      else
        let (d, s, n, m) =
          (if unat len \<ge> 4 \<and> d AND 3 = 0 \<and> s AND 3 = 0 then memcpy_words d s (unat len) m
           else (d, s, unat len, m))
        in memcpy_bytes d s n m)"

definition memmove :: "u32 \<Rightarrow> u32 \<Rightarrow> u32 \<Rightarrow> memory \<Rightarrow> u32 \<times> memory" where
  "memmove dest src len m = (dest, memcpy dest src len m)"

fun memcmp_bytes :: "memory \<Rightarrow> u32 \<Rightarrow> u32 \<Rightarrow> nat \<Rightarrow> int" where
  "memcmp_bytes m p1 p2 0 = 0"
| "memcmp_bytes m p1 p2 (Suc n) =
     (if m p1 \<noteq> m p2 then uint (m p1) - uint (m p2) else memcmp_bytes m (p1 + 1) (p2 + 1) n)"

definition memcmp :: "memory \<Rightarrow> u32 \<Rightarrow> u32 \<Rightarrow> u32 \<Rightarrow> int" where
  "memcmp m s1 s2 n = memcmp_bytes m s1 s2 (unat n)"

section \<open>Specifications\<close>

text \<open>Address \<^term>\<open>a\<close> lies in the \<^term>\<open>n\<close> bytes from \<^term>\<open>d\<close> iff \<^term>\<open>unat (a - d) < n\<close>.\<close>

definition mfill :: "u32 \<Rightarrow> u8 \<Rightarrow> nat \<Rightarrow> memory \<Rightarrow> memory" where
  "mfill d v n m = (\<lambda>a. if unat (a - d) < n then v else m a)"

definition mcopy :: "u32 \<Rightarrow> u32 \<Rightarrow> nat \<Rightarrow> memory \<Rightarrow> memory" where
  "mcopy d s n m = (\<lambda>a. if unat (a - d) < n then m (s + (a - d)) else m a)"

lemma mfill_0 [simp]: "mfill d v 0 m = m"
  by (simp add: mfill_def)

lemma unat_diff_split:
  "unat ((a :: u32) - (d + of_nat k)) < n \<longleftrightarrow> (if k \<le> unat (a - d) then unat (a - d) < n + k
     else unat (a - d) + 4294967296 < n + k)" if "k < 4294967296"
proof -
  have eq: "a - (d + of_nat k) = (a - d) - of_nat k" by simp
  have "unat (of_nat k :: u32) = k" using that by (simp add: unat_of_nat)
  then show ?thesis unfolding eq
    using unat_u32_less[of "a - d"] that by (auto simp: unat_sub_if')
qed

lemma mfill_mfill:
  assumes "k + n \<le> 4294967296" "k < 4294967296"
  shows "mfill (d + of_nat k) v n (mfill d v k m) = mfill d v (k + n) m"
  using assms by (auto simp: mfill_def fun_eq_iff unat_diff_split)

lemma unat_lt_1: "unat (x :: u32) < 1 \<longleftrightarrow> x = 0"
  by (simp add: unat_eq_zero)

lemma mfill_byte: "mfill d v 1 m = m(d := v)"
  by (auto simp: mfill_def fun_eq_iff unat_eq_zero)

lemma mcopy_byte: "mcopy d s 1 m = m(d := m s)"
  by (auto simp: mcopy_def fun_eq_iff unat_eq_zero)

lemma unat_lt_4: "unat (a - d :: u32) < 4 \<longleftrightarrow> a = d \<or> a = d + 1 \<or> a = d + 2 \<or> a = d + 3"
proof -
  have "unat (a - d) < 4 \<longleftrightarrow> a - d = 0 \<or> a - d = 1 \<or> a - d = 2 \<or> a - d = 3"
    by (auto simp: word_unat_eq_iff)
  then show ?thesis by (simp add: diff_eq_eq add.commute)
qed

lemma load32_bytes:
  "ucast (load32 m b) = m b" "ucast (drop_bit 8 (load32 m b)) = m (b + 1)"
  "ucast (drop_bit 16 (load32 m b)) = m (b + 2)" "ucast (drop_bit 24 (load32 m b)) = m (b + 3)"
  by (rule bit_eqI; auto simp: load32_def bit_simps dest: bit_imp_le_length)+

lemma mcopy_word: "store32 m d (load32 m s) = mcopy d s 4 m"
  by (auto simp: mcopy_def fun_eq_iff unat_lt_4 store32_def load32_bytes)

lemma mfill_word:
  "store32 m d (ucast v OR push_bit 8 (ucast v) OR push_bit 16 (ucast v) OR push_bit 24 (ucast v))
   = mfill d v 4 m"
proof -
  let ?w = "ucast v OR push_bit 8 (ucast v) OR push_bit 16 (ucast v) OR push_bit 24 (ucast v) :: u32"
  have "?w = load32 (\<lambda>_. v) 0" by (simp add: load32_def)
  then have "ucast ?w = v" "ucast (drop_bit 8 ?w) = v" "ucast (drop_bit 16 ?w) = v" "ucast (drop_bit 24 ?w) = v"
    by (simp_all only: load32_bytes)
  then show ?thesis by (auto simp: mfill_def fun_eq_iff unat_lt_4 store32_def)
qed

lemma memset_tail_fill: "n \<le> 4294967296 \<Longrightarrow> memset_tail d v n m = mfill d v n m"
proof (induction n arbitrary: d m)
  case (Suc n)
  then show ?case using mfill_mfill[of 1 n d v m] mfill_byte[of d v m] by simp
qed simp

lemma memset_head_fill:
  "memset_head d v n m = (d', n', m') \<Longrightarrow> n \<le> 4294967296 \<Longrightarrow>
     n' \<le> n \<and> mfill d' v n' m' = mfill d v n m"
proof (induction d v n m rule: memset_head.induct)
  case (1 d v n m)
  show ?case
  proof (cases "d AND 3 \<noteq> 0 \<and> n > 0")
    case True
    then have "memset_head (d + 1) v (n - 1) (m(d := v)) = (d', n', m')"
      using 1(2) by (subst (asm) memset_head.simps) simp
    moreover have "n - 1 \<le> 4294967296" using 1(3) by simp
    ultimately have "n' \<le> n - 1 \<and> mfill d' v n' m' = mfill (d + 1) v (n - 1) (m(d := v))"
      using 1(1)[OF True] by (simp add: fun_upd_def)
    then show ?thesis
      using 1(3) True mfill_mfill[of 1 "n - 1" d v m] mfill_byte[of d v m] by auto
  next
    case False
    then show ?thesis using 1(2) by (subst (asm) memset_head.simps) auto
  qed
qed

lemma memset_words_fill:
  "memset_words d w n m = (d', n', m') \<Longrightarrow> n \<le> 4294967296 \<Longrightarrow>
     (\<And>d m. store32 m d w = mfill d v 4 m) \<Longrightarrow>
     n' \<le> n \<and> mfill d' v n' m' = mfill d v n m"
proof (induction d w n m rule: memset_words.induct)
  case (1 d w n m)
  show ?case
  proof (cases "4 \<le> n")
    case True
    then have "memset_words (d + 4) w (n - 4) (store32 m d w) = (d', n', m')"
      using 1(2) by (subst (asm) memset_words.simps) simp
    then have "n' \<le> n - 4 \<and> mfill d' v n' m' = mfill (d + 4) v (n - 4) (store32 m d w)"
      using 1(1)[OF True] 1(3,4) by simp
    then show ?thesis
      using 1(3) True mfill_mfill[of 4 "n - 4" d v m] 1(4) by auto
  next
    case False
    then show ?thesis using 1(2) by (subst (asm) memset_words.simps) auto
  qed
qed

lemma memset_eq_mfill: "memset dest v len m = mfill dest v (unat len) m"
proof (cases "unat len \<ge> 4")
  case True
  define w :: u32 where "w = ucast v OR push_bit 8 (ucast v) OR push_bit 16 (ucast v) OR push_bit 24 (ucast v)"
  obtain d1 n1 m1 where h: "memset_head dest v (unat len) m = (d1, n1, m1)" by (metis prod_cases3)
  obtain d2 n2 m2 where ws: "memset_words d1 w n1 m1 = (d2, n2, m2)" by (metis prod_cases3)
  have len: "unat len \<le> 4294967296" using unat_u32_less[of len] by simp
  note hf = memset_head_fill[OF h len]
  have wf: "n2 \<le> n1 \<and> mfill d2 v n2 m2 = mfill d1 v n1 m1"
    using memset_words_fill[OF ws] mfill_word[of _ _ v] hf len by (simp add: w_def)
  show ?thesis using True h ws hf wf len memset_tail_fill[of n2 d2 v m2]
    by (simp add: memset_def w_def[symmetric])
next
  case False
  then show ?thesis by (simp add: memset_def memset_tail_fill)
qed


lemma mcopy_mcopy:
  assumes "unat (s - d) + k + n \<le> 4294967296" "k < 4294967296"
  shows "mcopy (d + of_nat k) (s + of_nat k) n (mcopy d s k m) = mcopy d s (k + n) m"
proof (rule ext)
  fix a
  define x where "x = unat (a - d)"
  have sum: "unat (s + (a - d) - d) = unat (s - d) + x" if "x < k + n"
  proof -
    have "s + (a - d) - d = (s - d) + (a - d)" by simp
    then show ?thesis using that assms unfolding x_def
      by (simp only:) (subst unat_add_lem[THEN iffD1], auto)
  qed
  have idx: "s + of_nat k + (a - (d + of_nat k)) = s + (a - d)" by simp
  show "mcopy (d + of_nat k) (s + of_nat k) n (mcopy d s k m) a = mcopy d s (k + n) m a"
    using assms sum unfolding mcopy_def idx
    by (auto simp: unat_diff_split x_def[symmetric] add.commute)
qed

lemma memcpy_bytes_copy:
  "unat (s - d) + n \<le> 4294967296 \<Longrightarrow> memcpy_bytes d s n m = mcopy d s n m"
proof (induction n arbitrary: d s m)
  case 0
  then show ?case by (simp add: mcopy_def)
next
  case (Suc n)
  then show ?case using mcopy_mcopy[of s d 1 n m] mcopy_byte[of d s m] by (simp add: fun_upd_def)
qed

lemma memcpy_words_copy:
  "memcpy_words d s n m = (d', s', n', m') \<Longrightarrow> unat (s - d) + n \<le> 4294967296 \<Longrightarrow>
     n' \<le> n \<and> s' - d' = s - d \<and> mcopy d' s' n' m' = mcopy d s n m"
proof (induction d s n m rule: memcpy_words.induct)
  case (1 d s n m)
  show ?case
  proof (cases "4 \<le> n")
    case True
    then have "memcpy_words (d + 4) (s + 4) (n - 4) (store32 m d (load32 m s)) = (d', s', n', m')"
      using 1(2) by (subst (asm) memcpy_words.simps) simp
    then have "n' \<le> n - 4 \<and> s' - d' = s - d
        \<and> mcopy d' s' n' m' = mcopy (d + 4) (s + 4) (n - 4) (store32 m d (load32 m s))"
      using 1(1)[OF True] 1(3) by simp
    then show ?thesis
      using 1(3) True mcopy_mcopy[of s d 4 "n - 4" m] by (auto simp: mcopy_word)
  next
    case False
    then show ?thesis using 1(2) by (subst (asm) memcpy_words.simps) auto
  qed
qed

lemma memcpy_back_copy:
  "unat (s - d) \<ge> n \<Longrightarrow> memcpy_back (d + of_nat n) (s + of_nat n) n m = mcopy d s n m"
proof (induction n arbitrary: m)
  case 0
  then show ?case by (simp add: mcopy_def)
next
  case (Suc n)
  have n: "unat (of_nat n :: u32) = n" using Suc.prems unat_u32_less[of "s - d"] by (simp add: unat_of_nat)
  have "mcopy d s n (m(d + of_nat n := m (s + of_nat n))) a = mcopy d s (Suc n) m a" for a
  proof -
    have "a = d + of_nat n \<longleftrightarrow> unat (a - d) = n"
    proof -
      have "a = d + of_nat n \<longleftrightarrow> a - d = of_nat n" by (simp add: diff_eq_eq add.commute)
      then show ?thesis using n by (simp add: word_unat_eq_iff)
    qed
    moreover have "s + (a - d) \<noteq> d + of_nat n" if "unat (a - d) < n"
    proof
      assume "s + (a - d) = d + of_nat n"
      then have "s - d = of_nat n - (a - d)" by (simp add: algebra_simps)
      moreover have "unat (of_nat n - (a - d)) = n - unat (a - d)"
        using that n by (subst unat_sub) (simp_all add: word_le_nat_alt)
      ultimately have "unat (s - d) = n - unat (a - d)" by (simp only:)
      then show False using Suc.prems by simp
    qed
    ultimately show ?thesis by (auto simp: mcopy_def)
  qed
  then show ?case using Suc by (simp add: fun_eq_iff)
qed

lemma memcpy_eq_mcopy:
  assumes "unat d + unat len \<le> 4294967296" "unat s + unat len \<le> 4294967296"
  shows "memcpy d s len m = mcopy d s (unat len) m"
proof (cases "d = s \<or> len = 0")
  case True
  then show ?thesis by (auto simp: memcpy_def mcopy_def fun_eq_iff)
next
  case False
  then have len: "0 < unat len" by (simp add: unat_gt_0)
  show ?thesis
  proof (cases "s < d \<and> d < s + len")
    case True
    then have sd: "unat s < unat d" by (simp add: word_less_nat_alt)
    then have "unat (s - d) \<ge> unat len" using assms by (simp add: unat_sub_if' )
    from memcpy_back_copy[OF this, of m] show ?thesis using True False by (simp add: memcpy_def)
  next
    case fwd: False
    have ge: "unat s + unat len \<le> unat d" if "unat s < unat d"
    proof -
      have "unat (s + len) = unat s + unat len" using that assms by (simp add: unat_word_ariths)
      then show ?thesis using fwd that by (simp add: word_less_nat_alt)
    qed
    have cond: "unat (s - d) + unat len \<le> 4294967296"
      using ge assms False by (cases "unat s < unat d") (auto simp: unat_sub_if')
    obtain d1 s1 n1 m1 where w: "(if unat len \<ge> 4 \<and> d AND 3 = 0 \<and> s AND 3 = 0
        then memcpy_words d s (unat len) m else (d, s, unat len, m)) = (d1, s1, n1, m1)"
      by (metis prod_cases4)
    then have "n1 \<le> unat len \<and> s1 - d1 = s - d \<and> mcopy d1 s1 n1 m1 = mcopy d s (unat len) m"
      using memcpy_words_copy[OF _ cond] by (auto split: if_splits)
    then show ?thesis using False fwd w cond memcpy_bytes_copy[of s1 d1 n1 m1]
      by (auto simp: memcpy_def)
  qed
qed

lemma memcmp_bytes_eq_0:
  "memcmp_bytes m p1 p2 n = 0 \<longleftrightarrow> (\<forall>k<n. m (p1 + of_nat k) = m (p2 + of_nat k))"
proof (induction n arbitrary: p1 p2)
  case (Suc n)
  have "(\<forall>k<Suc n. m (p1 + of_nat k) = m (p2 + of_nat k)) \<longleftrightarrow>
     m p1 = m p2 \<and> (\<forall>k<n. m (p1 + 1 + of_nat k) = m (p2 + 1 + of_nat k))"
    unfolding All_less_Suc2 by (simp add: add.assoc)
  then show ?case using Suc by (auto simp: word_uint_eq_iff)
qed simp

section \<open>Properties\<close>

text \<open>
  C13.  \<^verbatim>\<open>memcpy\<close> (and \<^verbatim>\<open>memmove\<close>, which calls it) copies correctly even when source and destination
  overlap: for regions that do not run past the end of the address space, every destination byte ends
  up with the value the corresponding source byte had before the call, and no other byte changes.
\<close>

theorem memcpy_copies_overlapping:
  assumes "unat d + unat len \<le> 2 ^ 32" "unat s + unat len \<le> 2 ^ 32"
  shows "memcpy d s len m a = (if unat (a - d) < unat len then m (s + (a - d)) else m a)
    \<and> memmove d s len m = (d, memcpy d s len m)"
  using assms by (simp add: memcpy_eq_mcopy mcopy_def memmove_def)

theorem memcpy_copies_overlapping_witness:
  "memcpy 0x1002 0x1000 8 (\<lambda>a. ucast a) 0x1005 = 3"
  using memcpy_copies_overlapping[of "0x1002" "8" "0x1000" "\<lambda>a. ucast a" "0x1005"] by simp

text \<open>
  C33.  \<^verbatim>\<open>memset\<close>, with its alignment prologue, word loop and byte epilogue, sets exactly the
  \<^verbatim>\<open>len\<close> bytes from \<^verbatim>\<open>dest\<close>, for every address, value and length.
\<close>

theorem memset_sets_exactly:
  "memset dest v len m a = (if unat (a - dest) < unat len then v else m a)"
  by (simp add: memset_eq_mfill mfill_def)

end
