(* ===== verification/Pmm.thy ===== *)
theory Pmm
  imports Kernel_Prelude
begin

text \<open>
  The bitmap physical memory manager of \<^verbatim>\<open>src/kernel/paging.c\<close> (first half).  The bitmap array is a
  function from word index to \<^verbatim>\<open>uint32_t\<close>; every access of the code is guarded by
  \<^verbatim>\<open>frame / 32 < BITMAP_SIZE\<close>.  The abstraction is the set of frames whose bit is set.
\<close>

unbundle bit_operations_syntax

abbreviation PAGE_SIZE :: u32 where "PAGE_SIZE \<equiv> 4096"
abbreviation BITMAP_SIZE :: u32 where "BITMAP_SIZE \<equiv> 32768"
abbreviation HEAP_START :: u32 where "HEAP_START \<equiv> 0x00400000"
abbreviation HEAP_INITIAL_SIZE :: u32 where "HEAP_INITIAL_SIZE \<equiv> 0x00200000"
abbreviation HEAP_MAX_SIZE :: u32 where "HEAP_MAX_SIZE \<equiv> 0x01000000"

record pmm_state =
  bitmap :: "u32 \<Rightarrow> u32"
  total_frames :: u32
  used_frames :: u32

section \<open>Operations\<close>

definition frame_set_used :: "u32 \<Rightarrow> pmm_state \<Rightarrow> pmm_state" where
  "frame_set_used frame st =
     (if frame div 32 < BITMAP_SIZE then
        let mask = push_bit (unat (frame mod 32)) 1 in
        if bitmap st (frame div 32) AND mask = 0 then
          st\<lparr>bitmap := (bitmap st)(frame div 32 := bitmap st (frame div 32) OR mask),
             used_frames := used_frames st + 1\<rparr>
        else st
      else st)"

definition frame_set_free :: "u32 \<Rightarrow> pmm_state \<Rightarrow> pmm_state" where
  "frame_set_free frame st =
     (if frame div 32 < BITMAP_SIZE then
        let mask = push_bit (unat (frame mod 32)) 1 in
        if bitmap st (frame div 32) AND mask \<noteq> 0 then
          st\<lparr>bitmap := (bitmap st)(frame div 32 := bitmap st (frame div 32) AND NOT mask),
             used_frames := (if used_frames st > 0 then used_frames st - 1 else used_frames st)\<rparr>
        else st
      else st)"

definition region_end_frame :: "u32 \<Rightarrow> u32 \<Rightarrow> u32" where
  "region_end_frame base sz =
     (let end_addr = ucast base + ucast sz :: u64;
          end_addr = (if end_addr > 0xFFFFF000 then 0xFFFFF000 else end_addr)
      in ALIGN_UP (ucast end_addr) PAGE_SIZE div PAGE_SIZE)"

definition pmm_reserve_region :: "u32 \<Rightarrow> u32 \<Rightarrow> pmm_state \<Rightarrow> pmm_state" where
  "pmm_reserve_region base sz st =
     (let start_frame = ALIGN_DOWN base PAGE_SIZE div PAGE_SIZE;
          end_frame = region_end_frame base sz
      in for_u32 start_frame (min end_frame (BITMAP_SIZE * 32)) frame_set_used st)"

definition pmm_min_free :: "u32 \<Rightarrow> u32" where
  "pmm_min_free reserved_end =
     (let min_free = ALIGN_UP reserved_end PAGE_SIZE;
          heap_limit = HEAP_START + HEAP_MAX_SIZE
      in if min_free < heap_limit then heap_limit else min_free)"

definition pmm_init :: "u32 \<Rightarrow> u32 \<Rightarrow> pmm_state \<Rightarrow> pmm_state" where
  "pmm_init mem_size reserved_end st =
     (let tf = mem_size div PAGE_SIZE;
          tf = (if tf > BITMAP_SIZE * 32 then BITMAP_SIZE * 32 else tf);
          st = st\<lparr>bitmap := (\<lambda>_. 0xFFFFFFFF), total_frames := tf, used_frames := tf\<rparr>
      in for_u32 (pmm_min_free reserved_end div PAGE_SIZE) tf frame_set_free st)"

text \<open>The two nested scan loops of \<^verbatim>\<open>pmm_alloc_frame\<close>: over the words, then over the bits.\<close>

function alloc_bit_scan :: "u32 \<Rightarrow> nat \<Rightarrow> nat option" where
  "alloc_bit_scan w j =
     (if j < 32 then if w AND push_bit j 1 = 0 then Some j else alloc_bit_scan w (j + 1)
      else None)"
  by auto
termination by (relation "measure (\<lambda>(_, j). 32 - j)") auto

function alloc_scan :: "(u32 \<Rightarrow> u32) \<Rightarrow> u32 \<Rightarrow> (u32 \<times> nat) option" where
  "alloc_scan bm i =
     (if i < BITMAP_SIZE then
        if bm i \<noteq> 0xFFFFFFFF then
          case alloc_bit_scan (bm i) 0 of
            Some j \<Rightarrow> Some (i, j)
          | None \<Rightarrow> alloc_scan bm (i + 1)
        else alloc_scan bm (i + 1)
      else None)"
  by auto
termination by (relation "measure (\<lambda>(_, i). 32768 - unat i)") (auto intro: loop_measure)

declare alloc_bit_scan.simps [simp del] alloc_scan.simps [simp del]

definition pmm_alloc_frame :: "pmm_state \<Rightarrow> u32 \<times> pmm_state" where
  "pmm_alloc_frame st =
     (case alloc_scan (bitmap st) 0 of
        Some (i, j) \<Rightarrow>
          let frame = i * 32 + of_nat j in
          if frame \<ge> total_frames st then (0, st)
          else (frame * PAGE_SIZE,
                st\<lparr>bitmap := (bitmap st)(i := bitmap st i OR push_bit j 1),
                   used_frames := used_frames st + 1\<rparr>)
      | None \<Rightarrow> (0, st))"

definition pmm_free_frame :: "u32 \<Rightarrow> pmm_state \<Rightarrow> pmm_state" where
  "pmm_free_frame addr st =
     (let frame = addr div PAGE_SIZE in
      if frame < total_frames st then frame_set_free frame st else st)"

definition pmm_get_free_frames :: "pmm_state \<Rightarrow> u32" where
  "pmm_get_free_frames st =
     (if total_frames st \<ge> used_frames st then total_frames st - used_frames st else 0)"

section \<open>The set of used frames\<close>

definition frame_used :: "pmm_state \<Rightarrow> u32 \<Rightarrow> bool" where
  "frame_used st f \<longleftrightarrow> bit (bitmap st (f div 32)) (unat (f mod 32))"

definition pmm_inv :: "pmm_state \<Rightarrow> bool" where
  "pmm_inv st \<longleftrightarrow> total_frames st \<le> BITMAP_SIZE * 32
     \<and> (\<forall>f. total_frames st \<le> f \<longrightarrow> f < BITMAP_SIZE * 32 \<longrightarrow> frame_used st f)
     \<and> unat (used_frames st) = card {f. f < total_frames st \<and> frame_used st f}"

lemma word_div_mod_eqI:
  "(f :: u32) div 32 = g div 32 \<Longrightarrow> unat (f mod 32) = unat (g mod 32) \<Longrightarrow> f = g"
  by (metis div_mult_mod_eq unsigned_word_eqI)

lemma unat_mod_32 [simp]: "unat ((f :: u32) mod 32) < 32"
  by (simp add: unat_mod)

lemma frame_in_bitmap: "(f :: u32) div 32 < BITMAP_SIZE \<longleftrightarrow> f < BITMAP_SIZE * 32"
  by (simp add: word_less_nat_alt unat_div) arith

lemma frame_set_used_simps [simp]:
  "total_frames (frame_set_used f st) = total_frames st"
  by (simp add: frame_set_used_def Let_def)

lemma frame_set_free_simps [simp]:
  "total_frames (frame_set_free f st) = total_frames st"
  by (simp add: frame_set_free_def Let_def)

lemma frame_used_set_used:
  "frame_used (frame_set_used f st) g \<longleftrightarrow> frame_used st g \<or> (g = f \<and> f < BITMAP_SIZE * 32)"
  by (auto simp: frame_used_def frame_set_used_def Let_def and_exp_eq_0_iff_not_bit bit_simps
      frame_in_bitmap dest: word_div_mod_eqI)

lemma frame_used_set_free:
  "frame_used (frame_set_free f st) g \<longleftrightarrow> frame_used st g \<and> \<not> (g = f \<and> f < BITMAP_SIZE * 32)"
  by (auto simp: frame_used_def frame_set_free_def Let_def and_exp_eq_0_iff_not_bit bit_simps
      frame_in_bitmap dest: word_div_mod_eqI)

lemma card_used_le: "card {f :: u32. f < n \<and> P f} \<le> unat n"
proof -
  have "inj_on unat {f :: u32. f < n \<and> P f}" by (auto intro!: inj_onI intro: unsigned_word_eqI)
  moreover have "unat ` {f :: u32. f < n \<and> P f} \<subseteq> {..< unat n}"
    by (auto simp: word_less_nat_alt)
  ultimately have "card {f :: u32. f < n \<and> P f} \<le> card {..< unat n}"
    by (rule card_inj_on_le) simp
  then show ?thesis by simp
qed

lemma pmm_inv_set_used:
  assumes "pmm_inv st" shows "pmm_inv (frame_set_used f st)"
proof (cases "f < BITMAP_SIZE * 32 \<and> \<not> frame_used st f")
  case True
  have f: "f < total_frames st" using assms True unfolding pmm_inv_def by (metis not_less)
  have eq: "{g. g < total_frames st \<and> frame_used (frame_set_used f st) g}
      = insert f {g. g < total_frames st \<and> frame_used st g}"
    using f True by (auto simp: frame_used_set_used)
  have cnt: "used_frames (frame_set_used f st) = used_frames st + 1"
    using True by (auto simp: frame_set_used_def frame_used_def Let_def and_exp_eq_0_iff_not_bit
        frame_in_bitmap)
  have "card {g. g < total_frames st \<and> frame_used st g} \<le> unat (total_frames st)"
    by (rule card_used_le)
  also have "\<dots> \<le> 1048576" using assms by (auto simp: pmm_inv_def word_le_nat_alt)
  finally have "unat (used_frames st) \<le> 1048576" using assms by (simp add: pmm_inv_def)
  then have "unat (used_frames st + 1) = Suc (unat (used_frames st))"
    by (simp add: unat_word_ariths)
  then show ?thesis using assms True unfolding pmm_inv_def frame_set_used_simps eq cnt
    by (auto simp: frame_used_set_used)
next
  case False
  then have "frame_set_used f st = st"
    by (auto simp: frame_set_used_def frame_used_def Let_def and_exp_eq_0_iff_not_bit
        frame_in_bitmap)
  then show ?thesis using assms by simp
qed

lemma pmm_inv_set_free:
  assumes "pmm_inv st" and f: "f < total_frames st" shows "pmm_inv (frame_set_free f st)"
proof (cases "frame_used st f")
  case True
  have fb: "f < BITMAP_SIZE * 32" using assms by (auto simp: pmm_inv_def)
  have eq: "{g. g < total_frames st \<and> frame_used (frame_set_free f st) g}
      = {g. g < total_frames st \<and> frame_used st g} - {f}"
    using f fb by (auto simp: frame_used_set_free)
  have "card {g. g < total_frames st \<and> frame_used st g} > 0"
    using f True by (auto simp: card_gt_0_iff)
  then have pos: "unat (used_frames st) > 0" using assms by (simp add: pmm_inv_def)
  then have "used_frames st > 0" by (simp add: word_less_nat_alt)
  then have cnt: "used_frames (frame_set_free f st) = used_frames st - 1"
    using True fb by (auto simp: frame_set_free_def frame_used_def Let_def
        and_exp_eq_0_iff_not_bit frame_in_bitmap)
  have "unat (used_frames st - 1) = unat (used_frames st) - 1"
    using pos by unat_arith
  then show ?thesis using assms True f unfolding pmm_inv_def frame_set_free_simps eq cnt
    by (auto simp: frame_used_set_free)
next
  case False
  then have "frame_set_free f st = st"
    by (auto simp: frame_set_free_def frame_used_def Let_def and_exp_eq_0_iff_not_bit
        frame_in_bitmap)
  then show ?thesis using assms by simp
qed

lemma u32_bit_max: "n < 32 \<Longrightarrow> bit (0xFFFFFFFF :: u32) n"
proof -
  have "(0xFFFFFFFF :: u32) = - 1" by simp
  then show "n < 32 \<Longrightarrow> bit (0xFFFFFFFF :: u32) n" by (simp only: bit_minus_1_iff) simp
qed

lemma alloc_bit_scan_Some:
  "alloc_bit_scan w j0 = Some j \<Longrightarrow>
     j0 \<le> j \<and> j < 32 \<and> \<not> bit w j \<and> (\<forall>l. j0 \<le> l \<longrightarrow> l < j \<longrightarrow> bit w l)"
  by (induction w j0 rule: alloc_bit_scan.induct, subst (asm) (2) alloc_bit_scan.simps)
    (auto simp: and_exp_eq_0_iff_not_bit split: if_splits,
      metis Suc_leI le_neq_implies_less)

lemma alloc_bit_scan_None:
  "alloc_bit_scan w j0 = None \<Longrightarrow> j0 \<le> l \<Longrightarrow> l < 32 \<Longrightarrow> bit w l"
  by (induction w j0 rule: alloc_bit_scan.induct, subst (asm) (2) alloc_bit_scan.simps)
    (auto simp: and_exp_eq_0_iff_not_bit split: if_splits,
      metis Suc_leI le_neq_implies_less)


lemma alloc_bit_scan_full:
  "w = 0xFFFFFFFF \<or> alloc_bit_scan w 0 = None \<Longrightarrow> l < 32 \<Longrightarrow> bit w l"
  by (metis u32_bit_max alloc_bit_scan_None zero_le)

lemma alloc_scan_Some:
  "alloc_scan bm i = Some (k, j) \<Longrightarrow>
     i \<le> k \<and> k < BITMAP_SIZE \<and> j < 32 \<and> \<not> bit (bm k) j \<and> (\<forall>l<j. bit (bm k) l)
     \<and> (\<forall>w l. i \<le> w \<longrightarrow> w < k \<longrightarrow> l < 32 \<longrightarrow> bit (bm w) l)"
proof (induction bm i rule: alloc_scan.induct)
  case (1 bm i)
  have i: "i < BITMAP_SIZE" using 1(3) by (subst (asm) alloc_scan.simps) (simp split: if_splits)
  have le: "i \<le> w \<Longrightarrow> w = i \<or> i + 1 \<le> w" for w :: u32 using i by (auto simp: add1_le_iff)
  have ge: "i + 1 \<le> w \<Longrightarrow> i \<le> w" for w :: u32 using i by (simp add: add1_le_iff)
  show ?case
  proof (cases "bm i \<noteq> 0xFFFFFFFF \<and> alloc_bit_scan (bm i) 0 \<noteq> None")
    case True
    then have "k = i" "alloc_bit_scan (bm i) 0 = Some j"
      using 1(3) i by (auto simp: alloc_scan.simps[of bm i])
    then show ?thesis using i alloc_bit_scan_Some[of "bm i" 0 j] by auto
  next
    case False
    then have "alloc_scan bm (i + 1) = Some (k, j)"
      using 1(3) i by (auto simp: alloc_scan.simps[of bm i] split: option.splits if_splits)
    then have "i + 1 \<le> k \<and> k < BITMAP_SIZE \<and> j < 32 \<and> \<not> bit (bm k) j \<and> (\<forall>l<j. bit (bm k) l)
     \<and> (\<forall>w l. i + 1 \<le> w \<longrightarrow> w < k \<longrightarrow> l < 32 \<longrightarrow> bit (bm w) l)"
      using 1 i False by blast
    then show ?thesis using alloc_bit_scan_full[of "bm i"] False le ge by blast
  qed
qed

lemma alloc_scan_None:
  "alloc_scan bm i = None \<Longrightarrow> i \<le> w \<Longrightarrow> w < BITMAP_SIZE \<Longrightarrow> l < 32 \<Longrightarrow> bit (bm w) l"
proof (induction bm i rule: alloc_scan.induct)
  case (1 bm i)
  have i: "i < BITMAP_SIZE" using 1 by auto
  have *: "bm i = 0xFFFFFFFF \<or> alloc_bit_scan (bm i) 0 = None" "alloc_scan bm (i + 1) = None"
    using 1(3) i by (auto simp: alloc_scan.simps[of bm i] split: option.splits if_splits)
  have "w = i \<or> i + 1 \<le> w" using i 1(4) by (auto simp: add1_le_iff)
  then show ?case
    using * 1 i alloc_bit_scan_full[of "bm i"] by blast
qed

lemma for_set_used:
  assumes "pmm_inv st" and "hi \<le> BITMAP_SIZE * 32"
  shows "pmm_inv (for_u32 lo hi frame_set_used st)
    \<and> total_frames (for_u32 lo hi frame_set_used st) = total_frames st
    \<and> (\<forall>g. frame_used (for_u32 lo hi frame_set_used st) g \<longleftrightarrow> frame_used st g \<or> lo \<le> g \<and> g < hi)"
    (is "?P hi (for_u32 lo hi frame_set_used st)")
proof (cases "lo \<le> hi")
  case True
  show ?thesis
  proof (rule for_u32_invariant[where P = ?P])
    show "?P lo st" using assms by auto
    fix k t assume k: "lo \<le> k" "k < hi" and P: "?P k t"
    have kb: "k < BITMAP_SIZE * 32" using k(2) assms(2) by (rule less_le_trans)
    show "?P (k + 1) (frame_set_used k t)"
      unfolding frame_used_set_used interval_add1[OF k] frame_set_used_simps
      using P kb pmm_inv_set_used[of t k] by blast
  qed (rule True)
next
  case False
  then have "for_u32 lo hi frame_set_used st = st" by (subst for_u32.simps) simp
  then show ?thesis using assms False by auto
qed

lemma for_set_free:
  assumes "pmm_inv st" and "hi \<le> total_frames st"
  shows "pmm_inv (for_u32 lo hi frame_set_free st)
    \<and> total_frames (for_u32 lo hi frame_set_free st) = total_frames st
    \<and> (\<forall>g. frame_used (for_u32 lo hi frame_set_free st) g \<longleftrightarrow> frame_used st g \<and> \<not> (lo \<le> g \<and> g < hi))"
    (is "?P hi (for_u32 lo hi frame_set_free st)")
proof (cases "lo \<le> hi")
  case True
  show ?thesis
  proof (rule for_u32_invariant[where P = ?P])
    show "?P lo st" using assms by auto
    fix k t assume k: "lo \<le> k" "k < hi" and P: "?P k t"
    have kt: "k < total_frames st" using k(2) assms(2) by (rule less_le_trans)
    moreover have "total_frames st \<le> BITMAP_SIZE * 32" using assms by (simp add: pmm_inv_def)
    ultimately have kb: "k < BITMAP_SIZE * 32" by (rule less_le_trans)
    show "?P (k + 1) (frame_set_free k t)"
      unfolding frame_used_set_free interval_add1[OF k] frame_set_free_simps
      using P kb kt pmm_inv_set_free[of t k] by auto
  qed (rule True)
next
  case False
  then have "for_u32 lo hi frame_set_free st = st" by (subst for_u32.simps) simp
  then show ?thesis using assms False by auto
qed

lemma frame_index_unat:
  assumes "i < BITMAP_SIZE" and "j < 32"
  shows "unat (i * 32 + of_nat j :: u32) = unat i * 32 + j"
proof -
  have "unat i < 32768" using assms by (simp add: word_less_nat_alt)
  then show ?thesis using assms by (simp add: unat_word_ariths unat_of_nat)
qed

lemma frame_index_div_mod:
  assumes "i < BITMAP_SIZE" and "j < 32"
  shows "(i * 32 + of_nat j :: u32) div 32 = i" and "unat ((i * 32 + of_nat j :: u32) mod 32) = j"
  using assms frame_index_unat[OF assms] by (simp_all add: word_unat_eq_iff unat_div unat_mod)

lemma alloc_scan_least:
  assumes "alloc_scan (bitmap st) 0 = Some (i, j)"
  shows "i * 32 + of_nat j < BITMAP_SIZE * 32" "\<not> frame_used st (i * 32 + of_nat j)"
    "g < i * 32 + of_nat j \<Longrightarrow> frame_used st g"
proof -
  note * = alloc_scan_Some[OF assms]
  show "i * 32 + of_nat j < BITMAP_SIZE * 32"
    using * frame_index_unat[of i j] by (auto simp: word_less_nat_alt)
  show "\<not> frame_used st (i * 32 + of_nat j)"
    using * frame_index_div_mod[of i j] by (simp add: frame_used_def)
  assume "g < i * 32 + of_nat j"
  then have "unat g < unat i * 32 + j" using * frame_index_unat[of i j] by (simp add: word_less_nat_alt)
  moreover have "j < 32" using * by simp
  ultimately have "unat g div 32 < unat i \<or> unat g div 32 = unat i \<and> unat g mod 32 < j"
    by (rule div_mod_less_cases)
  then have "g div 32 < i \<or> g div 32 = i \<and> unat (g mod 32) < j"
    by (simp add: word_less_nat_alt word_unat_eq_iff unat_div unat_mod)
  then show "frame_used st g" using * unfolding frame_used_def by auto
qed

lemma pmm_alloc_is_set_used:
  assumes "alloc_scan (bitmap st) 0 = Some (i, j)"
  shows "st\<lparr>bitmap := (bitmap st)(i := bitmap st i OR push_bit j 1), used_frames := used_frames st + 1\<rparr>
    = frame_set_used (i * 32 + of_nat j) st"
  using alloc_scan_Some[OF assms] frame_index_div_mod[of i j]
  by (simp add: frame_set_used_def Let_def and_exp_eq_0_iff_not_bit)

lemma pmm_alloc_frame_none:
  assumes "pmm_inv st" and "\<And>f. f < total_frames st \<Longrightarrow> frame_used st f"
  shows "pmm_alloc_frame st = (0, st)"
proof (cases "alloc_scan (bitmap st) 0")
  case (Some p)
  obtain i j where p: "p = (i, j)" by force
  have "\<not> i * 32 + of_nat j < total_frames st"
    using assms(2) alloc_scan_least(2)[OF Some[unfolded p]] by blast
  then show ?thesis using Some p by (simp add: pmm_alloc_frame_def Let_def not_less not_le)
qed (simp add: pmm_alloc_frame_def)

lemma pmm_alloc_frame_some:
  assumes inv: "pmm_inv st" and f: "f < total_frames st" "\<not> frame_used st f"
    and least: "\<And>g. g < f \<Longrightarrow> frame_used st g"
  shows "pmm_alloc_frame st = (f * PAGE_SIZE, frame_set_used f st)"
proof (cases "alloc_scan (bitmap st) 0")
  case None
  have "f < BITMAP_SIZE * 32" using f inv by (auto simp: pmm_inv_def)
  then have "frame_used st f" unfolding frame_used_def
    by (intro alloc_scan_None[OF None]) (simp_all add: frame_in_bitmap)
  then show ?thesis using f by simp
next
  case (Some p)
  obtain i j where p: "p = (i, j)" by force
  note s = Some[unfolded p]
  have "i * 32 + of_nat j = f"
    using alloc_scan_least[OF s] f least by (meson linorder_neqE)
  moreover have "\<not> total_frames st \<le> f" using f by simp
  ultimately show ?thesis using s pmm_alloc_is_set_used[OF s]
    by (simp add: pmm_alloc_frame_def Let_def)
qed

lemmas unat_page_align_up = unat_ALIGN_UP[of 12, simplified]
lemmas unat_page_align_down = unat_ALIGN_DOWN[of _ 12, simplified]


lemma region_end_frame_iff:
  "g < region_end_frame base sz \<longleftrightarrow> unat g * 4096 < min (unat base + unat sz) 0xFFFFF000"
proof -
  define e where "e = min (unat base + unat sz) 0xFFFFF000"
  have e: "e \<le> 0xFFFFF000" by (simp add: e_def)
  have b: "unat base < 2 ^ 32" "unat sz < 2 ^ 32" using unat_u32_less by simp_all
  have u: "unat (ucast base + ucast sz :: u64) = unat base + unat sz"
    using b by (simp add: unat_word_ariths)
  have "(if (ucast base + ucast sz :: u64) > 0xFFFFF000 then 0xFFFFF000 else ucast base + ucast sz :: u64)
      = of_nat e"
    unfolding word_unat_eq_iff
    using b by (auto simp: e_def u word_less_nat_alt unat_of_nat min_def)
  then have "region_end_frame base sz = ALIGN_UP (ucast (of_nat e :: u64)) PAGE_SIZE div PAGE_SIZE"
    by (simp add: region_end_frame_def Let_def)
  moreover have "unat (ucast (of_nat e :: u64) :: u32) = e"
    using e by (simp add: unsigned_ucast_eq unat_of_nat take_bit_nat_eq_self)
  ultimately have "unat (region_end_frame base sz) = (e + 4095) div 4096"
    using e by (simp add: unat_div unat_page_align_up)
  then show ?thesis unfolding e_def[symmetric] word_less_nat_alt
    by (auto simp: less_eq_div_iff_mult_less_eq Suc_le_eq[symmetric])
qed

lemma page_start_frame: "unat (ALIGN_DOWN base PAGE_SIZE div PAGE_SIZE) = unat base div 4096"
  by (simp add: unat_div unat_page_align_down)

lemma pmm_reserve_region_frames:
  assumes "pmm_inv st"
  shows "pmm_inv (pmm_reserve_region base sz st)"
    "total_frames (pmm_reserve_region base sz st) = total_frames st"
    "frame_used (pmm_reserve_region base sz st) g \<longleftrightarrow> frame_used st g
       \<or> unat base div 4096 \<le> unat g \<and> unat g * 4096 < min (unat base + unat sz) 0xFFFFF000"
proof -
  let ?lo = "ALIGN_DOWN base PAGE_SIZE div PAGE_SIZE"
  let ?hi = "min (region_end_frame base sz) (BITMAP_SIZE * 32)"
  note loop = for_set_used[OF assms, of ?hi ?lo]
  show "pmm_inv (pmm_reserve_region base sz st)"
    "total_frames (pmm_reserve_region base sz st) = total_frames st"
    using loop by (simp_all add: pmm_reserve_region_def Let_def)
  have "g < BITMAP_SIZE * 32" if "unat g * 4096 < 0xFFFFF000"
    using that by (simp add: word_less_nat_alt)
  then have "g < ?hi \<longleftrightarrow> unat g * 4096 < min (unat base + unat sz) 0xFFFFF000"
    using region_end_frame_iff[of g base sz] by auto
  moreover have "?lo \<le> g \<longleftrightarrow> unat base div 4096 \<le> unat g"
    by (simp add: page_start_frame word_le_nat_alt)
  moreover have "frame_used (pmm_reserve_region base sz st) g \<longleftrightarrow> frame_used st g \<or> ?lo \<le> g \<and> g < ?hi"
    using loop unfolding pmm_reserve_region_def Let_def by simp
  ultimately show "frame_used (pmm_reserve_region base sz st) g \<longleftrightarrow> frame_used st g
       \<or> unat base div 4096 \<le> unat g \<and> unat g * 4096 < min (unat base + unat sz) 0xFFFFF000"
    by simp
qed

lemma pmm_inv_all_used:
  assumes "tf \<le> BITMAP_SIZE * 32"
  shows "pmm_inv (st\<lparr>bitmap := (\<lambda>_. 0xFFFFFFFF), total_frames := tf, used_frames := tf\<rparr>)"
proof -
  have used: "frame_used (st\<lparr>bitmap := (\<lambda>_. 0xFFFFFFFF), total_frames := tf, used_frames := tf\<rparr>) f" for f
    using u32_bit_max[OF unat_mod_32, of f] by (simp add: frame_used_def)
  have img: "unat ` {f. f < tf} = {..< unat tf}"
  proof (intro equalityI subsetI)
    fix n assume "n \<in> {..< unat tf}"
    then have "n < unat tf" "unat (of_nat n :: u32) = n"
      using unat_u32_less[of tf] by (auto simp: unat_of_nat)
    then show "n \<in> unat ` {f. f < tf}" by (intro image_eqI[of _ _ "of_nat n"]) (auto simp: word_less_nat_alt)
  qed (auto simp: word_less_nat_alt)
  have "inj_on unat {f. f < tf}" by (auto intro!: inj_onI intro: unsigned_word_eqI)
  from card_image[OF this] have "card {f. f < tf} = unat tf" unfolding img by simp
  then show ?thesis using assms used by (simp add: pmm_inv_def)
qed


lemma pmm_init_frames:
  fixes mem_size reserved_end :: u32
  defines "m \<equiv> max (unat (ALIGN_UP reserved_end PAGE_SIZE)) 0x1400000"
  shows "pmm_inv (pmm_init mem_size reserved_end st)"
    "total_frames (pmm_init mem_size reserved_end st) = mem_size div PAGE_SIZE"
    "frame_used (pmm_init mem_size reserved_end st) g \<longleftrightarrow>
       \<not> (m \<le> unat g * 4096 \<and> g < mem_size div PAGE_SIZE)"
proof -
  let ?tf = "mem_size div PAGE_SIZE"
  let ?st = "st\<lparr>bitmap := (\<lambda>_. 0xFFFFFFFF), total_frames := ?tf, used_frames := ?tf\<rparr>"
  have "unat mem_size div 4096 \<le> 1048576" using unat_u32_less[of mem_size] by simp
  then have tf: "?tf \<le> BITMAP_SIZE * 32" by (simp add: word_le_nat_alt unat_div)
  then have init: "pmm_init mem_size reserved_end st
      = for_u32 (pmm_min_free reserved_end div PAGE_SIZE) ?tf frame_set_free ?st"
    by (simp add: pmm_init_def Let_def)
  note loop = for_set_free[OF pmm_inv_all_used[OF tf, of st], of ?tf
      "pmm_min_free reserved_end div PAGE_SIZE"]
  show "pmm_inv (pmm_init mem_size reserved_end st)"
    "total_frames (pmm_init mem_size reserved_end st) = ?tf"
    using loop unfolding init by simp_all
  have used: "frame_used ?st g"
    using u32_bit_max[OF unat_mod_32, of g] by (simp add: frame_used_def)
  have al: "4096 dvd unat (ALIGN_UP reserved_end PAGE_SIZE)"
    using unat_and_not_mask[of "reserved_end + 4096 - 1" 12]
    by (simp add: ALIGN_UP_def mask_eq_exp_minus_1)
  have "unat (pmm_min_free reserved_end) = m"
    by (auto simp: pmm_min_free_def Let_def m_def word_less_nat_alt)
  moreover have "4096 dvd m" unfolding m_def using al by (auto simp: max_def)
  ultimately have "pmm_min_free reserved_end div PAGE_SIZE \<le> g \<longleftrightarrow> m \<le> unat g * 4096"
    by (auto simp: word_le_nat_alt unat_div)
  then show "frame_used (pmm_init mem_size reserved_end st) g \<longleftrightarrow> \<not> (m \<le> unat g * 4096 \<and> g < ?tf)"
    using loop used unfolding init by simp
qed

section \<open>Initialisation from the multiboot memory map\<close>

text \<open>
  The multiboot information structure (\<^verbatim>\<open>src/kernel/multiboot.h\<close>), reduced to the fields the memory
  manager reads.  The memory map itself stays in byte memory and is walked by address.
\<close>

record multiboot_info_t =
  flags :: u32
  mem_lower :: u32
  mem_upper :: u32
  mmap_length :: u32
  mmap_addr :: u32

definition multiboot_total_memory :: "multiboot_info_t \<Rightarrow> u32" where
  "multiboot_total_memory mbi =
     (if flags mbi AND 1 \<noteq> 0 then mem_upper mbi * 1024 + mem_lower mbi * 1024
      else 16 * 1024 * 1024)"

definition multiboot_mmap_first :: "multiboot_info_t \<Rightarrow> u32" where
  "multiboot_mmap_first mbi =
     (if flags mbi AND 64 = 0 \<or> mmap_length mbi = 0 then 0 else mmap_addr mbi)"

definition multiboot_mmap_next :: "memory \<Rightarrow> u32 \<Rightarrow> u32" where
  "multiboot_mmap_next m entry = entry + load32 m entry + 4"

definition multiboot_mmap_has_more :: "multiboot_info_t \<Rightarrow> u32 \<Rightarrow> bool" where
  "multiboot_mmap_has_more mbi entry \<longleftrightarrow> entry < mmap_addr mbi + mmap_length mbi"

definition load64 :: "memory \<Rightarrow> u32 \<Rightarrow> u64" where
  "load64 m a = ucast (load32 m a) OR push_bit 32 (ucast (load32 m (a + 4)))"

definition mmap_usable :: "memory \<Rightarrow> u32 \<Rightarrow> bool" where
  "mmap_usable m entry \<longleftrightarrow> load32 m (entry + 20) = 1 \<and> load64 m (entry + 4) < 0xFFFFF000"

definition mmap_start :: "memory \<Rightarrow> u32 \<Rightarrow> u64" where
  "mmap_start m entry = (load64 m (entry + 4) + 4096 - 1) AND NOT (4096 - 1)"

definition mmap_end :: "memory \<Rightarrow> u32 \<Rightarrow> u64" where
  "mmap_end m entry =
     (let e = load64 m (entry + 4) + load64 m (entry + 12);
          e = (if e > 0xFFFFF000 then 0xFFFFF000 else e)
      in e AND NOT (4096 - 1))"

partial_function (option) mmap_highest ::
    "memory \<Rightarrow> multiboot_info_t \<Rightarrow> u32 \<Rightarrow> u64 \<Rightarrow> u64 option" where
  "mmap_highest m mbi entry highest =
     (if entry \<noteq> 0 \<and> multiboot_mmap_has_more mbi entry then
        mmap_highest m mbi (multiboot_mmap_next m entry)
          (if mmap_usable m entry \<and> mmap_end m entry > mmap_start m entry
              \<and> mmap_end m entry > highest then mmap_end m entry else highest)
      else Some highest)"

text \<open>\<^verbatim>\<open>for (addr = start; addr < end; addr += PAGE_SIZE)\<close> on 64-bit addresses; \<^verbatim>\<open>end\<close> is at most
  \<^verbatim>\<open>0xFFFFF000\<close>, so the increment does not wrap and natural numbers carry it.\<close>

function free_pages :: "nat \<Rightarrow> nat \<Rightarrow> pmm_state \<Rightarrow> pmm_state" where
  "free_pages addr e st =
     (if addr < e then free_pages (addr + 4096) e (frame_set_free (of_nat (addr div 4096)) st)
      else st)"
  by auto
termination by (relation "measure (\<lambda>(addr, e, _). e - addr)") auto

declare free_pages.simps [simp del]

partial_function (option) mmap_free_regions ::
    "memory \<Rightarrow> multiboot_info_t \<Rightarrow> u32 \<Rightarrow> pmm_state \<Rightarrow> pmm_state option" where
  "mmap_free_regions m mbi entry st =
     (if entry \<noteq> 0 \<and> multiboot_mmap_has_more mbi entry then
        mmap_free_regions m mbi (multiboot_mmap_next m entry)
          (if mmap_usable m entry
           then free_pages (unat (mmap_start m entry)) (unat (mmap_end m entry)) st else st)
      else Some st)"

definition pmm_init_mmap ::
    "memory \<Rightarrow> multiboot_info_t option \<Rightarrow> u32 \<Rightarrow> u32 \<Rightarrow> pmm_state \<Rightarrow> pmm_state option" where
  "pmm_init_mmap m mb fallback_mem_size reserved_end st =
     (case mb of
        None \<Rightarrow> Some (pmm_init fallback_mem_size reserved_end st)
      | Some mbi \<Rightarrow>
          if flags mbi AND 64 = 0 \<or> mmap_length mbi = 0
          then Some (pmm_init fallback_mem_size reserved_end st)
          else
            let st = st\<lparr>bitmap := (\<lambda>_. 0xFFFFFFFF), total_frames := 0, used_frames := 0\<rparr> in
            case mmap_highest m mbi (multiboot_mmap_first mbi) 0 of
              None \<Rightarrow> None
            | Some highest \<Rightarrow>
                if highest = 0 then Some (pmm_init fallback_mem_size reserved_end st)
                else
                  let tf = ucast (highest div 4096);
                      st = st\<lparr>total_frames := tf, used_frames := tf\<rparr>
                  in case mmap_free_regions m mbi (multiboot_mmap_first mbi) st of
                       None \<Rightarrow> None
                     | Some st \<Rightarrow> Some (pmm_reserve_region 0 (pmm_min_free reserved_end) st))"

text \<open>The entries a walk of the map visits, in order.\<close>

fun mmap_walk :: "memory \<Rightarrow> multiboot_info_t \<Rightarrow> u32 \<Rightarrow> u32 list \<Rightarrow> bool" where
  "mmap_walk m mbi entry [] \<longleftrightarrow> \<not> (entry \<noteq> 0 \<and> multiboot_mmap_has_more mbi entry)"
| "mmap_walk m mbi entry (e # es) \<longleftrightarrow> e = entry \<and> entry \<noteq> 0 \<and> multiboot_mmap_has_more mbi entry
     \<and> mmap_walk m mbi (multiboot_mmap_next m entry) es"

definition mmap_covers :: "memory \<Rightarrow> u32 \<Rightarrow> u32 \<Rightarrow> bool" where
  "mmap_covers m e g \<longleftrightarrow> mmap_usable m e
     \<and> unat (mmap_start m e) \<le> unat g * 4096 \<and> unat g * 4096 < unat (mmap_end m e)"

lemma free_pages_frames:
  assumes "pmm_inv st" and "4096 dvd a" and "e \<le> unat (total_frames st) * 4096"
  shows "pmm_inv (free_pages a e st) \<and> total_frames (free_pages a e st) = total_frames st
    \<and> (\<forall>g. frame_used (free_pages a e st) g \<longleftrightarrow> frame_used st g \<and> \<not> (a \<le> unat g * 4096 \<and> unat g * 4096 < e))"
  using assms
proof (induction a e st rule: free_pages.induct)
  case (1 a e st)
  show ?case
  proof (cases "a < e")
    case True
    obtain k where a: "a = 4096 * k" using 1(3) by auto
    have tf: "total_frames st \<le> BITMAP_SIZE * 32" using 1(2) by (simp add: pmm_inv_def)
    have k: "k < unat (total_frames st)" using True 1(4) a by simp
    then have uk: "unat (of_nat k :: u32) = k" using unat_u32_less[of "total_frames st"] by (simp add: unat_of_nat)
    have kt: "(of_nat k :: u32) < total_frames st" using k uk by (simp add: word_less_nat_alt)
    then have kb: "(of_nat k :: u32) < BITMAP_SIZE * 32" using tf by (rule less_le_trans)
    let ?st = "frame_set_free (of_nat (a div 4096)) st"
    have inv: "pmm_inv ?st" using pmm_inv_set_free[OF 1(2) kt] a by simp
    have used: "frame_used ?st g \<longleftrightarrow> frame_used st g \<and> \<not> unat g = k" for g
      using kb uk a by (auto simp: frame_used_set_free word_unat_eq_iff)
    have split: "(a + 4096 \<le> unat g * 4096 \<and> unat g * 4096 < e \<or> unat g = k)
       \<longleftrightarrow> (a \<le> unat g * 4096 \<and> unat g * 4096 < e)" for g :: u32
      using a True by auto
    show ?thesis
      using 1(1)[OF True inv] 1(3,4) True used split
      by (simp add: free_pages.simps[of a e st]) blast
  next
    case False
    then show ?thesis using 1 by (auto simp: free_pages.simps[of a e st])
  qed
qed


lemma mmap_start_aligned: "4096 dvd unat (mmap_start m e)"
  using unat_and_not_mask[of "load64 m (e + 4) + 4096 - 1" 12]
  by (simp add: mmap_start_def mask_eq_exp_minus_1)

lemma mmap_end_bounds: "4096 dvd unat (mmap_end m e)" "unat (mmap_end m e) \<le> 0xFFFFF000"
proof -
  define v where "v = (let e = load64 m (e + 4) + load64 m (e + 12) in if e > 0xFFFFF000 then 0xFFFFF000 else e)"
  have v: "unat v \<le> 0xFFFFF000"
    by (auto simp: v_def Let_def word_less_nat_alt not_less word_le_nat_alt)
  have "unat (mmap_end m e) = unat v div 4096 * 4096"
    using unat_and_not_mask[of v 12] by (simp add: mmap_end_def Let_def v_def mask_eq_exp_minus_1)
  then show "4096 dvd unat (mmap_end m e)" "unat (mmap_end m e) \<le> 0xFFFFF000"
    using v div_times_less_eq_dividend[of "unat v" 4096] by auto
qed

definition mmap_region :: "memory \<Rightarrow> u32 \<Rightarrow> bool" where
  "mmap_region m e \<longleftrightarrow> mmap_usable m e \<and> mmap_start m e < mmap_end m e"

lemma mmap_highest_walk:
  assumes "mmap_walk m mbi e es"
  shows "\<exists>h'. mmap_highest m mbi e h = Some h' \<and> h \<le> h'
    \<and> (\<forall>x\<in>set es. mmap_region m x \<longrightarrow> mmap_end m x \<le> h')
    \<and> (h' = h \<or> (\<exists>x\<in>set es. mmap_region m x \<and> h' = mmap_end m x))"
  using assms
proof (induction es arbitrary: e h)
  case Nil
  then show ?case by (subst mmap_highest.simps) auto
next
  case (Cons x es)
  let ?h = "if mmap_usable m e \<and> mmap_end m e > mmap_start m e \<and> mmap_end m e > h
    then mmap_end m e else h"
  have step: "mmap_highest m mbi e h = mmap_highest m mbi (multiboot_mmap_next m e) ?h"
    using Cons.prems by (subst mmap_highest.simps) auto
  from Cons.IH[of "multiboot_mmap_next m e" ?h] Cons.prems
  obtain h' where h': "mmap_highest m mbi (multiboot_mmap_next m e) ?h = Some h'" "?h \<le> h'"
    "\<forall>x\<in>set es. mmap_region m x \<longrightarrow> mmap_end m x \<le> h'"
    "h' = ?h \<or> (\<exists>x\<in>set es. mmap_region m x \<and> h' = mmap_end m x)"
    by auto
  have "h \<le> ?h" "mmap_region m e \<longrightarrow> mmap_end m e \<le> ?h" "?h = h \<or> mmap_region m e \<and> ?h = mmap_end m e"
    by (auto simp: mmap_region_def)
  then show ?case using h' Cons.prems unfolding step
    by (intro exI[of _ h']) (auto intro: order_trans simp del: if_split)
qed

lemma free_pages_empty: "\<not> a < e \<Longrightarrow> free_pages a e st = st"
  by (subst free_pages.simps) simp

lemma mmap_free_regions_walk:
  assumes "mmap_walk m mbi e es" and "pmm_inv st"
    and "\<forall>x\<in>set es. mmap_region m x \<longrightarrow> unat (mmap_end m x) \<le> unat (total_frames st) * 4096"
  shows "\<exists>st'. mmap_free_regions m mbi e st = Some st' \<and> pmm_inv st' \<and> total_frames st' = total_frames st
    \<and> (\<forall>g. frame_used st' g \<longleftrightarrow> frame_used st g \<and> \<not> (\<exists>x\<in>set es. mmap_covers m x g))"
  using assms
proof (induction es arbitrary: e st)
  case Nil
  then show ?case by (subst mmap_free_regions.simps) auto
next
  case (Cons x es)
  let ?st = "if mmap_usable m e
    then free_pages (unat (mmap_start m e)) (unat (mmap_end m e)) st else st"
  have x: "x = e" and w: "mmap_walk m mbi (multiboot_mmap_next m e) es"
    and bnd: "mmap_region m e \<Longrightarrow> unat (mmap_end m e) \<le> unat (total_frames st) * 4096"
    using Cons.prems by auto
  have st: "pmm_inv ?st \<and> total_frames ?st = total_frames st
      \<and> (\<forall>g. frame_used ?st g \<longleftrightarrow> frame_used st g \<and> \<not> mmap_covers m e g)"
  proof (cases "mmap_region m e")
    case True
    then show ?thesis
      using free_pages_frames[OF Cons.prems(2) mmap_start_aligned bnd, of m e]
      by (auto simp: mmap_covers_def mmap_region_def)
  next
    case False
    then have "?st = st" by (auto simp: mmap_region_def word_less_nat_alt free_pages_empty)
    moreover have "\<not> mmap_covers m e g" for g
      using False by (auto simp: mmap_covers_def mmap_region_def word_less_nat_alt)
    ultimately show ?thesis using Cons.prems(2) by auto
  qed
  have step: "mmap_free_regions m mbi e st = mmap_free_regions m mbi (multiboot_mmap_next m e) ?st"
    using Cons.prems by (subst mmap_free_regions.simps) auto
  show ?case
    unfolding step using Cons.IH[OF w, of ?st] st Cons.prems(3) x by fastforce
qed

lemma mmap_covers_inside:
  assumes "mmap_covers m x g"
  shows "load32 m (x + 20) = 1" "unat (load64 m (x + 4)) \<le> unat g * 4096"
    "unat g * 4096 + 4096 \<le> unat (load64 m (x + 4)) + unat (load64 m (x + 12))"
proof -
  let ?a = "load64 m (x + 4)" and ?l = "load64 m (x + 12)"
  have us: "mmap_usable m x" using assms by (simp add: mmap_covers_def)
  then show "load32 m (x + 20) = 1" by (simp add: mmap_usable_def)
  have a: "unat ?a < 0xFFFFF000" using us by (simp add: mmap_usable_def word_less_nat_alt)
  have "unat (4095 + ?a) = unat ?a + 4095" using a by (simp add: unat_word_ariths)
  then have "unat (mmap_start m x) = (unat ?a + 4095) div 4096 * 4096"
    using unat_and_not_mask[of "4095 + ?a" 12] by (simp add: mmap_start_def mask_eq_exp_minus_1)
  moreover have "unat ?a \<le> (unat ?a + 4095) div 4096 * 4096" by simp
  ultimately show "unat ?a \<le> unat g * 4096" using assms by (simp add: mmap_covers_def)
  define v where "v = (if ?a + ?l > 0xFFFFF000 then 0xFFFFF000 else ?a + ?l)"
  have e: "unat (mmap_end m x) = unat v div 4096 * 4096"
    using unat_and_not_mask[of v 12] by (simp add: mmap_end_def Let_def v_def mask_eq_exp_minus_1)
  have "unat v \<le> unat (?a + ?l)" by (auto simp: v_def word_less_nat_alt)
  also have "\<dots> \<le> unat ?a + unat ?l" by (simp add: unat_word_ariths)
  finally have "unat (mmap_end m x) \<le> unat ?a + unat ?l" unfolding e
    using div_times_less_eq_dividend[of "unat v" 4096] by linarith
  moreover have "unat g * 4096 < unat (mmap_end m x)" using assms by (simp add: mmap_covers_def)
  then have "unat g * 4096 + 4096 \<le> unat (mmap_end m x)" unfolding e by simp
  ultimately show "unat g * 4096 + 4096 \<le> unat ?a + unat ?l" by linarith
qed

lemma unat_pmm_min_free:
  "unat (pmm_min_free r) = max (unat (ALIGN_UP r PAGE_SIZE)) 0x1400000"
  by (auto simp: pmm_min_free_def Let_def word_less_nat_alt)

lemma unat_page_align_le: "unat (ALIGN_UP r PAGE_SIZE) \<le> 0xFFFFF000"
proof -
  have "unat (ALIGN_UP r PAGE_SIZE) = unat (r + 4096 - 1) div 4096 * 4096"
    using unat_and_not_mask[of "r + 4096 - 1" 12] by (simp add: ALIGN_UP_def mask_eq_exp_minus_1)
  then show ?thesis using unat_u32_less[of "r + 4096 - 1"] by simp
qed

lemma pmm_init_mmap_frames:
  assumes "flags mbi AND 64 \<noteq> 0" "mmap_length mbi \<noteq> 0"
    and walk: "mmap_walk m mbi (multiboot_mmap_first mbi) es"
    and region: "x \<in> set es" "mmap_region m x"
  shows "\<exists>st'. pmm_init_mmap m (Some mbi) fallback reserved_end st = Some st' \<and> pmm_inv st'
    \<and> (\<forall>g < BITMAP_SIZE * 32. \<not> frame_used st' g \<longleftrightarrow>
         unat (pmm_min_free reserved_end) \<le> unat g * 4096 \<and> (\<exists>x\<in>set es. mmap_covers m x g))"
proof -
  obtain h where h: "mmap_highest m mbi (multiboot_mmap_first mbi) 0 = Some h"
    "\<forall>x\<in>set es. mmap_region m x \<longrightarrow> mmap_end m x \<le> h"
    "h = 0 \<or> (\<exists>x\<in>set es. mmap_region m x \<and> h = mmap_end m x)"
    using mmap_highest_walk[OF walk, of 0] by auto
  have "mmap_end m x \<le> h" using h(2) region by blast
  moreover have "0 < mmap_end m x" using region(2) by (auto simp: mmap_region_def intro: le_less_trans)
  ultimately have h0: "h \<noteq> 0" by auto
  then obtain y where y: "h = mmap_end m y" using h(3) by auto
  let ?tf = "ucast (h div 4096) :: u32"
  have hdiv: "unat h div 4096 \<le> 0xFFFFF" using mmap_end_bounds(2)[of m y] y by simp
  then have tf: "unat ?tf = unat h div 4096"
    by (simp add: unsigned_ucast_eq unat_div take_bit_nat_eq_self)
  have tfh: "unat ?tf * 4096 = unat h" using tf mmap_end_bounds(1)[of m y] y by simp
  have tfb: "?tf \<le> BITMAP_SIZE * 32" using tf hdiv by (simp add: word_le_nat_alt)
  let ?st = "st\<lparr>bitmap := (\<lambda>_. 0xFFFFFFFF), total_frames := ?tf, used_frames := ?tf\<rparr>"
  have used: "frame_used ?st g" for g
    using u32_bit_max[OF unat_mod_32, of g] by (simp add: frame_used_def)
  have "\<forall>x\<in>set es. mmap_region m x \<longrightarrow> unat (mmap_end m x) \<le> unat (total_frames ?st) * 4096"
    using h(2) tfh by (simp add: word_le_nat_alt)
  from mmap_free_regions_walk[OF walk pmm_inv_all_used[OF tfb] this]
  obtain st1 where st1: "mmap_free_regions m mbi (multiboot_mmap_first mbi) ?st = Some st1" "pmm_inv st1"
    "\<And>g. frame_used st1 g \<longleftrightarrow> \<not> (\<exists>x\<in>set es. mmap_covers m x g)"
    using used by auto
  let ?st' = "pmm_reserve_region 0 (pmm_min_free reserved_end) st1"
  have lim: "unat (pmm_min_free reserved_end) \<le> 0xFFFFF000"
    using unat_page_align_le by (simp add: unat_pmm_min_free)
  have "frame_used ?st' g \<longleftrightarrow> frame_used st1 g \<or> unat g * 4096 < unat (pmm_min_free reserved_end)" for g
    using lim pmm_reserve_region_frames(3)[OF st1(2), of 0 "pmm_min_free reserved_end" g] by auto
  then have "\<not> frame_used ?st' g \<longleftrightarrow>
         unat (pmm_min_free reserved_end) \<le> unat g * 4096 \<and> (\<exists>x\<in>set es. mmap_covers m x g)" for g
    using st1(3) by auto
  moreover have "pmm_init_mmap m (Some mbi) fallback reserved_end st = Some ?st'"
    using assms(1,2) h(1) h0 st1(1) by (simp add: pmm_init_mmap_def Let_def)
  ultimately show ?thesis using pmm_reserve_region_frames(1)[OF st1(2)] by blast
qed

section \<open>The allocator interface\<close>

text \<open>
  What the users of the memory manager (page tables, tasks) rely on: an allocation takes an address
  out of the pool of free frames, a release puts an owned one back.
\<close>

fun alloc_frames :: "('s \<Rightarrow> u32 \<times> 's) \<Rightarrow> nat \<Rightarrow> 's \<Rightarrow> u32 list \<times> 's" where
  "alloc_frames alloc 0 s = ([], s)"
| "alloc_frames alloc (Suc n) s =
     (let (a, s1) = alloc s; (as, s2) = alloc_frames alloc n s1 in (a # as, s2))"

locale frame_pool =
  fixes inv :: "'s \<Rightarrow> bool" and avail :: "'s \<Rightarrow> u32 set" and owned :: "'s \<Rightarrow> u32 set"
    and alloc :: "'s \<Rightarrow> u32 \<times> 's" and release :: "u32 \<Rightarrow> 's \<Rightarrow> 's"
  assumes alloc_some: "inv s \<Longrightarrow> avail s \<noteq> {} \<Longrightarrow> alloc s = (a, s') \<Longrightarrow>
      inv s' \<and> a \<in> avail s \<and> avail s' = avail s - {a} \<and> owned s' = insert a (owned s)"
    and alloc_none: "inv s \<Longrightarrow> avail s = {} \<Longrightarrow> alloc s = (0, s)"
    and null_not_avail: "inv s \<Longrightarrow> 0 \<notin> avail s"
    and avail_not_owned: "inv s \<Longrightarrow> avail s \<inter> owned s = {}"
    and release_owned: "inv s \<Longrightarrow> a \<in> owned s \<Longrightarrow>
      inv (release a s) \<and> avail (release a s) = insert a (avail s) \<and> owned (release a s) = owned s - {a}"
begin

lemma alloc_null_iff: "inv s \<Longrightarrow> fst (alloc s) = 0 \<longleftrightarrow> avail s = {}"
  using alloc_some[of s "fst (alloc s)" "snd (alloc s)"] alloc_none[of s] null_not_avail[of s]
  by (cases "avail s = {}") auto

lemma alloc_release:
  assumes "inv s" "avail s \<noteq> {}" "alloc s = (a, s')"
  shows "avail (release a s') = avail s \<and> owned (release a s') = owned s"
proof -
  have s': "inv s'" "a \<in> avail s" "avail s' = avail s - {a}" "owned s' = insert a (owned s)"
    using alloc_some[OF assms] by auto
  have "a \<notin> owned s" using s'(2) avail_not_owned[OF assms(1)] by auto
  then show ?thesis using release_owned[OF s'(1), of a] s' by auto
qed

lemma alloc_many:
  "inv s \<Longrightarrow> finite (avail s) \<Longrightarrow> n \<le> card (avail s) \<Longrightarrow> alloc_frames alloc n s = (as, s') \<Longrightarrow>
     inv s' \<and> distinct as \<and> length as = n \<and> set as \<subseteq> avail s \<and> 0 \<notin> set as \<and> avail s' = avail s - set as"
proof (induction n arbitrary: s as)
  case (Suc n)
  obtain a s1 bs where *: "alloc s = (a, s1)" "alloc_frames alloc n s1 = (bs, s')" "as = a # bs"
    using Suc.prems(4) by (auto split: prod.splits)
  have ne: "avail s \<noteq> {}" using Suc.prems by auto
  have s1: "inv s1" "a \<in> avail s" "avail s1 = avail s - {a}"
    using alloc_some[OF Suc.prems(1) ne *(1)] by auto
  have "n \<le> card (avail s1)" using s1 Suc.prems by auto
  from Suc.IH[OF s1(1) _ this *(2)] s1 Suc.prems null_not_avail[of s]
  show ?case using *(3) by auto
qed auto

end

definition pmm_ready :: "pmm_state \<Rightarrow> bool" where
  "pmm_ready st \<longleftrightarrow> pmm_inv st \<and> frame_used st 0"

definition pmm_avail :: "pmm_state \<Rightarrow> u32 set" where
  "pmm_avail st = (\<lambda>f. f * PAGE_SIZE) ` {f. f < total_frames st \<and> \<not> frame_used st f}"

definition pmm_owned :: "pmm_state \<Rightarrow> u32 set" where
  "pmm_owned st = (\<lambda>f. f * PAGE_SIZE) ` {f. f \<noteq> 0 \<and> f < total_frames st \<and> frame_used st f}"

lemma unat_frame_addr: "f < BITMAP_SIZE * 32 \<Longrightarrow> unat (f * PAGE_SIZE) = unat f * 4096"
  by (simp add: word_less_nat_alt unat_word_ariths)

lemma frame_addr_div: "f < BITMAP_SIZE * 32 \<Longrightarrow> (f * PAGE_SIZE) div PAGE_SIZE = f"
  using unat_frame_addr[of f] by (simp add: word_unat_eq_iff unat_div)

lemma frame_addr_inj: "f < BITMAP_SIZE * 32 \<Longrightarrow> g < BITMAP_SIZE * 32 \<Longrightarrow>
    f * PAGE_SIZE = g * PAGE_SIZE \<Longrightarrow> f = g"
  by (metis frame_addr_div)

lemma inj_frame_addr: "inj_on (\<lambda>f. f * PAGE_SIZE) {f. f < BITMAP_SIZE * 32}"
  by (rule inj_onI) (auto intro: frame_addr_inj)

lemma frame_addr_image_diff:
  "A \<subseteq> {f. f < BITMAP_SIZE * 32} \<Longrightarrow> f < BITMAP_SIZE * 32 \<Longrightarrow>
   (\<lambda>f. f * PAGE_SIZE) ` (A - {f}) = (\<lambda>f. f * PAGE_SIZE) ` A - {f * PAGE_SIZE}"
  by (subst inj_on_image_set_diff[OF inj_frame_addr]) auto

lemma pmm_frame_bound: "pmm_inv st \<Longrightarrow> f < total_frames st \<Longrightarrow> f < BITMAP_SIZE * 32"
  by (auto simp: pmm_inv_def)

lemma least_free_frame:
  assumes "f < total_frames st" "\<not> frame_used st f"
  obtains l where "l < total_frames st" "\<not> frame_used st l" "\<And>g. g < l \<Longrightarrow> frame_used st g"
proof -
  define n where "n = (LEAST n. \<exists>f. unat f = n \<and> \<not> frame_used st f)"
  have ex: "\<exists>f. unat f = n \<and> \<not> frame_used st f" unfolding n_def by (rule LeastI_ex) (use assms in auto)
  then obtain l where l: "unat l = n" "\<not> frame_used st l" by blast
  have least: "frame_used st g" if "g < l" for g
    using that l(1) not_less_Least[of "unat g" "\<lambda>n. \<exists>f. unat f = n \<and> \<not> frame_used st f"]
    unfolding n_def by (auto simp: word_less_nat_alt)
  moreover have "l \<le> f" using least assms(2) by (meson not_le)
  ultimately show ?thesis using that[of l] l assms(1) by (meson le_less_trans)
qed

interpretation frames: frame_pool pmm_ready pmm_avail pmm_owned pmm_alloc_frame pmm_free_frame
proof
  fix s a s'
  assume inv: "pmm_ready s" and ne: "pmm_avail s \<noteq> {}" and al: "pmm_alloc_frame s = (a, s')"
  obtain l where l: "l < total_frames s" "\<not> frame_used s l" "\<And>g. g < l \<Longrightarrow> frame_used s g"
    using ne least_free_frame unfolding pmm_avail_def by blast
  have lb: "l < BITMAP_SIZE * 32" using inv l pmm_frame_bound by (auto simp: pmm_ready_def)
  have l0: "l \<noteq> 0" using inv l(2) by (auto simp: pmm_ready_def)
  have a: "a = l * PAGE_SIZE" "s' = frame_set_used l s"
    using pmm_alloc_frame_some[of s l] inv l al by (auto simp: pmm_ready_def)
  show "pmm_ready s' \<and> a \<in> pmm_avail s \<and> pmm_avail s' = pmm_avail s - {a} \<and> pmm_owned s' = insert a (pmm_owned s)"
    unfolding a
  proof (intro conjI)
    show "pmm_ready (frame_set_used l s)"
      using inv by (simp add: pmm_ready_def pmm_inv_set_used frame_used_set_used)
    show "l * PAGE_SIZE \<in> pmm_avail s" using l by (simp add: pmm_avail_def)
    have "{f. f < total_frames s \<and> \<not> frame_used (frame_set_used l s) f}
        = {f. f < total_frames s \<and> \<not> frame_used s f} - {l}"
      using lb by (auto simp: frame_used_set_used)
    moreover have "{f. f < total_frames s \<and> \<not> frame_used s f} \<subseteq> {f. f < BITMAP_SIZE * 32}"
      using inv pmm_frame_bound by (auto simp: pmm_ready_def)
    ultimately show "pmm_avail (frame_set_used l s) = pmm_avail s - {l * PAGE_SIZE}"
      using frame_addr_image_diff[OF _ lb] by (simp add: pmm_avail_def)
    have "{f. f \<noteq> 0 \<and> f < total_frames s \<and> frame_used (frame_set_used l s) f}
        = insert l {f. f \<noteq> 0 \<and> f < total_frames s \<and> frame_used s f}"
      using lb l l0 by (auto simp: frame_used_set_used)
    then show "pmm_owned (frame_set_used l s) = insert (l * PAGE_SIZE) (pmm_owned s)"
      by (simp add: pmm_owned_def)
  qed
next
  fix s assume "pmm_ready s" "pmm_avail s = {}"
  then show "pmm_alloc_frame s = (0, s)"
    by (intro pmm_alloc_frame_none) (auto simp: pmm_ready_def pmm_avail_def)
next
  fix s assume inv: "pmm_ready s"
  then have bnd: "f < total_frames s \<Longrightarrow> f < BITMAP_SIZE * 32" for f
    using pmm_frame_bound[of s f] by (simp add: pmm_ready_def)
  show "0 \<notin> pmm_avail s"
  proof
    assume "0 \<in> pmm_avail s"
    then obtain f where "f < total_frames s" "\<not> frame_used s f" "f * PAGE_SIZE = 0 * PAGE_SIZE"
      by (auto simp: pmm_avail_def)
    then show False using frame_addr_inj[of f 0] bnd inv by (auto simp: pmm_ready_def)
  qed
  show "pmm_avail s \<inter> pmm_owned s = {}"
    unfolding pmm_avail_def pmm_owned_def
    by (subst inj_on_image_Int[OF inj_frame_addr, symmetric]) (auto dest: bnd)
  fix a assume "a \<in> pmm_owned s"
  then obtain l where l: "a = l * PAGE_SIZE" "l \<noteq> 0" "l < total_frames s" "frame_used s l"
    by (auto simp: pmm_owned_def)
  note lb = bnd[OF l(3)]
  have rel: "pmm_free_frame a s = frame_set_free l s"
    using l frame_addr_div[OF lb] by (simp add: pmm_free_frame_def)
  have "{f. f < total_frames s \<and> \<not> frame_used (frame_set_free l s) f}
      = insert l {f. f < total_frames s \<and> \<not> frame_used s f}"
    using lb l by (auto simp: frame_used_set_free)
  moreover have "{f. f \<noteq> 0 \<and> f < total_frames s \<and> frame_used (frame_set_free l s) f}
      = {f. f \<noteq> 0 \<and> f < total_frames s \<and> frame_used s f} - {l}"
    using lb l by (auto simp: frame_used_set_free)
  moreover have "{f. f \<noteq> 0 \<and> f < total_frames s \<and> frame_used s f} \<subseteq> {f. f < BITMAP_SIZE * 32}"
    using bnd by auto
  moreover have "pmm_ready (frame_set_free l s)"
    using inv l by (simp add: pmm_ready_def pmm_inv_set_free frame_used_set_free)
  ultimately show "pmm_ready (pmm_free_frame a s) \<and> pmm_avail (pmm_free_frame a s) = insert a (pmm_avail s)
     \<and> pmm_owned (pmm_free_frame a s) = pmm_owned s - {a}"
    using frame_addr_image_diff[OF _ lb] unfolding rel unfolding l(1)
    by (simp add: pmm_avail_def pmm_owned_def)
qed

section \<open>Properties of the memory manager\<close>

text \<open>
  C34.  On a well-formed memory manager whose frame 0 is reserved, \<^verbatim>\<open>pmm_alloc_frame\<close> returns 0 and
  changes nothing exactly when no frame is free; otherwise it returns the address of the lowest free
  frame, marks exactly that frame as used, counts it, and keeps the bitmap well formed.
\<close>

theorem pmm_alloc_frame_least_free:
  assumes "pmm_inv st" and "frame_used st 0" and "pmm_alloc_frame st = (addr, st')"
  shows "pmm_inv st' \<and> total_frames st' = total_frames st
    \<and> (if \<forall>f < total_frames st. frame_used st f then addr = 0 \<and> st' = st
       else addr \<noteq> 0 \<and> (\<exists>f < total_frames st. \<not> frame_used st f \<and> (\<forall>g < f. frame_used st g)
              \<and> unat addr = unat f * 4096 \<and> used_frames st' = used_frames st + 1
              \<and> (\<forall>g. frame_used st' g \<longleftrightarrow> frame_used st g \<or> g = f)))"
proof (cases "\<forall>f < total_frames st. frame_used st f")
  case True
  then show ?thesis using assms pmm_alloc_frame_none[of st] by auto
next
  case False
  then obtain f where f: "f < total_frames st" "\<not> frame_used st f" "\<And>g. g < f \<Longrightarrow> frame_used st g"
    using least_free_frame by blast
  note fb = pmm_frame_bound[OF assms(1) f(1)]
  have r: "addr = f * PAGE_SIZE" "st' = frame_set_used f st"
    using pmm_alloc_frame_some[OF assms(1) f] assms(3) by auto
  have "f \<noteq> 0" using assms(2) f(2) by auto
  then have "addr \<noteq> 0" using frame_addr_inj[OF fb, of 0] r by auto
  moreover have "used_frames st' = used_frames st + 1"
    using f(2) fb r by (auto simp: frame_set_used_def frame_used_def Let_def
        and_exp_eq_0_iff_not_bit frame_in_bitmap)
  ultimately show ?thesis using False f fb r unat_frame_addr[OF fb] assms(1)
    by (auto simp: pmm_inv_set_used frame_used_set_used)
qed

text \<open>The statically initialised memory manager, before \<^verbatim>\<open>pmm_init\<close> runs.\<close>

definition pmm_bss :: pmm_state where
  "pmm_bss = \<lparr>bitmap = (\<lambda>_. 0), total_frames = 0, used_frames = 0\<rparr>"

lemma pmm_init_example:
  "pmm_inv (pmm_init 0x1402000 0x600000 pmm_bss)"
  "frame_used (pmm_init 0x1402000 0x600000 pmm_bss) 0"
  "\<not> frame_used (pmm_init 0x1402000 0x600000 pmm_bss) 5120"
  "total_frames (pmm_init 0x1402000 0x600000 pmm_bss) = 5122"
  by (simp_all add: pmm_init_frames ALIGN_UP_def)

theorem pmm_alloc_frame_least_free_witness:
  "fst (pmm_alloc_frame (pmm_init 0x1402000 0x600000 pmm_bss)) \<noteq> 0"
  using pmm_alloc_frame_least_free[OF pmm_init_example(1,2) prod.collapse[symmetric]]
    pmm_init_example(3,4)
  by (auto split: if_splits)




definition mmap_example :: memory where
  "mmap_example = store32 (store32 (store32 (\<lambda>_. 0) 0x8000 20) 0x800C 0x2000000) 0x8014 1"

definition mbi_example :: multiboot_info_t where
  "mbi_example = \<lparr>flags = 64, mem_lower = 640, mem_upper = 31744, mmap_length = 24, mmap_addr = 0x8000\<rparr>"

lemma mmap_example_walk:
  "mmap_walk mmap_example mbi_example (multiboot_mmap_first mbi_example) [0x8000]"
  "mmap_region mmap_example 0x8000"
  by (simp_all add: mmap_example_def mbi_example_def multiboot_mmap_first_def multiboot_mmap_has_more_def
      multiboot_mmap_next_def mmap_region_def mmap_usable_def mmap_start_def mmap_end_def load64_def
      load32_def store32_def)


end
