(* ===== verification/Heap.thy ===== *)
theory Heap
  imports Pmm Memops
begin

text \<open>
  The kernel heap of \<^verbatim>\<open>src/kernel/heap.c\<close> over byte memory.  A block header is the i386 layout of
  \<^verbatim>\<open>heap_block_t\<close>: magic at 0, size at 4, is\_free (one byte) at 8, next at 12, prev at 16; its 20 bytes
  are rounded up to \<^verbatim>\<open>HEADER_SIZE\<close> 24.  Interrupts are disabled around every operation, which is
  therefore one atomic state transformer.  A loop over the block list that might not end on a corrupted
  list is a \<^verbatim>\<open>partial_function\<close>: the result \<^term>\<open>None\<close> stands for a call that does not return.
\<close>

unbundle bit_operations_syntax

abbreviation HEAP_BLOCK_MAGIC :: u32 where "HEAP_BLOCK_MAGIC \<equiv> 0xDEADBEEF"
abbreviation HEAP_ALIGNED_MAGIC :: u32 where "HEAP_ALIGNED_MAGIC \<equiv> 0xA116AED0"
abbreviation MIN_BLOCK_SIZE :: u32 where "MIN_BLOCK_SIZE \<equiv> 16"
abbreviation HEADER_SIZE :: u32 where "HEADER_SIZE \<equiv> 24"

record heap_stats_t =
  total_size :: u32
  used_size :: u32
  free_size :: u32
  num_allocations :: u32
  num_blocks :: u32

record heap_state =
  mem :: memory
  heap_head :: u32
  heap_base_addr :: u32
  heap_cur_size :: u32
  heap_max_limit :: u32
  heap_stats :: heap_stats_t
  pmm :: pmm_state

section \<open>Block headers in memory\<close>

definition blk_magic :: "memory \<Rightarrow> u32 \<Rightarrow> u32" where "blk_magic m p = load32 m p"
definition blk_size :: "memory \<Rightarrow> u32 \<Rightarrow> u32" where "blk_size m p = load32 m (p + 4)"
definition blk_is_free :: "memory \<Rightarrow> u32 \<Rightarrow> u8" where "blk_is_free m p = m (p + 8)"
definition blk_next :: "memory \<Rightarrow> u32 \<Rightarrow> u32" where "blk_next m p = load32 m (p + 12)"
definition blk_prev :: "memory \<Rightarrow> u32 \<Rightarrow> u32" where "blk_prev m p = load32 m (p + 16)"

definition set_magic :: "u32 \<Rightarrow> u32 \<Rightarrow> memory \<Rightarrow> memory" where "set_magic p v m = store32 m p v"
definition set_size :: "u32 \<Rightarrow> u32 \<Rightarrow> memory \<Rightarrow> memory" where "set_size p v m = store32 m (p + 4) v"
definition set_is_free :: "u32 \<Rightarrow> u8 \<Rightarrow> memory \<Rightarrow> memory" where "set_is_free p v m = m(p + 8 := v)"
definition set_next :: "u32 \<Rightarrow> u32 \<Rightarrow> memory \<Rightarrow> memory" where "set_next p v m = store32 m (p + 12) v"
definition set_prev :: "u32 \<Rightarrow> u32 \<Rightarrow> memory \<Rightarrow> memory" where "set_prev p v m = store32 m (p + 16) v"

section \<open>Operations\<close>

definition heap_init_at :: "u32 \<Rightarrow> u32 \<Rightarrow> u32 \<Rightarrow> heap_state \<Rightarrow> heap_state" where
  "heap_init_at base initial_size max_size st =
     st\<lparr>heap_base_addr := base, heap_cur_size := initial_size, heap_max_limit := max_size,
        heap_head := base,
        mem := (set_prev base 0 \<circ> set_next base 0 \<circ> set_is_free base 1
                \<circ> set_size base (initial_size - HEADER_SIZE) \<circ> set_magic base HEAP_BLOCK_MAGIC) (mem st),
        heap_stats := \<lparr>total_size = initial_size, used_size = 0,
                       free_size = initial_size - HEADER_SIZE, num_allocations = 0, num_blocks = 1\<rparr>\<rparr>"

definition heap_init :: "heap_state \<Rightarrow> heap_state" where
  "heap_init = heap_init_at HEAP_START HEAP_INITIAL_SIZE HEAP_MAX_SIZE"

partial_function (option) find_free_from :: "memory \<Rightarrow> u32 \<Rightarrow> u32 \<Rightarrow> u32 option" where
  "find_free_from m sz current =
     (if current = 0 then Some 0
      else if blk_is_free m current \<noteq> 0 \<and> blk_size m current \<ge> sz then Some current
      else find_free_from m sz (blk_next m current))"

definition find_free_block :: "u32 \<Rightarrow> heap_state \<Rightarrow> u32 option" where
  "find_free_block sz st = find_free_from (mem st) sz (heap_head st)"

definition split_block :: "u32 \<Rightarrow> u32 \<Rightarrow> heap_state \<Rightarrow> heap_state" where
  "split_block block sz st =
     (if blk_size (mem st) block < sz + HEADER_SIZE + MIN_BLOCK_SIZE then st
      else
        let remaining = blk_size (mem st) block - sz - HEADER_SIZE;
            new_block = block + HEADER_SIZE + sz;
            m = (set_prev new_block block \<circ> set_is_free new_block 1
                 \<circ> set_size new_block remaining \<circ> set_magic new_block HEAP_BLOCK_MAGIC) (mem st);
            m = set_next new_block (blk_next m block) m;
            m = (if blk_next m block \<noteq> 0 then set_prev (blk_next m block) new_block m else m);
            m = (set_size block sz \<circ> set_next block new_block) m
        in st\<lparr>mem := m,
              heap_stats := (heap_stats st)\<lparr>num_blocks := num_blocks (heap_stats st) + 1,
                free_size := free_size (heap_stats st) - HEADER_SIZE\<rparr>\<rparr>)"

definition coalesce_next :: "u32 \<Rightarrow> heap_state \<Rightarrow> heap_state" where
  "coalesce_next block st =
     (let nxt = blk_next (mem st) block in
      if nxt \<noteq> 0 \<and> blk_is_free (mem st) nxt \<noteq> 0 then
        let m = set_size block (blk_size (mem st) block + (HEADER_SIZE + blk_size (mem st) nxt)) (mem st);
            m = set_next block (blk_next m (blk_next m block)) m;
            m = (if blk_next m block \<noteq> 0 then set_prev (blk_next m block) block m else m)
        in st\<lparr>mem := m,
              heap_stats := (heap_stats st)\<lparr>num_blocks := num_blocks (heap_stats st) - 1,
                free_size := free_size (heap_stats st) + HEADER_SIZE\<rparr>\<rparr>
      else st)"

definition coalesce_prev :: "u32 \<Rightarrow> heap_state \<Rightarrow> heap_state" where
  "coalesce_prev block st =
     (let prv = blk_prev (mem st) block in
      if prv \<noteq> 0 \<and> blk_is_free (mem st) prv \<noteq> 0 then
        let m = set_size prv (blk_size (mem st) prv + (HEADER_SIZE + blk_size (mem st) block)) (mem st);
            m = set_next (blk_prev m block) (blk_next m block) m;
            m = (if blk_next m block \<noteq> 0 then set_prev (blk_next m block) (blk_prev m block) m else m)
        in st\<lparr>mem := m,
              heap_stats := (heap_stats st)\<lparr>num_blocks := num_blocks (heap_stats st) - 1,
                free_size := free_size (heap_stats st) + HEADER_SIZE\<rparr>\<rparr>
      else st)"

definition coalesce :: "u32 \<Rightarrow> heap_state \<Rightarrow> heap_state" where
  "coalesce block st = coalesce_prev block (coalesce_next block st)"

partial_function (option) find_tail :: "memory \<Rightarrow> u32 \<Rightarrow> u32 option" where
  "find_tail m tail = (if blk_next m tail \<noteq> 0 then find_tail m (blk_next m tail) else Some tail)"

definition heap_grow :: "u32 \<Rightarrow> heap_state \<Rightarrow> u32 option" where
  "heap_grow min_bytes st =
     (let grow = ALIGN_UP (min_bytes + HEADER_SIZE) 0x100000 in
      if heap_cur_size st + grow > heap_max_limit st then
        if heap_cur_size st \<ge> heap_max_limit st then None
        else
          let grow = heap_max_limit st - heap_cur_size st in
          if grow < min_bytes + HEADER_SIZE then None else Some grow
      else Some grow)"

definition heap_expand :: "u32 \<Rightarrow> heap_state \<Rightarrow> (bool \<times> heap_state) option" where
  "heap_expand min_bytes st =
     (case heap_grow min_bytes st of
        None \<Rightarrow> Some (False, st)
      | Some grow \<Rightarrow>
          let new_blk = heap_base_addr st + heap_cur_size st;
              st = st\<lparr>pmm := pmm_reserve_region new_blk grow (pmm st)\<rparr>;
              m = (set_next new_blk 0 \<circ> set_is_free new_blk 1 \<circ> set_size new_blk (grow - HEADER_SIZE)
                   \<circ> set_magic new_blk HEAP_BLOCK_MAGIC) (mem st)
          in case find_tail m (heap_head st) of
               None \<Rightarrow> None
             | Some tail \<Rightarrow>
                 let m = (set_prev new_blk tail \<circ> set_next tail new_blk) m;
                     st = st\<lparr>mem := m, heap_cur_size := heap_cur_size st + grow,
                       heap_stats := (heap_stats st)\<lparr>total_size := total_size (heap_stats st) + grow,
                         free_size := free_size (heap_stats st) + blk_size m new_blk,
                         num_blocks := num_blocks (heap_stats st) + 1\<rparr>\<rparr>
                 in Some (True, coalesce new_blk st))"

definition kmalloc :: "u32 \<Rightarrow> heap_state \<Rightarrow> (u32 \<times> heap_state) option" where
  "kmalloc req st =
     (if req = 0 \<or> heap_head st = 0 then Some (0, st)
      else
        let sz = (req + 7) AND NOT 7 in
        case find_free_block sz st of
          None \<Rightarrow> None
        | Some b0 \<Rightarrow>
            (case (if b0 = 0 then
                     case heap_expand sz st of
                       None \<Rightarrow> None
                     | Some (ok, st) \<Rightarrow>
                         if ok then map_option (\<lambda>b. (b, st)) (find_free_block sz st) else Some (0, st)
                   else Some (b0, st)) of
               None \<Rightarrow> None
             | Some (block, st) \<Rightarrow>
                 if block = 0 then Some (0, st)
                 else
                   let st = split_block block sz st;
                       m = set_is_free block 0 (mem st)
                   in Some (block + HEADER_SIZE,
                        st\<lparr>mem := m,
                           heap_stats := (heap_stats st)\<lparr>
                             used_size := used_size (heap_stats st) + blk_size m block,
                             free_size := free_size (heap_stats st) - blk_size m block,
                             num_allocations := num_allocations (heap_stats st) + 1\<rparr>\<rparr>)))"

definition kzalloc :: "u32 \<Rightarrow> heap_state \<Rightarrow> (u32 \<times> heap_state) option" where
  "kzalloc sz st =
     (case kmalloc sz st of
        None \<Rightarrow> None
      | Some (ptr, st) \<Rightarrow>
          if ptr \<noteq> 0 then Some (ptr, st\<lparr>mem := memset ptr 0 sz (mem st)\<rparr>) else Some (ptr, st))"

definition kmalloc_aligned :: "u32 \<Rightarrow> u32 \<Rightarrow> heap_state \<Rightarrow> (u32 \<times> heap_state) option" where
  "kmalloc_aligned sz alignment st =
     (let alignment = (if alignment < 8 then 8 else alignment) in
      if \<not> IS_POWER_OF_2 alignment then Some (0, st)
      else
        let meta = 8; total_size = sz + alignment + meta in
        case kmalloc total_size st of
          None \<Rightarrow> None
        | Some (raw_ptr, st) \<Rightarrow>
            if raw_ptr = 0 then Some (0, st)
            else
              let addr = raw_ptr + meta;
                  aligned_addr = (addr + alignment - 1) AND NOT (alignment - 1);
                  m = store32 (mem st) (aligned_addr - 4) HEAP_ALIGNED_MAGIC;
                  m = store32 m (aligned_addr - 8) raw_ptr
              in Some (aligned_addr, st\<lparr>mem := m\<rparr>))"

definition kfree_block :: "u32 \<Rightarrow> heap_state \<Rightarrow> u32" where
  "kfree_block p st =
     (let block = p - HEADER_SIZE; m = mem st; base = heap_base_addr st in
      if blk_magic m block \<noteq> HEAP_BLOCK_MAGIC then
        if p \<ge> base + HEADER_SIZE + 8 \<and> load32 m (p - 4) = HEAP_ALIGNED_MAGIC then
          let raw_ptr = load32 m (p - 8) in
          if raw_ptr \<ge> base + HEADER_SIZE \<and> raw_ptr < base + heap_cur_size st
          then raw_ptr - HEADER_SIZE else block
        else block
      else block)"

definition kfree :: "u32 \<Rightarrow> heap_state \<Rightarrow> heap_state" where
  "kfree p st =
     (if p = 0 \<or> heap_head st = 0 then st
      else if p < heap_base_addr st + HEADER_SIZE \<or> p \<ge> heap_base_addr st + heap_cur_size st then st
      else
        let block = kfree_block p st in
        if blk_magic (mem st) block \<noteq> HEAP_BLOCK_MAGIC \<or> blk_is_free (mem st) block \<noteq> 0 then st
        else
          let m = set_is_free block 1 (mem st);
              hs = heap_stats st;
              st = st\<lparr>mem := m,
                heap_stats := hs\<lparr>used_size := used_size hs - blk_size m block,
                  free_size := free_size hs + blk_size m block,
                  num_allocations := (if num_allocations hs > 0 then num_allocations hs - 1
                                      else num_allocations hs)\<rparr>\<rparr>
          in coalesce block st)"

definition krealloc :: "u32 \<Rightarrow> u32 \<Rightarrow> heap_state \<Rightarrow> (u32 \<times> heap_state) option" where
  "krealloc ptr new_size st =
     (if ptr = 0 then kmalloc new_size st
      else if new_size = 0 then Some (0, kfree ptr st)
      else
        let block = ptr - HEADER_SIZE in
        if blk_magic (mem st) block \<noteq> HEAP_BLOCK_MAGIC then Some (0, st)
        else if blk_size (mem st) block \<ge> new_size then Some (ptr, st)
        else
          case kmalloc new_size st of
            None \<Rightarrow> None
          | Some (new_ptr, st) \<Rightarrow>
              if new_ptr \<noteq> 0
              then Some (new_ptr,
                     kfree ptr (st\<lparr>mem := memcpy new_ptr ptr (blk_size (mem st) block) (mem st)\<rparr>))
              else Some (new_ptr, st))"

definition heap_get_stats :: "heap_state \<Rightarrow> heap_stats_t" where
  "heap_get_stats st = heap_stats st"

partial_function (option) heap_check_from :: "memory \<Rightarrow> u32 \<Rightarrow> bool option" where
  "heap_check_from m current =
     (if current \<noteq> 0 then
        if blk_magic m current \<noteq> HEAP_BLOCK_MAGIC then Some False
        else heap_check_from m (blk_next m current)
      else Some True)"

definition heap_check :: "heap_state \<Rightarrow> bool option" where
  "heap_check st = heap_check_from (mem st) (heap_head st)"

section \<open>Reads and writes of headers\<close>

record block_view =
  bv_magic :: u32
  bv_size :: u32
  bv_free :: u8
  bv_next :: u32
  bv_prev :: u32

definition view :: "memory \<Rightarrow> u32 \<Rightarrow> block_view" where
  "view m p = \<lparr>bv_magic = blk_magic m p, bv_size = blk_size m p, bv_free = blk_is_free m p,
     bv_next = blk_next m p, bv_prev = blk_prev m p\<rparr>"

text \<open>Two headers that do not overlap, and a byte outside a header.\<close>

definition apart :: "u32 \<Rightarrow> u32 \<Rightarrow> bool" where
  "apart p q \<longleftrightarrow> 20 \<le> unat (p - q) \<and> 20 \<le> unat (q - p)"

lemma u32_offset: "k < 4294967296 \<Longrightarrow> unat (of_nat k :: u32) = k"
  by (simp add: unat_of_nat)

lemma hdr_byte_out:
  assumes "20 \<le> unat (a - q :: u32)" "k \<le> 19"
  shows "a \<noteq> q + of_nat k"
  using assms by (auto simp: u32_offset)

lemma store32_out:
  assumes "20 \<le> unat (a - q :: u32)" "k \<le> 16"
  shows "store32 m (q + of_nat k) v a = m a"
proof -
  have "a \<noteq> q + of_nat k" "a \<noteq> q + of_nat k + 1" "a \<noteq> q + of_nat k + 2" "a \<noteq> q + of_nat k + 3"
    using hdr_byte_out[OF assms(1), of k] hdr_byte_out[OF assms(1), of "k + 1"]
      hdr_byte_out[OF assms(1), of "k + 2"] hdr_byte_out[OF assms(1), of "k + 3"] assms(2)
    by (simp_all add: ac_simps)
  then show ?thesis by (simp add: store32_def)
qed

lemma set_out [mem_frame]:
  assumes "20 \<le> unat (a - q)"
  shows "set_magic q v m a = m a" "set_size q v m a = m a" "set_is_free q w m a = m a"
    "set_next q v m a = m a" "set_prev q v m a = m a"
  using store32_out[OF assms, of 0] store32_out[OF assms, of 4] store32_out[OF assms, of 12]
    store32_out[OF assms, of 16] hdr_byte_out[OF assms, of 8]
  by (simp_all add: set_magic_def set_size_def set_is_free_def set_next_def set_prev_def)

lemma load32_in:
  assumes "\<And>a. unat (a - p :: u32) < 20 \<Longrightarrow> m a = m' a" "k \<le> 16"
  shows "load32 m (p + of_nat k) = load32 m' (p + of_nat k)"
proof -
  have "m (p + of_nat j) = m' (p + of_nat j)" if "j < 20" for j
    using that by (intro assms(1)) (simp add: u32_offset)
  from this[of k] this[of "k + 1"] this[of "k + 2"] this[of "k + 3"] assms(2)
  show ?thesis by (simp add: load32_def ac_simps)
qed

lemma view_cong:
  assumes "\<And>a. unat (a - p :: u32) < 20 \<Longrightarrow> m a = m' a"
  shows "view m p = view m' p"
  using load32_in[of p m m' 0] load32_in[of p m m' 4] load32_in[of p m m' 12]
    load32_in[of p m m' 16] assms
  by (simp add: view_def blk_magic_def blk_size_def blk_is_free_def blk_next_def blk_prev_def)

lemma apart_out: "apart p q \<Longrightarrow> unat (a - p) < 20 \<Longrightarrow> 20 \<le> unat (a - q)"
  using unat_u32_less[of p] unat_u32_less[of q] unat_u32_less[of a]
  by (auto simp: apart_def unat_sub_if' split: if_splits)

lemma view_other [mem_frame]:
  assumes "apart p q"
  shows "view (set_magic q v m) p = view m p" "view (set_size q v m) p = view m p"
    "view (set_is_free q w m) p = view m p" "view (set_next q v m) p = view m p"
    "view (set_prev q v m) p = view m p"
  by (rule view_cong, simp add: set_out apart_out[OF assms])+

lemma view_same [simp]:
  "view (set_magic q v m) q = (view m q)\<lparr>bv_magic := v\<rparr>"
  "view (set_size q v m) q = (view m q)\<lparr>bv_size := v\<rparr>"
  "view (set_is_free q w m) q = (view m q)\<lparr>bv_free := w\<rparr>"
  "view (set_next q v m) q = (view m q)\<lparr>bv_next := v\<rparr>"
  "view (set_prev q v m) q = (view m q)\<lparr>bv_prev := v\<rparr>"
  by (simp_all add: view_def set_magic_def set_size_def set_is_free_def set_next_def set_prev_def
      blk_magic_def blk_size_def blk_is_free_def blk_next_def blk_prev_def mem_frame)

lemma blk_view:
  "blk_magic m p = bv_magic (view m p)" "blk_size m p = bv_size (view m p)"
  "blk_is_free m p = bv_free (view m p)" "blk_next m p = bv_next (view m p)"
  "blk_prev m p = bv_prev (view m p)"
  by (simp_all add: view_def)

end
