(* ===== verification/Heap_Blocks.thy ===== *)
theory Heap_Blocks
  imports Heap
begin

text \<open>
  The block list that \<^verbatim>\<open>heap.c\<close> keeps in memory, as a list of sizes and free flags: the
  headers tile the arena \<^verbatim>\<open>[heap_base_addr, heap_base_addr + heap_cur_size)\<close> without gaps, the
  next and prev pointers agree with the tiling and the statistics with the list.
\<close>

unbundle bit_operations_syntax

type_synonym blk = "nat \<times> bool"

definition span :: "blk list \<Rightarrow> nat" where
  "span bs = sum_list (map (\<lambda>b. 24 + fst b) bs)"

lemma span_simps [simp]:
  "span [] = 0" "span (b # bs) = 24 + fst b + span bs" "span (xs @ ys) = span xs + span ys"
  by (simp_all add: span_def)

fun addrs :: "nat \<Rightarrow> blk list \<Rightarrow> nat list" where
  "addrs a [] = []"
| "addrs a (b # bs) = a # addrs (a + 24 + fst b) bs"

fun lastp :: "u32 \<Rightarrow> nat \<Rightarrow> blk list \<Rightarrow> u32" where
  "lastp pr a [] = pr"
| "lastp pr a (b # bs) = lastp (of_nat a) (a + 24 + fst b) bs"

fun chain :: "memory \<Rightarrow> nat \<Rightarrow> u32 \<Rightarrow> blk list \<Rightarrow> u32 \<Rightarrow> bool" where
  "chain m a pr [] nx \<longleftrightarrow> True"
| "chain m a pr (b # bs) nx \<longleftrightarrow>
     view m (of_nat a) = \<lparr>bv_magic = HEAP_BLOCK_MAGIC, bv_size = of_nat (fst b),
        bv_free = (if snd b then 1 else 0),
        bv_next = (if bs = [] then nx else of_nat (a + 24 + fst b)), bv_prev = pr\<rparr>
     \<and> chain m (a + 24 + fst b) (of_nat a) bs nx"

lemma addrs_bounds: "p \<in> set (addrs a bs) \<Longrightarrow> a \<le> p \<and> p + 24 \<le> a + span bs"
  by (induction a bs rule: addrs.induct) fastforce+

lemma addrs_append [simp]: "addrs a (xs @ ys) = addrs a xs @ addrs (a + span xs) ys"
  by (induction a xs rule: addrs.induct) (simp_all add: add.assoc)

lemma lastp_snoc [simp]: "lastp pr a (xs @ [b]) = of_nat (a + span xs)"
  by (induction pr a xs rule: lastp.induct) (simp_all add: add.assoc)

lemma lastp_append: "ys \<noteq> [] \<Longrightarrow> lastp pr a (xs @ ys) = lastp 0 (a + span xs) ys"
  by (cases ys rule: rev_cases) (simp_all flip: append_assoc add: add.assoc)

lemma chain_append:
  "chain m a pr (xs @ ys) nx \<longleftrightarrow>
     chain m a pr xs (if ys = [] then nx else of_nat (a + span xs)) \<and> chain m (a + span xs) (lastp pr a xs) ys nx"
proof (induction xs arbitrary: a pr)
  case (Cons b xs)
  have "a + 24 + fst b + span xs = a + span (b # xs)" by simp
  then show ?case using Cons[of "a + 24 + fst b" "of_nat a"] by (auto simp: add.assoc)
qed simp

lemma chain_cong:
  "(\<And>p. p \<in> set (addrs a bs) \<Longrightarrow> view m' (of_nat p) = view m (of_nat p)) \<Longrightarrow>
     chain m' a pr bs nx = chain m a pr bs nx"
  by (induction m a pr bs nx rule: chain.induct) auto

lemma apart_nat:
  assumes "p + 24 \<le> q" "q + 24 \<le> 4294967296"
  shows "apart (of_nat p) (of_nat q)" "apart (of_nat q) (of_nat p)"
  using assms by (auto simp: apart_def unat_sub_if' u32_offset)

lemma chain_write:
  assumes "\<And>x. 20 \<le> unat (x - of_nat q) \<Longrightarrow> m' x = m x"
    and "q + 24 \<le> a \<or> a + span bs \<le> q" and "q + 24 \<le> 4294967296" "a + span bs \<le> 4294967296"
  shows "chain m' a pr bs nx = chain m a pr bs nx"
proof (rule chain_cong)
  fix p assume "p \<in> set (addrs a bs)"
  note b = addrs_bounds[OF this]
  have "apart (of_nat p) (of_nat q)"
    using apart_nat[of p q] apart_nat[of q p] assms(2-4) b by linarith
  then show "view m' (of_nat p) = view m (of_nat p)"
    by (intro view_cong assms(1)) (rule apart_out)
qed

lemmas chain_set = chain_write[OF set_out(1)] chain_write[OF set_out(2)] chain_write[OF set_out(3)]
  chain_write[OF set_out(4)] chain_write[OF set_out(5)]

lemma chain_set_prev_head:
  assumes "chain m a pr (b # bs) nx" "a + span (b # bs) \<le> 4294967296"
  shows "chain (set_prev (of_nat a) v m) a v (b # bs) nx"
  using assms by (simp add: chain_set)

lemma chain_set_next_last:
  assumes "chain m a pr (bs @ [b]) nx" "a + span (bs @ [b]) \<le> 4294967296"
  shows "chain (set_next (of_nat (a + span bs)) v m) a pr (bs @ [b]) v"
  using assms unfolding chain_append by (simp add: chain_set del: of_nat_add)

fun used_at :: "nat \<Rightarrow> blk list \<Rightarrow> nat set" where
  "used_at a [] = {}"
| "used_at a (b # bs) = (if snd b then {} else {a + 24 ..< a + 24 + fst b}) \<union> used_at (a + 24 + fst b) bs"

lemma used_at_append [simp]: "used_at a (xs @ ys) = used_at a xs \<union> used_at (a + span xs) ys"
  by (induction a xs rule: used_at.induct) (auto simp: add.assoc)

lemma used_at_bounds: "x \<in> used_at a bs \<Longrightarrow> a + 24 \<le> x \<and> x < a + span bs"
  by (induction a bs rule: used_at.induct) (fastforce split: if_splits)+

lemma out_nat:
  assumes "x < q \<or> q + 20 \<le> x" "x < 4294967296" "q + 24 \<le> 4294967296"
  shows "20 \<le> unat (of_nat x - of_nat q :: u32)"
  using assms by (auto simp: unat_sub_if' u32_offset)

definition used_bytes :: "blk list \<Rightarrow> nat" where
  "used_bytes bs = sum_list (map fst (filter (\<lambda>b. \<not> snd b) bs))"
definition free_bytes :: "blk list \<Rightarrow> nat" where
  "free_bytes bs = sum_list (map fst (filter snd bs))"
definition used_count :: "blk list \<Rightarrow> nat" where
  "used_count bs = length (filter (\<lambda>b. \<not> snd b) bs)"

lemma bytes_simps [simp]:
  "used_bytes [] = 0" "used_bytes (b # bs) = (if snd b then 0 else fst b) + used_bytes bs"
  "used_bytes (xs @ ys) = used_bytes xs + used_bytes ys"
  "free_bytes [] = 0" "free_bytes (b # bs) = (if snd b then fst b else 0) + free_bytes bs"
  "free_bytes (xs @ ys) = free_bytes xs + free_bytes ys"
  "used_count [] = 0" "used_count (b # bs) = (if snd b then 0 else 1) + used_count bs"
  "used_count (xs @ ys) = used_count xs + used_count ys"
  by (simp_all add: used_bytes_def free_bytes_def used_count_def)

definition stats_of :: "blk list \<Rightarrow> heap_stats_t" where
  "stats_of bs = \<lparr>total_size = of_nat (span bs), used_size = of_nat (used_bytes bs),
     free_size = of_nat (free_bytes bs), num_allocations = of_nat (used_count bs),
     num_blocks = of_nat (length bs)\<rparr>"

definition heap_ok :: "heap_state \<Rightarrow> blk list \<Rightarrow> bool" where
  "heap_ok st bs \<longleftrightarrow> bs \<noteq> [] \<and> 16 \<le> unat (heap_base_addr st) \<and> heap_head st = heap_base_addr st
     \<and> unat (heap_base_addr st) + unat (heap_max_limit st) < 4294967296
     \<and> span bs \<le> unat (heap_max_limit st) \<and> unat (heap_cur_size st) = span bs
     \<and> chain (mem st) (unat (heap_base_addr st)) 0 bs 0 \<and> heap_stats st = stats_of bs"

text \<open>What an operation leaves alone: the configuration of the heap and every byte of a used block.\<close>

definition keeps :: "heap_state \<Rightarrow> blk list \<Rightarrow> heap_state \<Rightarrow> bool" where
  "keeps st bs st' \<longleftrightarrow> heap_base_addr st' = heap_base_addr st \<and> heap_max_limit st' = heap_max_limit st
     \<and> heap_head st' = heap_head st
     \<and> (\<forall>x \<in> used_at (unat (heap_base_addr st)) bs. mem st' (of_nat x) = mem st (of_nat x))"

lemma heap_ok_view:
  assumes "heap_ok st (xs @ b # ys)" "A = unat (heap_base_addr st) + span xs"
  shows "view (mem st) (of_nat A) = \<lparr>bv_magic = HEAP_BLOCK_MAGIC, bv_size = of_nat (fst b),
     bv_free = (if snd b then 1 else 0), bv_next = (if ys = [] then 0 else of_nat (A + 24 + fst b)),
     bv_prev = lastp 0 (unat (heap_base_addr st)) xs\<rparr>"
  using assms by (simp add: heap_ok_def chain_append)

text \<open>Memory that changed only inside the headers at the addresses \<^term>\<open>Q\<close>.\<close>

definition only_headers :: "nat set \<Rightarrow> memory \<Rightarrow> memory \<Rightarrow> bool" where
  "only_headers Q m m' \<longleftrightarrow> (\<forall>x. (\<forall>q\<in>Q. 20 \<le> unat (x - of_nat q)) \<longrightarrow> m' x = m x)"

lemma only_headers_trans:
  "only_headers P m1 m2 \<Longrightarrow> only_headers Q m2 m3 \<Longrightarrow> only_headers (P \<union> Q) m1 m3"
  by (auto simp: only_headers_def)

lemma only_headers_refl [simp]: "only_headers Q m m"
  by (simp add: only_headers_def)

lemma only_headers_set:
  "q \<in> Q \<Longrightarrow> only_headers Q m m' \<Longrightarrow> only_headers Q m (set_magic (of_nat q) v m')"
  "q \<in> Q \<Longrightarrow> only_headers Q m m' \<Longrightarrow> only_headers Q m (set_size (of_nat q) v m')"
  "q \<in> Q \<Longrightarrow> only_headers Q m m' \<Longrightarrow> only_headers Q m (set_is_free (of_nat q) w m')"
  "q \<in> Q \<Longrightarrow> only_headers Q m m' \<Longrightarrow> only_headers Q m (set_next (of_nat q) v m')"
  "q \<in> Q \<Longrightarrow> only_headers Q m m' \<Longrightarrow> only_headers Q m (set_prev (of_nat q) v m')"
  by (auto simp: only_headers_def set_out)

lemma only_headers_chain:
  assumes "only_headers Q m m'"
    and "\<And>q. q \<in> Q \<Longrightarrow> (q + 24 \<le> a \<or> a + span bs \<le> q) \<and> q + 24 \<le> 4294967296"
    and "a + span bs \<le> 4294967296"
  shows "chain m' a pr bs nx = chain m a pr bs nx"
proof (rule chain_cong)
  fix p assume "p \<in> set (addrs a bs)"
  note b = addrs_bounds[OF this]
  have "apart (of_nat p) (of_nat q)" if "q \<in> Q" for q
    using apart_nat[of p q] apart_nat[of q p] assms(2)[OF that] assms(3) b by linarith
  then show "view m' (of_nat p) = view m (of_nat p)"
    using assms(1) unfolding only_headers_def by (intro view_cong) (auto intro: apart_out)
qed

lemma only_headers_bytes:
  assumes "only_headers Q m m'" "\<And>q. q \<in> Q \<Longrightarrow> (x < q \<or> q + 20 \<le> x) \<and> q + 24 \<le> 4294967296"
    and "x < 4294967296"
  shows "m' (of_nat x) = m (of_nat x)"
  using assms unfolding only_headers_def by (metis out_nat)

definition split_mem :: "nat \<Rightarrow> nat \<Rightarrow> u32 \<Rightarrow> nat \<Rightarrow> nat \<Rightarrow> memory \<Rightarrow> memory" where
  "split_mem A N nx sz r m =
     (let m = (set_next (of_nat N) nx \<circ> set_prev (of_nat N) (of_nat A) \<circ> set_is_free (of_nat N) 1
               \<circ> set_size (of_nat N) (of_nat r) \<circ> set_magic (of_nat N) HEAP_BLOCK_MAGIC) m;
          m = (if nx \<noteq> 0 then set_prev nx (of_nat N) m else m)
      in (set_size (of_nat A) (of_nat sz) \<circ> set_next (of_nat A) (of_nat N)) m)"

lemma split_block_eq:
  assumes view: "bv_size (view (mem st) (of_nat A)) = of_nat s" "bv_next (view (mem st) (of_nat A)) = nx"
    and sz: "sz + 40 \<le> s" and bnd: "A + 24 + s \<le> 4294967296" "16 \<le> A"
  shows "split_block (of_nat A) (of_nat sz) st =
    st\<lparr>mem := split_mem A (A + 24 + sz) nx sz (s - sz - 24) (mem st),
       heap_stats := (heap_stats st)\<lparr>num_blocks := num_blocks (heap_stats st) + 1,
         free_size := free_size (heap_stats st) - HEADER_SIZE\<rparr>\<rparr>"
proof -
  have ap: "apart (of_nat A) (of_nat (A + 24 + sz))"
    using sz bnd by (intro apart_nat) auto
  have N: "of_nat A + HEADER_SIZE + of_nat sz = (of_nat (A + 24 + sz) :: u32)" by simp
  have "of_nat s - of_nat sz - HEADER_SIZE = (of_nat (s - sz - 24) :: u32)"
    using sz by (simp add: of_nat_diff)
  moreover have "\<not> (of_nat s :: u32) < of_nat sz + HEADER_SIZE + MIN_BLOCK_SIZE"
  proof -
    have "(of_nat sz + HEADER_SIZE + MIN_BLOCK_SIZE :: u32) = of_nat (sz + 40)" by simp
    then show ?thesis using sz bnd by (simp only: word_less_nat_alt) (simp add: u32_offset del: of_nat_add)
  qed
  ultimately show ?thesis
    using view ap unfolding split_block_def split_mem_def Let_def N
    by (simp add: blk_view mem_frame del: of_nat_add)
qed

lemma split_mem_headers:
  assumes "nx = (if ys = [] then 0 else of_nat B)"
  shows "only_headers ({A, N} \<union> (if ys = [] then {} else {B})) m (split_mem A N nx sz r m)"
  using assms unfolding split_mem_def Let_def by (auto simp: only_headers_set)

lemma split_mem_views:
  assumes "apart (of_nat A) (of_nat N)" "apart (of_nat N) (of_nat A)"
    and "nx \<noteq> 0 \<Longrightarrow> apart (of_nat A) nx \<and> apart (of_nat N) nx"
  shows "view (split_mem A N nx sz r m) (of_nat A) = (view m (of_nat A))\<lparr>bv_size := of_nat sz, bv_next := of_nat N\<rparr>"
    "view (split_mem A N nx sz r m) (of_nat N) = \<lparr>bv_magic = HEAP_BLOCK_MAGIC, bv_size = of_nat r,
       bv_free = 1, bv_next = nx, bv_prev = of_nat A\<rparr>"
  using assms unfolding split_mem_def Let_def by (auto simp: mem_frame)

lemma split_mem_rest:
  assumes ch: "chain m B (of_nat A) ys 0" and nx: "nx = (if ys = [] then 0 else of_nat B)"
    and b: "A + 24 \<le> N" "N + 24 \<le> B" "B + span ys \<le> 4294967296" "0 < B"
  shows "chain (split_mem A N nx sz r m) B (of_nat N) ys 0"
proof (cases ys)
  case (Cons y zs)
  define m2 where "m2 = (set_next (of_nat N) nx \<circ> set_prev (of_nat N) (of_nat A) \<circ> set_is_free (of_nat N) 1
               \<circ> set_size (of_nat N) (of_nat r) \<circ> set_magic (of_nat N) HEAP_BLOCK_MAGIC) m"
  have "only_headers {N} m m2" by (simp add: m2_def only_headers_set)
  then have "chain m2 B (of_nat A) ys 0" using ch b by (subst only_headers_chain) auto
  then have "chain (set_prev (of_nat B) (of_nat N) m2) B (of_nat N) ys 0"
    using b unfolding Cons by (intro chain_set_prev_head) auto
  moreover have "only_headers {A} (set_prev (of_nat B) (of_nat N) m2) (split_mem A N nx sz r m)"
  proof -
    have "nx \<noteq> 0" using nx b Cons by (simp add: word_unat_eq_iff u32_offset)
    then show ?thesis using nx Cons by (simp add: split_mem_def Let_def m2_def only_headers_set)
  qed
  ultimately show ?thesis using b by (subst only_headers_chain[of "{A}"]) auto
qed simp

lemma heap_ok_split_chains:
  assumes "heap_ok st (xs @ b # ys)" "A = unat (heap_base_addr st) + span xs" "B = A + 24 + fst b"
  shows "chain (mem st) (unat (heap_base_addr st)) 0 xs (of_nat A)" "chain (mem st) B (of_nat A) ys 0"
    "16 \<le> unat (heap_base_addr st)" "B + span ys < 4294967296"
  using assms by (auto simp: heap_ok_def chain_append ac_simps)

lemma stats_split:
  assumes "sz + 24 \<le> s"
  shows "(stats_of (xs @ (s, True) # ys))\<lparr>num_blocks := num_blocks (stats_of (xs @ (s, True) # ys)) + 1,
      free_size := free_size (stats_of (xs @ (s, True) # ys)) - HEADER_SIZE\<rparr>
    = stats_of (xs @ (sz, True) # (s - sz - 24, True) # ys)"
  using assms by (simp add: stats_of_def of_nat_diff)

lemma split_block_ok:
  assumes ok: "heap_ok st (xs @ (s, True) # ys)" and A: "A = unat (heap_base_addr st) + span xs"
    and sz: "sz + 40 \<le> s"
  shows "heap_ok (split_block (of_nat A) (of_nat sz) st) (xs @ (sz, True) # (s - sz - 24, True) # ys)"
    "keeps st (xs @ (s, True) # ys) (split_block (of_nat A) (of_nat sz) st)"
proof -
  let ?b = "unat (heap_base_addr st)" and ?m = "mem st"
  define N where "N = A + 24 + sz"
  define B where "B = A + 24 + s"
  define nx :: u32 where "nx = (if ys = [] then 0 else of_nat B)"
  let ?m' = "split_mem A N nx sz (s - sz - 24) ?m"
  have B': "B = A + 24 + fst (s, True)" by (simp add: B_def)
  note ch = heap_ok_split_chains[OF ok A B']
  have nb: "N + 24 \<le> B" "A + 24 \<le> N" "16 \<le> A" "B = N + 24 + (s - sz - 24)"
    using sz ch(3) A by (simp_all add: N_def B_def)
  have B24: "ys \<noteq> [] \<Longrightarrow> B + 24 < 4294967296" using ch(4) by (cases ys) auto
  note vA = heap_ok_view[OF ok A, simplified, folded B_def]
  have eq: "split_block (of_nat A) (of_nat sz) st =
    st\<lparr>mem := ?m', heap_stats := (heap_stats st)\<lparr>num_blocks := num_blocks (heap_stats st) + 1,
         free_size := free_size (heap_stats st) - HEADER_SIZE\<rparr>\<rparr>"
    unfolding N_def using vA sz ch(4) nb(3) by (intro split_block_eq) (auto simp: nx_def B_def)
  have oh: "only_headers ({A, N} \<union> (if ys = [] then {} else {B})) ?m ?m'"
    by (rule split_mem_headers) (simp add: nx_def)
  have "chain ?m' ?b 0 xs (of_nat A)"
    using ch nb A B24 by (subst only_headers_chain[OF oh]) (auto split: if_splits)
  moreover have "chain ?m' B (of_nat N) ys 0"
    using ch nb by (intro split_mem_rest) (auto simp: nx_def)
  moreover have "view ?m' (of_nat A) = (view ?m (of_nat A))\<lparr>bv_size := of_nat sz, bv_next := of_nat N\<rparr>"
    "view ?m' (of_nat N) = \<lparr>bv_magic = HEAP_BLOCK_MAGIC, bv_size = of_nat (s - sz - 24),
       bv_free = 1, bv_next = nx, bv_prev = of_nat A\<rparr>"
    using apart_nat[of A N] apart_nat[of A B] apart_nat[of N B] nb ch(4) B24
    by (intro split_mem_views; auto simp: nx_def split: if_splits)+
  ultimately have "chain ?m' ?b 0 (xs @ (sz, True) # (s - sz - 24, True) # ys) 0"
    using A vA nb(4) N_def by (simp add: chain_append nx_def ac_simps del: of_nat_add)
  then show "heap_ok (split_block (of_nat A) (of_nat sz) st) (xs @ (sz, True) # (s - sz - 24, True) # ys)"
    using ok sz stats_split[of sz s xs ys] unfolding eq heap_ok_def by simp
  have "?m' (of_nat x) = ?m (of_nat x)" if "x \<in> used_at ?b (xs @ (s, True) # ys)" for x
  proof (rule only_headers_bytes[OF oh])
    have x: "x < A \<or> B + 24 \<le> x \<and> x < B + span ys"
      using that used_at_bounds[of x ?b xs] used_at_bounds[of x B ys] A by (auto simp: B_def ac_simps)
    show "x < 4294967296" using x ch(4) nb by auto
    fix q assume "q \<in> {A, N} \<union> (if ys = [] then {} else {B})"
    then show "(x < q \<or> q + 20 \<le> x) \<and> q + 24 \<le> 4294967296"
      using x nb ch(4) B24 by (auto split: if_splits)
  qed
  then show "keeps st (xs @ (s, True) # ys) (split_block (of_nat A) (of_nat sz) st)"
    unfolding keeps_def eq by simp
qed

section \<open>Merging two neighbouring free blocks\<close>

definition merge_mem :: "nat \<Rightarrow> u32 \<Rightarrow> nat \<Rightarrow> memory \<Rightarrow> memory" where
  "merge_mem A nx sz m =
     (let m = set_next (of_nat A) nx (set_size (of_nat A) (of_nat sz) m)
      in if nx \<noteq> 0 then set_prev nx (of_nat A) m else m)"

definition merge_state :: "nat \<Rightarrow> u32 \<Rightarrow> nat \<Rightarrow> heap_state \<Rightarrow> heap_state" where
  "merge_state A nx sz st = st\<lparr>mem := merge_mem A nx sz (mem st),
     heap_stats := (heap_stats st)\<lparr>num_blocks := num_blocks (heap_stats st) - 1,
       free_size := free_size (heap_stats st) + HEADER_SIZE\<rparr>\<rparr>"

lemma stats_merge:
  "(stats_of (xs @ (s, True) # (t, True) # ys))\<lparr>
      num_blocks := num_blocks (stats_of (xs @ (s, True) # (t, True) # ys)) - 1,
      free_size := free_size (stats_of (xs @ (s, True) # (t, True) # ys)) + HEADER_SIZE\<rparr>
    = stats_of (xs @ (s + 24 + t, True) # ys)"
  by (simp add: stats_of_def)

lemma merge_mem_headers:
  assumes "nx = (if ys = [] then 0 else of_nat C)"
  shows "only_headers ({A} \<union> (if ys = [] then {} else {C})) m (merge_mem A nx sz m)"
  using assms unfolding merge_mem_def Let_def by (auto simp: only_headers_set)

lemma merge_mem_rest:
  assumes ch: "chain m C B ys 0" and nx: "nx = (if ys = [] then 0 else of_nat C)"
    and b: "A + 24 \<le> C" "C + span ys \<le> 4294967296" "0 < C"
  shows "chain (merge_mem A nx sz m) C (of_nat A) ys 0"
proof (cases ys)
  case (Cons y zs)
  let ?m = "set_next (of_nat A) nx (set_size (of_nat A) (of_nat sz) m)"
  have "only_headers {A} m ?m" by (simp add: only_headers_set)
  then have "chain ?m C B ys 0" using ch b by (subst only_headers_chain) auto
  then have "chain (set_prev (of_nat C) (of_nat A) ?m) C (of_nat A) ys 0"
    using b unfolding Cons by (intro chain_set_prev_head) auto
  moreover have "nx \<noteq> 0" using nx b Cons by (simp add: word_unat_eq_iff u32_offset)
  ultimately show ?thesis using nx Cons by (simp add: merge_mem_def)
qed simp

lemma merge_state_ok:
  assumes ok: "heap_ok st (xs @ (s, True) # (t, True) # ys)" and A: "A = unat (heap_base_addr st) + span xs"
    and C: "C = A + 48 + s + t" and nx: "nx = (if ys = [] then 0 else of_nat C)"
  shows "heap_ok (merge_state A nx (s + 24 + t) st) (xs @ (s + 24 + t, True) # ys)"
    "keeps st (xs @ (s, True) # (t, True) # ys) (merge_state A nx (s + 24 + t) st)"
proof -
  let ?b = "unat (heap_base_addr st)" and ?m = "mem st"
  let ?m' = "merge_mem A nx (s + 24 + t) ?m"
  note ch = heap_ok_split_chains[OF ok A refl]
  have chy: "chain ?m C (of_nat (A + 24 + s)) ys 0" and bnd: "C + span ys < 4294967296" "16 \<le> ?b"
    using ch C by (auto simp: ac_simps)
  have C24: "ys \<noteq> [] \<Longrightarrow> C + 24 < 4294967296" using bnd by (cases ys) auto
  have oh: "only_headers ({A} \<union> (if ys = [] then {} else {C})) ?m ?m'"
    by (rule merge_mem_headers) (simp add: nx)
  note vA = heap_ok_view[OF ok A, simplified]
  have "chain ?m' ?b 0 xs (of_nat A)"
    using ch(1) bnd A C C24 by (subst only_headers_chain[OF oh]) (auto split: if_splits)
  moreover have "chain ?m' C (of_nat A) ys 0"
    using chy bnd C by (intro merge_mem_rest) (auto simp: nx)
  moreover have "view ?m' (of_nat A) = (view ?m (of_nat A))\<lparr>bv_size := of_nat (s + 24 + t), bv_next := nx\<rparr>"
    using apart_nat[of A C] C bnd C24 unfolding merge_mem_def Let_def
    by (auto simp: mem_frame nx)
  ultimately have "chain ?m' ?b 0 (xs @ (s + 24 + t, True) # ys) 0"
    using A vA by (simp add: chain_append nx C ac_simps del: of_nat_add)
  then show "heap_ok (merge_state A nx (s + 24 + t) st) (xs @ (s + 24 + t, True) # ys)"
    using ok stats_merge[of xs s t ys] unfolding heap_ok_def merge_state_def by simp
  have "?m' (of_nat x) = ?m (of_nat x)" if "x \<in> used_at ?b (xs @ (s, True) # (t, True) # ys)" for x
  proof (rule only_headers_bytes[OF oh])
    have x: "x < A \<or> C + 24 \<le> x \<and> x < C + span ys"
      using that used_at_bounds[of x ?b xs] used_at_bounds[of x C ys] A C by (auto simp: ac_simps)
    show "x < 4294967296" using x bnd C by auto
    fix q assume "q \<in> {A} \<union> (if ys = [] then {} else {C})"
    then show "(x < q \<or> q + 20 \<le> x) \<and> q + 24 \<le> 4294967296"
      using x bnd C C24 by (auto split: if_splits)
  qed
  then show "keeps st (xs @ (s, True) # (t, True) # ys) (merge_state A nx (s + 24 + t) st)"
    unfolding keeps_def merge_state_def by simp
qed

lemma coalesce_next_words:
  assumes "view (mem st) a = \<lparr>bv_magic = g, bv_size = s, bv_free = 1, bv_next = b, bv_prev = p\<rparr>"
    "view (mem st) b = \<lparr>bv_magic = g, bv_size = t, bv_free = 1, bv_next = nx, bv_prev = a\<rparr>"
    "apart b a" "b \<noteq> 0"
  shows "coalesce_next a st = st\<lparr>mem := (let m = set_next a nx (set_size a (s + (HEADER_SIZE + t)) (mem st))
      in if nx \<noteq> 0 then set_prev nx a m else m),
     heap_stats := (heap_stats st)\<lparr>num_blocks := num_blocks (heap_stats st) - 1,
       free_size := free_size (heap_stats st) + HEADER_SIZE\<rparr>\<rparr>"
  using assms unfolding coalesce_next_def Let_def by (simp add: blk_view mem_frame)

lemma coalesce_prev_words:
  assumes "view (mem st) a = \<lparr>bv_magic = g, bv_size = s, bv_free = 1, bv_next = b, bv_prev = p\<rparr>"
    "view (mem st) b = \<lparr>bv_magic = g, bv_size = t, bv_free = 1, bv_next = nx, bv_prev = a\<rparr>"
    "apart b a" "a \<noteq> 0"
  shows "coalesce_prev b st = st\<lparr>mem := (let m = set_next a nx (set_size a (s + (HEADER_SIZE + t)) (mem st))
      in if nx \<noteq> 0 then set_prev nx a m else m),
     heap_stats := (heap_stats st)\<lparr>num_blocks := num_blocks (heap_stats st) - 1,
       free_size := free_size (heap_stats st) + HEADER_SIZE\<rparr>\<rparr>"
  using assms unfolding coalesce_prev_def Let_def by (simp add: blk_view mem_frame)

lemma neighbour_views:
  assumes ok: "heap_ok st (xs @ (s, f) # (t, g) # ys)" and A: "A = unat (heap_base_addr st) + span xs"
  shows "view (mem st) (of_nat A) = \<lparr>bv_magic = HEAP_BLOCK_MAGIC, bv_size = of_nat s,
      bv_free = (if f then 1 else 0), bv_next = of_nat (A + 24 + s),
      bv_prev = lastp 0 (unat (heap_base_addr st)) xs\<rparr>"
    "view (mem st) (of_nat (A + 24 + s)) = \<lparr>bv_magic = HEAP_BLOCK_MAGIC, bv_size = of_nat t,
      bv_free = (if g then 1 else 0), bv_next = (if ys = [] then 0 else of_nat (A + 48 + s + t)),
      bv_prev = of_nat A\<rparr>"
    "apart (of_nat (A + 24 + s)) (of_nat A)" "of_nat A \<noteq> (0 :: u32)" "of_nat (A + 24 + s) \<noteq> (0 :: u32)"
proof -
  have ok': "heap_ok st ((xs @ [(s, f)]) @ (t, g) # ys)" using ok by simp
  have B: "A + 24 + s = unat (heap_base_addr st) + span (xs @ [(s, f)])" using A by simp
  have nx: "A + 24 + s + 24 + fst (t, g) = A + 48 + s + t" by simp
  show "view (mem st) (of_nat A) = \<lparr>bv_magic = HEAP_BLOCK_MAGIC, bv_size = of_nat s,
      bv_free = (if f then 1 else 0), bv_next = of_nat (A + 24 + s),
      bv_prev = lastp 0 (unat (heap_base_addr st)) xs\<rparr>"
    using heap_ok_view[OF ok A] by (simp del: of_nat_add)
  show "view (mem st) (of_nat (A + 24 + s)) = \<lparr>bv_magic = HEAP_BLOCK_MAGIC, bv_size = of_nat t,
      bv_free = (if g then 1 else 0), bv_next = (if ys = [] then 0 else of_nat (A + 48 + s + t)),
      bv_prev = of_nat A\<rparr>"
    using heap_ok_view[OF ok' B] unfolding nx A by (simp add: ac_simps)
  have "A + 24 + s + 24 \<le> 4294967296" "16 \<le> A" using ok A by (auto simp: heap_ok_def)
  then show "apart (of_nat (A + 24 + s)) (of_nat A)" "of_nat A \<noteq> (0 :: u32)" "of_nat (A + 24 + s) \<noteq> (0 :: u32)"
    using apart_nat[of A "A + 24 + s"] by (auto simp: word_unat_eq_iff u32_offset simp del: of_nat_add)
qed

lemma coalesce_merges:
  assumes ok: "heap_ok st (xs @ (s, True) # (t, True) # ys)" and A: "A = unat (heap_base_addr st) + span xs"
    and nx: "nx = (if ys = [] then 0 else of_nat (A + 48 + s + t))"
  shows "coalesce_next (of_nat A) st = merge_state A nx (s + 24 + t) st"
    "coalesce_prev (of_nat (A + 24 + s)) st = merge_state A nx (s + 24 + t) st"
proof -
  note v = neighbour_views[OF ok A, simplified if_True, folded nx]
  have sum: "of_nat s + (HEADER_SIZE + of_nat t) = (of_nat (s + 24 + t) :: u32)" by simp
  show "coalesce_next (of_nat A) st = merge_state A nx (s + 24 + t) st"
    using coalesce_next_words[OF v(1,2,3,5)] unfolding merge_state_def merge_mem_def sum .
  show "coalesce_prev (of_nat (A + 24 + s)) st = merge_state A nx (s + 24 + t) st"
    using coalesce_prev_words[OF v(1,2,3,4)] unfolding merge_state_def merge_mem_def sum .
qed

text \<open>The effect of \<^verbatim>\<open>coalesce\<close> on the block list.\<close>

fun join_right :: "nat \<Rightarrow> blk list \<Rightarrow> nat \<times> blk list" where
  "join_right s ((t, True) # ys) = (s + 24 + t, ys)"
| "join_right s ys = (s, ys)"

definition join_left :: "blk list \<Rightarrow> nat \<Rightarrow> blk list \<Rightarrow> blk list" where
  "join_left xs s ys =
     (if xs \<noteq> [] \<and> snd (last xs) then butlast xs @ (fst (last xs) + 24 + s, True) # ys
      else xs @ (s, True) # ys)"

definition join :: "blk list \<Rightarrow> nat \<Rightarrow> blk list \<Rightarrow> blk list" where
  "join xs s ys = (case join_right s ys of (s', ys') \<Rightarrow> join_left xs s' ys')"

lemma keeps_refl [simp]: "keeps st bs st"
  by (simp add: keeps_def)

lemma keeps_trans:
  "keeps st bs st1 \<Longrightarrow> keeps st1 cs st2 \<Longrightarrow>
     used_at (unat (heap_base_addr st)) bs \<subseteq> used_at (unat (heap_base_addr st)) cs \<Longrightarrow> keeps st bs st2"
  unfolding keeps_def by auto

lemma lastp_Nil_or_snoc: "xs = [] \<or> (\<exists>zs b. xs = zs @ [b] \<and> lastp pr a xs = of_nat (a + span zs))"
  by (cases xs rule: rev_cases) auto

lemma coalesce_next_ok:
  assumes ok: "heap_ok st (xs @ (s, True) # ys)" and A: "A = unat (heap_base_addr st) + span xs"
    and j: "join_right s ys = (s', ys')"
  shows "heap_ok (coalesce_next (of_nat A) st) (xs @ (s', True) # ys')"
    "keeps st (xs @ (s, True) # ys) (coalesce_next (of_nat A) st)"
    "used_at (unat (heap_base_addr st)) (xs @ (s', True) # ys') = used_at (unat (heap_base_addr st)) (xs @ (s, True) # ys)"
proof -
  consider (merge) t zs where "ys = (t, True) # zs" | (stay) "\<And>t zs. ys \<noteq> (t, True) # zs" by auto
  then have "heap_ok (coalesce_next (of_nat A) st) (xs @ (s', True) # ys')
    \<and> keeps st (xs @ (s, True) # ys) (coalesce_next (of_nat A) st)
    \<and> used_at (unat (heap_base_addr st)) (xs @ (s', True) # ys') = used_at (unat (heap_base_addr st)) (xs @ (s, True) # ys)"
  proof cases
    case merge
    have r: "s' = s + 24 + t" "ys' = zs" using j merge by auto
    note okm = ok[unfolded merge]
    show ?thesis
      using merge_state_ok[OF okm A refl refl] coalesce_merges(1)[OF okm A refl]
      unfolding merge r by (auto simp: ac_simps)
  next
    case stay
    then have r: "s' = s" "ys' = ys" using j by (cases "(s, ys)" rule: join_right.cases; auto)+
    have "coalesce_next (of_nat A) st = st"
    proof (cases ys)
      case Nil
      then show ?thesis using heap_ok_view[OF ok A] by (simp add: coalesce_next_def blk_view)
    next
      case (Cons y zs)
      obtain t where y: "y = (t, False)" using stay Cons by (cases y; auto)
      show ?thesis using neighbour_views(1,2)[OF ok[unfolded Cons y] A]
        by (simp add: coalesce_next_def blk_view del: of_nat_add)
    qed
    then show ?thesis using ok r by simp
  qed
  then show "heap_ok (coalesce_next (of_nat A) st) (xs @ (s', True) # ys')"
    "keeps st (xs @ (s, True) # ys) (coalesce_next (of_nat A) st)"
    "used_at (unat (heap_base_addr st)) (xs @ (s', True) # ys') = used_at (unat (heap_base_addr st)) (xs @ (s, True) # ys)"
    by auto
qed

lemma coalesce_prev_ok:
  assumes ok: "heap_ok st (xs @ (s, True) # ys)" and A: "A = unat (heap_base_addr st) + span xs"
  shows "heap_ok (coalesce_prev (of_nat A) st) (join_left xs s ys)
    \<and> keeps st (xs @ (s, True) # ys) (coalesce_prev (of_nat A) st)
    \<and> used_at (unat (heap_base_addr st)) (join_left xs s ys) = used_at (unat (heap_base_addr st)) (xs @ (s, True) # ys)"
proof (cases xs rule: rev_cases)
  case Nil
  then have "coalesce_prev (of_nat A) st = st"
    using heap_ok_view[OF ok A] by (simp add: coalesce_prev_def blk_view)
  then show ?thesis using ok Nil by (simp add: join_left_def)
next
  case (snoc zs b)
  obtain r f where b: "b = (r, f)" by force
  let ?P = "unat (heap_base_addr st) + span zs"
  have A': "A = ?P + 24 + r" using A snoc b by simp
  have ok': "heap_ok st (zs @ (r, f) # (s, True) # ys)" using ok snoc b by simp
  note v = neighbour_views[OF ok' refl]
  show ?thesis
  proof (cases f)
    case True
    then have okm: "heap_ok st (zs @ (r, True) # (s, True) # ys)" and bt: "b = (r, True)"
      using ok' b by simp_all
    show ?thesis
      using merge_state_ok[OF okm refl refl refl] coalesce_merges(2)[OF okm refl refl]
      unfolding A' snoc bt by (auto simp: join_left_def ac_simps)
  next
    case False
    then have "coalesce_prev (of_nat A) st = st"
      using v(1,2) unfolding A' by (simp add: coalesce_prev_def blk_view del: of_nat_add)
    then show ?thesis using ok snoc b False by (simp add: join_left_def)
  qed
qed

lemma coalesce_ok:
  assumes ok: "heap_ok st (xs @ (s, True) # ys)" and A: "A = unat (heap_base_addr st) + span xs"
  shows "heap_ok (coalesce (of_nat A) st) (join xs s ys)
    \<and> keeps st (xs @ (s, True) # ys) (coalesce (of_nat A) st)
    \<and> used_at (unat (heap_base_addr st)) (join xs s ys) = used_at (unat (heap_base_addr st)) (xs @ (s, True) # ys)"
proof -
  obtain s' ys' where j: "join_right s ys = (s', ys')" by force
  note n = coalesce_next_ok[OF ok A j]
  have A': "A = unat (heap_base_addr (coalesce_next (of_nat A) st)) + span xs"
    using n(2) A by (simp add: keeps_def)
  note p = coalesce_prev_ok[OF n(1) A']
  have base: "heap_base_addr (coalesce_next (of_nat A) st) = heap_base_addr st"
    using n(2) by (simp add: keeps_def)
  show ?thesis using p n keeps_trans[OF n(2), of "xs @ (s', True) # ys'"]
    unfolding coalesce_def join_def j base by auto
qed

section \<open>Searching the block list\<close>

fun first_fit :: "nat \<Rightarrow> blk list \<Rightarrow> (blk list \<times> nat \<times> blk list) option" where
  "first_fit n [] = None"
| "first_fit n (b # bs) =
     (if snd b \<and> n \<le> fst b then Some ([], fst b, bs)
      else map_option (\<lambda>(xs, s, ys). (b # xs, s, ys)) (first_fit n bs))"

lemma first_fit_Some:
  "first_fit n bs = Some (xs, s, ys) \<Longrightarrow>
     bs = xs @ (s, True) # ys \<and> n \<le> s \<and> (\<forall>b\<in>set xs. \<not> (snd b \<and> n \<le> fst b))"
  by (induction bs arbitrary: xs) (fastforce split: if_splits prod.splits)+

lemma first_fit_None: "first_fit n bs = None \<longleftrightarrow> (\<forall>b\<in>set bs. \<not> (snd b \<and> n \<le> fst b))"
  by (induction bs) auto

lemma find_free_chain:
  assumes "chain m a pr bs 0" "0 < a" "a + span bs < 4294967296" "bs \<noteq> []"
  shows "find_free_from m sz (of_nat a) =
    Some (case first_fit (unat sz) bs of None \<Rightarrow> 0 | Some (xs, s, ys) \<Rightarrow> of_nat (a + span xs))"
  using assms
proof (induction bs arbitrary: a pr)
  case (Cons b bs)
  have a0: "of_nat a \<noteq> (0 :: u32)" using Cons.prems by (simp add: word_unat_eq_iff u32_offset)
  have v: "view m (of_nat a) = \<lparr>bv_magic = HEAP_BLOCK_MAGIC, bv_size = of_nat (fst b),
        bv_free = (if snd b then 1 else 0),
        bv_next = (if bs = [] then 0 else of_nat (a + 24 + fst b)), bv_prev = pr\<rparr>"
    and ch: "chain m (a + 24 + fst b) (of_nat a) bs 0"
    using Cons.prems(1) by simp_all
  have fit: "blk_is_free m (of_nat a) \<noteq> 0 \<and> sz \<le> blk_size m (of_nat a) \<longleftrightarrow> snd b \<and> unat sz \<le> fst b"
    using v Cons.prems(3) by (simp add: blk_view word_le_nat_alt u32_offset)
  show ?case
  proof (cases "snd b \<and> unat sz \<le> fst b")
    case True
    then show ?thesis using a0 fit by (subst find_free_from.simps) simp
  next
    case False
    then have step: "find_free_from m sz (of_nat a) = find_free_from m sz (blk_next m (of_nat a))"
      using a0 fit by (subst find_free_from.simps) auto
    show ?thesis
    proof (cases "bs = []")
      case True
      then show ?thesis using step v False by (auto simp: blk_view find_free_from.simps[of m sz 0])
    next
      case ne: False
      then have "find_free_from m sz (of_nat (a + 24 + fst b)) =
        Some (case first_fit (unat sz) bs of None \<Rightarrow> 0 | Some (xs, s, ys) \<Rightarrow> of_nat (a + 24 + fst b + span xs))"
        using Cons.IH[OF ch] Cons.prems by simp
      then show ?thesis using step v False ne
        by (auto simp: blk_view ac_simps split: option.splits)
    qed
  qed
qed simp

lemma find_free_block_ok:
  assumes "heap_ok st bs"
  shows "find_free_block sz st = Some (case first_fit (unat sz) bs of None \<Rightarrow> 0
    | Some (xs, s, ys) \<Rightarrow> of_nat (unat (heap_base_addr st) + span xs))"
  using find_free_chain[of "mem st" "unat (heap_base_addr st)" 0 bs sz] assms
  by (auto simp: heap_ok_def find_free_block_def)

lemma find_tail_chain:
  assumes "chain m a pr bs 0" "0 < a" "a + span bs < 4294967296" "bs \<noteq> []"
  shows "find_tail m (of_nat a) = Some (lastp 0 a bs)"
  using assms
proof (induction bs arbitrary: a pr)
  case (Cons b bs)
  have nxt: "blk_next m (of_nat a) = (if bs = [] then 0 else of_nat (a + 24 + fst b))"
    using Cons.prems(1) by (simp add: blk_view)
  show ?case
  proof (cases "bs = []")
    case True
    then show ?thesis using nxt by (subst find_tail.simps) simp
  next
    case False
    then have "of_nat (a + 24 + fst b) \<noteq> (0 :: u32)"
      using Cons.prems by (simp add: word_unat_eq_iff u32_offset del: of_nat_add)
    then have "find_tail m (of_nat a) = find_tail m (of_nat (a + 24 + fst b))"
      using nxt False by (subst find_tail.simps) simp
    also have "\<dots> = Some (lastp 0 (a + 24 + fst b) bs)"
      using Cons.IH[of "a + 24 + fst b" "of_nat a"] Cons.prems False by simp
    finally show ?thesis using lastp_append[OF False, of 0 a "[b]"] by (simp add: add.assoc)
  qed
qed simp

lemma heap_check_chain:
  assumes "chain m a pr bs 0" "0 < a" "a + span bs < 4294967296" "bs \<noteq> []"
  shows "heap_check_from m (of_nat a) = Some True"
  using assms
proof (induction bs arbitrary: a pr)
  case (Cons b bs)
  have nxt: "blk_next m (of_nat a) = (if bs = [] then 0 else of_nat (a + 24 + fst b))"
    and magic: "blk_magic m (of_nat a) = HEAP_BLOCK_MAGIC"
    using Cons.prems(1) by (simp_all add: blk_view)
  have a0: "of_nat a \<noteq> (0 :: u32)" using Cons.prems by (simp add: word_unat_eq_iff u32_offset)
  have "heap_check_from m (of_nat a) = heap_check_from m (blk_next m (of_nat a))"
    using magic a0 by (subst heap_check_from.simps) simp
  also have "\<dots> = Some True"
    using nxt Cons.IH[of "a + 24 + fst b"] Cons.prems
    by (cases "bs = []") (auto simp: heap_check_from.simps[of m 0])
  finally show ?case .
qed simp

section \<open>Taking and growing\<close>

lemma mark_chain:
  assumes ok: "chain m a pr (xs @ (s, f) # ys) nx" and b: "a + span (xs @ (s, f) # ys) < 4294967296"
  shows "chain (set_is_free (of_nat (a + span xs)) (if g then 1 else 0) m) a pr (xs @ (s, g) # ys) nx"
proof -
  let ?A = "a + span xs" and ?m' = "set_is_free (of_nat (a + span xs)) (if g then 1 else 0) m"
  have oh: "only_headers {?A} m ?m'" by (rule only_headers_set) auto
  have "chain ?m' a pr xs (of_nat ?A)" "chain ?m' (?A + 24 + s) (of_nat ?A) ys nx"
    using ok b by (subst only_headers_chain[OF oh]; auto simp: chain_append ac_simps)+
  then show ?thesis using ok by (simp add: chain_append)
qed


definition grown_mem :: "nat \<Rightarrow> nat \<Rightarrow> nat \<Rightarrow> memory \<Rightarrow> memory" where
  "grown_mem T E g m = (set_prev (of_nat E) (of_nat T) \<circ> set_next (of_nat T) (of_nat E) \<circ> set_next (of_nat E) 0
     \<circ> set_is_free (of_nat E) 1 \<circ> set_size (of_nat E) (of_nat (g - 24)) \<circ> set_magic (of_nat E) HEAP_BLOCK_MAGIC) m"

lemma grown_chain:
  assumes ch: "chain m a pr (zs @ [b]) 0" and T: "T = a + span zs" and E: "E = a + span (zs @ [b])"
    and bnd: "E + g \<le> 4294967296" "24 \<le> g"
  shows "chain (grown_mem T E g m) a pr ((zs @ [b]) @ [(g - 24, True)]) 0"
proof -
  define m1 where "m1 = (set_next (of_nat E) 0
     \<circ> set_is_free (of_nat E) 1 \<circ> set_size (of_nat E) (of_nat (g - 24)) \<circ> set_magic (of_nat E) HEAP_BLOCK_MAGIC) m"
  let ?m2 = "set_next (of_nat T) (of_nat E) m1"
  have ap: "apart (of_nat E) (of_nat T)" "apart (of_nat T) (of_nat E)"
    using apart_nat[of T E] T E bnd by auto
  have "only_headers {E} m m1" by (simp add: m1_def only_headers_set)
  then have "chain m1 a pr (zs @ [b]) 0" using ch E bnd by (subst only_headers_chain) auto
  then have "chain ?m2 a pr (zs @ [b]) (of_nat E)"
    unfolding T using E bnd by (intro chain_set_next_last) auto
  moreover have "only_headers {E} ?m2 (grown_mem T E g m)"
    by (simp add: grown_mem_def m1_def only_headers_set)
  ultimately have "chain (grown_mem T E g m) a pr (zs @ [b]) (of_nat E)"
    using E bnd by (subst only_headers_chain[of "{E}"]) auto
  moreover have "view (grown_mem T E g m) (of_nat E) = \<lparr>bv_magic = HEAP_BLOCK_MAGIC,
      bv_size = of_nat (g - 24), bv_free = 1, bv_next = 0, bv_prev = of_nat T\<rparr>"
    using ap by (simp add: grown_mem_def mem_frame)
  ultimately show ?thesis
    unfolding chain_append[of _ a pr "zs @ [b]"] using E T by (simp del: of_nat_add)
qed


lemma heap_grow_Some:
  assumes cfg: "unat (heap_cur_size st) \<le> unat (heap_max_limit st)"
    and n: "n + unat (heap_max_limit st) + 0x100018 \<le> 4294967296"
    and g: "heap_grow (of_nat n) st = Some g"
  shows "n + 24 \<le> unat g \<and> unat (heap_cur_size st) + unat g \<le> unat (heap_max_limit st)"
proof -
  let ?c = "unat (heap_cur_size st)" and ?l = "unat (heap_max_limit st)"
  define w :: u32 where "w = of_nat n + HEADER_SIZE"
  have w: "unat w = n + 24"
  proof -
    have "w = of_nat (n + 24)" by (simp add: w_def)
    then show ?thesis using n by (simp only: u32_offset)
  qed
  define g0 where "g0 = ALIGN_UP w 0x100000"
  have g0: "unat g0 = (n + 24 + 0xFFFFF) div 0x100000 * 0x100000"
    using unat_ALIGN_UP[of 20 w] w n by (simp add: g0_def)
  then have g0b: "n + 24 \<le> unat g0" "unat g0 \<le> n + 24 + 0xFFFFF" by simp_all
  have sum: "unat (heap_cur_size st + g0) = ?c + unat g0"
    using g0b cfg n by (simp add: unat_word_ariths)
  show ?thesis
  proof (cases "?c + unat g0 > ?l")
    case True
    then have d: "\<not> heap_max_limit st \<le> heap_cur_size st" "\<not> heap_max_limit st - heap_cur_size st < w"
      "g = heap_max_limit st - heap_cur_size st"
      using g sum by (auto simp: heap_grow_def Let_def w_def[symmetric] g0_def[symmetric] word_less_nat_alt[of "heap_max_limit st"]
          split: if_splits)
    have "unat g = ?l - ?c" using d(1,3) by (simp add: unat_sub)
    then show ?thesis using d w cfg by (simp add: word_less_nat_alt)
  next
    case False
    then show ?thesis
      using g sum g0b by (simp add: heap_grow_def Let_def w_def[symmetric] g0_def[symmetric] word_less_nat_alt)
  qed
qed

lemma heap_grow_None:
  assumes cfg: "unat (heap_cur_size st) \<le> unat (heap_max_limit st)"
    and n: "n + unat (heap_max_limit st) + 0x100018 \<le> 4294967296"
    and g: "heap_grow (of_nat n) st = None"
  shows "unat (heap_max_limit st) < unat (heap_cur_size st) + n + 24"
proof -
  have "(of_nat n + HEADER_SIZE :: u32) = of_nat (n + 24)" by simp
  then have w: "unat (of_nat n + HEADER_SIZE :: u32) = n + 24" using n by (simp only: u32_offset)
  show ?thesis
    using g w cfg by (auto simp: heap_grow_def Let_def word_less_nat_alt word_le_nat_alt unat_sub
        split: if_splits)
qed

lemma stats_grow:
  assumes "24 \<le> g"
  shows "(stats_of bs)\<lparr>total_size := total_size (stats_of bs) + of_nat g,
      free_size := free_size (stats_of bs) + of_nat (g - 24), num_blocks := num_blocks (stats_of bs) + 1\<rparr>
    = stats_of (bs @ [(g - 24, True)])"
  using assms by (simp add: stats_of_def of_nat_diff)

lemma heap_expand_full:
  "heap_grow (of_nat n) st = None \<Longrightarrow> heap_expand (of_nat n) st = Some (False, st)"
  by (simp add: heap_expand_def)

lemma heap_ok_snoc_tail:
  assumes "heap_ok st bs"
  obtains zs b where "bs = zs @ [b]" "lastp 0 (unat (heap_base_addr st)) bs = of_nat (unat (heap_base_addr st) + span zs)"
proof -
  obtain zs b where "bs = zs @ [b]" using assms by (cases bs rule: rev_cases) (auto simp: heap_ok_def)
  then show ?thesis using that[of zs b] by (simp del: of_nat_add)
qed

text \<open>The state after the new block has been linked in, before it is merged with its neighbour.\<close>

definition grown_state :: "heap_state \<Rightarrow> blk list \<Rightarrow> u32 \<Rightarrow> heap_state" where
  "grown_state st bs g =
     (let E = unat (heap_base_addr st) + span bs;
          T = unat (heap_base_addr st) + span (butlast bs)
      in st\<lparr>pmm := pmm_reserve_region (of_nat E) g (pmm st), mem := grown_mem T E (unat g) (mem st),
           heap_cur_size := heap_cur_size st + g, heap_stats := stats_of (bs @ [(unat g - 24, True)])\<rparr>)"

lemma grown_state_ok:
  assumes ok: "heap_ok st bs"
    and gb: "24 \<le> unat g" "unat (heap_cur_size st) + unat g \<le> unat (heap_max_limit st)"
  shows "heap_ok (grown_state st bs g) (bs @ [(unat g - 24, True)])" "keeps st bs (grown_state st bs g)"
proof -
  let ?b = "unat (heap_base_addr st)"
  define E where "E = ?b + span bs"
  obtain zs b where zs: "bs = zs @ [b]" using heap_ok_snoc_tail[OF ok] .
  define T where "T = ?b + span zs"
  define m2 where "m2 = grown_mem T E (unat g) (mem st)"
  have st2: "grown_state st bs g = st\<lparr>pmm := pmm_reserve_region (of_nat E) g (pmm st), mem := m2,
     heap_cur_size := heap_cur_size st + g, heap_stats := stats_of (bs @ [(unat g - 24, True)])\<rparr>"
    by (simp add: grown_state_def Let_def m2_def T_def E_def zs)
  have cur: "unat (heap_cur_size st) = span bs" and lim: "?b + unat (heap_max_limit st) < 4294967296"
    and ch: "chain (mem st) ?b 0 bs 0"
    using ok by (auto simp: heap_ok_def)
  have Eb: "E + unat g < 4294967296" using cur lim gb E_def by simp
  have "chain m2 ?b 0 (bs @ [(unat g - 24, True)]) 0"
    unfolding m2_def zs using ch zs gb Eb by (intro grown_chain) (auto simp: T_def E_def)
  moreover have "unat (heap_cur_size st + g) = span bs + unat g"
    using cur gb lim by (simp add: unat_word_ariths)
  ultimately show "heap_ok (grown_state st bs g) (bs @ [(unat g - 24, True)])"
    using ok gb cur by (simp add: st2 heap_ok_def)
  have oh: "only_headers {T, E} (mem st) m2"
    by (simp add: m2_def grown_mem_def only_headers_set)
  have "m2 (of_nat x) = mem st (of_nat x)" if "x \<in> used_at ?b bs" for x
  proof (rule only_headers_bytes[OF oh])
    have x: "x < T \<or> T + 24 \<le> x" "x < E"
      using that used_at_bounds[of x ?b zs] used_at_bounds[of x T "[b]"] zs used_at_bounds[of x ?b bs]
      by (auto simp: T_def E_def)
    show "x < 4294967296" using x Eb by simp
    fix q assume "q \<in> {T, E}"
    then show "(x < q \<or> q + 20 \<le> x) \<and> q + 24 \<le> 4294967296"
      using x Eb gb zs by (auto simp: T_def E_def)
  qed
  then show "keeps st bs (grown_state st bs g)" by (simp add: keeps_def st2)
qed

lemma heap_expand_eq:
  assumes ok: "heap_ok st bs" and g: "heap_grow w st = Some g"
    and gb: "24 \<le> unat g" "unat (heap_cur_size st) + unat g \<le> unat (heap_max_limit st)"
  shows "heap_expand w st
    = Some (True, coalesce (of_nat (unat (heap_base_addr st) + span bs)) (grown_state st bs g))"
proof -
  let ?b = "unat (heap_base_addr st)"
  define E where "E = ?b + span bs"
  obtain zs b where zs: "bs = zs @ [b]" and tail: "lastp 0 ?b bs = of_nat (?b + span zs)"
    using heap_ok_snoc_tail[OF ok] .
  define T where "T = ?b + span zs"
  have cur: "unat (heap_cur_size st) = span bs" and lim: "?b + unat (heap_max_limit st) < 4294967296"
    and ch: "chain (mem st) ?b 0 bs 0" and b0: "16 \<le> ?b" and ne: "bs \<noteq> []"
    and head: "heap_head st = of_nat ?b" and stats: "heap_stats st = stats_of bs"
    using ok by (auto simp: heap_ok_def)
  have Eb: "E + unat g < 4294967296" using cur lim gb E_def by simp
  have E: "heap_base_addr st + heap_cur_size st = of_nat E"
    unfolding E_def cur[symmetric] by simp
  have g': "g - HEADER_SIZE = of_nat (unat g - 24)" using gb(1) by (simp add: of_nat_diff)
  define m1 where "m1 = (set_next (of_nat E) 0 \<circ> set_is_free (of_nat E) 1 \<circ> set_size (of_nat E) (g - HEADER_SIZE)
     \<circ> set_magic (of_nat E) HEAP_BLOCK_MAGIC) (mem st)"
  have oh1: "only_headers {E} (mem st) m1" by (simp add: m1_def only_headers_set)
  have "chain m1 ?b 0 bs 0" using ch Eb gb(1) unfolding E_def by (subst only_headers_chain[OF oh1[unfolded E_def]]) auto
  then have ft: "find_tail m1 (heap_head st) = Some (of_nat T)"
    unfolding head using find_tail_chain[of m1 ?b 0 bs] tail ne b0 Eb by (simp add: E_def T_def del: of_nat_add)
  define m2 where "m2 = grown_mem T E (unat g) (mem st)"
  have m2: "(set_prev (of_nat E) (of_nat T) \<circ> set_next (of_nat T) (of_nat E)) m1 = m2"
    by (simp add: m2_def grown_mem_def m1_def g')
  have "chain m2 ?b 0 (bs @ [(unat g - 24, True)]) 0"
    using grown_state_ok(1)[OF ok gb] by (simp add: heap_ok_def grown_state_def Let_def m2_def T_def E_def zs)
  then have vE: "blk_size m2 (of_nat E) = of_nat (unat g - 24)"
    unfolding chain_append E_def blk_view by simp
  have "grown_state st bs g = st\<lparr>pmm := pmm_reserve_region (of_nat E) g (pmm st), mem := m2,
     heap_cur_size := heap_cur_size st + g, heap_stats := stats_of (bs @ [(unat g - 24, True)])\<rparr>"
    by (simp add: grown_state_def Let_def m2_def T_def E_def zs)
  then show ?thesis
    using g ft m2 stats_grow[of "unat g" bs] gb(1) vE unfolding heap_expand_def E_def[symmetric]
    by (simp add: E Let_def m1_def[symmetric, unfolded o_def, simplified] stats o_def)
qed

lemma heap_expand_grows:
  assumes ok: "heap_ok st bs" and g: "heap_grow w st = Some g"
    and gb: "24 \<le> unat g" "unat (heap_cur_size st) + unat g \<le> unat (heap_max_limit st)"
  shows "\<exists>st'. heap_expand w st = Some (True, st') \<and> heap_ok st' (join_left bs (unat g - 24) [])
    \<and> keeps st bs st' \<and> used_at (unat (heap_base_addr st)) (join_left bs (unat g - 24) [])
        = used_at (unat (heap_base_addr st)) bs"
proof -
  let ?st = "grown_state st bs g"
  note gr = grown_state_ok[OF ok gb]
  have base: "heap_base_addr ?st = heap_base_addr st" using gr(2) by (simp add: keeps_def)
  have j: "join bs (unat g - 24) [] = join_left bs (unat g - 24) []" by (simp add: join_def)
  note c = coalesce_ok[OF gr(1) refl, unfolded j base]
  show ?thesis using heap_expand_eq[OF assms] c keeps_trans[OF gr(2), of "bs @ [(unat g - 24, True)]"] by simp
qed

section \<open>Allocation and release on the block list\<close>

fun taken :: "nat \<Rightarrow> nat \<Rightarrow> blk list" where
  "taken n s = (if s < n + 40 then [(s, False)] else [(n, False), (s - n - 24, True)])"

definition take_state :: "u32 \<Rightarrow> u32 \<Rightarrow> heap_state \<Rightarrow> heap_state" where
  "take_state block sz st =
     (let st = split_block block sz st; m = set_is_free block 0 (mem st)
      in st\<lparr>mem := m, heap_stats := (heap_stats st)\<lparr>
            used_size := used_size (heap_stats st) + blk_size m block,
            free_size := free_size (heap_stats st) - blk_size m block,
            num_allocations := num_allocations (heap_stats st) + 1\<rparr>\<rparr>)"

lemma kmalloc_unfold:
  "kmalloc req st =
     (if req = 0 \<or> heap_head st = 0 then Some (0, st)
      else
        let sz = (req + 7) AND NOT 7 in
        case find_free_block sz st of
          None \<Rightarrow> None
        | Some b0 \<Rightarrow>
            (case (if b0 = 0 then
                     case heap_expand sz st of
                       None \<Rightarrow> None
                     | Some (ok, st) \<Rightarrow>
                         if ok then map_option (\<lambda>b. (b, st)) (find_free_block sz st) else Some (0, st)
                   else Some (b0, st)) of
               None \<Rightarrow> None
             | Some (block, st) \<Rightarrow>
                 if block = 0 then Some (0, st) else Some (block + HEADER_SIZE, take_state block sz st)))"
  unfolding kmalloc_def take_state_def Let_def by (rule refl)

lemma split_block_small:
  assumes "bv_size (view (mem st) (of_nat A)) = of_nat s" "n \<le> s" "s < n + 40"
    "A + 24 + s < 4294967296" "16 \<le> A"
  shows "split_block (of_nat A) (of_nat n) st = st"
proof -
  have "(of_nat n + HEADER_SIZE + MIN_BLOCK_SIZE :: u32) = of_nat (n + 40)" by simp
  moreover have "of_nat s < (of_nat (n + 40) :: u32)"
    using assms by (simp only: word_less_nat_alt) (simp add: u32_offset del: of_nat_add)
  ultimately have "blk_size (mem st) (of_nat A) < of_nat n + HEADER_SIZE + MIN_BLOCK_SIZE"
    using assms(1) by (simp only: blk_view)
  then show ?thesis by (simp only: split_block_def if_True)
qed

lemma stats_mark:
  "(stats_of (xs @ (s, True) # ys))\<lparr>used_size := used_size (stats_of (xs @ (s, True) # ys)) + of_nat s,
     free_size := free_size (stats_of (xs @ (s, True) # ys)) - of_nat s,
     num_allocations := num_allocations (stats_of (xs @ (s, True) # ys)) + 1\<rparr>
   = stats_of (xs @ (s, False) # ys)"
  by (simp add: stats_of_def)

lemma mark_used_ok:
  assumes ok: "heap_ok st (xs @ (s, True) # ys)" and A: "A = unat (heap_base_addr st) + span xs"
    and m: "m = set_is_free (of_nat A) 0 (mem st)"
  shows "heap_ok (st\<lparr>mem := m, heap_stats := (heap_stats st)\<lparr>
            used_size := used_size (heap_stats st) + blk_size m (of_nat A),
            free_size := free_size (heap_stats st) - blk_size m (of_nat A),
            num_allocations := num_allocations (heap_stats st) + 1\<rparr>\<rparr>) (xs @ (s, False) # ys)"
    "keeps st (xs @ (s, True) # ys) (st\<lparr>mem := m, heap_stats := hs\<rparr>)"
proof -
  let ?b = "unat (heap_base_addr st)"
  have bnd: "?b + span (xs @ (s, True) # ys) < 4294967296" and ch: "chain (mem st) ?b 0 (xs @ (s, True) # ys) 0"
    using ok by (auto simp: heap_ok_def)
  have "blk_size m (of_nat A) = of_nat s"
    using heap_ok_view[OF ok A] by (simp add: m blk_view)
  moreover have "chain m ?b 0 (xs @ (s, False) # ys) 0"
    using mark_chain[OF ch bnd, where g = False] by (simp add: m A)
  ultimately show "heap_ok (st\<lparr>mem := m, heap_stats := (heap_stats st)\<lparr>
            used_size := used_size (heap_stats st) + blk_size m (of_nat A),
            free_size := free_size (heap_stats st) - blk_size m (of_nat A),
            num_allocations := num_allocations (heap_stats st) + 1\<rparr>\<rparr>) (xs @ (s, False) # ys)"
    using ok stats_mark[of xs s ys] by (simp add: heap_ok_def)
  have oh: "only_headers {A} (mem st) m" by (simp add: m only_headers_set)
  have "m (of_nat x) = mem st (of_nat x)" if "x \<in> used_at ?b (xs @ (s, True) # ys)" for x
    using that bnd used_at_bounds[of x ?b xs] used_at_bounds[of x "A + 24 + s" ys] A
    by (intro only_headers_bytes[OF oh]) (auto simp: ac_simps)
  then show "keeps st (xs @ (s, True) # ys) (st\<lparr>mem := m, heap_stats := hs\<rparr>)"
    by (simp add: keeps_def)
qed

lemma take_state_ok:
  assumes ok: "heap_ok st (xs @ (s, True) # ys)" and A: "A = unat (heap_base_addr st) + span xs" and n: "n \<le> s"
  shows "heap_ok (take_state (of_nat A) (of_nat n) st) (xs @ taken n s @ ys)
    \<and> keeps st (xs @ (s, True) # ys) (take_state (of_nat A) (of_nat n) st)"
proof (cases "s < n + 40")
  case True
  have "split_block (of_nat A) (of_nat n) st = st"
    using heap_ok_view[OF ok A] heap_ok_split_chains(3,4)[OF ok A refl] True n A
    by (intro split_block_small[where s = s]) auto
  then show ?thesis using mark_used_ok[OF ok A refl] True by (simp add: take_state_def Let_def)
next
  case False
  let ?st = "split_block (of_nat A) (of_nat n) st"
  note sp = split_block_ok[OF ok A, of n]
  have A': "A = unat (heap_base_addr ?st) + span xs" using sp(2) False A by (simp add: keeps_def)
  note mk = mark_used_ok[OF sp(1) A' refl]
  have "used_at (unat (heap_base_addr st)) (xs @ (s, True) # ys)
      \<subseteq> used_at (unat (heap_base_addr st)) (xs @ (n, True) # (s - n - 24, True) # ys)"
    using False by (auto simp: ac_simps)
  then have "keeps st (xs @ (s, True) # ys) (take_state (of_nat A) (of_nat n) st)"
    unfolding take_state_def Let_def using False by (intro keeps_trans[OF sp(2) mk(2)]) auto
  then show ?thesis using mk(1) False by (simp add: take_state_def Let_def)
qed

end
