(* ===== verification/Heap_Correct.thy ===== *)
theory Heap_Correct
  imports Heap_Blocks
begin

text \<open>
  Correctness of the kernel heap: \<^verbatim>\<open>kmalloc\<close>, \<^verbatim>\<open>kzalloc\<close>, \<^verbatim>\<open>kmalloc_aligned\<close>, \<^verbatim>\<open>kfree\<close> and \<^verbatim>\<open>krealloc\<close>
  against the block list, and the allocator interface other components rely on.
\<close>

unbundle bit_operations_syntax

definition round8 :: "nat \<Rightarrow> nat" where "round8 n = (n + 7) div 8 * 8"

lemma round8_bounds: "n \<le> round8 n" "round8 n \<le> n + 7" "0 < n \<Longrightarrow> 0 < round8 n"
  by (simp_all add: round8_def)

lemma req_round8:
  fixes req :: u32
  assumes "unat req \<le> 0xFFFFFFF8"
  shows "(req + 7) AND NOT 7 = of_nat (round8 (unat req))"
proof -
  have "unat (req + 7) = unat req + 7" using assms by (simp add: unat_word_ariths)
  then have "round8 (unat req) = unat ((req + 7) AND NOT 7)"
    using unat_and_not_mask[of "req + 7" 3] by (simp add: round8_def mask_eq_exp_minus_1)
  then show ?thesis by (simp only: word_of_nat_eq_iff) simp
qed

lemma kmalloc_fit:
  assumes ok: "heap_ok st bs" and req: "0 < unat req" "unat req \<le> 0xFFFFFFF8"
    and fit: "first_fit (round8 (unat req)) bs = Some (xs, s, ys)"
    and A: "A = unat (heap_base_addr st) + span xs"
  shows "kmalloc req st = Some (of_nat (A + 24), take_state (of_nat A) (of_nat (round8 (unat req))) st)"
proof -
  let ?n = "round8 (unat req)"
  have n: "?n < 4294967296" using req round8_bounds[of "unat req"] by simp
  have bs: "bs = xs @ (s, True) # ys" using first_fit_Some[OF fit] by simp
  have "of_nat A \<noteq> (0 :: u32)"
    using heap_ok_split_chains(3,4)[OF ok[unfolded bs] A refl] A by (simp add: word_unat_eq_iff u32_offset del: of_nat_add)
  moreover have "heap_head st \<noteq> 0" using ok by (auto simp: heap_ok_def)
  moreover have "find_free_block (of_nat ?n) st = Some (of_nat A)"
    using find_free_block_ok[OF ok, of "of_nat ?n"] fit n A by (simp add: u32_offset)
  ultimately show ?thesis
    unfolding kmalloc_unfold Let_def req_round8[OF req(2)] using req by auto
qed

lemma kmalloc_full:
  assumes ok: "heap_ok st bs" and req: "0 < unat req" "unat req \<le> 0xFFFFFFF8"
    and fit: "first_fit (round8 (unat req)) bs = None" and g: "heap_grow (of_nat (round8 (unat req))) st = None"
  shows "kmalloc req st = Some (0, st)"
proof -
  have n: "round8 (unat req) < 4294967296" using req round8_bounds[of "unat req"] by simp
  have "find_free_block (of_nat (round8 (unat req))) st = Some 0"
    using find_free_block_ok[OF ok, of "of_nat (round8 (unat req))"] fit n by (simp add: u32_offset)
  then show ?thesis unfolding kmalloc_unfold Let_def req_round8[OF req(2)]
    using g by (simp add: heap_expand_full)
qed

lemma kmalloc_grow:
  assumes ok: "heap_ok st bs" and req: "0 < unat req" "unat req \<le> 0xFFFFFFF8"
    and fit: "first_fit (round8 (unat req)) bs = None"
    and ex: "heap_expand (of_nat (round8 (unat req))) st = Some (True, st1)" "heap_ok st1 bs1"
    and fit1: "first_fit (round8 (unat req)) bs1 = Some (xs, s, ys)"
    and A: "A = unat (heap_base_addr st1) + span xs"
  shows "kmalloc req st = Some (of_nat (A + 24), take_state (of_nat A) (of_nat (round8 (unat req))) st1)"
proof -
  let ?n = "round8 (unat req)"
  have n: "?n < 4294967296" using req round8_bounds[of "unat req"] by simp
  have bs: "bs1 = xs @ (s, True) # ys" using first_fit_Some[OF fit1] by simp
  have "of_nat A \<noteq> (0 :: u32)"
    using heap_ok_split_chains(3,4)[OF ex(2)[unfolded bs] A refl] A by (simp add: word_unat_eq_iff u32_offset del: of_nat_add)
  moreover have "heap_head st \<noteq> 0" using ok by (auto simp: heap_ok_def)
  moreover have "find_free_block (of_nat ?n) st = Some 0"
    using find_free_block_ok[OF ok, of "of_nat ?n"] fit n by (simp add: u32_offset)
  moreover have "find_free_block (of_nat ?n) st1 = Some (of_nat A)"
    using find_free_block_ok[OF ex(2), of "of_nat ?n"] fit1 n A by (simp add: u32_offset)
  ultimately show ?thesis
    unfolding kmalloc_unfold Let_def req_round8[OF req(2)] using req ex(1) by auto
qed

lemma first_fit_join_left:
  assumes "n \<le> g" shows "\<exists>r. first_fit n (join_left bs g []) = Some r"
proof -
  have "\<not> (\<forall>b\<in>set (join_left bs g []). \<not> (snd b \<and> n \<le> fst b))"
    using assms by (auto simp: join_left_def)
  then show ?thesis using first_fit_None[of n "join_left bs g []"] by auto
qed


text \<open>The allocations a block list holds: the address and the size of every used block.\<close>

fun live :: "nat \<Rightarrow> blk list \<Rightarrow> (nat \<times> nat) set" where
  "live a [] = {}"
| "live a (b # bs) = (if snd b then {} else {(a + 24, fst b)}) \<union> live (a + 24 + fst b) bs"

lemma live_append [simp]: "live a (xs @ ys) = live a xs \<union> live (a + span xs) ys"
  by (induction a xs rule: live.induct) (auto simp: add.assoc)

lemma live_bounds: "(p, s) \<in> live a bs \<Longrightarrow> a + 24 \<le> p \<and> p + s \<le> a + span bs"
  by (induction a bs rule: live.induct) (fastforce split: if_splits)+

lemma used_at_live: "used_at a bs = (\<Union>(p, s)\<in>live a bs. {p ..< p + s})"
  by (induction a bs rule: live.induct) auto

lemma live_split: "(p, s) \<in> live a bs \<Longrightarrow> \<exists>xs ys. bs = xs @ (s, False) # ys \<and> p = a + span xs + 24"
proof (induction a bs rule: live.induct)
  case (2 a b bs)
  show ?case
  proof (cases "(p, s) \<in> live (a + 24 + fst b) bs")
    case True
    then obtain xs ys where "bs = xs @ (s, False) # ys" "p = a + 24 + fst b + span xs + 24" using 2 by blast
    then show ?thesis by (intro exI[of _ "b # xs"] exI[of _ ys]) simp
  next
    case False
    then have "b = (s, False)" "p = a + 24" using 2(2) by (auto split: if_splits simp: prod_eq_iff)
    then show ?thesis by (intro exI[of _ "[]"] exI[of _ bs]) simp
  qed
qed simp

lemma live_disjoint:
  "(p, s) \<in> live a bs \<Longrightarrow> (q, t) \<in> live a bs \<Longrightarrow> (p, s) \<noteq> (q, t) \<Longrightarrow> p + s + 24 \<le> q \<or> q + t + 24 \<le> p"
proof (induction a bs rule: live.induct)
  case (2 a b bs)
  then show ?case
    using live_bounds[of p s "a + 24 + fst b" bs] live_bounds[of q t "a + 24 + fst b" bs]
    by (auto split: if_splits)
qed simp

text \<open>No two neighbouring blocks are both free.\<close>

fun coalesced :: "blk list \<Rightarrow> bool" where
  "coalesced (a # b # bs) \<longleftrightarrow> \<not> (snd a \<and> snd b) \<and> coalesced (b # bs)"
| "coalesced bs \<longleftrightarrow> True"

lemma coalesced_Cons: "coalesced (b # bs) \<longleftrightarrow> coalesced bs \<and> \<not> (bs \<noteq> [] \<and> snd b \<and> snd (hd bs))"
  by (cases bs) auto

lemma coalesced_append:
  "coalesced (xs @ ys) \<longleftrightarrow> coalesced xs \<and> coalesced ys
     \<and> \<not> (xs \<noteq> [] \<and> ys \<noteq> [] \<and> snd (last xs) \<and> snd (hd ys))"
  by (induction xs) (auto simp: coalesced_Cons)

lemma coalesced_taken: "coalesced (xs @ (s, True) # ys) \<Longrightarrow> coalesced (xs @ taken n s @ ys)"
  by (auto simp: coalesced_append coalesced_Cons)

lemma coalesced_join_left:
  "coalesced xs \<Longrightarrow> coalesced ys \<Longrightarrow> \<not> (ys \<noteq> [] \<and> snd (hd ys)) \<Longrightarrow> coalesced (join_left xs s ys)"
  by (cases xs rule: rev_cases) (auto simp: join_left_def coalesced_append coalesced_Cons)

lemma coalesced_join: "coalesced (xs @ (s, False) # ys) \<Longrightarrow> coalesced (join xs s ys)"
  by (cases "(s, ys)" rule: join_right.cases)
    (auto simp: join_def coalesced_append coalesced_Cons intro!: coalesced_join_left)

definition alloc_result :: "heap_state \<Rightarrow> blk list \<Rightarrow> nat \<Rightarrow> u32 \<Rightarrow> heap_state \<Rightarrow> bool" where
  "alloc_result st bs n p st' \<longleftrightarrow> p \<noteq> 0 \<and> keeps st bs st' \<and>
     (\<exists>bs' s. heap_ok st' bs' \<and> (coalesced bs \<longrightarrow> coalesced bs') \<and> n \<le> s \<and> (unat p, s) \<notin> live (unat (heap_base_addr st)) bs
        \<and> live (unat (heap_base_addr st)) bs' = insert (unat p, s) (live (unat (heap_base_addr st)) bs))"

lemma taken_live:
  assumes "n \<le> s"
  obtains t where "n \<le> t" "live a (xs @ taken n s @ ys) = insert (a + span xs + 24, t) (live a (xs @ (s, True) # ys))"
    "(a + span xs + 24, t) \<notin> live a (xs @ (s, True) # ys)"
proof -
  let ?t = "if s < n + 40 then s else n"
  have "(a + span xs + 24, ?t) \<notin> live a (xs @ (s, True) # ys)"
    using live_bounds[of "a + span xs + 24" ?t a xs] live_bounds[of "a + span xs + 24" ?t "a + span xs + 24 + s" ys]
    by auto
  then show ?thesis using that[of ?t] assms by (auto simp: ac_simps)
qed

lemma take_state_result:
  assumes ok: "heap_ok st bs" and fit: "first_fit n bs = Some (xs, s, ys)"
    and A: "A = unat (heap_base_addr st) + span xs"
  shows "alloc_result st bs n (of_nat (A + 24)) (take_state (of_nat A) (of_nat n) st)"
proof -
  have bs: "bs = xs @ (s, True) # ys" and n: "n \<le> s" using first_fit_Some[OF fit] by auto
  note r = take_state_ok[OF ok[unfolded bs] A n]
  note b = heap_ok_split_chains(3,4)[OF ok[unfolded bs] A refl]
  have p: "unat (of_nat (A + 24) :: u32) = A + 24" using b by (subst u32_offset) auto
  obtain t where "n \<le> t" "live (unat (heap_base_addr st)) (xs @ taken n s @ ys)
      = insert (A + 24, t) (live (unat (heap_base_addr st)) (xs @ (s, True) # ys))"
    "(A + 24, t) \<notin> live (unat (heap_base_addr st)) (xs @ (s, True) # ys)"
    using taken_live[OF n, of "unat (heap_base_addr st)" xs ys] A by auto
  moreover have "of_nat (A + 24) \<noteq> (0 :: u32)" using p by (metis add_is_0 unat_0 zero_neq_numeral)
  ultimately show ?thesis unfolding alloc_result_def p bs using r coalesced_taken by blast
qed


lemma alloc_result_mono:
  assumes "keeps st bs st1" "live (unat (heap_base_addr st)) bs1 = live (unat (heap_base_addr st)) bs"
    and "alloc_result st1 bs1 n p st'" and "m \<le> n" and "coalesced bs \<Longrightarrow> coalesced bs1"
  shows "alloc_result st bs m p st'"
proof -
  have base: "heap_base_addr st1 = heap_base_addr st" using assms(1) by (simp add: keeps_def)
  have "used_at (unat (heap_base_addr st)) bs = used_at (unat (heap_base_addr st)) bs1"
    using assms(2) by (simp add: used_at_live)
  then have "keeps st bs st'" using assms keeps_trans[of st bs st1 bs1 st'] by (auto simp: alloc_result_def)
  then show ?thesis using assms order_trans[OF assms(4)] unfolding alloc_result_def base by metis
qed

lemma join_left_live: "live a (join_left xs s ys) = live a (xs @ (s, True) # ys)"
  by (cases xs rule: rev_cases) (auto simp: join_left_def ac_simps)

lemma join_right_live: "join_right s ys = (s', ys') \<Longrightarrow> live a ((s', True) # ys') = live a ((s, True) # ys)"
  by (cases "(s, ys)" rule: join_right.cases) (auto simp: ac_simps)

lemma join_live: "live a (join xs s ys) = live a (xs @ (s, True) # ys)"
  using join_right_live[of s ys] by (auto simp: join_def join_left_live split: prod.splits)

lemma kmalloc_cases:
  assumes ok: "heap_ok st bs" and req: "0 < unat req"
    and bound: "unat req + unat (heap_max_limit st) + 0x100020 \<le> 4294967296"
  shows "\<exists>p st'. kmalloc req st = Some (p, st') \<and>
    (if (\<exists>b\<in>set bs. snd b \<and> round8 (unat req) \<le> fst b)
        \<or> unat (heap_cur_size st) + round8 (unat req) + 24 \<le> unat (heap_max_limit st)
     then alloc_result st bs (unat req) p st' else p = 0 \<and> st' = st)"
proof -
  let ?n = "round8 (unat req)"
  have r8: "unat req \<le> ?n" "?n \<le> unat req + 7" using round8_bounds by auto
  have req': "unat req \<le> 0xFFFFFFF8" using bound by simp
  have nb: "?n + unat (heap_max_limit st) + 0x100018 \<le> 4294967296" using r8 bound by simp
  have cfg: "unat (heap_cur_size st) \<le> unat (heap_max_limit st)" using ok by (simp add: heap_ok_def)
  show ?thesis
  proof (cases "first_fit ?n bs")
    case (Some r)
    obtain xs s ys where r: "r = (xs, s, ys)" by (cases r) auto
    note fit = Some[unfolded r]
    have "\<exists>b\<in>set bs. snd b \<and> ?n \<le> fst b" using first_fit_Some[OF fit] by auto
    then show ?thesis
      using kmalloc_fit[OF ok req req' fit refl]
        alloc_result_mono[OF keeps_refl refl take_state_result[OF ok fit refl] r8(1)] by auto
  next
    case None
    then have nofit: "\<not> (\<exists>b\<in>set bs. snd b \<and> ?n \<le> fst b)" by (simp add: first_fit_None)
    show ?thesis
    proof (cases "heap_grow (of_nat ?n) st")
      case full: None
      then show ?thesis
        using kmalloc_full[OF ok req req' None full] heap_grow_None[OF cfg nb full] nofit by auto
    next
      case (Some g)
      have g: "?n + 24 \<le> unat g" "unat (heap_cur_size st) + unat g \<le> unat (heap_max_limit st)"
        using heap_grow_Some[OF cfg nb Some] by auto
      let ?bs1 = "join_left bs (unat g - 24) []"
      obtain st1 where st1: "heap_expand (of_nat ?n) st = Some (True, st1)" "heap_ok st1 ?bs1" "keeps st bs st1"
        using heap_expand_grows[OF ok Some] g by auto
      have "?n \<le> unat g - 24" using g by simp
      then obtain xs s ys where fit: "first_fit ?n ?bs1 = Some (xs, s, ys)"
        using first_fit_join_left[of ?n "unat g - 24" bs] by (metis prod_cases3)
      have "live (unat (heap_base_addr st)) ?bs1 = live (unat (heap_base_addr st)) bs"
        by (simp add: join_left_live)
      then show ?thesis
        using kmalloc_grow[OF ok req req' None st1(1,2) fit refl] g nofit
          alloc_result_mono[OF st1(3) _ take_state_result[OF st1(2) fit refl] r8(1)]
          coalesced_join_left[of bs "[]"] by auto
    qed
  qed
qed

lemma length_le_span: "24 * length bs \<le> span bs"
  by (induction bs) auto

lemma used_count_le: "used_count bs \<le> length bs"
  by (simp add: used_count_def)

lemma stats_unmark:
  "(stats_of (xs @ (s, False) # ys))\<lparr>used_size := used_size (stats_of (xs @ (s, False) # ys)) - of_nat s,
     free_size := free_size (stats_of (xs @ (s, False) # ys)) + of_nat s,
     num_allocations := num_allocations (stats_of (xs @ (s, False) # ys)) - 1\<rparr>
   = stats_of (xs @ (s, True) # ys)"
  by (simp add: stats_of_def)

definition freed_state :: "nat \<Rightarrow> heap_state \<Rightarrow> heap_state" where
  "freed_state A st =
     (let m = set_is_free (of_nat A) 1 (mem st); hs = heap_stats st
      in st\<lparr>mem := m, heap_stats := hs\<lparr>used_size := used_size hs - blk_size m (of_nat A),
           free_size := free_size hs + blk_size m (of_nat A),
           num_allocations := (if num_allocations hs > 0 then num_allocations hs - 1 else num_allocations hs)\<rparr>\<rparr>)"

lemma freed_state_ok:
  assumes ok: "heap_ok st (xs @ (s, False) # ys)" and A: "A = unat (heap_base_addr st) + span xs"
  shows "heap_ok (freed_state A st) (xs @ (s, True) # ys)" "keeps st (xs @ (s, False) # ys) (freed_state A st)"
proof -
  let ?b = "unat (heap_base_addr st)" and ?bs = "xs @ (s, False) # ys"
  let ?m = "set_is_free (of_nat A) 1 (mem st)"
  have bnd: "?b + span ?bs < 4294967296" and ch: "chain (mem st) ?b 0 ?bs 0" and hs: "heap_stats st = stats_of ?bs"
    using ok by (auto simp: heap_ok_def)
  have sz: "blk_size ?m (of_nat A) = of_nat s" using heap_ok_view[OF ok A] by (simp add: blk_view)
  have "used_count ?bs < 4294967296" using bnd length_le_span[of ?bs] used_count_le[of ?bs] by linarith
  moreover have "0 < used_count ?bs" by simp
  ultimately have "num_allocations (stats_of ?bs) > 0"
    unfolding stats_of_def by (simp add: word_less_nat_alt u32_offset del: bytes_simps)
  moreover have "chain ?m ?b 0 (xs @ (s, True) # ys) 0"
    using mark_chain[OF ch bnd, where g = True] by (simp add: A)
  ultimately show "heap_ok (freed_state A st) (xs @ (s, True) # ys)"
    using ok stats_unmark[of xs s ys] by (simp add: heap_ok_def freed_state_def Let_def sz hs)
  have oh: "only_headers {A} (mem st) ?m" by (simp add: only_headers_set)
  have "?m (of_nat x) = mem st (of_nat x)" if "x \<in> used_at ?b ?bs" for x
    using that bnd used_at_bounds[of x ?b xs] used_at_bounds[of x "A + 24 + s" ys] A
    by (intro only_headers_bytes[OF oh]) (auto simp: ac_simps)
  then show "keeps st ?bs (freed_state A st)"
    by (simp add: keeps_def freed_state_def Let_def)
qed

lemma kfree_eq:
  assumes ok: "heap_ok st (xs @ (s, False) # ys)" and A: "A = unat (heap_base_addr st) + span xs"
    and s: "0 < s"
  shows "kfree (of_nat (A + 24)) st = coalesce (of_nat A) (freed_state A st)"
proof -
  note v = heap_ok_view[OF ok A]
  note b = heap_ok_split_chains(3,4)[OF ok A refl]
  let ?p = "of_nat (A + 24) :: u32"
  have p: "unat ?p = A + 24" using b by (subst u32_offset) auto
  have blk: "?p - HEADER_SIZE = of_nat A" by simp
  have lim: "unat (heap_base_addr st + HEADER_SIZE) = unat (heap_base_addr st) + 24"
    "unat (heap_base_addr st + heap_cur_size st) = unat (heap_base_addr st) + span (xs @ (s, False) # ys)"
    using ok by (auto simp: heap_ok_def unat_word_ariths)
  have rng: "?p \<noteq> 0" "\<not> ?p < heap_base_addr st + HEADER_SIZE" "\<not> heap_base_addr st + heap_cur_size st \<le> ?p"
    using p lim A s unfolding word_less_nat_alt word_le_nat_alt word_unat_eq_iff by auto
  have kb: "kfree_block ?p st = of_nat A"
    unfolding kfree_block_def blk Let_def using v by (simp add: blk_view)
  have "heap_head st \<noteq> 0" using ok by (auto simp: heap_ok_def)
  then show ?thesis
    using rng v unfolding kfree_def kb Let_def by (simp add: blk_view freed_state_def Let_def)
qed


lemma kfree_live:
  assumes ok: "heap_ok st bs" and p: "(unat p, s) \<in> live (unat (heap_base_addr st)) bs" "0 < s"
  shows "\<exists>bs'. heap_ok (kfree p st) bs' \<and> (coalesced bs \<longrightarrow> coalesced bs') \<and> live (unat (heap_base_addr st)) bs' = live (unat (heap_base_addr st)) bs - {(unat p, s)}
    \<and> keeps st bs' (kfree p st)"
proof -
  let ?b = "unat (heap_base_addr st)"
  obtain xs ys where bs: "bs = xs @ (s, False) # ys" and up: "unat p = ?b + span xs + 24"
    using live_split[OF p(1)] by blast
  define A where "A = ?b + span xs"
  have p': "p = of_nat (A + 24)" using up unfolding A_def by (metis of_nat_unat ucast_id)
  let ?st1 = "freed_state A st" and ?bs1 = "xs @ (s, True) # ys"
  note fr = freed_state_ok[OF ok[unfolded bs] A_def]
  have base: "heap_base_addr ?st1 = heap_base_addr st" using fr(2) by (simp add: keeps_def)
  note co = coalesce_ok[OF fr(1), of A, unfolded base, OF A_def]
  have eq: "kfree p st = coalesce (of_nat A) ?st1"
    unfolding p' by (rule kfree_eq[OF ok[unfolded bs] A_def p(2)])
  have lv: "live ?b ?bs1 = live ?b bs - {(unat p, s)}"
    using live_bounds[of "unat p" s ?b xs] live_bounds[of "unat p" s "?b + span xs + 24 + s" ys] p(2)
    unfolding bs up by auto
  have sub: "used_at ?b (join xs s ys) \<subseteq> used_at ?b bs" "used_at ?b (join xs s ys) \<subseteq> used_at ?b ?bs1"
    using lv join_live[of ?b xs s ys] by (auto simp: used_at_live)
  have "keeps st (join xs s ys) (kfree p st)"
    using fr(2) co sub unfolding eq keeps_def bs base by auto
  then show ?thesis using co lv join_live[of ?b xs s ys] coalesced_join[of xs s ys] unfolding eq bs by metis
qed


section \<open>Initialisation and writes by the owner of a block\<close>

lemma heap_init_at_ok:
  assumes "16 \<le> unat base" "24 \<le> unat sz" "unat sz \<le> unat lim" "unat base + unat lim < 4294967296"
  shows "heap_ok (heap_init_at base sz lim st) [(unat sz - 24, True)]"
proof -
  have "sz - HEADER_SIZE = of_nat (unat sz - 24)" using assms(2) by (simp add: of_nat_diff)
  then show ?thesis using assms
    by (simp add: heap_ok_def heap_init_at_def stats_of_def)
qed

lemma header_not_used: "q \<in> set (addrs a bs) \<Longrightarrow> q \<le> x \<Longrightarrow> x < q + 24 \<Longrightarrow> x \<notin> used_at a bs"
proof (induction a bs rule: addrs.induct)
  case (2 a b bs)
  then show ?case
    using used_at_bounds[of x "a + 24 + fst b" bs] addrs_bounds[of q "a + 24 + fst b" bs]
    by (auto split: if_splits)
qed simp

lemma heap_ok_user_write:
  assumes ok: "heap_ok st bs"
    and m: "\<And>x. unat x \<notin> used_at (unat (heap_base_addr st)) bs \<Longrightarrow> m x = mem st x"
  shows "heap_ok (st\<lparr>mem := m\<rparr>) bs"
proof -
  let ?b = "unat (heap_base_addr st)"
  have "chain m ?b 0 bs 0 = chain (mem st) ?b 0 bs 0"
  proof (rule chain_cong)
    fix q assume q: "q \<in> set (addrs ?b bs)"
    have qb: "q + 24 \<le> 4294967296" using addrs_bounds[OF q] ok by (auto simp: heap_ok_def)
    show "view m (of_nat q) = view (mem st) (of_nat q)"
    proof (rule view_cong, rule m)
      fix x :: u32 assume "unat (x - of_nat q) < 20"
      then have "q \<le> unat x" "unat x < q + 24"
        using qb unat_u32_less[of x] by (auto simp: unat_sub_if' u32_offset split: if_splits)
      then show "unat x \<notin> used_at ?b bs" by (rule header_not_used[OF q])
    qed
  qed
  then show ?thesis using ok by (simp add: heap_ok_def)
qed

lemma live_range:
  assumes "heap_ok st bs" "(p, s) \<in> live (unat (heap_base_addr st)) bs"
  shows "p + s < 4294967296" "16 < p"
  using live_bounds[OF assms(2)] assms(1) by (auto simp: heap_ok_def)

text \<open>Writes into one live block keep the heap and the bytes of the others.\<close>

lemma owner_write:
  assumes ok: "heap_ok st bs'" and lv: "live (unat (heap_base_addr st)) bs' = insert (p, s) (live (unat (heap_base_addr st)) bs)"
    and new: "(p, s) \<notin> live (unat (heap_base_addr st)) bs"
    and m: "\<And>x. \<not> (p \<le> unat x \<and> unat x < p + s) \<Longrightarrow> m x = mem st x"
  shows "heap_ok (st\<lparr>mem := m\<rparr>) bs'" "keeps st bs (st\<lparr>mem := m\<rparr>)"
proof -
  let ?b = "unat (heap_base_addr st)"
  show "heap_ok (st\<lparr>mem := m\<rparr>) bs'"
    using lv by (intro heap_ok_user_write[OF ok] m) (auto simp: used_at_live)
  have "m (of_nat x) = mem st (of_nat x)" if ux: "x \<in> used_at ?b bs" for x
  proof -
    obtain q t where q: "(q, t) \<in> live ?b bs" "q \<le> x" "x < q + t"
      using ux by (auto simp: used_at_live)
    then have q': "(q, t) \<in> live ?b bs'" using lv by simp
    have "p + s + 24 \<le> q \<or> q + t + 24 \<le> p"
      using live_disjoint[of p s ?b bs' q t] lv q(1) new by auto
    moreover have "unat (of_nat x :: u32) = x" using live_range[OF ok q'] q by (intro u32_offset) auto
    ultimately show ?thesis using q by (intro m) auto
  qed
  then show "keeps st bs (st\<lparr>mem := m\<rparr>)" by (simp add: keeps_def)
qed

lemma alloc_result_write:
  assumes r: "alloc_result st bs n p st'"
    and m: "\<And>x. \<not> (unat p \<le> unat x \<and> unat x < unat p + n) \<Longrightarrow> m x = mem st' x"
  shows "alloc_result st bs n p (st'\<lparr>mem := m\<rparr>)"
proof -
  have base: "heap_base_addr st' = heap_base_addr st" and kp: "keeps st bs st'" and p: "p \<noteq> 0"
    using r by (auto simp: alloc_result_def keeps_def)
  obtain bs' s where b: "heap_ok st' bs'" "coalesced bs \<longrightarrow> coalesced bs'" "n \<le> s"
    "(unat p, s) \<notin> live (unat (heap_base_addr st)) bs"
    "live (unat (heap_base_addr st)) bs' = insert (unat p, s) (live (unat (heap_base_addr st)) bs)"
    using r by (auto simp: alloc_result_def)
  have m': "m x = mem st' x" if "\<not> (unat p \<le> unat x \<and> unat x < unat p + s)" for x
    using that b(3) by (intro m) auto
  note w = owner_write[OF b(1), unfolded base, OF b(5,4) m']
  have "keeps st bs (st'\<lparr>mem := m\<rparr>)" using kp w(2) by (auto simp: keeps_def base)
  then show ?thesis using w(1) b p unfolding alloc_result_def by blast
qed

lemma in_range_diff:
  assumes "unat p + n \<le> 4294967296" "unat (x - p :: u32) < n"
  shows "unat p \<le> unat x \<and> unat x < unat p + n"
  using assms unat_u32_less[of x] unat_u32_less[of p] by (auto simp: unat_sub_if' split: if_splits)

lemma alloc_result_range:
  assumes "alloc_result st bs n p st'" shows "unat p + n < 4294967296"
proof -
  have base: "heap_base_addr st' = heap_base_addr st" using assms by (auto simp: alloc_result_def keeps_def)
  then show ?thesis using assms live_range(1)[of st'] by (fastforce simp: alloc_result_def)
qed

lemma kzalloc_ok:
  assumes r: "alloc_result st bs (unat req) p st'" and k: "kmalloc req st = Some (p, st')"
  shows "\<exists>st''. kzalloc req st = Some (p, st'') \<and> alloc_result st bs (unat req) p st''
    \<and> (\<forall>i < unat req. mem st'' (p + of_nat i) = 0)"
proof -
  have p: "p \<noteq> 0" using r by (simp add: alloc_result_def)
  let ?m = "memset p 0 req (mem st')"
  have "alloc_result st bs (unat req) p (st'\<lparr>mem := ?m\<rparr>)"
    using alloc_result_range[OF r] in_range_diff[of p "unat req"]
    by (intro alloc_result_write[OF r]) (auto simp: memset_eq_mfill mfill_def)
  moreover have "?m (p + of_nat i) = 0" if "i < unat req" for i
  proof -
    have "unat (of_nat i :: u32) = i" using that unat_u32_less[of req] by (intro u32_offset) simp
    then show ?thesis using that by (simp add: memset_eq_mfill mfill_def)
  qed
  ultimately show ?thesis using k p by (simp add: kzalloc_def)
qed


section \<open>Aligned allocation\<close>

lemma power_of_2_nat: "0 < n \<Longrightarrow> n AND (n - 1) = 0 \<Longrightarrow> \<exists>k. n = (2::nat) ^ k"
proof (induction n rule: less_induct)
  case (less n)
  show ?case
  proof (cases "even n")
    case True
    then obtain m where m: "n = 2 * m" by auto
    then have m0: "0 < m" "m < n" using less.prems by auto
    have "(2 * m - 1) div 2 = m - 1" using m0 by (cases m) auto
    then have "n AND (n - 1) = 2 * (m AND (m - 1))"
      using m m0 by (subst and_rec) simp
    then have "m AND (m - 1) = 0" using less.prems by simp
    then obtain k where "m = 2 ^ k" using less.IH m0 by blast
    then show ?thesis using m by (intro exI[of _ "Suc k"]) simp
  next
    case False
    then obtain m where m: "n = 2 * m + 1" by (auto elim: oddE)
    have "n AND (n - 1) = 2 * m" using m by (subst and_rec) simp
    then show ?thesis using less.prems m by (intro exI[of _ 0]) simp
  qed
qed

lemma IS_POWER_OF_2_D:
  assumes "IS_POWER_OF_2 x" shows "\<exists>k<32. unat x = 2 ^ k \<and> x = 2 ^ k"
proof -
  have x: "x \<noteq> 0" "x AND (x - 1) = 0" using assms by (auto simp: IS_POWER_OF_2_def)
  have "unat (x - 1) = unat x - 1" using x(1) by (simp add: unat_minus_one)
  then have "unat x AND (unat x - 1) = 0"
    using x(2) by (metis unat_0 unsigned_and_eq)
  then obtain k where k: "unat x = 2 ^ k" using power_of_2_nat[of "unat x"] x(1) by (auto simp: unat_gt_0)
  have "k < 32"
  proof (rule ccontr)
    assume "\<not> k < 32"
    then have "(2::nat) ^ 32 \<le> 2 ^ k" by (intro power_increasing) auto
    then show False using k unat_u32_less[of x] by simp
  qed
  moreover have "x = of_nat (2 ^ k)" using k by (metis of_nat_unat ucast_id)
  ultimately show ?thesis using k by auto
qed

lemma align_up_bounds:
  fixes addr al :: u32
  assumes "IS_POWER_OF_2 al" "unat addr + unat al \<le> 4294967296"
  defines "r \<equiv> (addr + al - 1) AND NOT (al - 1)"
  shows "unat addr \<le> unat r" "unat r < unat addr + unat al" "unat al dvd unat r"
proof -
  obtain k where k: "k < 32" "unat al = 2 ^ k" "al = 2 ^ k" using IS_POWER_OF_2_D[OF assms(1)] by blast
  have "r = ALIGN_UP addr (2 ^ k)" by (simp add: r_def ALIGN_UP_def k(3))
  then have r: "unat r = (unat addr + 2 ^ k - 1) div 2 ^ k * 2 ^ k"
    using unat_ALIGN_UP[OF k(1), of addr] assms(2) k(2) by simp
  show "unat al dvd unat r" using r k by simp
  define d where "d = (2::nat) ^ k"
  have d: "0 < d" by (simp add: d_def)
  have e: "(unat addr + d - 1) mod d + unat r = unat addr + d - 1"
    using r by (simp add: d_def[symmetric])
  have lt: "(unat addr + d - 1) mod d < d" using d by simp
  show "unat addr \<le> unat r" using e lt by linarith
  show "unat r < unat addr + unat al" unfolding k(2) d_def[symmetric] using e d by linarith
qed


lemma kmalloc_aligned_ok:
  assumes al: "IS_POWER_OF_2 al" "8 \<le> unat al" and sum: "unat sz + unat al + 8 < 4294967296"
    and k: "kmalloc (sz + al + 8) st = Some (raw, st1)"
    and r: "alloc_result st bs (unat sz + unat al + 8) raw st1"
  shows "\<exists>p st'. kmalloc_aligned sz al st = Some (p, st')
    \<and> alloc_result st bs (unat sz + unat al + 8) raw st'
    \<and> unat al dvd unat p \<and> unat raw + 8 \<le> unat p \<and> unat p + unat sz < unat raw + (unat sz + unat al + 8)
    \<and> load32 (mem st') (p - 4) = HEAP_ALIGNED_MAGIC \<and> load32 (mem st') (p - 8) = raw"
proof -
  define p where "p = (raw + 8 + al - 1) AND NOT (al - 1)"
  define m where "m = store32 (store32 (mem st1) (p - 4) HEAP_ALIGNED_MAGIC) (p - 8) raw"
  note rng = alloc_result_range[OF r]
  have raw8: "unat (raw + 8) = unat raw + 8" using rng by (simp add: unat_word_ariths)
  have p: "unat raw + 8 \<le> unat p" "unat p < unat raw + 8 + unat al" "unat al dvd unat p"
    using align_up_bounds[OF al(1), of "raw + 8"] rng raw8 by (auto simp: p_def)
  have sub: "unat (p - 4) = unat p - 4" "unat (p - 8) = unat p - 8"
    using p by (simp_all add: unat_sub word_le_nat_alt)
  have out: "m x = mem st1 x" if "\<not> (unat raw \<le> unat x \<and> unat x < unat raw + (unat sz + unat al + 8))" for x
  proof -
    have "4 \<le> x - (p - 4)" "4 \<le> x - (p - 8)"
      using that p sub rng unat_u32_less[of x] by (auto simp: word_le_nat_alt unat_sub_if')
    then show ?thesis by (simp add: m_def store32_other)
  qed
  have "alloc_result st bs (unat sz + unat al + 8) raw (st1\<lparr>mem := m\<rparr>)"
    by (rule alloc_result_write[OF r out])
  moreover have "load32 m (p - 4) = HEAP_ALIGNED_MAGIC" "load32 m (p - 8) = raw"
    by (simp_all add: m_def load32_store32_other word_le_nat_alt)
  moreover have "kmalloc_aligned sz al st = Some (p, st1\<lparr>mem := m\<rparr>)"
  proof -
    have "\<not> al < 8" using al(2) by (simp add: word_less_nat_alt)
    moreover have "raw \<noteq> 0" using r by (simp add: alloc_result_def)
    ultimately show ?thesis using k al(1) by (simp add: kmalloc_aligned_def Let_def p_def m_def)
  qed
  ultimately show ?thesis using p by (intro exI[of _ p] exI[of _ "st1\<lparr>mem := m\<rparr>"]) simp
qed

lemma kfree_aligned:
  assumes ok: "heap_ok st bs" and lv: "(unat raw, t) \<in> live (unat (heap_base_addr st)) bs" "0 < t"
    and p: "unat raw + 8 \<le> unat p" "unat p < unat raw + t"
    and slots: "load32 (mem st) (p - 4) = HEAP_ALIGNED_MAGIC" "load32 (mem st) (p - 8) = raw"
    and stale: "load32 (mem st) (p - HEADER_SIZE) \<noteq> HEAP_BLOCK_MAGIC"
  shows "kfree p st = kfree raw st"
proof -
  let ?b = "unat (heap_base_addr st)"
  have cur: "unat (heap_cur_size st) = span bs" and lim: "?b + span bs < 4294967296" "16 \<le> ?b"
    using ok by (auto simp: heap_ok_def)
  note lb = live_bounds[OF lv(1)]
  have u: "unat (heap_base_addr st + HEADER_SIZE) = ?b + 24" "unat (32 + heap_base_addr st) = ?b + 32"
    "unat (heap_base_addr st + heap_cur_size st) = ?b + span bs"
    using lim lb p lv(2) cur by (simp_all add: unat_word_ariths)
  have rawp: "raw \<noteq> 0" "p \<noteq> 0" "\<not> raw < heap_base_addr st + HEADER_SIZE" "\<not> heap_base_addr st + heap_cur_size st \<le> raw"
    "\<not> p < heap_base_addr st + HEADER_SIZE" "\<not> heap_base_addr st + heap_cur_size st \<le> p" "\<not> p < 32 + heap_base_addr st"
    using u lb p lv(2) lim unfolding word_less_nat_alt word_le_nat_alt word_unat_eq_iff by auto
  obtain xs ys where bs: "bs = xs @ (t, False) # ys" "unat raw = ?b + span xs + 24" using live_split[OF lv(1)] by blast
  have "raw = of_nat (?b + span xs + 24)" using bs(2) by (metis of_nat_unat ucast_id)
  then have rb: "raw - HEADER_SIZE = of_nat (?b + span xs)" by simp
  have "kfree_block raw st = raw - HEADER_SIZE"
    using heap_ok_view[OF ok[unfolded bs(1)] refl] unfolding kfree_block_def Let_def rb by (simp add: blk_view)
  moreover have "kfree_block p st = raw - HEADER_SIZE"
    using stale slots rawp unfolding kfree_block_def Let_def by (simp add: blk_magic_def not_less not_le)
  ultimately show ?thesis using rawp unfolding kfree_def by (simp add: not_less not_le)
qed


section \<open>Reallocation\<close>

lemma live_view:
  assumes ok: "heap_ok st bs" and lv: "(unat p, s) \<in> live (unat (heap_base_addr st)) bs"
  shows "blk_magic (mem st) (p - HEADER_SIZE) = HEAP_BLOCK_MAGIC" "blk_size (mem st) (p - HEADER_SIZE) = of_nat s"
proof -
  let ?b = "unat (heap_base_addr st)"
  obtain xs ys where bs: "bs = xs @ (s, False) # ys" "unat p = ?b + span xs + 24" using live_split[OF lv] by blast
  have "p = of_nat (?b + span xs + 24)" using bs(2) by (metis of_nat_unat ucast_id)
  then have rb: "p - HEADER_SIZE = of_nat (?b + span xs)" by simp
  show "blk_magic (mem st) (p - HEADER_SIZE) = HEAP_BLOCK_MAGIC" "blk_size (mem st) (p - HEADER_SIZE) = of_nat s"
    using heap_ok_view[OF ok[unfolded bs(1)] refl] unfolding rb by (simp_all add: blk_view)
qed

lemma krealloc_moves:
  assumes ok: "heap_ok st bs" and lv: "(unat p, s) \<in> live (unat (heap_base_addr st)) bs" "0 < s"
    and sz: "s < unat n" and k: "kmalloc n st = Some (q, st1)" and r: "alloc_result st bs (unat n) q st1"
  shows "\<exists>st' bs' t. krealloc p n st = Some (q, st') \<and> heap_base_addr st' = heap_base_addr st
    \<and> heap_ok st' bs' \<and> (coalesced bs \<longrightarrow> coalesced bs')
    \<and> unat n \<le> t
    \<and> live (unat (heap_base_addr st)) bs' = insert (unat q, t) (live (unat (heap_base_addr st)) bs - {(unat p, s)})
    \<and> (\<forall>i < s. mem st' (q + of_nat i) = mem st (p + of_nat i))
    \<and> (\<forall>x \<in> used_at (unat (heap_base_addr st)) bs. \<not> (unat p \<le> x \<and> x < unat p + s) \<longrightarrow> mem st' (of_nat x) = mem st (of_nat x))"
proof -
  let ?b = "unat (heap_base_addr st)"
  have base: "heap_base_addr st1 = heap_base_addr st" and kp: "keeps st bs st1" and q0: "q \<noteq> 0"
    using r by (auto simp: alloc_result_def keeps_def)
  obtain bs1 t where b1: "heap_ok st1 bs1" "coalesced bs \<longrightarrow> coalesced bs1" "unat n \<le> t"
    "(unat q, t) \<notin> live ?b bs" "live ?b bs1 = insert (unat q, t) (live ?b bs)"
    using r by (auto simp: alloc_result_def)
  have p0: "p \<noteq> 0" "n \<noteq> 0" using live_range[OF ok lv(1)] sz by auto
  have s: "unat (of_nat s :: u32) = s" using live_range[OF ok lv(1)] by (intro u32_offset) simp
  have lvp1: "(unat p, s) \<in> live (unat (heap_base_addr st1)) bs1" using b1(5) lv(1) base by simp
  have lvq1: "(unat q, t) \<in> live (unat (heap_base_addr st1)) bs1" using b1(5) base by simp
  have sz1: "blk_size (mem st1) (p - HEADER_SIZE) = of_nat s" by (rule live_view(2)[OF b1(1) lvp1])
  have dis: "unat p + s + 24 \<le> unat q \<or> unat q + t + 24 \<le> unat p"
    using b1(4) lv(1) by (intro live_disjoint[OF lvp1 lvq1]) auto
  note rp = live_range[OF b1(1) lvp1] and rq = live_range[OF b1(1) lvq1]
  define m where "m = memcpy q p (of_nat s) (mem st1)"
  have m: "m = mcopy q p s (mem st1)"
    unfolding m_def using rp rq s b1(3) sz by (subst memcpy_eq_mcopy) auto
  have out: "m x = mem st1 x" if "\<not> (unat q \<le> unat x \<and> unat x < unat q + t)" for x
    using that in_range_diff[of q s x] rq b1(3) sz unfolding m mcopy_def by auto
  let ?st2 = "st1\<lparr>mem := m\<rparr>"
  note w = owner_write[OF b1(1), unfolded base, OF b1(5,4) out]
  have lvp2: "(unat p, s) \<in> live (unat (heap_base_addr ?st2)) bs1" using lvp1 by simp
  obtain bs' where bs': "heap_ok (kfree p ?st2) bs'" "coalesced bs1 \<longrightarrow> coalesced bs'"
    "live ?b bs' = live ?b bs1 - {(unat p, s)}" "keeps ?st2 bs' (kfree p ?st2)"
    using kfree_live[OF w(1) lvp2 lv(2)] base by auto
  have call: "krealloc p n st = Some (q, kfree p ?st2)"
  proof -
    have "\<not> of_nat s \<ge> n" using s sz by (simp add: word_le_nat_alt)
    then show ?thesis using p0 q0 k live_view[OF ok lv(1)] sz1 unfolding krealloc_def
      by (simp add: Let_def m_def)
  qed
  have lv': "live ?b bs' = insert (unat q, t) (live ?b bs - {(unat p, s)})"
  proof -
    have "(unat q, t) \<notin> {(unat p, s)}" using b1(4) lv(1) by auto
    then show ?thesis unfolding bs'(3) b1(5) by (simp only: insert_Diff_if if_False)
  qed
  have same: "mem (kfree p ?st2) (of_nat x) = m (of_nat x)" if "x \<in> used_at ?b bs'" for x
    using that bs'(4) base by (simp add: keeps_def)
  have kept: "mem st1 (of_nat x) = mem st (of_nat x)" if "x \<in> used_at ?b bs" for x
    using that kp by (simp add: keeps_def)
  have "mem (kfree p ?st2) (q + of_nat i) = mem st (p + of_nat i)" if i: "i < s" for i
  proof -
    have "unat q + i \<in> used_at ?b bs'" "unat p + i \<in> used_at ?b bs"
      using i lv' lv(1) sz b1(3) unfolding used_at_live by fastforce+
    moreover have "unat (of_nat i :: u32) = i" using i rp by (intro u32_offset) simp
    ultimately show ?thesis using same[of "unat q + i"] kept[of "unat p + i"] i
      by (simp add: m mcopy_def)
  qed
  moreover have "mem (kfree p ?st2) (of_nat x) = mem st (of_nat x)"
    if x: "x \<in> used_at ?b bs" "\<not> (unat p \<le> x \<and> x < unat p + s)" for x
  proof -
    have "x \<in> used_at ?b bs'" using x lv' unfolding used_at_live by fastforce
    moreover have "m (of_nat x) = mem st1 (of_nat x)" using w(2) x(1) base by (simp add: keeps_def)
    ultimately show ?thesis using same kept x by simp
  qed
  moreover have "heap_base_addr (kfree p ?st2) = heap_base_addr st" using bs'(4) base by (simp add: keeps_def)
  ultimately show ?thesis using call bs'(1,2) b1(2,3) lv' by blast
qed

section \<open>The allocator interface\<close>

text \<open>
  What the users of a byte allocator rely on.  \<^term>\<open>holds s L\<close> relates a state to the blocks
  (address and capacity) it has handed out; \<^term>\<open>fits s n\<close> excludes requests that overflow.
\<close>

locale allocator =
  fixes holds :: "'s \<Rightarrow> (nat \<times> nat) set \<Rightarrow> bool" and fits :: "'s \<Rightarrow> u32 \<Rightarrow> bool"
    and byte :: "'s \<Rightarrow> nat \<Rightarrow> u8"
    and alloc :: "u32 \<Rightarrow> 's \<Rightarrow> (u32 \<times> 's) option" and release :: "u32 \<Rightarrow> 's \<Rightarrow> 's"
  assumes alloc_total: "holds s L \<Longrightarrow> 0 < unat n \<Longrightarrow> fits s n \<Longrightarrow> \<exists>p s'. alloc n s = Some (p, s')"
    and alloc_null: "holds s L \<Longrightarrow> 0 < unat n \<Longrightarrow> fits s n \<Longrightarrow> alloc n s = Some (0, s') \<Longrightarrow> s' = s"
    and alloc_block: "holds s L \<Longrightarrow> 0 < unat n \<Longrightarrow> fits s n \<Longrightarrow> alloc n s = Some (p, s') \<Longrightarrow> p \<noteq> 0 \<Longrightarrow>
      \<exists>k. unat n \<le> k \<and> (unat p, k) \<notin> L \<and> holds s' (insert (unat p, k) L)
        \<and> (\<forall>q l x. (q, l) \<in> L \<longrightarrow> q \<le> x \<longrightarrow> x < q + l \<longrightarrow> byte s' x = byte s x)"
    and release_block: "holds s L \<Longrightarrow> (unat p, k) \<in> L \<Longrightarrow> 0 < k \<Longrightarrow>
      holds (release p s) (L - {(unat p, k)})
        \<and> (\<forall>q l x. (q, l) \<in> L - {(unat p, k)} \<longrightarrow> q \<le> x \<longrightarrow> x < q + l \<longrightarrow> byte (release p s) x = byte s x)"
    and blocks_disjoint: "holds s L \<Longrightarrow> (a, i) \<in> L \<Longrightarrow> (b, j) \<in> L \<Longrightarrow> (a, i) \<noteq> (b, j) \<Longrightarrow>
      a + i \<le> b \<or> b + j \<le> a"
begin

lemma alloc_then_release:
  assumes "holds s L" "0 < unat n" "fits s n" "alloc n s = Some (p, s')" "p \<noteq> 0"
  shows "holds (release p s') L"
proof -
  obtain k where k: "unat n \<le> k" "(unat p, k) \<notin> L" "holds s' (insert (unat p, k) L)"
    using alloc_block[OF assms] by blast
  have "holds (release p s') (insert (unat p, k) L - {(unat p, k)})"
    using release_block[OF k(3), of p k] k(1) assms(2) by simp
  then show ?thesis using k(2) by simp
qed

lemma two_allocs:
  assumes "holds s L" "0 < unat n" "fits s n" "alloc n s = Some (p, s1)" "p \<noteq> 0"
    and "0 < unat m" "fits s1 m" "alloc m s1 = Some (q, s2)" "q \<noteq> 0"
  shows "unat p + unat n \<le> unat q \<or> unat q + unat m \<le> unat p"
    and "unat p \<le> x \<Longrightarrow> x < unat p + unat n \<Longrightarrow> byte s2 x = byte s1 x"
    and "unat p \<le> x \<Longrightarrow> x < unat p + unat n \<Longrightarrow> byte (release q s2) x = byte s2 x"
proof -
  obtain k where k: "unat n \<le> k" "holds s1 (insert (unat p, k) L)"
    using alloc_block[OF assms(1-5)] by blast
  obtain l where l: "unat m \<le> l" "(unat q, l) \<notin> insert (unat p, k) L"
    "holds s2 (insert (unat q, l) (insert (unat p, k) L))"
    "\<And>q' l' x. (q', l') \<in> insert (unat p, k) L \<Longrightarrow> q' \<le> x \<Longrightarrow> x < q' + l' \<Longrightarrow> byte s2 x = byte s1 x"
    using alloc_block[OF k(2) assms(6-9)] by blast
  have "unat p + k \<le> unat q \<or> unat q + l \<le> unat p"
    using l(2) by (intro blocks_disjoint[OF l(3)]) auto
  then show "unat p + unat n \<le> unat q \<or> unat q + unat m \<le> unat p" using k(1) l(1) by linarith
  assume x: "unat p \<le> x" "x < unat p + unat n"
  then show "byte s2 x = byte s1 x" using k(1) by (intro l(4)[of "unat p" k]) auto
  have "0 < l" using l(1) assms(6) by simp
  moreover have "(unat p, k) \<in> insert (unat q, l) (insert (unat p, k) L) - {(unat q, l)}" using l(2) by auto
  ultimately show "byte (release q s2) x = byte s2 x"
    using release_block[OF l(3), of q l] x k(1) by (meson insertI1 less_le_trans add_left_mono)
qed

end

definition heap_holds :: "heap_state \<Rightarrow> (nat \<times> nat) set \<Rightarrow> bool" where
  "heap_holds st L \<longleftrightarrow> (\<exists>bs. heap_ok st bs \<and> coalesced bs \<and> L = live (unat (heap_base_addr st)) bs)"

definition heap_fits :: "heap_state \<Rightarrow> u32 \<Rightarrow> bool" where
  "heap_fits st n \<longleftrightarrow> unat n + unat (heap_max_limit st) + 0x100020 \<le> 4294967296"

definition heap_byte :: "heap_state \<Rightarrow> nat \<Rightarrow> u8" where
  "heap_byte st x = mem st (of_nat x)"

lemma keeps_bytes:
  "keeps st bs st' \<Longrightarrow> (q, l) \<in> live (unat (heap_base_addr st)) bs \<Longrightarrow> q \<le> x \<Longrightarrow> x < q + l \<Longrightarrow>
     heap_byte st' x = heap_byte st x"
  by (auto simp: keeps_def used_at_live heap_byte_def)

lemma kmalloc_holds:
  assumes "heap_holds st L" "0 < unat n" "heap_fits st n"
  shows "\<exists>p st'. kmalloc n st = Some (p, st') \<and> (p = 0 \<and> st' = st \<or> p \<noteq> 0 \<and>
     (\<exists>k. unat n \<le> k \<and> (unat p, k) \<notin> L \<and> heap_holds st' (insert (unat p, k) L)
        \<and> (\<forall>q l x. (q, l) \<in> L \<longrightarrow> q \<le> x \<longrightarrow> x < q + l \<longrightarrow> heap_byte st' x = heap_byte st x)))"
proof -
  obtain bs where bs: "heap_ok st bs" "coalesced bs" and L: "L = live (unat (heap_base_addr st)) bs"
    using assms(1) by (auto simp: heap_holds_def)
  obtain p st' where k: "kmalloc n st = Some (p, st')"
    and r: "alloc_result st bs (unat n) p st' \<or> p = 0 \<and> st' = st"
    using kmalloc_cases[OF bs(1) assms(2)] assms(3) by (fastforce simp: heap_fits_def split: if_splits)
  show ?thesis
  proof (cases "p = 0 \<and> st' = st")
    case False
    then have r: "alloc_result st bs (unat n) p st'" using r by blast
    then have base: "heap_base_addr st' = heap_base_addr st" and kp: "keeps st bs st'" and p: "p \<noteq> 0"
      by (auto simp: alloc_result_def keeps_def)
    obtain bs' s where b: "heap_ok st' bs'" "coalesced bs'" "unat n \<le> s" "(unat p, s) \<notin> L"
      "live (unat (heap_base_addr st)) bs' = insert (unat p, s) L"
      using r bs(2) L by (auto simp: alloc_result_def)
    then have "heap_holds st' (insert (unat p, s) L)" unfolding heap_holds_def base by metis
    then show ?thesis using k p b(3,4) keeps_bytes[OF kp] L by blast
  qed (use k in blast)
qed

interpretation kheap: allocator heap_holds heap_fits heap_byte kmalloc kfree
proof
  fix st st' :: heap_state and L and n p :: u32
  assume a: "heap_holds st L" "0 < unat n" "heap_fits st n"
  note k = kmalloc_holds[OF a]
  show "\<exists>p st'. kmalloc n st = Some (p, st')" using k by blast
  show "st' = st" if "kmalloc n st = Some (0, st')" using k that by auto
  show "\<exists>k. unat n \<le> k \<and> (unat p, k) \<notin> L \<and> heap_holds st' (insert (unat p, k) L)
        \<and> (\<forall>q l x. (q, l) \<in> L \<longrightarrow> q \<le> x \<longrightarrow> x < q + l \<longrightarrow> heap_byte st' x = heap_byte st x)"
    if "kmalloc n st = Some (p, st')" "p \<noteq> 0" using k that by auto
next
  fix st :: heap_state and L and p :: u32 and k :: nat
  assume h: "heap_holds st L" and p: "(unat p, k) \<in> L" "0 < k"
  obtain bs where bs: "heap_ok st bs" "coalesced bs" and L: "L = live (unat (heap_base_addr st)) bs"
    using h by (auto simp: heap_holds_def)
  obtain bs' where b: "heap_ok (kfree p st) bs'" "coalesced bs'"
    "live (unat (heap_base_addr st)) bs' = L - {(unat p, k)}" "keeps st bs' (kfree p st)"
    using kfree_live[OF bs(1) p[unfolded L]] bs(2) L by auto
  have base: "heap_base_addr (kfree p st) = heap_base_addr st" using b(4) by (simp add: keeps_def)
  have "heap_holds (kfree p st) (L - {(unat p, k)})" unfolding heap_holds_def base using b(1-3) by metis
  then show "heap_holds (kfree p st) (L - {(unat p, k)})
        \<and> (\<forall>q l x. (q, l) \<in> L - {(unat p, k)} \<longrightarrow> q \<le> x \<longrightarrow> x < q + l \<longrightarrow> heap_byte (kfree p st) x = heap_byte st x)"
    using keeps_bytes[OF b(4)] b(3) by simp
next
  fix st :: heap_state and L and p k q l :: nat
  assume "heap_holds st L" "(p, k) \<in> L" "(q, l) \<in> L" "(p, k) \<noteq> (q, l)"
  then show "p + k \<le> q \<or> q + l \<le> p"
    using live_disjoint[of p k _ _ q l] unfolding heap_holds_def by fastforce
qed

end
