(* ===== verification/Heap_Props.thy ===== *)
theory Heap_Props
  imports Heap_Correct
begin

text \<open>
  The properties of the kernel heap that its users see, from the lemmas of \<^verbatim>\<open>Heap_Correct\<close>, and what happens to a
  request so large that the rounding of its size wraps around.
\<close>
unbundle bit_operations_syntax

section \<open>A freed block stays marked as free\<close>

definition flags_at :: "memory \<Rightarrow> nat \<Rightarrow> u32 \<times> u8" where
  "flags_at m q = (bv_magic (view m (of_nat q)), bv_free (view m (of_nat q)))"

lemma merge_mem_flags:
  assumes "q = X \<or> apart (of_nat q) (of_nat X)" "nx = 0 \<or> apart (of_nat q) nx"
  shows "flags_at (merge_mem X nx sz m) q = flags_at m q"
  using assms unfolding flags_at_def merge_mem_def Let_def by (auto simp: mem_frame)

lemma coalesce_next_flags:
  assumes ok: "heap_ok st (xs @ (s, True) # ys)" and A: "A = unat (heap_base_addr st) + span xs"
  shows "flags_at (mem (coalesce_next (of_nat A) st)) A = flags_at (mem st) A"
proof (cases "\<exists>t zs. ys = (t, True) # zs")
  case True
  then obtain t zs where ys: "ys = (t, True) # zs" by blast
  have "apart (of_nat A) (of_nat (A + 48 + s + t))" if "zs \<noteq> []"
    using that heap_ok_split_chains(4)[OF ok A refl] ys by (intro apart_nat) (cases zs; simp)+
  then show ?thesis
    using coalesce_merges(1)[OF ok[unfolded ys] A refl]
    by (simp add: merge_state_def merge_mem_flags del: of_nat_add)
next
  case False
  then have "coalesce_next (of_nat A) st = st"
  proof (cases ys)
    case Nil
    then show ?thesis using heap_ok_view[OF ok A] by (simp add: coalesce_next_def blk_view)
  next
    case (Cons y zs)
    obtain t where y: "y = (t, False)" using False Cons by (cases y; auto)
    show ?thesis using neighbour_views(1,2)[OF ok[unfolded Cons y] A]
      by (simp add: coalesce_next_def blk_view del: of_nat_add)
  qed
  then show ?thesis by simp
qed

lemma coalesce_prev_flags:
  assumes ok: "heap_ok st (xs @ (s, True) # ys)" and A: "A = unat (heap_base_addr st) + span xs"
  shows "flags_at (mem (coalesce_prev (of_nat A) st)) A = flags_at (mem st) A"
proof (cases xs rule: rev_cases)
  case Nil
  then have "coalesce_prev (of_nat A) st = st"
    using heap_ok_view[OF ok A] by (simp add: coalesce_prev_def blk_view)
  then show ?thesis by simp
next
  case (snoc zs b)
  obtain r f where b: "b = (r, f)" by force
  let ?P = "unat (heap_base_addr st) + span zs"
  have A': "A = ?P + 24 + r" using A snoc b by simp
  have ok': "heap_ok st (zs @ (r, f) # (s, True) # ys)" using ok snoc b by simp
  note v = neighbour_views[OF ok' refl]
  show ?thesis
  proof (cases f)
    case True
    then have okm: "heap_ok st (zs @ (r, True) # (s, True) # ys)" using ok' by simp
    have "apart (of_nat A) (of_nat (?P + 48 + r + s))" if "ys \<noteq> []"
      using that heap_ok_split_chains(4)[OF ok A refl] A' by (intro apart_nat) (cases ys; simp)+
    then show ?thesis
      using coalesce_merges(2)[OF okm refl refl] v(3) unfolding A'
      by (simp add: merge_state_def merge_mem_flags del: of_nat_add)
  next
    case False
    then have "coalesce_prev (of_nat A) st = st"
      using v(1,2) unfolding A' by (simp add: coalesce_prev_def blk_view del: of_nat_add)
    then show ?thesis by simp
  qed
qed

lemma coalesce_flags:
  assumes ok: "heap_ok st (xs @ (s, True) # ys)" and A: "A = unat (heap_base_addr st) + span xs"
  shows "flags_at (mem (coalesce (of_nat A) st)) A = flags_at (mem st) A"
proof -
  obtain s' ys' where j: "join_right s ys = (s', ys')" by force
  note n = coalesce_next_ok[OF ok A j]
  have A': "A = unat (heap_base_addr (coalesce_next (of_nat A) st)) + span xs"
    using n(2) A by (simp add: keeps_def)
  show ?thesis using coalesce_prev_flags[OF n(1) A'] coalesce_next_flags[OF ok A]
    by (simp add: coalesce_def)
qed

lemma kfree_twice:
  assumes ok: "heap_ok st bs" and p: "(unat p, s) \<in> live (unat (heap_base_addr st)) bs" "0 < s"
  shows "kfree p (kfree p st) = kfree p st"
proof -
  let ?b = "unat (heap_base_addr st)"
  obtain xs ys where bs: "bs = xs @ (s, False) # ys" and up: "unat p = ?b + span xs + 24"
    using live_split[OF p(1)] by blast
  define A where "A = ?b + span xs"
  have p': "p = of_nat (A + 24)" using up unfolding A_def by (metis of_nat_unat ucast_id)
  let ?st1 = "freed_state A st" and ?st2 = "kfree p st"
  note fr = freed_state_ok[OF ok[unfolded bs] A_def]
  have base: "heap_base_addr ?st1 = heap_base_addr st" using fr(2) by (simp add: keeps_def)
  have A1: "A = unat (heap_base_addr ?st1) + span xs" unfolding base by (rule A_def)
  have eq: "?st2 = coalesce (of_nat A) ?st1"
    unfolding p' by (rule kfree_eq[OF ok[unfolded bs] A_def p(2)])
  have fl: "blk_magic (mem ?st2) (of_nat A) = HEAP_BLOCK_MAGIC" "blk_is_free (mem ?st2) (of_nat A) = 1"
    using coalesce_flags[OF fr(1) A1] heap_ok_view[OF fr(1) A1] unfolding eq
    by (simp_all add: flags_at_def blk_view)
  have "kfree_block p ?st2 = of_nat A"
    using fl(1) unfolding p' kfree_block_def Let_def by simp
  then show ?thesis using fl unfolding kfree_def[of p ?st2] by (simp add: Let_def)
qed


section \<open>Properties of the heap\<close>

text \<open>The statically initialised heap, before \<^verbatim>\<open>heap_init\<close> runs.\<close>

definition heap_bss :: heap_state where
  "heap_bss = \<lparr>mem = (\<lambda>_. 0), heap_head = 0, heap_base_addr = HEAP_START, heap_cur_size = 0,
     heap_max_limit = HEAP_MAX_SIZE,
     heap_stats = \<lparr>total_size = 0, used_size = 0, free_size = 0, num_allocations = 0, num_blocks = 0\<rparr>,
     pmm = pmm_bss\<rparr>"

lemma heap_init_ok: "heap_ok (heap_init st) [(0x1FFFE8, True)]"
  using heap_init_at_ok[of HEAP_START HEAP_INITIAL_SIZE HEAP_MAX_SIZE st] by (simp add: heap_init_def)

lemma heap_init_holds: "heap_holds (heap_init st) {}"
  unfolding heap_holds_def using heap_init_ok[of st] by (intro exI[of _ "[(0x1FFFE8, True)]"]) simp

lemma heap_init_limits [simp]:
  "heap_max_limit (heap_init st) = HEAP_MAX_SIZE" "heap_cur_size (heap_init st) = HEAP_INITIAL_SIZE"
  by (simp_all add: heap_init_def heap_init_at_def)

text \<open>
  C1.  On every well-formed heap and for every non-zero request that cannot overflow the size
  arithmetic, \<^verbatim>\<open>kmalloc\<close> returns.  Either it returns NULL and changes nothing, which does not happen
  while the heap may still grow by the rounded request, or it returns a block of at
  least the requested size that overlaps no block handed out before; the heap stays well formed,
  fully coalesced, and no byte of an earlier block changes.
\<close>

theorem kmalloc_correct:
  assumes "heap_holds st L" "0 < unat n" "unat n + unat (heap_max_limit st) + 0x100020 \<le> 2 ^ 32"
  shows "\<exists>p st'. kmalloc n st = Some (p, st')
    \<and> (unat (heap_cur_size st) + unat n + 31 \<le> unat (heap_max_limit st) \<longrightarrow> p \<noteq> 0)
    \<and> (p = 0 \<longrightarrow> st' = st)
    \<and> (p \<noteq> 0 \<longrightarrow> (\<exists>k. unat n \<le> k \<and> heap_holds st' (insert (unat p, k) L)
        \<and> (\<forall>q l. (q, l) \<in> L \<longrightarrow> unat p + k \<le> q \<or> q + l \<le> unat p)
        \<and> (\<forall>q l x. (q, l) \<in> L \<longrightarrow> q \<le> x \<longrightarrow> x < q + l \<longrightarrow> mem st' (of_nat x) = mem st (of_nat x))))"
proof -
  have fits: "heap_fits st n" using assms(3) by (simp add: heap_fits_def)
  obtain p st' where k: "kmalloc n st = Some (p, st')" using kheap.alloc_total[OF assms(1,2) fits] by blast
  have null: "p = 0 \<longrightarrow> st' = st" using kheap.alloc_null[OF assms(1,2) fits] k by auto
  obtain bs where bs: "heap_ok st bs" using assms(1) by (auto simp: heap_holds_def)
  have room: "p \<noteq> 0" if "unat (heap_cur_size st) + unat n + 31 \<le> unat (heap_max_limit st)"
  proof -
    have "unat (heap_cur_size st) + round8 (unat n) + 24 \<le> unat (heap_max_limit st)"
      using that round8_bounds(2)[of "unat n"] by simp
    then show ?thesis using kmalloc_cases[OF bs assms(2)] assms(3) k by (auto simp: alloc_result_def)
  qed
  have block: "\<exists>k. unat n \<le> k \<and> heap_holds st' (insert (unat p, k) L)
        \<and> (\<forall>q l. (q, l) \<in> L \<longrightarrow> unat p + k \<le> q \<or> q + l \<le> unat p)
        \<and> (\<forall>q l x. (q, l) \<in> L \<longrightarrow> q \<le> x \<longrightarrow> x < q + l \<longrightarrow> mem st' (of_nat x) = mem st (of_nat x))" if p0: "p \<noteq> 0"
  proof -
    obtain c where c: "unat n \<le> c" "(unat p, c) \<notin> L" "heap_holds st' (insert (unat p, c) L)"
      "\<And>q l x. (q, l) \<in> L \<Longrightarrow> q \<le> x \<Longrightarrow> x < q + l \<Longrightarrow> heap_byte st' x = heap_byte st x"
      using kheap.alloc_block[OF assms(1,2) fits k p0] by blast
    have "unat p + c \<le> q \<or> q + l \<le> unat p" if "(q, l) \<in> L" for q l
      using that c(2) by (intro kheap.blocks_disjoint[OF c(3)]) auto
    then show ?thesis using c by (auto simp: heap_byte_def)
  qed
  show ?thesis using k null room block by auto
qed

theorem kmalloc_correct_witness:
  "\<exists>p st' k. kmalloc 100 (heap_init heap_bss) = Some (p, st') \<and> p \<noteq> 0 \<and> 100 \<le> k \<and> heap_holds st' {(unat p, k)}"
  using kmalloc_correct[OF heap_init_holds, of 100 heap_bss] by auto

text \<open>
  C2.  Releasing a block handed out by the heap removes exactly this block: the heap stays well
  formed and fully coalesced, the bytes of the remaining blocks do not change, and releasing
  the same pointer a second time has no effect.
\<close>

theorem kfree_correct:
  assumes "heap_holds st L" "(unat p, k) \<in> L" "0 < k"
  shows "heap_holds (kfree p st) (L - {(unat p, k)})
    \<and> (\<forall>q l x. (q, l) \<in> L - {(unat p, k)} \<longrightarrow> q \<le> x \<longrightarrow> x < q + l \<longrightarrow>
         mem (kfree p st) (of_nat x) = mem st (of_nat x))
    \<and> kfree p (kfree p st) = kfree p st"
proof -
  obtain bs where "heap_ok st bs" "L = live (unat (heap_base_addr st)) bs"
    using assms(1) by (auto simp: heap_holds_def)
  then have "kfree p (kfree p st) = kfree p st" using kfree_twice assms(2,3) by blast
  then show ?thesis using kheap.release_block[OF assms] by (auto simp: heap_byte_def)
qed

lemma kmalloc_example:
  obtains p st' k where "kmalloc 100 (heap_init heap_bss) = Some (p, st')" "p \<noteq> 0" "100 \<le> k" "heap_holds st' {(unat p, k)}"
  using kmalloc_holds[OF heap_init_holds, of 100 heap_bss]
    kmalloc_cases[OF heap_init_ok, of 100 heap_bss]
  by (auto simp: heap_fits_def round8_def alloc_result_def)

theorem kfree_correct_witness:
  "\<exists>p st'. kmalloc 100 (heap_init heap_bss) = Some (p, st') \<and> heap_holds (kfree p st') {}"
proof -
  obtain p st' k where k: "kmalloc 100 (heap_init heap_bss) = Some (p, st')" "100 \<le> k" "heap_holds st' {(unat p, k)}"
    using kmalloc_example .
  have "heap_holds (kfree p st') ({(unat p, k)} - {(unat p, k)})"
    using kfree_correct[OF k(3), of p k] k(2) by simp
  then show ?thesis using k(1) by auto
qed






lemma heap_init_kmalloc:
  assumes "0 < unat n" "unat n \<le> 0x100000"
  shows "\<exists>p st'. kmalloc n (heap_init st) = Some (p, st')
    \<and> alloc_result (heap_init st) [(0x1FFFE8, True)] (unat n) p st'"
proof -
  have "round8 (unat n) \<le> 0x1FFFE8" using round8_bounds(2)[of "unat n"] assms by simp
  then show ?thesis
    using kmalloc_cases[OF heap_init_ok, of n st] assms by simp
qed


text \<open>
  C23.  Growing a block with \<^verbatim>\<open>krealloc\<close> moves it: on success the new block is large enough, the old
  one is released, the old contents are the first bytes of the new block, and every other block
  keeps its bytes.
\<close>

theorem krealloc_preserves_contents:
  assumes "heap_holds st L" "(unat p, k) \<in> L" "0 < k" "k < unat n"
    and "unat n + unat (heap_max_limit st) + 0x100020 \<le> 2 ^ 32"
  shows "\<exists>q st'. krealloc p n st = Some (q, st') \<and> (q = 0 \<longrightarrow> st' = st) \<and> (q \<noteq> 0 \<longrightarrow> (\<exists>t. unat n \<le> t
      \<and> heap_holds st' (insert (unat q, t) (L - {(unat p, k)}))
      \<and> (\<forall>i < k. mem st' (q + of_nat i) = mem st (p + of_nat i))
      \<and> (\<forall>r l x. (r, l) \<in> L - {(unat p, k)} \<longrightarrow> r \<le> x \<longrightarrow> x < r + l \<longrightarrow> mem st' (of_nat x) = mem st (of_nat x))))"
proof -
  let ?b = "unat (heap_base_addr st)"
  obtain bs where bs: "heap_ok st bs" "coalesced bs" and L: "L = live ?b bs"
    using assms(1) by (auto simp: heap_holds_def)
  have n: "0 < unat n" "unat n + unat (heap_max_limit st) + 0x100020 \<le> 4294967296" using assms by simp_all
  obtain q st1 where k: "kmalloc n st = Some (q, st1)"
    and r: "alloc_result st bs (unat n) q st1 \<or> q = 0 \<and> st1 = st"
    using kmalloc_cases[OF bs(1) n] by (auto split: if_splits)
  show ?thesis
  proof (cases "q = 0")
    case True
    have "\<not> of_nat k \<ge> n" using assms(4) live_range(1)[OF bs(1) assms(2)[unfolded L]]
      by (simp add: word_le_nat_alt u32_offset)
    moreover have "p \<noteq> 0" using live_range(2)[OF bs(1) assms(2)[unfolded L]] by auto
    moreover have "n \<noteq> 0" using n(1) by auto
    ultimately have "krealloc p n st = Some (0, st)"
      using True k r live_view[OF bs(1) assms(2)[unfolded L]]
      by (auto simp: krealloc_def Let_def alloc_result_def)
    then show ?thesis by auto
  next
    case False
    then have r: "alloc_result st bs (unat n) q st1" using r by simp
    obtain st' bs' t where m: "krealloc p n st = Some (q, st')" "heap_base_addr st' = heap_base_addr st"
      "heap_ok st' bs'" "coalesced bs \<longrightarrow> coalesced bs'" "unat n \<le> t"
      "live ?b bs' = insert (unat q, t) (live ?b bs - {(unat p, k)})"
      "\<forall>i < k. mem st' (q + of_nat i) = mem st (p + of_nat i)"
      "\<forall>x \<in> used_at ?b bs. \<not> (unat p \<le> x \<and> x < unat p + k) \<longrightarrow> mem st' (of_nat x) = mem st (of_nat x)"
      using krealloc_moves[OF bs(1) assms(2)[unfolded L] assms(3,4) k r] by (elim exE conjE) rule
    have h: "heap_holds st' (insert (unat q, t) (L - {(unat p, k)}))"
      unfolding heap_holds_def m(2) using m(3,4,6) bs(2) L by metis
    have "mem st' (of_nat x) = mem st (of_nat x)" if "(r, l) \<in> L - {(unat p, k)}" "r \<le> x" "x < r + l" for r l x
    proof (rule m(8)[rule_format])
      have rl: "(r, l) \<in> L" "(unat p, k) \<noteq> (r, l)" using that(1) by blast+
      show "x \<in> used_at ?b bs" using rl(1) that(2,3) unfolding L used_at_live by fastforce
      have "unat p + k \<le> r \<or> r + l \<le> unat p" by (rule kheap.blocks_disjoint[OF assms(1,2) rl])
      then show "\<not> (unat p \<le> x \<and> x < unat p + k)" using that by auto
    qed
    then have "\<exists>t. unat n \<le> t \<and> heap_holds st' (insert (unat q, t) (L - {(unat p, k)}))
        \<and> (\<forall>i < k. mem st' (q + of_nat i) = mem st (p + of_nat i))
        \<and> (\<forall>r l x. (r, l) \<in> L - {(unat p, k)} \<longrightarrow> r \<le> x \<longrightarrow> x < r + l \<longrightarrow> mem st' (of_nat x) = mem st (of_nat x))"
      using m(5,7) h by blast
    then show ?thesis using m(1) False by blast
  qed
qed

lemma heap_init_kmalloc_100:
  "\<exists>st'. kmalloc 100 (heap_init st) = Some (0x400018, st') \<and> heap_holds st' {(0x400018, 104)}
    \<and> heap_max_limit st' = HEAP_MAX_SIZE"
proof -
  let ?st' = "take_state (of_nat 0x400000) (of_nat 104) (heap_init st)"
  have base: "unat (heap_base_addr (heap_init st)) = 0x400000" by (simp add: heap_init_def heap_init_at_def)
  have r: "round8 100 = 104" by (simp add: round8_def)
  have "kmalloc 100 (heap_init st) = Some (of_nat (0x400000 + 24), ?st')"
    using kmalloc_fit[OF heap_init_ok, of 100 "[]" "0x1FFFE8" "[]" "0x400000" st] base r by simp
  moreover have t: "heap_ok ?st' ([] @ taken 104 0x1FFFE8 @ [])" "keeps (heap_init st) [(0x1FFFE8, True)] ?st'"
    using take_state_ok[of "heap_init st" "[]" "0x1FFFE8" "[]" "0x400000" 104] heap_init_ok[of st] base by auto
  moreover have "heap_holds ?st' {(0x400018, 104)}"
    unfolding heap_holds_def using t base by (intro exI[of _ "taken 104 0x1FFFE8"]) (auto simp: keeps_def)
  ultimately show ?thesis by (auto simp: keeps_def)
qed

theorem krealloc_preserves_contents_witness:
  "\<exists>st1 q st2. kmalloc 100 (heap_init heap_bss) = Some (0x400018, st1) \<and> krealloc 0x400018 5000 st1 = Some (q, st2)"
proof -
  obtain st' where k: "kmalloc 100 (heap_init heap_bss) = Some (0x400018, st')"
    "heap_holds st' {(0x400018, 104)}" "heap_max_limit st' = HEAP_MAX_SIZE"
    using heap_init_kmalloc_100 by blast
  show ?thesis using krealloc_preserves_contents[OF k(2), of "0x400018" 104 5000] k(1,3) by auto
qed

section \<open>Requests that overflow\<close>

text \<open>
  C39.  \<^verbatim>\<open>(size + 7) & ~7\<close> is 0 for the seven largest sizes.  The search then accepts the first free block,
  which is split at offset 0: a request for almost 4 GB succeeds with a block of no bytes.
\<close>

theorem kmalloc_huge_request:
  "\<exists>st'. kmalloc 0xFFFFFFFC (heap_init st) = Some (0x400018, st') \<and> heap_holds st' {(0x400018, 0)}"
proof -
  let ?st' = "take_state (of_nat 0x400000) (of_nat 0) (heap_init st)"
  have base: "unat (heap_base_addr (heap_init st)) = 0x400000" "heap_head (heap_init st) = 0x400000"
    by (simp_all add: heap_init_def heap_init_at_def)
  have "find_free_block 0 (heap_init st) = Some 0x400000"
    using find_free_block_ok[OF heap_init_ok, of 0 st] base by simp
  moreover have "(0xFFFFFFFC + 7) AND NOT 7 = (0 :: u32)" by (simp add: word_eq_iff_unsigned)
  ultimately have "kmalloc 0xFFFFFFFC (heap_init st) = Some (0x400018, ?st')"
    using base unfolding kmalloc_unfold Let_def by (simp only:) simp
  moreover have "heap_ok ?st' ([] @ taken 0 0x1FFFE8 @ [])" "keeps (heap_init st) [(0x1FFFE8, True)] ?st'"
    using take_state_ok[of "heap_init st" "[]" "0x1FFFE8" "[]" "0x400000" 0] heap_init_ok[of st] base by auto
  then have "heap_holds ?st' {(0x400018, 0)}"
    unfolding heap_holds_def using base by (intro exI[of _ "taken 0 0x1FFFE8"]) (auto simp: keeps_def)
  ultimately show ?thesis by blast
qed

end
