(* ===== verification/Paging.thy ===== *)
theory Paging
  imports Pmm Memops
begin

text \<open>
  The x86 page tables of \<^verbatim>\<open>src/kernel/paging.c\<close> (second half), in byte memory.  The page directory and
  the tables are arrays of 1024 32-bit words at page-aligned addresses of the identity-mapped window.
  The addresses the linker chooses (\<^verbatim>\<open>bss_end\<close>, \<^verbatim>\<open>static_pt_pool\<close>) are parameters of the state.  The translation
  caches of the processor (\<^verbatim>\<open>invlpg\<close>) hold no state of the kernel and are not modelled.
\<close>

unbundle bit_operations_syntax

abbreviation PAGE_PRESENT :: u32 where "PAGE_PRESENT \<equiv> 0x001"
abbreviation PAGE_WRITABLE :: u32 where "PAGE_WRITABLE \<equiv> 0x002"
abbreviation PAGE_USER :: u32 where "PAGE_USER \<equiv> 0x004"
abbreviation PAGE_PWT :: u32 where "PAGE_PWT \<equiv> 0x008"
abbreviation PAGE_PCD :: u32 where "PAGE_PCD \<equiv> 0x010"
abbreviation IDENTITY_MAP_TABLES :: u32 where "IDENTITY_MAP_TABLES \<equiv> 8"
abbreviation IDENTITY_MAP_SIZE :: u32 where "IDENTITY_MAP_SIZE \<equiv> 0x02000000"
abbreviation STATIC_PT_POOL_COUNT :: u32 where "STATIC_PT_POOL_COUNT \<equiv> 32"

record paging_state =
  pg_mem :: memory
  page_dir :: u32
  static_pt_pool :: u32
  static_pt_used :: u32
  cr0 :: u32
  cr3 :: u32
  pg_pmm :: pmm_state

definition arr_get :: "memory \<Rightarrow> u32 \<Rightarrow> u32 \<Rightarrow> u32" where
  "arr_get m base i = load32 m (base + 4 * i)"

definition arr_set :: "u32 \<Rightarrow> u32 \<Rightarrow> u32 \<Rightarrow> memory \<Rightarrow> memory" where
  "arr_set base i v m = store32 m (base + 4 * i) v"

section \<open>Operations\<close>

definition alloc_page_table :: "paging_state \<Rightarrow> u32 \<times> paging_state" where
  "alloc_page_table st =
     (if static_pt_used st < STATIC_PT_POOL_COUNT then
        let pt = static_pt_pool st + static_pt_used st * 4096 in
        (pt, st\<lparr>static_pt_used := static_pt_used st + 1, pg_mem := memset pt 0 PAGE_SIZE (pg_mem st)\<rparr>)
      else
        let (phys, pm) = pmm_alloc_frame (pg_pmm st) in
        if phys \<noteq> 0 \<and> phys < IDENTITY_MAP_SIZE then
          (phys, st\<lparr>pg_pmm := pm, pg_mem := memset phys 0 PAGE_SIZE (pg_mem st)\<rparr>)
        else (0, st\<lparr>pg_pmm := (if phys \<noteq> 0 then pmm_free_frame phys pm else pm)\<rparr>))"

definition install_table :: "u32 \<Rightarrow> u32 \<Rightarrow> u32 \<Rightarrow> memory \<Rightarrow> memory" where
  "install_table dir pts pt_idx m =
     (let pt = pts + 4 * (pt_idx * 1024);
          m = arr_set dir pt_idx (pt OR PAGE_PRESENT OR PAGE_WRITABLE) m
      in for_u32 0 1024 (\<lambda>pg_idx. arr_set pt pg_idx
           ((pt_idx * 4 * 1024 * 1024 + pg_idx * PAGE_SIZE) OR PAGE_PRESENT OR PAGE_WRITABLE)) m)"

definition paging_install :: "u32 \<Rightarrow> paging_state \<Rightarrow> paging_state" where
  "paging_install bss_end st =
     (let kernel_end = ALIGN_UP bss_end PAGE_SIZE;
          dir = kernel_end;
          pts = kernel_end + PAGE_SIZE;
          m = memset dir 0 PAGE_SIZE (pg_mem st);
          m = for_u32 0 IDENTITY_MAP_TABLES (install_table dir pts) m;
          m = for_u32 IDENTITY_MAP_TABLES 1024 (\<lambda>i. arr_set dir i PAGE_WRITABLE) m
      in st\<lparr>page_dir := dir, pg_mem := m, cr3 := dir, cr0 := cr0 st OR 0x80000000\<rparr>)"

definition pd_index :: "u32 \<Rightarrow> u32" where "pd_index virt = drop_bit 22 virt"
definition pt_index :: "u32 \<Rightarrow> u32" where "pt_index virt = drop_bit 12 virt AND 0x3FF"

definition paging_map :: "u32 \<Rightarrow> u32 \<Rightarrow> u32 \<Rightarrow> paging_state \<Rightarrow> paging_state" where
  "paging_map virt phys flgs st =
     (if page_dir st = 0 then st
      else
        let pde = arr_get (pg_mem st) (page_dir st) (pd_index virt);
            (pt, st) =
              (if pde AND PAGE_PRESENT \<noteq> 0 then (pde AND NOT 0xFFF, st)
               else
                 let (pt, st) = alloc_page_table st in
                 if pt = 0 then (0, st)
                 else (pt, st\<lparr>pg_mem := arr_set (page_dir st) (pd_index virt)
                        (pt OR PAGE_PRESENT OR PAGE_WRITABLE OR (flgs AND (PAGE_USER OR PAGE_PWT OR PAGE_PCD)))
                        (pg_mem st)\<rparr>))
        in if pde AND PAGE_PRESENT = 0 \<and> pt = 0 then st
           else st\<lparr>pg_mem := arr_set pt (pt_index virt) ((phys AND NOT 0xFFF) OR (flgs OR PAGE_PRESENT)) (pg_mem st)\<rparr>)"

text \<open>\<^verbatim>\<open>for (off = 0; off < total; off += PAGE_SIZE)\<close>: \<^verbatim>\<open>total\<close> is a multiple of the page size, so the
  counter reaches it exactly and never wraps.\<close>

function map_pages :: "u32 \<Rightarrow> u32 \<Rightarrow> u32 \<Rightarrow> nat \<Rightarrow> nat \<Rightarrow> paging_state \<Rightarrow> paging_state" where
  "map_pages v_base p_base flgs off tot st =
     (if off < tot
      then map_pages v_base p_base flgs (off + 4096) tot (paging_map (v_base + of_nat off) (p_base + of_nat off) flgs st)
      else st)"
  by auto
termination by (relation "measure (\<lambda>(_, _, _, off, tot, _). tot - off)") auto

declare map_pages.simps [simp del]

definition paging_map_region :: "u32 \<Rightarrow> u32 \<Rightarrow> u32 \<Rightarrow> u32 \<Rightarrow> paging_state \<Rightarrow> paging_state" where
  "paging_map_region virt phys sz flgs st =
     (if sz = 0 then st
      else
        let offset = phys AND (PAGE_SIZE - 1);
            v_base = ALIGN_DOWN virt PAGE_SIZE;
            p_base = ALIGN_DOWN phys PAGE_SIZE;
            tot = ALIGN_UP (sz + offset) PAGE_SIZE
        in map_pages v_base p_base flgs 0 (unat tot) st)"

definition paging_unmap :: "u32 \<Rightarrow> paging_state \<Rightarrow> paging_state" where
  "paging_unmap virt st =
     (if page_dir st = 0 then st
      else
        let pde = arr_get (pg_mem st) (page_dir st) (pd_index virt) in
        if pde AND PAGE_PRESENT = 0 then st
        else st\<lparr>pg_mem := arr_set (pde AND NOT 0xFFF) (pt_index virt) 0 (pg_mem st)\<rparr>)"

definition paging_get_physical :: "u32 \<Rightarrow> paging_state \<Rightarrow> u32" where
  "paging_get_physical virt st =
     (if page_dir st = 0 then virt
      else
        let pde = arr_get (pg_mem st) (page_dir st) (pd_index virt) in
        if pde AND PAGE_PRESENT = 0 then 0
        else
          let pte = arr_get (pg_mem st) (pde AND NOT 0xFFF) (pt_index virt) in
          if pte AND PAGE_PRESENT = 0 then 0
          else (pte AND NOT 0xFFF) OR (virt AND 0xFFF))"

section \<open>Page-aligned arrays\<close>

definition page :: "u32 \<Rightarrow> bool" where
  "page p \<longleftrightarrow> 4096 dvd unat p"

lemma page_bound: "page p \<Longrightarrow> unat p + 4096 \<le> 4294967296"
  using unat_u32_less[of p] unfolding page_def by (auto elim!: dvdE)

lemma page_apart: "page p \<Longrightarrow> page q \<Longrightarrow> p \<noteq> q \<Longrightarrow> unat p + 4096 \<le> unat q \<or> unat q + 4096 \<le> unat p"
  unfolding page_def word_unat_eq_iff by (auto elim!: dvdE)

lemma unat_arr: "page p \<Longrightarrow> i < 1024 \<Longrightarrow> unat (p + 4 * i) = unat p + 4 * unat i"
  using page_bound[of p] by (simp add: word_less_nat_alt unat_word_ariths)

lemma arr_get_set:
  assumes "page p" "page q" "i < 1024" "j < 1024"
  shows "arr_get (arr_set p i v m) q j = (if p = q \<and> i = j then v else arr_get m q j)"
proof (cases "p = q \<and> i = j")
  case False
  have u: "unat (p + 4 * i) = unat p + 4 * unat i" "unat (q + 4 * j) = unat q + 4 * unat j"
    using assms by (simp_all add: unat_arr)
  have lt: "unat i < 1024" "unat j < 1024" using assms by (simp_all add: word_less_nat_alt)
  have "unat (p + 4 * i) + 4 \<le> unat (q + 4 * j) \<or> unat (q + 4 * j) + 4 \<le> unat (p + 4 * i)"
  proof (cases "p = q")
    case True
    then have "unat i \<noteq> unat j" using False by (simp add: word_unat_eq_iff)
    then show ?thesis using u True by auto
  next
    case False
    then show ?thesis using page_apart[OF assms(1,2)] u lt by auto
  qed
  then have "4 \<le> q + 4 * j - (p + 4 * i)" "4 \<le> p + 4 * i - (q + 4 * j)"
    using page_bound[OF assms(1)] page_bound[OF assms(2)] u lt by (auto simp: word_le_nat_alt unat_sub_if')
  then show ?thesis using False by (auto simp: arr_get_def arr_set_def load32_store32_other)
qed (simp add: arr_get_def arr_set_def)

lemma arr_get_memset:
  assumes "page p" "page q" "j < 1024"
  shows "arr_get (memset p 0 PAGE_SIZE m) q j = (if p = q then 0 else arr_get m q j)"
proof -
  have u: "unat (q + 4 * j) = unat q + 4 * unat j" "unat j < 1024" using assms by (simp_all add: unat_arr word_less_nat_alt)
  have off: "memset p 0 PAGE_SIZE m (q + 4 * j + k) = (if p = q then 0 else m (q + 4 * j + k))" if "unat k < 4" for k
  proof -
    have "unat (q + 4 * j + k) = unat q + 4 * unat j + unat k"
      using that u page_bound[OF assms(2)] by (simp add: unat_word_ariths)
    moreover have "unat (4 * j + k) = 4 * unat j + unat k"
      using that u by (simp add: unat_word_ariths)
    ultimately have "unat (q + 4 * j + k - p) < 4096 \<longleftrightarrow> p = q"
      using page_apart[OF assms(1,2)] page_bound[OF assms(1)] u that unat_u32_less[of "q + 4 * j + k"]
      by (cases "p = q") (auto simp: unat_sub_if')
    then show ?thesis by (simp add: memset_eq_mfill mfill_def)
  qed
  from off[of 0] off[of 1] off[of 2] off[of 3] show ?thesis
    by (auto simp: arr_get_def load32_def)
qed


lemma page_mask: "page (x AND NOT 0xFFF)" "page x \<Longrightarrow> x AND NOT 0xFFF = x"
proof -
  have m: "(0xFFF :: u32) = mask 12" by (simp add: mask_eq_exp_minus_1)
  have u: "unat (x AND NOT 0xFFF) = unat x div 4096 * 4096" unfolding m by (simp add: unat_and_not_mask)
  show "page (x AND NOT 0xFFF)" unfolding page_def u by simp
  show "x AND NOT 0xFFF = x" if "page x" using that unfolding page_def word_unat_eq_iff u by simp
qed

lemma and_or_distrib: "((x :: u32) OR y) AND z = (x AND z) OR (y AND z)"
  by (rule bit_eqI) (auto simp: bit_simps)

lemma page_or_flags:
  assumes "page x" "f < 0x1000"
  shows "(x OR f) AND NOT 0xFFF = x"
proof -
  have m: "(0xFFF :: u32) = mask 12" by (simp add: mask_eq_exp_minus_1)
  have f: "f AND NOT 0xFFF = 0"
    unfolding m word_unat_eq_iff unat_and_not_mask using assms(2) by (simp add: word_less_nat_alt)
  show ?thesis unfolding and_or_distrib page_mask(2)[OF assms(1)] f by simp
qed

lemma pd_index_less: "pd_index v < 1024"
  unfolding pd_index_def word_less_nat_alt
  using unat_u32_less[of v] by (simp add: drop_bit_eq_div unat_div)

lemma pt_index_less: "pt_index v < 1024"
proof -
  have m: "(0x3FF :: u32) = mask 10" by (simp add: mask_eq_exp_minus_1)
  show ?thesis unfolding pt_index_def m word_less_nat_alt unat_and_mask by simp
qed

lemma unat_index: "unat (pd_index v) = unat v div 4194304" "unat (pt_index v) = unat v div 4096 mod 1024"
proof -
  have m: "(0x3FF :: u32) = mask 10" by (simp add: mask_eq_exp_minus_1)
  show "unat (pd_index v) = unat v div 4194304"
    unfolding pd_index_def by (simp add: drop_bit_eq_div unat_div)
  show "unat (pt_index v) = unat v div 4096 mod 1024"
    unfolding pt_index_def m unat_and_mask by (simp add: drop_bit_eq_div unat_div)
qed

lemma same_page_iff:
  "pd_index v = pd_index w \<and> pt_index v = pt_index w \<longleftrightarrow> v AND NOT 0xFFF = w AND NOT 0xFFF"
proof -
  have m: "(0xFFF :: u32) = mask 12" by (simp add: mask_eq_exp_minus_1)
  have u: "unat (x AND NOT 0xFFF :: u32) = unat x div 4096 * 4096" for x unfolding m by (simp add: unat_and_not_mask)
  have d: "unat x div 4194304 = unat x div 4096 div 1024" for x :: u32 by (simp add: div_mult2_eq)
  show ?thesis unfolding word_unat_eq_iff unat_index u d
    by auto (metis div_mult_mod_eq)
qed

section \<open>The translation as a function\<close>

text \<open>What the page tables map an address to, ignoring the offset inside the page.\<close>

definition pt_of :: "paging_state \<Rightarrow> u32 \<Rightarrow> u32" where
  "pt_of st i = arr_get (pg_mem st) (page_dir st) i AND NOT 0xFFF"

definition present :: "paging_state \<Rightarrow> u32 \<Rightarrow> bool" where
  "present st i \<longleftrightarrow> i < 1024 \<and> arr_get (pg_mem st) (page_dir st) i AND PAGE_PRESENT \<noteq> 0"

text \<open>
  Well-formed page tables: directory and tables are distinct pages, and the pages that will become
  tables (the rest of the static pool, the free frames) are not in use as such.
\<close>

definition spare_tables :: "paging_state \<Rightarrow> u32 set" where
  "spare_tables st = {static_pt_pool st + k * 4096 | k. static_pt_used st \<le> k \<and> k < STATIC_PT_POOL_COUNT}
     \<union> pmm_avail (pg_pmm st)"

definition paging_inv :: "paging_state \<Rightarrow> bool" where
  "paging_inv st \<longleftrightarrow> page (page_dir st) \<and> page_dir st \<noteq> 0
     \<and> page (static_pt_pool st) \<and> 0 < unat (static_pt_pool st) \<and> unat (static_pt_pool st) + 32 * 4096 \<le> 4294967296
     \<and> pmm_ready (pg_pmm st)
     \<and> (\<forall>k<32. static_pt_pool st + k * 4096 \<notin> pmm_avail (pg_pmm st))
     \<and> (\<forall>i j. present st i \<longrightarrow> present st j \<longrightarrow> pt_of st i = pt_of st j \<longrightarrow> i = j)
     \<and> (\<forall>i. present st i \<longrightarrow> pt_of st i \<noteq> page_dir st \<and> pt_of st i \<notin> spare_tables st)
     \<and> page_dir st \<notin> spare_tables st"


lemma pmm_avail_page: "pmm_inv st \<Longrightarrow> p \<in> pmm_avail st \<Longrightarrow> page p"
  using pmm_frame_bound[of st] by (auto simp: pmm_avail_def page_def unat_frame_addr)

lemma pool_page:
  assumes "page b" "unat b + 32 * 4096 \<le> 4294967296" "k < 32"
  shows "page (b + k * 4096)" "unat (b + k * 4096) = unat b + unat k * 4096"
proof -
  have k: "unat k < 32" using assms(3) by (simp add: word_less_nat_alt)
  show u: "unat (b + k * 4096) = unat b + unat k * 4096" using assms(2) k by (simp add: unat_word_ariths)
  show "page (b + k * 4096)" using assms(1) unfolding page_def u by auto
qed

text \<open>A new table is a zeroed page taken from the spare ones; everything else is kept.\<close>

lemma alloc_page_table_ok:
  assumes inv: "paging_inv st" and a: "alloc_page_table st = (pt, st')" and pt: "pt \<noteq> 0"
  shows "pt \<in> spare_tables st" "page pt" "spare_tables st' \<subseteq> spare_tables st - {pt}"
    "pg_mem st' = memset pt 0 PAGE_SIZE (pg_mem st)" "page_dir st' = page_dir st"
    "static_pt_pool st' = static_pt_pool st" "pmm_ready (pg_pmm st')"
    "pmm_avail (pg_pmm st') \<subseteq> pmm_avail (pg_pmm st)"
proof -
  let ?b = "static_pt_pool st" and ?u = "static_pt_used st"
  have b: "page ?b" "unat ?b + 32 * 4096 \<le> 4294967296" "pmm_ready (pg_pmm st)"
    "\<And>k. k < 32 \<Longrightarrow> ?b + k * 4096 \<notin> pmm_avail (pg_pmm st)"
    using inv by (auto simp: paging_inv_def)
  have "pt \<in> spare_tables st \<and> page pt \<and> spare_tables st' \<subseteq> spare_tables st - {pt}
    \<and> pg_mem st' = memset pt 0 PAGE_SIZE (pg_mem st) \<and> page_dir st' = page_dir st
    \<and> static_pt_pool st' = ?b \<and> pmm_ready (pg_pmm st') \<and> pmm_avail (pg_pmm st') \<subseteq> pmm_avail (pg_pmm st)"
  proof (cases "?u < STATIC_PT_POOL_COUNT")
    case True
    have pt': "pt = ?b + ?u * 4096" and st': "st' = st\<lparr>static_pt_used := ?u + 1, pg_mem := memset pt 0 PAGE_SIZE (pg_mem st)\<rparr>"
      using a True by (auto simp: alloc_page_table_def Let_def)
    have other: "?b + k * 4096 \<noteq> pt" if "?u + 1 \<le> k" "k < 32" for k
    proof -
      have "unat ?u < unat k" using that(1) True by (simp add: add1_le_iff word_less_nat_alt[of ?u k])
      then show ?thesis using pool_page(2)[OF b(1,2)] that True unfolding pt' word_unat_eq_iff by simp
    qed
    have "?u \<le> k" if "?u + 1 \<le> k" for k using that True by (simp add: add1_le_iff)
    then have "spare_tables st' \<subseteq> spare_tables st - {pt}"
      using other b(4)[OF True] unfolding st' spare_tables_def pt' by auto
    moreover have "pt \<in> spare_tables st" using True unfolding spare_tables_def pt' by blast
    ultimately show ?thesis using pool_page(1)[OF b(1,2) True] b(3) st' pt' by simp
  next
    case False
    obtain phys pm where p: "pmm_alloc_frame (pg_pmm st) = (phys, pm)" by force
    have pt': "pt = phys" "phys \<noteq> 0" and st': "st' = st\<lparr>pg_pmm := pm, pg_mem := memset pt 0 PAGE_SIZE (pg_mem st)\<rparr>"
      using a False p pt by (auto simp: alloc_page_table_def Let_def split: if_splits)
    have "pmm_avail (pg_pmm st) \<noteq> {}" using frames.alloc_null_iff[OF b(3)] p pt' by auto
    note f = frames.alloc_some[OF b(3) this p]
    have "pt \<notin> {?b + k * 4096 | k. ?u \<le> k \<and> k < 32}" using b(4) f pt' by auto
    then show ?thesis using f pt' pmm_avail_page[of "pg_pmm st" pt] b(3)
      unfolding st' spare_tables_def by (auto simp: pmm_ready_def)
  qed
  then show "pt \<in> spare_tables st" "page pt" "spare_tables st' \<subseteq> spare_tables st - {pt}"
    "pg_mem st' = memset pt 0 PAGE_SIZE (pg_mem st)" "page_dir st' = page_dir st"
    "static_pt_pool st' = ?b" "pmm_ready (pg_pmm st')" "pmm_avail (pg_pmm st') \<subseteq> pmm_avail (pg_pmm st)"
    by blast+
qed

lemma or_and_nonzero: "f AND z \<noteq> 0 \<Longrightarrow> ((x :: u32) OR f) AND z \<noteq> 0"
  by (simp only: and_or_distrib or_eq_0_iff) simp

definition pte_of :: "paging_state \<Rightarrow> u32 \<Rightarrow> u32" where
  "pte_of st v = (if present st (pd_index v) then arr_get (pg_mem st) (pt_of st (pd_index v)) (pt_index v) else 0)"

lemma get_physical_pte:
  "page_dir st \<noteq> 0 \<Longrightarrow> paging_get_physical v st =
     (if pte_of st v AND PAGE_PRESENT = 0 then 0 else (pte_of st v AND NOT 0xFFF) OR (v AND 0xFFF))"
  by (simp add: paging_get_physical_def pte_of_def present_def pt_of_def pd_index_less Let_def)

lemma page_pt_of [simp]: "page (pt_of st i)"
  by (simp only: pt_of_def page_mask)

text \<open>Writing one entry of an existing table.\<close>

lemma write_pte:
  assumes inv: "paging_inv st" and pr: "present st (pd_index v)"
    and st': "st' = st\<lparr>pg_mem := arr_set (pt_of st (pd_index v)) (pt_index v) x (pg_mem st)\<rparr>"
  shows "paging_inv st'" "pte_of st' v = x" "w AND NOT 0xFFF \<noteq> v AND NOT 0xFFF \<Longrightarrow> pte_of st' w = pte_of st w"
proof -
  let ?i = "pd_index v"
  have dir: "page (page_dir st)" "pt_of st ?i \<noteq> page_dir st"
    and inj: "\<And>i j. present st i \<Longrightarrow> present st j \<Longrightarrow> pt_of st i = pt_of st j \<Longrightarrow> i = j"
    using inv pr by (auto simp: paging_inv_def)
  have pde: "arr_get (pg_mem st') (page_dir st) i = arr_get (pg_mem st) (page_dir st) i" if "i < 1024" for i
    using dir that by (simp add: st' arr_get_set pt_index_less)
  have pres: "present st' i = present st i" and tbl: "present st i \<Longrightarrow> pt_of st' i = pt_of st i" for i
    using pde[of i] by (auto simp: present_def pt_of_def st')
  have same: "page_dir st' = page_dir st" "static_pt_pool st' = static_pt_pool st" "pg_pmm st' = pg_pmm st"
    "spare_tables st' = spare_tables st"
    by (simp_all add: st' spare_tables_def)
  show "paging_inv st'"
    using inv unfolding paging_inv_def same pres by (metis tbl)
  show "pte_of st' v = x"
    using pr tbl[OF pr] by (simp add: pte_of_def pres) (simp add: st' arr_get_set pt_index_less)
  assume w: "w AND NOT 0xFFF \<noteq> v AND NOT 0xFFF"
  show "pte_of st' w = pte_of st w"
  proof (cases "present st (pd_index w)")
    case True
    have "\<not> (pt_of st ?i = pt_of st (pd_index w) \<and> pt_index v = pt_index w)"
      using inj[OF pr True] w same_page_iff[of w v] by auto
    then have "arr_get (pg_mem st') (pt_of st (pd_index w)) (pt_index w) = arr_get (pg_mem st) (pt_of st (pd_index w)) (pt_index w)"
      by (auto simp: st' arr_get_set pt_index_less)
    then show ?thesis using True tbl[OF True] by (simp add: pte_of_def pres)
  qed (simp add: pte_of_def pres)
qed

text \<open>Hooking a fresh zeroed table into the directory changes no translation.\<close>

lemma add_table:
  assumes inv: "paging_inv st" and np: "\<not> present st (pd_index v)"
    and a: "alloc_page_table st = (pt, st1)" and pt: "pt \<noteq> 0"
    and f: "f AND 1 \<noteq> 0" "f AND NOT 0xFFF = 0"
    and st': "st' = st1\<lparr>pg_mem := arr_set (page_dir st1) (pd_index v) (pt OR f) (pg_mem st1)\<rparr>"
  shows "paging_inv st'" "present st' (pd_index v)" "pt_of st' (pd_index v) = pt" "pte_of st' w = pte_of st w"
    "page_dir st' = page_dir st"
proof -
  let ?i = "pd_index v" and ?d = "page_dir st"
  note al = alloc_page_table_ok[OF inv a pt]
  have d: "page ?d" "?d \<noteq> pt" "?d \<notin> spare_tables st" "?d \<noteq> 0" using inv al(1) by (auto simp: paging_inv_def)
  have m': "pg_mem st' = arr_set ?d ?i (pt OR f) (memset pt 0 PAGE_SIZE (pg_mem st))" by (simp add: st' al)
  show dir': "page_dir st' = ?d" by (simp add: st' al)
  have pde: "arr_get (pg_mem st') ?d i = (if i = ?i then pt OR f else arr_get (pg_mem st) ?d i)" if "i < 1024" for i
    using that d al(2) by (simp add: m' arr_get_set arr_get_memset pd_index_less)
  have "(pt OR f) AND NOT 0xFFF = pt" unfolding and_or_distrib page_mask(2)[OF al(2)] f(2) by simp
  then have tbl: "pt_of st' i = (if i = ?i then pt else pt_of st i)" if "i < 1024" for i
    using pde[OF that] by (simp add: pt_of_def dir')
  have "(pt OR f) AND 1 \<noteq> 0" using f(1) by (rule or_and_nonzero)
  then have pres: "present st' i \<longleftrightarrow> present st i \<or> i = ?i" for i
    using pde[of i] by (cases "i = ?i") (auto simp: present_def dir' pd_index_less)
  show "present st' ?i" by (simp add: pres)
  show "pt_of st' ?i = pt" by (simp add: tbl pd_index_less)
  have fresh: "present st i \<Longrightarrow> pt_of st i \<noteq> pt \<and> pt_of st i \<noteq> ?d" for i
    using inv al(1) by (auto simp: paging_inv_def)
  have get: "arr_get (pg_mem st') q j = (if q = pt then 0 else arr_get (pg_mem st) q j)"
    if "page q" "q \<noteq> ?d" "j < 1024" for q j
    using that d al(2) by (simp add: m' arr_get_set arr_get_memset pd_index_less)
  show "pte_of st' w = pte_of st w"
    using np fresh[of "pd_index w"] d(2) get[OF al(2) d(2)[symmetric] pt_index_less]
    by (auto simp: pte_of_def pres tbl pd_index_less get pt_index_less)
  have spare: "spare_tables st' \<subseteq> spare_tables st - {pt}"
    using al(3) by (simp add: st' spare_tables_def)
  have p1024: "present st i \<Longrightarrow> i < 1024" for i by (simp add: present_def)
  have "\<forall>i j. present st' i \<longrightarrow> present st' j \<longrightarrow> pt_of st' i = pt_of st' j \<longrightarrow> i = j"
    using inv fresh np by (auto simp: pres tbl p1024 pd_index_less paging_inv_def)
  moreover have "\<forall>i. present st' i \<longrightarrow> pt_of st' i \<noteq> page_dir st' \<and> pt_of st' i \<notin> spare_tables st'"
    using inv fresh np spare d(2) by (auto simp: pres tbl p1024 pd_index_less paging_inv_def dir')
  moreover have "page_dir st' \<notin> spare_tables st'" using spare d(3) by (auto simp: dir')
  ultimately show "paging_inv st'"
    using inv al(6-8) d unfolding paging_inv_def dir' by (auto simp: st')
qed

lemma paging_map_ok:
  fixes v phys flgs w :: u32
  assumes inv: "paging_inv st" and fl: "flgs AND NOT 0xFFF = 0"
    and tbl: "present st (pd_index v) \<or> fst (alloc_page_table st) \<noteq> 0"
  defines "st' \<equiv> paging_map v phys flgs st" and "x \<equiv> (phys AND NOT 0xFFF) OR (flgs OR PAGE_PRESENT)"
  shows "paging_inv st'" "pte_of st' v = x" "w AND NOT 0xFFF \<noteq> v AND NOT 0xFFF \<Longrightarrow> pte_of st' w = pte_of st w"
    "page_dir st' = page_dir st"
proof -
  let ?i = "pd_index v"
  have d: "page_dir st \<noteq> 0" using inv by (simp add: paging_inv_def)
  have "paging_inv st' \<and> pte_of st' v = x \<and> (\<forall>w. w AND NOT 0xFFF \<noteq> v AND NOT 0xFFF \<longrightarrow> pte_of st' w = pte_of st w)
     \<and> page_dir st' = page_dir st"
  proof (cases "present st ?i")
    case True
    then have "st' = st\<lparr>pg_mem := arr_set (pt_of st ?i) (pt_index v) x (pg_mem st)\<rparr>"
      using d by (simp add: st'_def paging_map_def Let_def present_def pt_of_def x_def)
    then show ?thesis using write_pte[OF inv True] by auto
  next
    case False
    obtain pt st1 where a: "alloc_page_table st = (pt, st1)" by force
    have pt: "pt \<noteq> 0" using tbl False a by simp
    let ?f = "PAGE_PRESENT OR PAGE_WRITABLE OR (flgs AND (PAGE_USER OR PAGE_PWT OR PAGE_PCD))"
    define st2 where "st2 = st1\<lparr>pg_mem := arr_set (page_dir st1) ?i (pt OR ?f) (pg_mem st1)\<rparr>"
    have f: "?f AND 1 \<noteq> 0" "?f AND NOT 0xFFF = 0" by (simp_all add: and_or_distrib and.assoc or_eq_0_iff)
    note t = add_table[OF inv False a pt f st2_def]
    have "st' = st2\<lparr>pg_mem := arr_set (pt_of st2 ?i) (pt_index v) x (pg_mem st2)\<rparr>"
      using d a pt False t(3) by (simp add: st'_def paging_map_def Let_def present_def x_def st2_def pd_index_less or.assoc)
    from write_pte[OF t(1,2) this] this t(4,5) show ?thesis by auto
  qed
  then show "paging_inv st'" "pte_of st' v = x" "w AND NOT 0xFFF \<noteq> v AND NOT 0xFFF \<Longrightarrow> pte_of st' w = pte_of st w"
    "page_dir st' = page_dir st"
    by auto
qed


lemma paging_unmap_ok:
  fixes v w :: u32
  assumes inv: "paging_inv st"
  defines "st' \<equiv> paging_unmap v st"
  shows "paging_inv st'" "pte_of st' v = 0" "w AND NOT 0xFFF \<noteq> v AND NOT 0xFFF \<Longrightarrow> pte_of st' w = pte_of st w"
    "page_dir st' = page_dir st"
proof -
  have d: "page_dir st \<noteq> 0" using inv by (simp add: paging_inv_def)
  have "paging_inv st' \<and> pte_of st' v = 0 \<and> (\<forall>w. w AND NOT 0xFFF \<noteq> v AND NOT 0xFFF \<longrightarrow> pte_of st' w = pte_of st w)
     \<and> page_dir st' = page_dir st"
  proof (cases "present st (pd_index v)")
    case True
    then have "st' = st\<lparr>pg_mem := arr_set (pt_of st (pd_index v)) (pt_index v) 0 (pg_mem st)\<rparr>"
      using d by (simp add: st'_def paging_unmap_def Let_def present_def pt_of_def)
    then show ?thesis using write_pte[OF inv True] by auto
  next
    case False
    then have "st' = st" by (simp add: st'_def paging_unmap_def Let_def present_def pd_index_less)
    then show ?thesis using inv False by (simp add: pte_of_def)
  qed
  then show "paging_inv st'" "pte_of st' v = 0" "w AND NOT 0xFFF \<noteq> v AND NOT 0xFFF \<Longrightarrow> pte_of st' w = pte_of st w"
    "page_dir st' = page_dir st"
    by auto
qed

lemma pte_of_same_page: "w AND NOT 0xFFF = v AND NOT 0xFFF \<Longrightarrow> pte_of st w = pte_of st v"
  using same_page_iff[of w v] by (simp add: pte_of_def)

section \<open>The identity map\<close>

lemma for_arr_set:
  assumes "page p" "lo \<le> hi" "hi \<le> 1024" "page q" "j < 1024"
  shows "arr_get (for_u32 lo hi (\<lambda>i. arr_set p i (f i)) m) q j =
    (if q = p \<and> lo \<le> j \<and> j < hi then f j else arr_get m q j)"
proof -
  let ?P = "\<lambda>k t. \<forall>j<1024. \<forall>q. page q \<longrightarrow> arr_get t q j = (if q = p \<and> lo \<le> j \<and> j < k then f j else arr_get m q j)"
  have "?P hi (for_u32 lo hi (\<lambda>i. arr_set p i (f i)) m)"
  proof (rule for_u32_invariant[where P = ?P])
    show "?P lo m" by auto
    fix k t assume k: "lo \<le> k" "k < hi" and P: "?P k t"
    have k': "k < 1024" using k(2) assms(3) by (rule less_le_trans)
    have lt: "j < k + 1 \<longleftrightarrow> j < k \<or> j = k" for j using less_add1_iff[OF k(2), of j] by auto
    show "?P (k + 1) (arr_set p k (f k) t)"
      using P k k' assms(1) by (auto simp: arr_get_set lt)
  qed (rule assms)
  then show ?thesis using assms by simp
qed

lemma install_table_get:
  assumes "page dir" "page (pts + 4 * (k * 1024))" "page q" "j < 1024" "k < 1024"
    "dir \<noteq> pts + 4 * (k * 1024)"
  shows "arr_get (install_table dir pts k m) q j =
    (if q = pts + 4 * (k * 1024) then (k * 4 * 1024 * 1024 + j * PAGE_SIZE) OR PAGE_PRESENT OR PAGE_WRITABLE
     else if q = dir \<and> j = k then pts + 4 * (k * 1024) OR PAGE_PRESENT OR PAGE_WRITABLE
     else arr_get m q j)"
  using assms by (auto simp: install_table_def Let_def arr_get_set for_arr_set)

lemma paging_install_tables:
  fixes dir i j :: u32 and m0 :: memory
  assumes dir: "page dir" "unat dir + 9 * 4096 \<le> 4294967296"
  defines "T \<equiv> \<lambda>i. dir + PAGE_SIZE + 4 * (i * 1024)"
    and "m \<equiv> for_u32 0 IDENTITY_MAP_TABLES (install_table dir (dir + PAGE_SIZE)) (memset dir 0 PAGE_SIZE m0)"
  shows "i < 8 \<Longrightarrow> page (T i)" "i < 8 \<Longrightarrow> j < 8 \<Longrightarrow> T i = T j \<Longrightarrow> i = j" "i < 8 \<Longrightarrow> T i \<noteq> dir"
    "j < 1024 \<Longrightarrow> arr_get m dir j = (if j < 8 then T j OR PAGE_PRESENT OR PAGE_WRITABLE else 0)"
    "i < 8 \<Longrightarrow> j < 1024 \<Longrightarrow> arr_get m (T i) j = (i * 4 * 1024 * 1024 + j * PAGE_SIZE) OR PAGE_PRESENT OR PAGE_WRITABLE"
proof -
  have u: "unat (T i) = unat dir + 4096 + 4096 * unat i" if "i < 8" for i
    using that dir(2) by (simp add: T_def word_less_nat_alt unat_word_ariths)
  show pg: "page (T i)" if "i < 8" for i using dir(1) unfolding page_def u[OF that] by (simp add: dvd_add)
  show inj: "i = j" if "i < 8" "j < 8" "T i = T j" for i j
    using u[OF that(1)] u[OF that(2)] that(3) by (simp add: word_unat_eq_iff)
  show nd: "T i \<noteq> dir" if "i < 8" for i using u[OF that] by auto
  let ?P = "\<lambda>k t. (\<forall>j<1024. arr_get t dir j = (if j < k then T j OR PAGE_PRESENT OR PAGE_WRITABLE else 0))
    \<and> (\<forall>i<k. \<forall>j<1024. arr_get t (T i) j = (i * 4 * 1024 * 1024 + j * PAGE_SIZE) OR PAGE_PRESENT OR PAGE_WRITABLE)"
  have "?P IDENTITY_MAP_TABLES m" unfolding m_def
  proof (rule for_u32_invariant[where P = ?P])
    show "?P 0 (memset dir 0 PAGE_SIZE m0)" using dir by (simp add: arr_get_memset)
    fix k t assume k: "0 \<le> k" "k < IDENTITY_MAP_TABLES" and P: "?P k t"
    have k': "k < 1024" using k(2) by (rule less_trans) simp
    have lt: "j < k + 1 \<longleftrightarrow> j < k \<or> j = k" for j using less_add1_iff[OF k(2), of j] by auto
    have i8: "i < 8" if "i < k" for i using that k(2) by (rule less_trans)
    have get: "arr_get (install_table dir (dir + PAGE_SIZE) k t) q j =
      (if q = T k then (k * 4 * 1024 * 1024 + j * PAGE_SIZE) OR PAGE_PRESENT OR PAGE_WRITABLE
       else if q = dir \<and> j = k then T k OR PAGE_PRESENT OR PAGE_WRITABLE else arr_get t q j)"
      if "page q" "j < 1024" for q j
      using install_table_get[of dir "dir + PAGE_SIZE" k q j t] that dir pg[OF k(2)] nd[OF k(2)] k'
      unfolding T_def by simp
    have "T i \<noteq> T k" "T i \<noteq> dir" "page (T i)" if "i < k" for i
      using inj[OF i8[OF that] k(2)] nd[OF i8[OF that]] pg[OF i8[OF that]] that by auto
    then show "?P (k + 1) (install_table dir (dir + PAGE_SIZE) k t)"
      using P dir nd[OF k(2)] pg[OF k(2)] by (auto simp: get lt)
  qed simp
  then show "j < 1024 \<Longrightarrow> arr_get m dir j = (if j < 8 then T j OR PAGE_PRESENT OR PAGE_WRITABLE else 0)"
    "i < 8 \<Longrightarrow> j < 1024 \<Longrightarrow> arr_get m (T i) j = (i * 4 * 1024 * 1024 + j * PAGE_SIZE) OR PAGE_PRESENT OR PAGE_WRITABLE"
    for i j by auto
qed


lemma page_base_index: "pd_index v * 4 * 1024 * 1024 + pt_index v * PAGE_SIZE = v AND NOT 0xFFF"
proof -
  have m: "(0xFFF :: u32) = mask 12" by (simp add: mask_eq_exp_minus_1)
  have v: "unat v div 4194304 = unat v div 4096 div 1024" by (simp add: div_mult2_eq)
  have lt: "unat v div 4194304 < 1024" "unat v < 4294967296" using unat_u32_less[of v] by auto
  have q: "unat v div 4096 = unat v div 4194304 * 1024 + unat v div 4096 mod 1024" unfolding v by simp
  have "unat (pd_index v * 4 * 1024 * 1024 + pt_index v * PAGE_SIZE)
    = (unat v div 4194304 * 4194304 + unat v div 4096 mod 1024 * 4096) mod 4294967296"
    by (simp add: unat_word_ariths unat_index mod_simps mult.assoc)
  also have "\<dots> = unat v div 4096 * 4096 mod 4294967296"
    using q by (intro arg_cong[where f = "\<lambda>x. x mod 4294967296"]) linarith
  also have "\<dots> = unat v div 4096 * 4096" using lt(2) by (intro mod_less) (meson div_times_less_eq_dividend le_less_trans)
  finally show ?thesis unfolding m word_unat_eq_iff unat_and_not_mask by simp
qed

lemma paging_install_pte:
  assumes st': "st' = paging_install bss_end st" and dir: "dir = ALIGN_UP bss_end PAGE_SIZE"
    and en: "unat bss_end + 10 * 4096 \<le> 4294967296" "0 < unat bss_end"
  shows "page dir" "page_dir st' = dir" "dir \<noteq> 0"
    "present st' i \<longleftrightarrow> i < 8" "i < 8 \<Longrightarrow> pt_of st' i = dir + PAGE_SIZE + 4 * (i * 1024)"
    "pd_index v < 8 \<Longrightarrow> pte_of st' v = (v AND NOT 0xFFF) OR 3"
proof -
  have u: "unat dir = (unat bss_end + 4095) div 4096 * 4096"
    using unat_ALIGN_UP[of 12 bss_end] en by (simp add: dir)
  show pg: "page dir" unfolding page_def u by simp
  show "page_dir st' = dir" by (simp add: st' paging_install_def Let_def dir)
  note pd = this
  have "unat dir \<le> unat bss_end + 4095" unfolding u by (rule div_times_less_eq_dividend)
  then have bound: "unat dir + 9 * 4096 \<le> 4294967296" using en(1) by simp
  have "0 < unat dir" unfolding u using en(2) by (simp add: div_greater_zero_iff)
  then show "dir \<noteq> 0" by auto
  note T = paging_install_tables(1-3)[OF pg bound] paging_install_tables(4,5)[OF pg bound, where ?m0.0 = "pg_mem st"]
  let ?T = "\<lambda>i. dir + PAGE_SIZE + 4 * (i * 1024)"
  let ?m = "for_u32 0 IDENTITY_MAP_TABLES (install_table dir (dir + PAGE_SIZE)) (memset dir 0 PAGE_SIZE (pg_mem st))"
  have "pg_mem st' = for_u32 8 1024 (\<lambda>i. arr_set dir i PAGE_WRITABLE) ?m"
    by (simp add: st' paging_install_def Let_def dir)
  then have get: "arr_get (pg_mem st') q j = (if q = dir \<and> 8 \<le> j \<and> j < 1024 then PAGE_WRITABLE else arr_get ?m q j)"
    if "page q" "j < 1024" for q j
    using for_arr_set[OF pg _ _ that, of 8 1024 "\<lambda>_. PAGE_WRITABLE" ?m] by simp
  have pde: "arr_get (pg_mem st') dir i = (if i < 8 then ?T i OR 3 else PAGE_WRITABLE)" if "i < 1024" for i
    using get[OF pg that] T(4)[OF that] that by (auto simp: not_less or.assoc)
  have "i < 8 \<Longrightarrow> i < 1024" for i :: u32 by (erule less_trans) simp
  then show pres: "present st' i \<longleftrightarrow> i < 8" for i
    using pde[of i] by (cases "i < 8") (auto simp: present_def pd or_and_nonzero)
  show pt: "pt_of st' i = ?T i" if "i < 8" for i
    using pde[of i] page_or_flags[OF T(1)[OF that], of 3] that less_trans[OF that, of 1024] by (simp add: pt_of_def pd)
  assume v: "pd_index v < 8"
  have "pte_of st' v = arr_get ?m (?T (pd_index v)) (pt_index v)"
    using v pt[OF v] pres get[OF T(1)[OF v] pt_index_less[of v]] T(3)[OF v] by (simp add: pte_of_def)
  also have "\<dots> = (v AND NOT 0xFFF) OR (1 OR 2)"
    unfolding T(5)[OF v pt_index_less] page_base_index or.assoc ..
  finally show "pte_of st' v = (v AND NOT 0xFFF) OR 3" by simp
qed

text \<open>The installed tables are well-formed if the spare pages lie outside the directory and its tables.\<close>

lemma paging_install_inv:
  assumes dir: "dir = ALIGN_UP bss_end PAGE_SIZE" and en: "unat bss_end + 10 * 4096 \<le> 4294967296" "0 < unat bss_end"
    and pool: "page (static_pt_pool st)" "0 < unat (static_pt_pool st)" "unat (static_pt_pool st) + 32 * 4096 \<le> 4294967296"
      "\<forall>k<32. static_pt_pool st + k * 4096 \<notin> pmm_avail (pg_pmm st)"
    and pmm: "pmm_ready (pg_pmm st)"
    and out: "\<forall>p \<in> spare_tables st. unat p < unat dir \<or> unat dir + 9 * 4096 \<le> unat p"
  shows "paging_inv (paging_install bss_end st)"
proof -
  let ?st' = "paging_install bss_end st"
  note p = paging_install_pte[where st = st and st' = ?st', OF refl dir en]
  have same: "static_pt_pool ?st' = static_pt_pool st" "pg_pmm ?st' = pg_pmm st" "spare_tables ?st' = spare_tables st"
    by (simp_all add: paging_install_def Let_def spare_tables_def)
  have "unat dir = (unat bss_end + 4095) div 4096 * 4096"
    using unat_ALIGN_UP[of 12 bss_end] en by (simp add: dir)
  then have "unat dir \<le> unat bss_end + 4095" by simp
  then have b: "unat dir + 9 * 4096 \<le> 4294967296" using en(1) by simp
  note T = paging_install_tables(2,3)[OF p(1) b]
  have u: "unat (dir + PAGE_SIZE + 4 * (i * 1024)) = unat dir + 4096 + 4096 * unat i" if "i < 8" for i
    using that b by (simp add: word_less_nat_alt unat_word_ariths)
  have "dir + PAGE_SIZE + 4 * (i * 1024) \<notin> spare_tables st" if "i < 8" for i
    using out u[OF that] that by (auto simp: word_less_nat_alt dest!: bspec)
  moreover have "dir \<notin> spare_tables st" using out by (auto dest!: bspec)
  ultimately show ?thesis
    using p pool pmm T unfolding paging_inv_def same by auto
qed

definition paging_example :: paging_state where
  "paging_example = paging_install 0x200000 \<lparr>pg_mem = (\<lambda>_. 0), page_dir = 0, static_pt_pool = 0x180000, static_pt_used = 0,
     cr0 = 0x11, cr3 = 0, pg_pmm = pmm_init 0x1402000 0x600000 pmm_bss\<rparr>"

lemma paging_example_inv: "paging_inv paging_example"
proof -
  let ?pm = "pmm_init 0x1402000 0x600000 pmm_bss"
  have hi: "0x1400000 \<le> unat p" if "p \<in> pmm_avail ?pm" for p
  proof -
    obtain f where f: "p = f * PAGE_SIZE" "f < total_frames ?pm" "\<not> frame_used ?pm f"
      using \<open>p \<in> pmm_avail ?pm\<close> by (auto simp: pmm_avail_def)
    then show ?thesis using unat_frame_addr[OF pmm_frame_bound[OF pmm_init_example(1) f(2)]]
      by (simp add: pmm_init_frames)
  qed
  have lo: "unat (0x180000 + k * 4096 :: u32) < 0x1A0000" if "k < 32" for k :: u32
    using that by (simp add: word_less_nat_alt unat_word_ariths)
  have pool: "0x180000 + k * 4096 \<notin> pmm_avail ?pm" if "k < 32" for k
    using hi[of "0x180000 + k * 4096"] lo[OF that] by linarith
  have spare: "unat p < 0x200000 \<or> 0x200000 + 9 * 4096 \<le> unat p"
    if "p \<in> {0x180000 + k * 4096 | k. 0 \<le> k \<and> k < STATIC_PT_POOL_COUNT} \<union> pmm_avail ?pm" for p
    using that lo hi[of p] by force
  show ?thesis unfolding paging_example_def
    by (rule paging_install_inv[OF refl])
      (use pool spare pmm_init_example in \<open>simp_all add: pmm_ready_def spare_tables_def ALIGN_UP_def page_def\<close>)
qed

lemma paging_example_table: "present paging_example (pd_index 0x1234567)"
  using paging_install_pte(4)[of paging_example "0x200000" _ _ "pd_index 0x1234567"]
  by (simp add: paging_example_def pd_index_def drop_bit_eq_div)

section \<open>Properties\<close>

text \<open>C7. \<^verbatim>\<open>paging_map\<close> maps exactly one page: when a page table exists or can be allocated, afterwards every
  address of the page of \<^verbatim>\<open>virt\<close> translates to the same offset in the frame of \<^verbatim>\<open>phys\<close>, every other
  address translates as before, and the tables stay well-formed.\<close>

theorem paging_map_translates:
  assumes "paging_inv st" and "flgs AND NOT 0xFFF = 0"
    and "present st (pd_index virt) \<or> fst (alloc_page_table st) \<noteq> 0"
  shows "paging_inv (paging_map virt phys flgs st)
    \<and> paging_get_physical a (paging_map virt phys flgs st) =
       (if a AND NOT 0xFFF = virt AND NOT 0xFFF then (phys AND NOT 0xFFF) OR (a AND 0xFFF)
        else paging_get_physical a st)"
proof -
  let ?st' = "paging_map virt phys flgs st" and ?x = "(phys AND NOT 0xFFF) OR (flgs OR PAGE_PRESENT)"
  note ok = paging_map_ok[OF assms, where phys = phys]
  have d: "page_dir st \<noteq> 0" using assms(1) by (simp add: paging_inv_def)
  have x: "?x AND NOT 0xFFF = phys AND NOT 0xFFF" "?x AND PAGE_PRESENT \<noteq> 0"
  proof -
    show "?x AND NOT 0xFFF = phys AND NOT 0xFFF"
      unfolding and_or_distrib assms(2) by (simp add: and.assoc)
    show "?x AND PAGE_PRESENT \<noteq> 0" by (intro or_and_nonzero) simp
  qed
  show ?thesis
  proof (cases "a AND NOT 0xFFF = virt AND NOT 0xFFF")
    case True
    have "pte_of ?st' a = ?x" using pte_of_same_page[OF True] ok(2) by simp
    then have "paging_get_physical a ?st' = (phys AND NOT 0xFFF) OR (a AND 0xFFF)"
      using d ok(4) x get_physical_pte[of ?st' a] by presburger
    then show ?thesis using ok(1) True by presburger
  next
    case False
    have "paging_get_physical a ?st' = paging_get_physical a st"
      using d ok(4) get_physical_pte[of ?st' a] get_physical_pte[of st a] ok(3)[OF False] by presburger
    then show ?thesis using ok(1) False by presburger
  qed
qed

theorem paging_map_translates_witness:
  "paging_get_physical 0x1234567 (paging_map 0x1234000 0x5000 3 paging_example) = 0x5567
    \<and> paging_get_physical 0x1235000 (paging_map 0x1234000 0x5000 3 paging_example) = paging_get_physical 0x1235000 paging_example"
proof -
  have "present paging_example (pd_index 0x1234000)"
    using paging_example_table by (simp add: pd_index_def drop_bit_eq_div)
  then show ?thesis
    using paging_map_translates[OF paging_example_inv, of 3 "0x1234000" "0x5000" "0x1234567"]
      paging_map_translates[OF paging_example_inv, of 3 "0x1234000" "0x5000" "0x1235000"]
    by simp
qed

text \<open>C20. \<^verbatim>\<open>paging_unmap\<close> removes the translation of the page of \<^verbatim>\<open>virt\<close> and of no other page.\<close>

theorem paging_unmap_removes:
  assumes "paging_inv st"
  shows "paging_inv (paging_unmap virt st)
    \<and> paging_get_physical a (paging_unmap virt st) =
       (if a AND NOT 0xFFF = virt AND NOT 0xFFF then 0 else paging_get_physical a st)"
proof -
  note ok = paging_unmap_ok[OF assms, where v = virt]
  have d: "page_dir st \<noteq> 0" using assms(1) by (simp add: paging_inv_def)
  then show ?thesis
    using ok(1,2,4) ok(3)[of a] get_physical_pte[of st a] get_physical_pte[of "paging_unmap virt st" a]
      pte_of_same_page[of a virt "paging_unmap virt st"]
    by (cases "a AND NOT 0xFFF = virt AND NOT 0xFFF") simp_all
qed

theorem paging_unmap_removes_witness:
  "paging_get_physical 0x1234567 (paging_unmap 0x1234000 paging_example) = 0"
  using paging_unmap_removes[OF paging_example_inv, of "0x1234000" "0x1234567"] by simp

text \<open>C19. \<^verbatim>\<open>paging_install\<close> turns paging on with the first 32 MB mapped to themselves and nothing else
  mapped, provided the directory and its eight tables fit above \<^verbatim>\<open>bss_end\<close>.\<close>

theorem paging_install_identity:
  assumes "unat bss_end + 10 * 4096 \<le> 4294967296" and "0 < unat bss_end"
  shows "paging_get_physical a (paging_install bss_end st) = (if a < IDENTITY_MAP_SIZE then a else 0)
    \<and> cr3 (paging_install bss_end st) = page_dir (paging_install bss_end st)
    \<and> cr0 (paging_install bss_end st) AND 0x80000000 \<noteq> 0"
proof -
  let ?st' = "paging_install bss_end st"
  note p = paging_install_pte[where st = st and st' = ?st', OF refl refl assms]
  have lt: "a < IDENTITY_MAP_SIZE \<longleftrightarrow> pd_index a < 8"
    by (simp add: word_less_nat_alt unat_index less_mult_imp_div_less) (simp add: div_less_iff_less_mult)
  have c: "cr3 ?st' = page_dir ?st'" "cr0 ?st' AND 0x80000000 \<noteq> 0"
    using or_and_nonzero[of "0x80000000" "0x80000000" "cr0 st"] by (simp_all add: paging_install_def Let_def)
  have split: "(a AND NOT 0xFFF) OR (a AND 0xFFF) = a" by (rule bit_eqI) (auto simp: bit_simps)
  have pte: "((a AND NOT 0xFFF) OR 3) AND NOT 0xFFF = a AND NOT 0xFFF" "((a AND NOT 0xFFF) OR 3) AND PAGE_PRESENT \<noteq> 0"
    using page_or_flags[OF page_mask(1), of 3 a] or_and_nonzero[of 3 1] by simp_all
  have d: "page_dir ?st' \<noteq> 0" using p(2,3) by simp
  have "paging_get_physical a ?st' = (if a < IDENTITY_MAP_SIZE then a else 0)"
  proof (cases "pd_index a < 8")
    case True
    then show ?thesis using get_physical_pte[OF d, of a] p(6)[OF True] lt pte split by presburger
  next
    case False
    then have "pte_of ?st' a = 0" using p(4) by (simp add: pte_of_def)
    then show ?thesis using get_physical_pte[OF d, of a] False lt by simp
  qed
  then show ?thesis using c by simp
qed

theorem paging_install_identity_witness:
  "paging_get_physical 0xB8000 paging_example = 0xB8000 \<and> paging_get_physical 0xFD000000 paging_example = 0"
  using paging_install_identity[of "0x200000" "0xB8000"] paging_install_identity[of "0x200000" "0xFD000000"]
  by (simp add: paging_example_def)

end
