(* ===== verification/Strings.thy ===== *)
theory Strings
  imports Kernel_Prelude "HOL-Library.Sublist"
begin

text \<open>
  The C string routines and the number conversions of \<^verbatim>\<open>src/kernel/common.c\<close>, over byte memory.  A string is a
  pointer; a loop that walks to the terminator is a partial function whose value is None when it has no result:
  when it never meets the end, or, for \<^verbatim>\<open>k_atoi\<close>, when the signed arithmetic overflows, which C leaves undefined.
  Comparisons of \<^verbatim>\<open>char\<close> against letters and digits agree for signed and unsigned bytes, so a character is
  a \<^typ>\<open>u8\<close>.
\<close>

unbundle bit_operations_syntax

section \<open>Byte order\<close>

definition bswap16 :: "u16 \<Rightarrow> u16" where
  "bswap16 v = drop_bit 8 v OR push_bit 8 v"

definition bswap32 :: "u32 \<Rightarrow> u32" where
  "bswap32 v = push_bit 24 (v AND 0x000000FF) OR push_bit 8 (v AND 0x0000FF00)
     OR drop_bit 8 (v AND 0x00FF0000) OR drop_bit 24 (v AND 0xFF000000)"

section \<open>Strings\<close>

definition to_lower_ch :: "u8 \<Rightarrow> u8" where
  "to_lower_ch c = (if 0x41 \<le> c \<and> c \<le> 0x5A then c + (0x61 - 0x41) else c)"

partial_function (option) strlen_from :: "memory \<Rightarrow> u32 \<Rightarrow> u32 \<Rightarrow> u32 option" where
  "strlen_from m s len = (if m (s + len) \<noteq> 0 then strlen_from m s (len + 1) else Some len)"

definition strlen :: "memory \<Rightarrow> u32 \<Rightarrow> u32 option" where
  "strlen m s = (if s = 0 then Some 0 else strlen_from m s 0)"

partial_function (option) strcmp :: "memory \<Rightarrow> u32 \<Rightarrow> u32 \<Rightarrow> int option" where
  "strcmp m s1 s2 =
     (if m s1 \<noteq> 0 \<and> m s1 = m s2 then strcmp m (s1 + 1) (s2 + 1)
      else Some (uint (m s1) - uint (m s2)))"

function strncmp :: "memory \<Rightarrow> u32 \<Rightarrow> u32 \<Rightarrow> u32 \<Rightarrow> int" where
  "strncmp m s1 s2 n =
     (if n \<noteq> 0 \<and> m s1 \<noteq> 0 \<and> m s1 = m s2 then strncmp m (s1 + 1) (s2 + 1) (n - 1)
      else if n = 0 then 0
      else uint (m s1) - uint (m s2))"
  by auto
termination
  by (relation "measure (\<lambda>(_, _, _, n). unat n)") (auto simp: unat_gt_0 unat_minus_one)

partial_function (option) strcasecmp :: "memory \<Rightarrow> u32 \<Rightarrow> u32 \<Rightarrow> int option" where
  "strcasecmp m s1 s2 =
     (if m s1 \<noteq> 0 \<and> to_lower_ch (m s1) = to_lower_ch (m s2) then strcasecmp m (s1 + 1) (s2 + 1)
      else Some (uint (to_lower_ch (m s1)) - uint (to_lower_ch (m s2))))"

function strncasecmp :: "memory \<Rightarrow> u32 \<Rightarrow> u32 \<Rightarrow> u32 \<Rightarrow> int" where
  "strncasecmp m s1 s2 n =
     (if n \<noteq> 0 \<and> m s1 \<noteq> 0 \<and> to_lower_ch (m s1) = to_lower_ch (m s2) then strncasecmp m (s1 + 1) (s2 + 1) (n - 1)
      else if n = 0 then 0
      else uint (to_lower_ch (m s1)) - uint (to_lower_ch (m s2)))"
  by auto
termination
  by (relation "measure (\<lambda>(_, _, _, n). unat n)") (auto simp: unat_gt_0 unat_minus_one)

declare strncmp.simps [simp del] strncasecmp.simps [simp del]

partial_function (option) strcpy_loop :: "u32 \<Rightarrow> u32 \<Rightarrow> memory \<Rightarrow> memory option" where
  "strcpy_loop d src m =
     (let c = m src; m = m(d := c) in if c \<noteq> 0 then strcpy_loop (d + 1) (src + 1) m else Some m)"

definition strcpy :: "u32 \<Rightarrow> u32 \<Rightarrow> memory \<Rightarrow> memory option" where
  "strcpy dest src m = strcpy_loop dest src m"

function strncpy_fill :: "u32 \<Rightarrow> u32 \<Rightarrow> memory \<Rightarrow> memory" where
  "strncpy_fill d n m = (if n \<noteq> 0 then strncpy_fill (d + 1) (n - 1) (m(d := 0)) else m)"
  by auto
termination
  by (relation "measure (\<lambda>(_, n, _). unat n)") (auto simp: unat_gt_0 unat_minus_one)

function strncpy :: "u32 \<Rightarrow> u32 \<Rightarrow> u32 \<Rightarrow> memory \<Rightarrow> memory" where
  "strncpy d src n m =
     (if n = 0 then strncpy_fill d n m
      else
        let m' = m(d := m src) in
        if m src \<noteq> 0 then strncpy (d + 1) (src + 1) (n - 1) m' else strncpy_fill d n m')"
  by auto
termination
  by (relation "measure (\<lambda>(_, _, n, _). unat n)") (auto simp: unat_gt_0 unat_minus_one)

declare strncpy_fill.simps [simp del] strncpy.simps [simp del]

partial_function (option) string_end :: "memory \<Rightarrow> u32 \<Rightarrow> u32 option" where
  "string_end m d = (if m d \<noteq> 0 then string_end m (d + 1) else Some d)"

definition strcat :: "u32 \<Rightarrow> u32 \<Rightarrow> memory \<Rightarrow> memory option" where
  "strcat dest src m = (case string_end m dest of None \<Rightarrow> None | Some d \<Rightarrow> strcpy_loop d src m)"

partial_function (option) strchr :: "memory \<Rightarrow> u32 \<Rightarrow> u8 \<Rightarrow> u32 option" where
  "strchr m s c =
     (if m s \<noteq> 0 then if m s = c then Some s else strchr m (s + 1) c
      else if c = 0 then Some s else Some 0)"

partial_function (option) strstr_loop :: "memory \<Rightarrow> u32 \<Rightarrow> u32 \<Rightarrow> u32 \<Rightarrow> u32 option" where
  "strstr_loop m haystack needle nlen =
     (if m haystack \<noteq> 0 then
        if m haystack = m needle \<and> strncmp m haystack needle nlen = 0 then Some haystack
        else strstr_loop m (haystack + 1) needle nlen
      else Some 0)"

definition strstr :: "memory \<Rightarrow> u32 \<Rightarrow> u32 \<Rightarrow> u32 option" where
  "strstr m haystack needle =
     (if m needle = 0 then Some haystack
      else case strlen m needle of None \<Rightarrow> None | Some nlen \<Rightarrow> strstr_loop m haystack needle nlen)"

section \<open>Numbers\<close>

abbreviation INT_MIN :: int where "INT_MIN \<equiv> - 2147483648"
abbreviation INT_MAX :: int where "INT_MAX \<equiv> 2147483647"

partial_function (option) skip_blanks :: "memory \<Rightarrow> u32 \<Rightarrow> u32 option" where
  "skip_blanks m s = (if m s = 0x20 \<or> m s = 0x09 then skip_blanks m (s + 1) else Some s)"

partial_function (option) atoi_digits :: "memory \<Rightarrow> u32 \<Rightarrow> int \<Rightarrow> int option" where
  "atoi_digits m s val =
     (if 0x30 \<le> m s \<and> m s \<le> 0x39 then
        if val * 10 > INT_MAX \<or> val * 10 + (uint (m s) - 0x30) > INT_MAX then None
        else atoi_digits m (s + 1) (val * 10 + (uint (m s) - 0x30))
      else Some val)"

definition k_atoi :: "memory \<Rightarrow> u32 \<Rightarrow> int option" where
  "k_atoi m s =
     (if s = 0 then Some 0
      else
        case skip_blanks m s of None \<Rightarrow> None
        | Some s \<Rightarrow>
          let (sgn, s) = (if m s = 0x2D then (-1, s + 1) else if m s = 0x2B then (1, s + 1) else (1, s)) in
          map_option (\<lambda>val. val * sgn) (atoi_digits m s 0))"

definition digit_char :: "nat \<Rightarrow> u8" where
  "digit_char d = (if d < 10 then 0x30 + of_nat d else 0x41 + of_nat (d - 10))"

text \<open>The digits in the order \<^verbatim>\<open>tmp\<close> holds them, least significant first.\<close>

function utoa_digits :: "nat \<Rightarrow> nat \<Rightarrow> u8 list" where
  "utoa_digits val base = (if 0 < val \<and> 2 \<le> base then digit_char (val mod base) # utoa_digits (val div base) base else [])"
  by auto
termination by (relation "measure fst") auto

declare utoa_digits.simps [simp del]

fun utoa_out :: "u32 \<Rightarrow> u32 \<Rightarrow> u8 list \<Rightarrow> nat \<Rightarrow> memory \<Rightarrow> memory" where
  "utoa_out buf out tmp (Suc pos) m = utoa_out buf (out + 1) tmp pos (m(buf + out := tmp ! pos))"
| "utoa_out buf out tmp 0 m = m(buf + out := 0)"

definition k_utoa :: "u32 \<Rightarrow> u32 \<Rightarrow> int \<Rightarrow> memory \<Rightarrow> memory" where
  "k_utoa val buf base m =
     (let base = (if base < 2 \<or> 16 < base then 10 else base) in
      if val = 0 then (m(buf := 0x30))(buf + 1 := 0)
      else let tmp = utoa_digits (unat val) (nat base) in utoa_out buf 0 tmp (length tmp) m)"

definition k_itoa :: "int \<Rightarrow> u32 \<Rightarrow> int \<Rightarrow> memory \<Rightarrow> memory" where
  "k_itoa val buf base m =
     (if val < 0 \<and> base = 10 then k_utoa (of_int (- val)) (buf + 1) base (m(buf := 0x2D))
      else k_utoa (of_int val) buf base m)"

section \<open>What a pointer to a string denotes\<close>

fun cstr :: "memory \<Rightarrow> u32 \<Rightarrow> u8 list \<Rightarrow> bool" where
  "cstr m p [] \<longleftrightarrow> m p = 0"
| "cstr m p (x # xs) \<longleftrightarrow> m p = x \<and> x \<noteq> 0 \<and> cstr m (p + 1) xs"

lemma cstr_unique: "cstr m p xs \<Longrightarrow> cstr m p ys \<Longrightarrow> xs = ys"
proof (induction xs arbitrary: p ys)
  case Nil then show ?case by (cases ys) auto
next
  case (Cons x xs) then show ?case by (cases ys) auto
qed

lemma cstr_iff_nth:
  "cstr m p xs \<longleftrightarrow> (\<forall>i < length xs. m (p + of_nat i) = xs ! i \<and> xs ! i \<noteq> 0) \<and> m (p + of_nat (length xs)) = 0"
proof (induction xs arbitrary: p)
  case (Cons x xs)
  show ?case unfolding cstr.simps Cons.IH
    by (auto simp: All_less_Suc2 add.assoc)
qed auto

lemma cstr_drop: "cstr m p (xs @ ys) \<Longrightarrow> cstr m (p + of_nat (length xs)) ys"
  by (induction xs arbitrary: p) (auto simp: add.assoc[symmetric])

lemma strlen_from_cstr: "cstr m (s + len) xs \<Longrightarrow> strlen_from m s len = Some (len + of_nat (length xs))"
proof (induction xs arbitrary: len)
  case Nil then show ?case by (subst strlen_from.simps) simp
next
  case (Cons x xs)
  have "strlen_from m s (len + 1) = Some (len + 1 + of_nat (length xs))"
    using Cons.prems by (intro Cons.IH) (simp add: add.assoc)
  then show ?case using Cons.prems by (subst strlen_from.simps) (simp add: algebra_simps)
qed

lemma strlen_cstr: "s \<noteq> 0 \<Longrightarrow> cstr m s xs \<Longrightarrow> strlen m s = Some (of_nat (length xs))"
  using strlen_from_cstr[of m s 0 xs] by (simp add: strlen_def)

lemma strncmp_eq_0_iff:
  "length xs < 4294967296 \<Longrightarrow> 0 \<notin> set xs \<Longrightarrow> (\<forall>i < length xs. m (q + of_nat i) = xs ! i) \<Longrightarrow>
   strncmp m p q (of_nat (length xs)) = 0 \<longleftrightarrow> (\<forall>i < length xs. m (p + of_nat i) = xs ! i)"
proof (induction xs arbitrary: p q)
  case Nil then show ?case by (simp add: strncmp.simps)
next
  case (Cons x xs)
  have n: "(of_nat (length (x # xs)) :: u32) \<noteq> 0" "(of_nat (length (x # xs)) :: u32) - 1 = of_nat (length xs)"
  proof -
    have "unat (of_nat (length (x # xs)) :: u32) = length (x # xs)"
      using Cons.prems(1) by (intro unat_of_nat_u32) simp
    then show "(of_nat (length (x # xs)) :: u32) \<noteq> 0" by (metis length_0_conv list.distinct(1) unat_0)
  qed simp
  have q: "m q = x" "\<forall>i < length xs. m (q + 1 + of_nat i) = xs ! i"
    using Cons.prems(3) by (auto simp: All_less_Suc2 add.assoc)
  have "strncmp m (p + 1) (q + 1) (of_nat (length xs)) = 0 \<longleftrightarrow> (\<forall>i < length xs. m (p + 1 + of_nat i) = xs ! i)"
    using Cons q by (intro Cons.IH) auto
  then show ?case using Cons.prems q n
    by (subst strncmp.simps) (auto simp: All_less_Suc2 add.assoc simp flip: word_uint_eq_iff)
qed

lemma cstr_prefix_iff:
  "cstr m p xs \<Longrightarrow> 0 \<notin> set ys \<Longrightarrow> (\<forall>i < length ys. m (p + of_nat i) = ys ! i) \<longleftrightarrow> prefix ys xs"
proof (induction ys arbitrary: p xs)
  case (Cons y ys)
  then show ?case
    by (cases xs) (auto simp: All_less_Suc2 add.assoc[symmetric])
qed simp

lemma strcmp_cstr:
  "cstr m p xs \<Longrightarrow> cstr m q ys \<Longrightarrow>
   \<exists>r. strcmp m p q = Some r \<and> (r = 0 \<longleftrightarrow> xs = ys) \<and> (r < 0 \<longleftrightarrow> ord_class.lexordp xs ys)"
proof (induction xs arbitrary: p q ys)
  case Nil
  then show ?case by (subst strcmp.simps) (cases ys; auto simp: word_uint_eq_iff intro: order_le_neq_trans)
next
  case (Cons x xs)
  show ?case
  proof (cases "m p = m q")
    case True
    then obtain y ys' where ys: "ys = y # ys'" using Cons.prems by (cases ys) auto
    then show ?thesis using Cons.IH[of "p + 1" "q + 1" ys'] Cons.prems True by (subst strcmp.simps) auto
  next
    case False
    then show ?thesis using Cons.prems
      by (subst strcmp.simps) (cases ys; auto simp: word_uint_eq_iff word_less_def)
  qed
qed


lemma strcpy_loop_copies:
  assumes "cstr m src xs" and "length xs < 4294967296"
    and "\<forall>i \<le> length xs. \<forall>j \<le> length xs. d + of_nat i \<noteq> src + of_nat j"
  shows "\<exists>m'. strcpy_loop d src m = Some m' \<and> cstr m' d xs
    \<and> (\<forall>a. (\<forall>i \<le> length xs. a \<noteq> d + of_nat i) \<longrightarrow> m' a = m a)"
  using assms
proof (induction xs arbitrary: d src m)
  case Nil then show ?case by (subst strcpy_loop.simps) (simp add: Let_def)
next
  case (Cons x xs)
  let ?m = "m(d := x)"
  have dj: "d + of_nat i \<noteq> src + of_nat j" if "i \<le> Suc (length xs)" "j \<le> Suc (length xs)" for i j
    using Cons.prems(3) that by simp
  have src': "?m (src + of_nat j) = m (src + of_nat j)" if "j \<le> Suc (length xs)" for j
    using dj[of 0 j] that by simp
  have "cstr ?m (src + 1) xs"
    using Cons.prems(1) src'[of "Suc _"] unfolding cstr_iff_nth by (auto simp: All_less_Suc2 add.assoc)
  moreover have "\<forall>i \<le> length xs. \<forall>j \<le> length xs. d + 1 + of_nat i \<noteq> src + 1 + of_nat j"
    using dj[of "Suc _" "Suc _"] by (simp add: add.assoc)
  ultimately obtain m' where m': "strcpy_loop (d + 1) (src + 1) ?m = Some m'" "cstr m' (d + 1) xs"
    "\<And>a. \<forall>i \<le> length xs. a \<noteq> d + 1 + of_nat i \<Longrightarrow> m' a = ?m a"
    using Cons.IH[of ?m "src + 1" "d + 1"] Cons.prems(2) by (auto simp: fun_upd_def)
  have nowrap: "d \<noteq> d + 1 + of_nat i" if "i \<le> length xs" for i
    using u32_Suc_neq_0[of i] that Cons.prems(2) by (simp add: add.assoc)
  have "m' d = x" using m'(3)[of d] nowrap by simp
  moreover have "m' a = m a" if "\<forall>i \<le> Suc (length xs). a \<noteq> d + of_nat i" for a
  proof -
    have "a \<noteq> d" "\<forall>i \<le> length xs. a \<noteq> d + 1 + of_nat i"
      using that[rule_format, of 0] that[rule_format, of "Suc _"] by (auto simp: add.assoc)
    then show ?thesis using m'(3) by simp
  qed
  ultimately show ?case using m'(1,2) Cons.prems(1) by (subst strcpy_loop.simps) (auto simp: Let_def)
qed

lemma strstr_loop_finds:
  assumes "cstr m h xs" and "cstr m n ys" and "ys \<noteq> []" and "length ys < 4294967296"
  shows "strstr_loop m h n (of_nat (length ys)) =
    Some (if \<exists>i. prefix ys (drop i xs) then h + of_nat (LEAST i. prefix ys (drop i xs)) else 0)"
  using assms(1)
proof (induction xs arbitrary: h)
  case Nil
  then show ?case using assms by (subst strstr_loop.simps) simp
next
  case (Cons x xs)
  have nul: "0 \<notin> set ys" and at: "\<forall>i < length ys. m (n + of_nat i) = ys ! i"
    using assms(2) by (auto simp: cstr_iff_nth in_set_conv_nth)
  have here: "m h = m n \<and> strncmp m h n (of_nat (length ys)) = 0 \<longleftrightarrow> prefix ys (x # xs)"
    using cstr_prefix_iff[OF Cons.prems nul] at assms(3) unfolding strncmp_eq_0_iff[OF assms(4) nul at]
    by (cases ys) (auto simp: All_less_Suc2 simp del: prefix_Cons)
  have least: "(LEAST i. prefix ys (drop i (x # xs))) = (if prefix ys (x # xs) then 0 else Suc (LEAST i. prefix ys (drop i xs)))"
    if "\<exists>i. prefix ys (drop i (x # xs))"
  proof (cases "prefix ys (x # xs)")
    case True then show ?thesis by (auto intro: Least_equality)
  next
    case False
    then show ?thesis using that Least_Suc[of "\<lambda>i. prefix ys (drop i (x # xs))"] by auto
  qed
  have ex: "(\<exists>i. prefix ys (drop i (x # xs))) \<longleftrightarrow> prefix ys (x # xs) \<or> (\<exists>i. prefix ys (drop i xs))"
    by (metis drop_0 drop_Suc_Cons not0_implies_Suc)
  show ?case
    using here least ex Cons.IH[of "h + 1"] Cons.prems
    by (subst strstr_loop.simps) (auto simp: add.assoc)
qed

text \<open>\<^verbatim>\<open>strncpy\<close> writes exactly \<^verbatim>\<open>n\<close> bytes: the string cut to \<^verbatim>\<open>n\<close> bytes, padded with zeros.\<close>

section \<open>Number conversions\<close>

lemma utoa_out_writes:
  assumes "pos \<le> length tmp" and "pos < 4294967295" and "0 \<notin> set tmp"
  shows "cstr (utoa_out buf out tmp pos m) (buf + out) (rev (take pos tmp))
    \<and> (\<forall>a. (\<forall>i \<le> pos. a \<noteq> buf + out + of_nat i) \<longrightarrow> utoa_out buf out tmp pos m a = m a)"
  using assms
proof (induction pos arbitrary: out m)
  case (Suc p)
  let ?m = "m(buf + out := tmp ! p)" and ?m' = "utoa_out buf out tmp (Suc p) m"
  have IH: "cstr ?m' (buf + out + 1) (rev (take p tmp))"
    "\<forall>i \<le> p. a \<noteq> buf + out + 1 + of_nat i \<Longrightarrow> ?m' a = ?m a" for a
    using Suc.IH[of "out + 1" ?m] Suc.prems by (auto simp: add.assoc fun_upd_def)
  have "buf + out \<noteq> buf + out + 1 + of_nat i" if "i \<le> p" for i
    using u32_Suc_neq_0[of i] that Suc.prems(2) by (simp add: add.assoc)
  then have "?m' (buf + out) = tmp ! p" using IH(2)[of "buf + out"] by simp
  moreover have "tmp ! p \<noteq> 0" using Suc.prems by (metis Suc_le_lessD nth_mem)
  moreover have "?m' a = m a" if "\<forall>i \<le> Suc p. a \<noteq> buf + out + of_nat i" for a
  proof -
    have "a \<noteq> buf + out" "\<forall>i \<le> p. a \<noteq> buf + out + 1 + of_nat i"
      using that[rule_format, of 0] that[rule_format, of "Suc _"] by (auto simp: add.assoc)
    then show ?thesis using IH(2) by simp
  qed
  ultimately show ?case using IH(1) Suc.prems by (simp add: take_Suc_conv_app_nth)
qed simp

definition digit_val :: "u8 \<Rightarrow> nat" where
  "digit_val c = (if c \<le> 0x39 then unat c - 0x30 else unat c - 0x41 + 10)"

lemma unat_of_nat_u8: "k < 256 \<Longrightarrow> unat (of_nat k :: u8) = k"
  by (simp add: unat_of_nat take_bit_nat_eq_self)

lemma unat_digit_char: "d < 16 \<Longrightarrow> unat (digit_char d) = (if d < 10 then 0x30 + d else 0x37 + d)"
  by (simp add: digit_char_def unat_word_ariths unat_of_nat_u8)

lemma digit_char_props:
  assumes "d < 16"
  shows "digit_val (digit_char d) = d" "digit_char d \<noteq> 0"
    "d < 10 \<Longrightarrow> 0x30 \<le> digit_char d \<and> digit_char d \<le> 0x39"
  using unat_digit_char[OF assms] by (auto simp: digit_val_def word_le_nat_alt split: if_splits)

lemma utoa_digits_props:
  assumes "2 \<le> b" "b \<le> 16"
  shows "set (utoa_digits n b) \<subseteq> digit_char ` {..<b}"
    "foldr (\<lambda>c v. v * b + digit_val c) (utoa_digits n b) 0 = n"
    "n < 2 ^ k \<Longrightarrow> length (utoa_digits n b) \<le> k"
proof -
  show "set (utoa_digits n b) \<subseteq> digit_char ` {..<b}"
    using assms
  proof (induction n b rule: utoa_digits.induct)
    case (1 val base)
    then show ?case by (subst utoa_digits.simps) (auto intro!: mod_less_divisor)
  qed
  show "foldr (\<lambda>c v. v * b + digit_val c) (utoa_digits n b) 0 = n"
    using assms
  proof (induction n b rule: utoa_digits.induct)
    case (1 val base)
    have "val mod base < 16" using 1(2,3) mod_less_divisor[of base val] by linarith
    then show ?case using 1 by (subst utoa_digits.simps) (auto simp: digit_char_props)
  qed
  show "length (utoa_digits n b) \<le> k" if "n < 2 ^ k"
    using assms that
  proof (induction n b arbitrary: k rule: utoa_digits.induct)
    case (1 val base)
    show ?case
    proof (cases "0 < val")
      case True
      then obtain j where k: "k = Suc j" using 1 by (cases k) auto
      have "val div base \<le> val div 2" using 1 by (intro div_le_mono2) auto
      then have "val div base < 2 ^ j" using 1 k by auto
      then show ?thesis using 1 True k by (subst utoa_digits.simps) auto
    qed (simp add: utoa_digits.simps)
  qed
qed


lemma k_utoa_writes:
  assumes b: "2 \<le> base" "base \<le> 16"
  shows "\<exists>xs. cstr (k_utoa val buf base m) buf xs \<and> xs \<noteq> [] \<and> length xs \<le> 32
     \<and> set xs \<subseteq> digit_char ` {..<nat base} \<and> foldl (\<lambda>v c. v * nat base + digit_val c) 0 xs = unat val
     \<and> (\<forall>a. (\<forall>i \<le> length xs. a \<noteq> buf + of_nat i) \<longrightarrow> k_utoa val buf base m a = m a)"
proof (cases "val = 0")
  case True
  have "(0x30 :: u8) = digit_char 0" "0 \<in> {..<nat base}" using b by (simp_all add: digit_char_def)
  then have "(0x30 :: u8) \<in> digit_char ` {..<nat base}" by blast
  then show ?thesis using True b
    by (intro exI[of _ "[0x30]"]) (auto simp: k_utoa_def Let_def digit_val_def le_Suc_eq all_conj_distrib)
next
  case False
  let ?t = "utoa_digits (unat val) (nat base)"
  have b': "2 \<le> nat base" "nat base \<le> 16" using b by auto
  note p = utoa_digits_props[OF b', of "unat val"]
  have len: "length ?t \<le> 32" using p(3)[of 32] unat_u32_less[of val] by simp
  have nz: "0 \<notin> set ?t" using p(1) b' digit_char_props(2) by fastforce
  have k: "k_utoa val buf base m = utoa_out buf 0 ?t (length ?t) m"
    using False b by (simp add: k_utoa_def Let_def)
  have "0 < unat val" using False by (simp add: unat_gt_0)
  then have "?t \<noteq> []" using b' by (subst utoa_digits.simps) simp
  then show ?thesis using utoa_out_writes[of "length ?t" ?t buf 0 m] len nz p(1,2)
    by (intro exI[of _ "rev ?t"]) (simp add: k foldl_conv_foldr)
qed

lemma foldl_digits_mono:
  fixes f :: "int \<Rightarrow> u8 \<Rightarrow> int"
  assumes "\<And>v c. 0 \<le> v \<Longrightarrow> c \<in> set xs \<Longrightarrow> v \<le> f v c" "0 \<le> v"
  shows "v \<le> foldl f v xs"
  using assms
proof (induction xs arbitrary: v)
  case (Cons x xs)
  have le: "v \<le> f v x" using Cons.prems by simp
  have "f v x \<le> foldl f (f v x) xs" by (rule Cons.IH[OF Cons.prems(1) order_trans[OF Cons.prems(2) le]]) auto
  then show ?case using le by simp
qed simp

lemma atoi_digits_reads:
  assumes "cstr m s xs" "\<forall>c \<in> set xs. 0x30 \<le> c \<and> c \<le> 0x39" "0 \<le> v"
    "foldl (\<lambda>v c. v * 10 + int (digit_val c)) v xs \<le> INT_MAX"
  shows "atoi_digits m s v = Some (foldl (\<lambda>v c. v * 10 + int (digit_val c)) v xs)"
  using assms
proof (induction xs arbitrary: s v)
  case Nil
  then show ?case by (subst atoi_digits.simps) simp
next
  case (Cons x xs)
  let ?v = "v * 10 + int (digit_val x)"
  have d: "uint x - 0x30 = int (digit_val x)"
  proof -
    have "48 \<le> unat x" "x \<le> 0x39" using Cons.prems(2) by (simp_all add: word_le_nat_alt)
    then show ?thesis by (simp add: digit_val_def of_nat_diff)
  qed
  have "?v \<le> INT_MAX"
    using Cons.prems(3,4) foldl_digits_mono[of xs "\<lambda>v c. v * 10 + int (digit_val c)" ?v] by simp
  moreover have "atoi_digits m (s + 1) ?v = Some (foldl (\<lambda>v c. v * 10 + int (digit_val c)) ?v xs)"
    using Cons.prems by (intro Cons.IH) auto
  ultimately show ?case using Cons.prems(1-3) d
    by (subst atoi_digits.simps) simp
qed


lemma foldl_int: "foldl (\<lambda>v c. v * 10 + int (digit_val c)) (int v) xs = int (foldl (\<lambda>v c. v * 10 + digit_val c) v xs)"
proof (induction xs arbitrary: v)
  case (Cons x xs)
  show ?case using Cons.IH[of "v * 10 + digit_val x"] by simp
qed simp

lemma k_utoa_decimal:
  assumes "unat val \<le> 2147483647"
  shows "\<exists>c. k_utoa val buf 10 m buf = c \<and> 0x30 \<le> c \<and> c \<le> 0x39
    \<and> atoi_digits (k_utoa val buf 10 m) buf 0 = Some (int (unat val))"
    "a \<notin> {buf + of_nat i | i. i \<le> 32} \<Longrightarrow> k_utoa val buf 10 m a = m a"
proof -
  obtain xs where xs: "cstr (k_utoa val buf 10 m) buf xs" "xs \<noteq> []" "length xs \<le> 32"
    "set xs \<subseteq> digit_char ` {..<10}" "foldl (\<lambda>v c. v * 10 + digit_val c) 0 xs = unat val"
    "\<And>a. (\<forall>i \<le> length xs. a \<noteq> buf + of_nat i) \<Longrightarrow> k_utoa val buf 10 m a = m a"
    using k_utoa_writes[of 10 val buf m] by auto
  have dig: "\<forall>c \<in> set xs. 0x30 \<le> c \<and> c \<le> 0x39" using xs(4) digit_char_props(3) by fastforce
  have "int (unat val) \<le> INT_MAX" using assms by linarith
  then have "atoi_digits (k_utoa val buf 10 m) buf 0 = Some (int (unat val))"
    using atoi_digits_reads[OF xs(1) dig, of 0] foldl_int[of 0 xs] xs(5) assms by simp
  moreover have "k_utoa val buf 10 m buf \<in> set xs" using xs(1,2) by (cases xs) auto
  ultimately show "\<exists>c. k_utoa val buf 10 m buf = c \<and> 0x30 \<le> c \<and> c \<le> 0x39
    \<and> atoi_digits (k_utoa val buf 10 m) buf 0 = Some (int (unat val))"
    using dig by auto
  show "k_utoa val buf 10 m a = m a" if "a \<notin> {buf + of_nat i | i. i \<le> 32}"
    using xs(6)[of a] that xs(3) by fastforce
qed

lemma k_atoi_plain:
  assumes "s \<noteq> 0" "0x30 \<le> m s" "m s \<le> 0x39"
  shows "k_atoi m s = atoi_digits m s 0"
proof -
  have "m s \<noteq> 0x20" "m s \<noteq> 0x09" "m s \<noteq> 0x2D" "m s \<noteq> 0x2B" using assms(2) by (auto simp: word_le_nat_alt)
  then show ?thesis using assms(1) unfolding k_atoi_def
    by (subst skip_blanks.simps) (simp add: option.map_ident)
qed

lemma k_atoi_minus:
  assumes "s \<noteq> 0" "m s = 0x2D"
  shows "k_atoi m s = map_option uminus (atoi_digits m (s + 1) 0)"
  using assms unfolding k_atoi_def by (subst skip_blanks.simps) simp

lemma bswap16_bswap16 [simp]: "bswap16 (bswap16 v) = v"
  by (simp add: word_all_bits bswap16_def bit_simps)

lemma bswap32_bswap32 [simp]: "bswap32 (bswap32 v) = v"
  by (simp add: word_all_bits bswap32_def bit_simps)

section \<open>Building strings\<close>

text \<open>The \<^verbatim>\<open>n\<close> bytes from \<^verbatim>\<open>p\<close> on.\<close>

definition region :: "u32 \<Rightarrow> nat \<Rightarrow> u32 set" where
  "region p n = (\<lambda>i. p + of_nat i) ` {..<n}"

lemma region_iff: "a \<in> region p n \<longleftrightarrow> (\<exists>i < n. a = p + of_nat i)"
  by (auto simp: region_def)

lemma region_memI: "i < n \<Longrightarrow> p + of_nat i \<in> region p n"
  by (auto simp: region_def)

lemma region_mono: "m \<le> n \<Longrightarrow> region p m \<subseteq> region p n"
  by (auto simp: region_def)

lemma region_shift: "k + m \<le> n \<Longrightarrow> region (p + of_nat k) m \<subseteq> region p n"
proof
  fix a assume "k + m \<le> n" "a \<in> region (p + of_nat k) m"
  then obtain i where "i < m" "a = p + of_nat (k + i)" by (auto simp: region_iff add.assoc)
  then show "a \<in> region p n" using \<open>k + m \<le> n\<close> region_memI[of "k + i" n p] by simp
qed

lemma region_disjoint:
  assumes "unat p + n \<le> unat q" "unat q + k \<le> 4294967296"
  shows "region p n \<inter> region q k = {}"
proof -
  have "p + of_nat i \<noteq> q + of_nat j" if "i < n" "j < k" for i j
  proof -
    have "unat (p + of_nat i) = unat p + i" "unat (q + of_nat j) = unat q + j"
      using that assms unat_of_nat_u32[of i] unat_of_nat_u32[of j] by (simp_all add: unat_word_ariths)
    then show ?thesis using that assms by auto
  qed
  then show ?thesis by (auto simp: region_iff)
qed

lemma cstr_cong: "(\<And>a. a \<in> region p (Suc (length xs)) \<Longrightarrow> m a = m' a) \<Longrightarrow> cstr m p xs = cstr m' p xs"
  unfolding cstr_iff_nth region_iff by (metis less_Suc_eq)

lemma string_end_cstr: "cstr m d xs \<Longrightarrow> string_end m d = Some (d + of_nat (length xs))"
proof (induction xs arbitrary: d)
  case Nil then show ?case by (subst string_end.simps) simp
next
  case (Cons x xs)
  then show ?case using Cons.IH[of "d + 1"] by (subst string_end.simps) (simp add: add.assoc)
qed

lemma cstr_append:
  "(\<forall>i < length xs. m (p + of_nat i) = xs ! i \<and> xs ! i \<noteq> 0) \<Longrightarrow> cstr m (p + of_nat (length xs)) ys \<Longrightarrow> cstr m p (xs @ ys)"
proof (induction xs arbitrary: p)
  case (Cons x xs)
  have "cstr m (p + 1) (xs @ ys)"
    using Cons.prems by (intro Cons.IH) (auto simp: All_less_Suc2 add.assoc)
  then show ?case using Cons.prems(1) by (auto simp: All_less_Suc2)
qed simp

lemma strcat_cstr:
  assumes d: "cstr m d xs" and s: "cstr m s ys" and len: "length xs + length ys < n" "n < 4294967296"
    and apart: "region d n \<inter> region s (Suc (length ys)) = {}"
  shows "\<exists>m'. strcat d s m = Some m' \<and> cstr m' d (xs @ ys) \<and> (\<forall>a. a \<notin> region d n \<longrightarrow> m' a = m a)"
proof -
  let ?e = "d + of_nat (length xs)"
  have sub: "region ?e (Suc (length ys)) \<subseteq> region d n" using len by (intro region_shift) simp
  have "\<forall>i \<le> length ys. \<forall>j \<le> length ys. ?e + of_nat i \<noteq> s + of_nat j"
  proof (intro allI impI)
    fix i j assume "i \<le> length ys" "j \<le> length ys"
    then have "?e + of_nat i \<in> region d n" "s + of_nat j \<in> region s (Suc (length ys))"
      using subsetD[OF sub region_memI[of i]] region_memI[of j] by auto
    then show "?e + of_nat i \<noteq> s + of_nat j" using apart by auto
  qed
  then obtain m' where m': "strcpy_loop ?e s m = Some m'" "cstr m' ?e ys"
    "\<And>a. \<forall>i \<le> length ys. a \<noteq> ?e + of_nat i \<Longrightarrow> m' a = m a"
    using strcpy_loop_copies[OF s, of ?e] len by auto
  have frame: "m' a = m a" if "a \<notin> region ?e (Suc (length ys))" for a
    using that by (intro m'(3)) (auto simp: region_iff less_Suc_eq_le)
  have "m' (d + of_nat i) = xs ! i \<and> xs ! i \<noteq> 0" if "i < length xs" for i
  proof -
    have "d + of_nat i \<notin> region ?e (Suc (length ys))"
    proof
      assume "d + of_nat i \<in> region ?e (Suc (length ys))"
      then obtain j where j: "j \<le> length ys" "(of_nat i :: u32) = of_nat (length xs + j)"
        by (auto simp: region_iff less_Suc_eq_le add.assoc)
      then have "i = length xs + j" using unat_of_nat_u32[of i] unat_of_nat_u32[of "length xs + j"] that len by simp
      then show False using that by simp
    qed
    then show ?thesis using frame d that by (simp add: cstr_iff_nth)
  qed
  then have "cstr m' d (xs @ ys)" using m'(2) by (intro cstr_append) auto
  then show ?thesis using m'(1) frame sub string_end_cstr[OF d] by (auto simp: strcat_def)
qed

section \<open>Decimal numbers\<close>

definition dec :: "nat \<Rightarrow> u8 list" where
  "dec n = (if n = 0 then [0x30] else rev (utoa_digits n 10))"

lemma utoa_digits_length: "2 \<le> b \<Longrightarrow> n < b ^ k \<Longrightarrow> length (utoa_digits n b) \<le> k"
proof (induction n b arbitrary: k rule: utoa_digits.induct)
  case (1 val base)
  show ?case
  proof (cases "0 < val")
    case True
    then obtain j where k: "k = Suc j" using 1 by (cases k) auto
    have "val div base < base ^ j" using 1(3) k by (simp add: less_mult_imp_div_less mult.commute)
    then show ?thesis using 1 True k by (subst utoa_digits.simps) auto
  qed (simp add: utoa_digits.simps)
qed

lemma dec_props:
  assumes "n < 10 ^ k" "0 < k"
  shows "length (dec n) \<le> k" "dec n \<noteq> []" "\<forall>c \<in> set (dec n). 0x30 \<le> c \<and> c \<le> 0x39" "foldl (\<lambda>v c. v * 10 + digit_val c) 0 (dec n) = n"
proof -
  note p = utoa_digits_props[of 10 n]
  show "length (dec n) \<le> k" using utoa_digits_length[of 10 n k] assms by (simp add: dec_def)
  show "dec n \<noteq> []" by (simp add: dec_def utoa_digits.simps[of n])
  have sub: "set (utoa_digits n 10) \<subseteq> digit_char ` {..<10}" using p by simp
  have "0x30 \<le> c \<and> c \<le> 0x39" if c: "c \<in> set (utoa_digits n 10)" for c
  proof -
    obtain d where "d < 10" "c = digit_char d" using subsetD[OF sub c] by auto
    then show ?thesis using digit_char_props(3)[of d] by simp
  qed
  then show "\<forall>c \<in> set (dec n). 0x30 \<le> c \<and> c \<le> 0x39" by (simp add: dec_def)
  show "foldl (\<lambda>v c. v * 10 + digit_val c) 0 (dec n) = n" using p(2) by (simp add: dec_def digit_val_def foldl_conv_foldr)
qed

lemma k_utoa_dec_digits:
  assumes "unat val < 10 ^ k" "1 \<le> k" "k \<le> 10"
  shows "cstr (k_utoa val tmp 10 m) tmp (dec (unat val))"
    "a \<notin> region tmp (Suc k) \<Longrightarrow> k_utoa val tmp 10 m a = m a"
proof -
  have "cstr (k_utoa val tmp 10 m) tmp (dec (unat val)) \<and> (a \<notin> region tmp (Suc k) \<longrightarrow> k_utoa val tmp 10 m a = m a)" for a
  proof (cases "val = 0")
    case True
    then show ?thesis using region_memI[of 0 "Suc k" tmp] region_memI[of 1 "Suc k" tmp] assms(2)
      by (auto simp: k_utoa_def dec_def Let_def)
  next
    case False
    let ?t = "utoa_digits (unat val) 10"
    have len: "length ?t \<le> k" using utoa_digits_length[of 10 "unat val" k] assms by simp
    have "set ?t \<subseteq> digit_char ` {..<10}" using utoa_digits_props(1)[of 10 "unat val"] by simp
    then have nz: "0 \<notin> set ?t" using digit_char_props(2) by fastforce
    have k: "k_utoa val tmp 10 m = utoa_out tmp 0 ?t (length ?t) m" using False by (simp add: k_utoa_def Let_def)
    have "\<forall>i \<le> length ?t. a \<noteq> tmp + of_nat i" if "a \<notin> region tmp (Suc k)"
      using that len by (auto simp: region_iff)
    then show ?thesis using utoa_out_writes[of "length ?t" ?t tmp 0 m] len nz False assms(3)
      by (simp add: k dec_def unat_eq_zero)
  qed
  then show "cstr (k_utoa val tmp 10 m) tmp (dec (unat val))" "a \<notin> region tmp (Suc k) \<Longrightarrow> k_utoa val tmp 10 m a = m a"
    by auto
qed

lemma k_utoa_dec:
  assumes "unat val < 1000"
  shows "cstr (k_utoa val tmp 10 m) tmp (dec (unat val))" "a \<notin> region tmp 4 \<Longrightarrow> k_utoa val tmp 10 m a = m a"
  using k_utoa_dec_digits(1)[of val 3 tmp m] k_utoa_dec_digits(2)[where val = val and k = 3 and tmp = tmp and m = m and a = a] assms
  by simp_all

lemma k_utoa_dec_all: "cstr (k_utoa val tmp 10 m) tmp (dec (unat val))"
  using k_utoa_dec_digits(1)[of val 10 tmp m] unat_u32_less[of val] by simp

text \<open>The text \<^verbatim>\<open>k_itoa\<close> writes in base 10.\<close>

definition itoa_dec :: "int \<Rightarrow> u8 list" where
  "itoa_dec v = (if v < 0 then 0x2D # dec (nat (- v)) else dec (nat v))"

lemma k_itoa_dec:
  assumes "INT_MIN \<le> val" "val \<le> INT_MAX"
  shows "cstr (k_itoa val buf 10 m) buf (itoa_dec val)"
proof (cases "val < 0")
  case True
  have u: "unat (of_int (- val) :: u32) = nat (- val)" using assms True by (intro unat_of_int_u32) auto
  have "buf \<notin> region (buf + 1) 11" using u32_Suc_neq_0 by (force simp: region_iff add.assoc)
  then show ?thesis using True k_utoa_dec_all[of "of_int (- val)" "buf + 1" "m(buf := 0x2D)"] u
      k_utoa_dec_digits(2)[where val = "of_int (- val)" and k = 10 and a = buf and tmp = "buf + 1" and m = "m(buf := 0x2D)"] assms
    by (simp add: k_itoa_def itoa_dec_def)
next
  case False
  have "unat (of_int val :: u32) = nat val" using assms False by (intro unat_of_int_u32) auto
  then show ?thesis using False k_utoa_dec_all[of "of_int val" buf m] by (simp add: k_itoa_def itoa_dec_def)
qed

section \<open>Properties\<close>

fun put_bytes :: "u32 \<Rightarrow> u8 list \<Rightarrow> memory \<Rightarrow> memory" where
  "put_bytes p [] m = m"
| "put_bytes p (x # xs) m = put_bytes (p + 1) xs (m(p := x))"

definition string_example :: memory where
  "string_example = put_bytes 0x100 [0x61, 0x62, 0x61, 0x62, 0x63, 0] (put_bytes 0x200 [0x62, 0x63, 0] (\<lambda>_. 0xFF))"

lemma string_example_cstr:
  "cstr string_example 0x100 [0x61, 0x62, 0x61, 0x62, 0x63]" "cstr string_example 0x200 [0x62, 0x63]"
  by (simp_all add: string_example_def)

text \<open>\<^verbatim>\<open>strstr\<close> returns the address of the first occurrence of the needle, NULL when there is none, and the
  haystack itself for the empty needle.\<close>

theorem strstr_first_occurrence:
  assumes "cstr m haystack xs" and "cstr m needle ys" and "length ys < 2 ^ 32" and "needle \<noteq> 0"
  shows "strstr m haystack needle =
    Some (if \<exists>i. prefix ys (drop i xs) then haystack + of_nat (LEAST i. prefix ys (drop i xs)) else 0)"
proof (cases ys)
  case Nil
  then show ?thesis using assms(2) by (simp add: strstr_def)
next
  case (Cons y ys')
  then show ?thesis
    using strstr_loop_finds[OF assms(1,2)] strlen_cstr[OF assms(4,2)] assms(2,3) by (simp add: strstr_def)
qed

theorem strstr_first_occurrence_witness: "strstr string_example 0x100 0x200 = Some 0x103"
proof -
  let ?P = "\<lambda>i. prefix [0x62, 0x63] (drop i [0x61, 0x62, 0x61, 0x62, 0x63 :: u8])"
  have P: "?P 3" "\<not> ?P 0" "\<not> ?P 1" "\<not> ?P 2" by (simp_all add: numeral_eq_Suc)
  have "(LEAST i. ?P i) = 3"
  proof (rule Least_equality)
    fix y assume y: "?P y"
    show "3 \<le> y"
    proof (rule ccontr)
      assume "\<not> 3 \<le> y"
      then consider "y = 0" | "y = 1" | "y = 2" by linarith
      then show False using y P by cases simp_all
    qed
  qed (rule P)
  then show ?thesis
    using strstr_first_occurrence[OF string_example_cstr] exI[of ?P 3, OF P(1)] by simp
qed

text \<open>C31. Printing a number in decimal and reading it back is the identity: for every 32-bit signed value but the
  least, \<^verbatim>\<open>k_atoi\<close> of what \<^verbatim>\<open>k_itoa\<close> writes is the value.\<close>

theorem k_atoi_k_itoa:
  assumes "INT_MIN < val" and "val \<le> INT_MAX" and "buf \<noteq> 0"
  shows "k_atoi (k_itoa val buf 10 m) buf = Some val"
proof (cases "val < 0")
  case True
  have u: "unat (of_int (- val) :: u32) = nat (- val)" using assms True by (intro unat_of_int_u32) auto
  have "buf \<notin> {buf + 1 + of_nat i | i. i \<le> 32}" using u32_Suc_neq_0 by (force simp: add.assoc)
  then show ?thesis using True assms u k_utoa_decimal(1)[of "of_int (- val)" "buf + 1" "m(buf := 0x2D)"]
      k_utoa_decimal(2)[where val = "of_int (- val)" and buf = "buf + 1" and m = "m(buf := 0x2D)" and a = buf]
    by (simp add: k_itoa_def k_atoi_minus)
next
  case False
  have u: "unat (of_int val :: u32) = nat val" using assms False by (intro unat_of_int_u32) auto
  then show ?thesis using False assms k_utoa_decimal(1)[of "of_int val" buf m]
    by (auto simp: k_itoa_def k_atoi_plain)
qed


theorem k_atoi_k_itoa_witness: "k_atoi (k_itoa (- 305) 0x1000 10 string_example) 0x1000 = Some (- 305)"
  by (rule k_atoi_k_itoa) simp_all

end
