(* ===== verification/Net.thy ===== *)
theory Net
  imports Strings
begin

text \<open>
  The network stack of \<^verbatim>\<open>src/kernel/net.c\<close>: checksum, addresses, ARP cache, framing, ARP resolution, UDP, ping, the
  DHCP client and the dispatcher of incoming packets.

  A packet is the list of its bytes; the packed header structures are read and built at their byte offsets, with the
  byte swaps of the source.  The machine around the stack is part of the state: \<^verbatim>\<open>sent\<close> logs the frames handed to
  \<^verbatim>\<open>nic_send_packet\<close> (which accepts them when the transmit ring is ready), \<^verbatim>\<open>arrivals\<close> are the batches of frames that
  successive calls of \<^verbatim>\<open>nic_poll\<close> find in the receive ring, \<^verbatim>\<open>ticks\<close> is the timer, which advances while the processor
  waits in \<^verbatim>\<open>hlt\<close> with interrupts enabled.  The waiting loops are partial functions: the value None means that the loop
  never ends.  \<^verbatim>\<open>nic_poll\<close> runs the handlers, which may wait and call \<^verbatim>\<open>nic_poll\<close> again; the nesting is
  bounded by a fuel argument, and every other function takes \<^verbatim>\<open>nic_poll\<close> as its parameter \<^verbatim>\<open>poll\<close>.
\<close>

unbundle bit_operations_syntax

section \<open>State\<close>

type_synonym packet = "u8 list"

record arp_entry_t =
  arp_ip :: u32
  arp_mac :: "u8 list"
  updated_tick :: u32
  arp_valid :: bool

record net_config_t =
  configured :: bool
  dhcp_leased :: bool
  cfg_ip :: u32
  netmask :: u32
  gateway :: u32
  dns :: u32
  dhcp_server :: u32
  rx_eth :: u32
  rx_arp :: u32
  rx_ipv4 :: u32
  rx_icmp :: u32
  rx_udp :: u32

datatype net_message = Lease_acquired u32 | Fallback_configured

record net_state =
  net_config :: net_config_t
  arp_cache_arr :: "arp_entry_t list"
  ip_id_counter :: u16
  ping_reply_received :: bool
  ping_expected_id :: u16
  ping_expected_seq :: u16
  ping_reply_ttl :: u8
  ping_reply_tick :: u32
  dhcp_rx_msg_type :: u8
  dhcp_expected_xid :: u32
  dhcp_offered_ip :: u32
  dhcp_offered_mask :: u32
  dhcp_offered_gw :: u32
  dhcp_offered_dns :: u32
  dhcp_offered_srv :: u32
  nic_initialized :: bool
  nic_mac :: "u8 list"
  tx_ready :: bool
  sent :: "packet list"
  arrivals :: "packet list list"
  irq_enabled :: bool
  ticks :: u32
  timer_frequency :: u32
  net_log :: "net_message list"

abbreviation NET_ARP_CACHE_SIZE :: nat where "NET_ARP_CACHE_SIZE \<equiv> 16"
abbreviation ETH_TYPE_IPV4 :: u16 where "ETH_TYPE_IPV4 \<equiv> 0x0800"
abbreviation ETH_TYPE_ARP :: u16 where "ETH_TYPE_ARP \<equiv> 0x0806"
abbreviation IP_PROTO_ICMP :: u8 where "IP_PROTO_ICMP \<equiv> 1"
abbreviation IP_PROTO_UDP :: u8 where "IP_PROTO_UDP \<equiv> 17"
abbreviation ARP_OP_REQUEST :: u16 where "ARP_OP_REQUEST \<equiv> 1"
abbreviation ARP_OP_REPLY :: u16 where "ARP_OP_REPLY \<equiv> 2"
abbreviation ICMP_ECHO_REPLY :: u8 where "ICMP_ECHO_REPLY \<equiv> 0"
abbreviation ICMP_ECHO_REQUEST :: u8 where "ICMP_ECHO_REQUEST \<equiv> 8"
abbreviation DHCP_SERVER_PORT :: u16 where "DHCP_SERVER_PORT \<equiv> 67"
abbreviation DHCP_CLIENT_PORT :: u16 where "DHCP_CLIENT_PORT \<equiv> 68"
abbreviation DHCP_MAGIC_COOKIE :: u32 where "DHCP_MAGIC_COOKIE \<equiv> 0x63825363"
abbreviation DHCP_DISCOVER :: u8 where "DHCP_DISCOVER \<equiv> 1"
abbreviation DHCP_OFFER :: u8 where "DHCP_OFFER \<equiv> 2"
abbreviation DHCP_REQUEST :: u8 where "DHCP_REQUEST \<equiv> 3"
abbreviation DHCP_ACK :: u8 where "DHCP_ACK \<equiv> 5"
abbreviation bcast_mac :: "u8 list" where "bcast_mac \<equiv> [0xFF, 0xFF, 0xFF, 0xFF, 0xFF, 0xFF]"
abbreviation bcast_ip :: u32 where "bcast_ip \<equiv> 0xFFFFFFFF"

text \<open>Little-endian loads and stores of packed fields, as the i386 performs them.\<close>

definition get16 :: "packet \<Rightarrow> nat \<Rightarrow> u16" where
  "get16 p i = ucast (p ! i) OR push_bit 8 (ucast (p ! (i + 1)))"

definition get32 :: "packet \<Rightarrow> nat \<Rightarrow> u32" where
  "get32 p i = ucast (p ! i) OR push_bit 8 (ucast (p ! (i + 1))) OR push_bit 16 (ucast (p ! (i + 2)))
     OR push_bit 24 (ucast (p ! (i + 3)))"

definition put16 :: "u16 \<Rightarrow> packet" where
  "put16 v = [ucast v, ucast (drop_bit 8 v)]"

definition put32 :: "u32 \<Rightarrow> packet" where
  "put32 v = [ucast v, ucast (drop_bit 8 v), ucast (drop_bit 16 v), ucast (drop_bit 24 v)]"

definition get_bytes :: "packet \<Rightarrow> nat \<Rightarrow> nat \<Rightarrow> packet" where
  "get_bytes p i n = take n (drop i p)"

section \<open>Checksum\<close>

fun checksum_words :: "u32 \<Rightarrow> packet \<Rightarrow> u32" where
  "checksum_words sm (a # b # p) = checksum_words (sm + ucast (push_bit 8 (ucast a :: u16) OR ucast b)) p"
| "checksum_words sm [a] = sm + push_bit 8 (ucast a)"
| "checksum_words sm [] = sm"

lemma checksum_fold_decreases:
  assumes "drop_bit 16 sm \<noteq> (0 :: u32)"
  shows "unat ((sm AND 0xFFFF) + drop_bit 16 sm) = unat sm mod 65536 + unat sm div 65536"
    "unat sm mod 65536 + unat sm div 65536 < unat sm"
proof -
  have m: "(0xFFFF :: u32) = mask 16" by (simp add: mask_eq_exp_minus_1)
  have lo: "unat (sm AND 0xFFFF) = unat sm mod 65536" unfolding m by (simp add: unat_and_mask)
  have hi: "unat (drop_bit 16 sm) = unat sm div 65536" by (simp add: drop_bit_eq_div unat_div)
  have "unat sm div 65536 < 65536" using unat_u32_less[of sm] by simp
  then show "unat ((sm AND 0xFFFF) + drop_bit 16 sm) = unat sm mod 65536 + unat sm div 65536"
    by (simp add: unat_word_ariths lo hi)
  have "unat (drop_bit 16 sm) \<noteq> 0" using assms by (simp only: unat_eq_zero not_False_eq_True)
  then have "0 < unat sm div 65536" using hi by linarith
  then show "unat sm mod 65536 + unat sm div 65536 < unat sm"
    using div_mult_mod_eq[of "unat sm" 65536] by linarith
qed

function checksum_fold :: "u32 \<Rightarrow> u32" where
  "checksum_fold sm = (if drop_bit 16 sm \<noteq> 0 then checksum_fold ((sm AND 0xFFFF) + drop_bit 16 sm) else sm)"
  by auto
termination
proof (relation "measure unat")
  fix sm :: u32 assume hi: "drop_bit 16 sm \<noteq> 0"
  show "((sm AND 0xFFFF) + drop_bit 16 sm, sm) \<in> measure unat"
    unfolding in_measure checksum_fold_decreases(1)[OF hi] by (rule checksum_fold_decreases(2)[OF hi])
qed simp

declare checksum_fold.simps [simp del]

definition net_checksum :: "packet \<Rightarrow> u16" where
  "net_checksum p = ucast (NOT (checksum_fold (checksum_words 0 p)))"

section \<open>Addresses\<close>

definition net_make_ip :: "u8 \<Rightarrow> u8 \<Rightarrow> u8 \<Rightarrow> u8 \<Rightarrow> u32" where
  "net_make_ip a b c d = push_bit 24 (ucast a) OR push_bit 16 (ucast b) OR push_bit 8 (ucast c) OR ucast d"

text \<open>One pass over the string; \<^verbatim>\<open>parts\<close> holds the four numbers read so far.  The result is Some None for \<^verbatim>\<open>-1\<close>.\<close>

partial_function (option) parse_ip_loop ::
  "memory \<Rightarrow> u32 \<Rightarrow> u32 \<Rightarrow> u32 list \<Rightarrow> nat \<Rightarrow> bool \<Rightarrow> u32 list option option" where
  "parse_ip_loop m str i parts idx has_digit =
     (let c = m (str + i) in
      if 0x30 \<le> c \<and> c \<le> 0x39 then
        let v = parts ! idx * 10 + (ucast c - 0x30) in
        if v > 255 then Some None
        else parse_ip_loop m str (i + 1) (parts[idx := v]) idx True
      else if c = 0x2E then
        if \<not> has_digit \<or> 3 \<le> idx then Some None
        else parse_ip_loop m str (i + 1) parts (idx + 1) False
      else if c = 0 \<or> c = 0x20 then
        if \<not> has_digit \<or> idx \<noteq> 3 then Some None else Some (Some parts)
      else Some None)"

definition net_parse_ip :: "memory \<Rightarrow> u32 \<Rightarrow> u32 option option" where
  "net_parse_ip m str =
     (if str = 0 then Some None
      else map_option (map_option (\<lambda>parts. net_make_ip (ucast (parts ! 0)) (ucast (parts ! 1)) (ucast (parts ! 2)) (ucast (parts ! 3))))
             (parse_ip_loop m str 0 [0, 0, 0, 0] 0 False))"

text \<open>\<^verbatim>\<open>tmp\<close> is the address of the local buffer and \<^verbatim>\<open>dot\<close> that of the literal \<^verbatim>\<open>"."\<close>; the loop counts \<^verbatim>\<open>i\<close> down from 3.\<close>

fun format_ip_loop :: "u32 \<Rightarrow> u32 \<Rightarrow> u32 \<Rightarrow> u32 \<Rightarrow> nat \<Rightarrow> memory \<Rightarrow> memory option" where
  "format_ip_loop ip buf tmp dot i m =
     (let oct = ucast (drop_bit (i * 8) ip AND 0xFF) :: u8 in
      case strcat buf tmp (k_utoa (ucast oct) tmp 10 m) of None \<Rightarrow> None
      | Some m \<Rightarrow>
        (case i of 0 \<Rightarrow> Some m
         | Suc j \<Rightarrow> (case strcat buf dot m of None \<Rightarrow> None | Some m \<Rightarrow> format_ip_loop ip buf tmp dot j m)))"

declare format_ip_loop.simps [simp del]

definition net_format_ip :: "u32 \<Rightarrow> u32 \<Rightarrow> u32 \<Rightarrow> u32 \<Rightarrow> memory \<Rightarrow> memory option" where
  "net_format_ip ip buf tmp dot m = (if buf = 0 then Some m else format_ip_loop ip buf tmp dot 3 (m(buf := 0)))"

section \<open>Configuration\<close>

definition net_init :: "net_state \<Rightarrow> net_state" where
  "net_init st = st\<lparr>
     net_config := \<lparr>configured = False, dhcp_leased = False, cfg_ip = 0, netmask = 0, gateway = 0, dns = 0, dhcp_server = 0,
       rx_eth = 0, rx_arp = 0, rx_ipv4 = 0, rx_icmp = 0, rx_udp = 0\<rparr>,
     arp_cache_arr := replicate NET_ARP_CACHE_SIZE \<lparr>arp_ip = 0, arp_mac = replicate 6 0, updated_tick = 0, arp_valid = False\<rparr>\<rparr>"

definition net_set_static_ip :: "u32 \<Rightarrow> u32 \<Rightarrow> u32 \<Rightarrow> u32 \<Rightarrow> net_state \<Rightarrow> net_state" where
  "net_set_static_ip ip nmask gw nsrv st = st\<lparr>net_config := (net_config st)\<lparr>
     cfg_ip := ip, netmask := nmask, gateway := gw, dns := nsrv, dhcp_leased := False, configured := (ip \<noteq> 0)\<rparr>\<rparr>"

section \<open>ARP cache\<close>

text \<open>The scan of \<^verbatim>\<open>arp_cache_update\<close>: Inl the slot that already holds the address, or Inr the first free slot and the
  slot with the least tick.\<close>

function arp_scan :: "arp_entry_t list \<Rightarrow> u32 \<Rightarrow> nat \<Rightarrow> nat option \<Rightarrow> nat \<Rightarrow> u32 \<Rightarrow> nat + (nat option \<times> nat)" where
  "arp_scan es ip i free_slot oldest_slot oldest_tick =
     (if i < length es then
        let e = es ! i in
        if arp_valid e \<and> arp_ip e = ip then Inl i
        else
          let free_slot' = (if \<not> arp_valid e \<and> free_slot = None then Some i else free_slot) in
          if arp_valid e \<and> updated_tick e < oldest_tick
          then arp_scan es ip (i + 1) free_slot' i (updated_tick e)
          else arp_scan es ip (i + 1) free_slot' oldest_slot oldest_tick
      else Inr (free_slot, oldest_slot))"
  by auto
termination by (relation "measure (\<lambda>(es, _, i, _). length es - i)") auto

declare arp_scan.simps [simp del]

definition arp_cache_update :: "u32 \<Rightarrow> u8 list \<Rightarrow> net_state \<Rightarrow> net_state" where
  "arp_cache_update ip mac st =
     (if ip = 0 then st
      else
        let es = arp_cache_arr st in
        case arp_scan es ip 0 None 0 0xFFFFFFFF of
          Inl i \<Rightarrow> st\<lparr>arp_cache_arr := es[i := (es ! i)\<lparr>arp_mac := mac, updated_tick := ticks st\<rparr>]\<rparr>
        | Inr (free_slot, oldest_slot) \<Rightarrow>
            let slot = (case free_slot of Some i \<Rightarrow> i | None \<Rightarrow> oldest_slot) in
            st\<lparr>arp_cache_arr := es[slot := \<lparr>arp_ip = ip, arp_mac = mac, updated_tick = ticks st, arp_valid = True\<rparr>]\<rparr>)"

fun arp_lookup :: "arp_entry_t list \<Rightarrow> u32 \<Rightarrow> u8 list option" where
  "arp_lookup [] ip = None"
| "arp_lookup (e # es) ip = (if arp_valid e \<and> arp_ip e = ip then Some (arp_mac e) else arp_lookup es ip)"

definition arp_cache_lookup :: "u32 \<Rightarrow> net_state \<Rightarrow> u8 list option" where
  "arp_cache_lookup ip st = arp_lookup (arp_cache_arr st) ip"

section \<open>Sending\<close>

definition nic_get_mac :: "net_state \<Rightarrow> u8 list" where
  "nic_get_mac st = (if nic_initialized st then nic_mac st else replicate 6 0)"

definition nic_send_packet :: "packet \<Rightarrow> net_state \<Rightarrow> bool \<times> net_state" where
  "nic_send_packet p st =
     (if \<not> nic_initialized st \<or> p = [] \<or> \<not> tx_ready st then (False, st) else (True, st\<lparr>sent := sent st @ [p]\<rparr>))"

definition send_eth_frame :: "u8 list \<Rightarrow> u16 \<Rightarrow> packet \<Rightarrow> net_state \<Rightarrow> bool \<times> net_state" where
  "send_eth_frame dst ethertype payload st =
     (if \<not> nic_initialized st \<or> 1500 < length payload then (False, st)
      else nic_send_packet (dst @ nic_get_mac st @ put16 (bswap16 ethertype) @ payload) st)"

definition arp_packet :: "u16 \<Rightarrow> u8 list \<Rightarrow> u32 \<Rightarrow> net_state \<Rightarrow> packet" where
  "arp_packet op target_mac target_ip st =
     put16 (bswap16 1) @ put16 (bswap16 ETH_TYPE_IPV4) @ [6, 4] @ put16 (bswap16 op) @ nic_get_mac st
     @ put32 (bswap32 (cfg_ip (net_config st)))
     @ (if op = ARP_OP_REQUEST then replicate 6 0 else target_mac) @ put32 (bswap32 target_ip)"

definition send_arp_packet :: "u16 \<Rightarrow> u8 list \<Rightarrow> u32 \<Rightarrow> net_state \<Rightarrow> net_state" where
  "send_arp_packet op target_mac target_ip st =
     snd (send_eth_frame (if op = ARP_OP_REQUEST then bcast_mac else target_mac) ETH_TYPE_ARP
            (arp_packet op target_mac target_ip st) st)"

text \<open>\<^verbatim>\<open>if (irq_are_enabled()) hlt();\<close>: with interrupts enabled the processor sleeps until the timer ticks.\<close>

definition hlt_if_enabled :: "net_state \<Rightarrow> net_state" where
  "hlt_if_enabled st = (if irq_enabled st then st\<lparr>ticks := ticks st + 1\<rparr> else st)"

partial_function (option) arp_wait ::
  "(net_state \<Rightarrow> net_state option) \<Rightarrow> u32 \<Rightarrow> u32 \<Rightarrow> u32 \<Rightarrow> net_state \<Rightarrow> (u8 list option \<times> net_state) option" where
  "arp_wait poll target_ip start per_try st =
     (if ticks st - start < per_try then
        (case poll st of None \<Rightarrow> None
         | Some st \<Rightarrow>
           (case arp_cache_lookup target_ip st of
              Some mac \<Rightarrow> Some (Some mac, st)
            | None \<Rightarrow> arp_wait poll target_ip start per_try (hlt_if_enabled st)))
      else Some (None, st))"

fun arp_attempts ::
  "(net_state \<Rightarrow> net_state option) \<Rightarrow> u32 \<Rightarrow> u32 \<Rightarrow> nat \<Rightarrow> net_state \<Rightarrow> (u8 list option \<times> net_state) option" where
  "arp_attempts poll target_ip per_try 0 st = Some (None, st)"
| "arp_attempts poll target_ip per_try (Suc n) st =
     (let st = send_arp_packet ARP_OP_REQUEST bcast_mac target_ip st in
      case arp_wait poll target_ip (ticks st) per_try st of None \<Rightarrow> None
      | Some (Some mac, st) \<Rightarrow> Some (Some mac, st)
      | Some (None, st) \<Rightarrow> arp_attempts poll target_ip per_try n st)"

definition net_arp_resolve ::
  "(net_state \<Rightarrow> net_state option) \<Rightarrow> u32 \<Rightarrow> u32 \<Rightarrow> net_state \<Rightarrow> (u8 list option \<times> net_state) option" where
  "net_arp_resolve poll target_ip timeout_ms st =
     (if \<not> nic_initialized st then Some (None, st)
      else if target_ip = bcast_ip then Some (Some bcast_mac, st)
      else case arp_cache_lookup target_ip st of
        Some mac \<Rightarrow> Some (Some mac, st)
      | None \<Rightarrow>
        let ticks_per_sec = (if timer_frequency st \<noteq> 0 then timer_frequency st else 100);
            wait_ticks = (timeout_ms * ticks_per_sec) div 1000;
            wait_ticks = (if wait_ticks < 5 then 5 else wait_ticks);
            per_try = (if wait_ticks div 3 \<noteq> 0 then wait_ticks div 3 else 2)
        in arp_attempts poll target_ip per_try 3 st)"

definition route_next_hop :: "u32 \<Rightarrow> net_state \<Rightarrow> u32" where
  "route_next_hop dst_ip st =
     (let cfg = net_config st in
      if dst_ip = bcast_ip then bcast_ip
      else if netmask cfg \<noteq> 0 \<and> gateway cfg \<noteq> 0 \<and> dst_ip AND netmask cfg \<noteq> cfg_ip cfg AND netmask cfg
      then gateway cfg
      else dst_ip)"

definition ipv4_header :: "u16 \<Rightarrow> u16 \<Rightarrow> u8 \<Rightarrow> u16 \<Rightarrow> u32 \<Rightarrow> u32 \<Rightarrow> packet" where
  "ipv4_header total_len ident prot cksum src_ip dst_ip =
     [0x45, 0] @ put16 (bswap16 total_len) @ put16 (bswap16 ident) @ put16 0 @ [64, prot] @ put16 cksum
     @ put32 (bswap32 src_ip) @ put32 (bswap32 dst_ip)"

definition ipv4_frame :: "u32 \<Rightarrow> u32 \<Rightarrow> u8 \<Rightarrow> packet \<Rightarrow> u16 \<Rightarrow> packet" where
  "ipv4_frame src_ip dst_ip prot payload ident =
     (let hdr = (\<lambda>ck. ipv4_header (of_nat (20 + length payload)) ident prot ck src_ip dst_ip)
      in hdr (bswap16 (net_checksum (hdr 0))) @ payload)"

definition send_ipv4_packet ::
  "(net_state \<Rightarrow> net_state option) \<Rightarrow> u32 \<Rightarrow> u32 \<Rightarrow> u8 list option \<Rightarrow> u8 \<Rightarrow> packet \<Rightarrow> net_state \<Rightarrow> (bool \<times> net_state) option" where
  "send_ipv4_packet poll src_ip dst_ip dst_mac_override prot payload st =
     (if 1500 < 20 + length payload then Some (False, st)
      else
        case (case dst_mac_override of
                Some mac \<Rightarrow> Some (Some mac, st)
              | None \<Rightarrow> net_arp_resolve poll (route_next_hop dst_ip st) 800 st) of
          None \<Rightarrow> None
        | Some (None, st) \<Rightarrow> Some (False, st)
        | Some (Some dst_mac, st) \<Rightarrow>
            let ident = ip_id_counter st;
                st = st\<lparr>ip_id_counter := ip_id_counter st + 1\<rparr>
            in Some (send_eth_frame dst_mac ETH_TYPE_IPV4 (ipv4_frame src_ip dst_ip prot payload ident) st))"

definition udp_datagram :: "u16 \<Rightarrow> u16 \<Rightarrow> packet \<Rightarrow> packet" where
  "udp_datagram src_port dst_port payload =
     put16 (bswap16 src_port) @ put16 (bswap16 dst_port) @ put16 (bswap16 (of_nat (8 + length payload))) @ put16 0 @ payload"

definition net_send_udp ::
  "(net_state \<Rightarrow> net_state option) \<Rightarrow> u32 \<Rightarrow> u16 \<Rightarrow> u16 \<Rightarrow> packet \<Rightarrow> net_state \<Rightarrow> (bool \<times> net_state) option" where
  "net_send_udp poll dst_ip src_port dst_port payload st =
     (if 1472 < 8 + length payload then Some (False, st)
      else send_ipv4_packet poll (cfg_ip (net_config st)) dst_ip (if dst_ip = bcast_ip then Some bcast_mac else None)
             IP_PROTO_UDP (udp_datagram src_port dst_port payload) st)"


section \<open>Ping\<close>

definition echo_packet :: "u8 \<Rightarrow> u16 \<Rightarrow> u16 \<Rightarrow> u16 \<Rightarrow> packet \<Rightarrow> packet" where
  "echo_packet typ ck ident sequ body = [typ, 0] @ put16 ck @ put16 (bswap16 ident) @ put16 (bswap16 sequ) @ body"

definition ping_body :: packet where
  "ping_body = map (\<lambda>i. 0x41 + of_nat (i mod 26)) [0..<32]"

partial_function (option) ping_wait ::
  "(net_state \<Rightarrow> net_state option) \<Rightarrow> u32 \<Rightarrow> u32 \<Rightarrow> u32 \<Rightarrow> net_state \<Rightarrow> ((int \<times> (u32 \<times> u8) option) \<times> net_state) option" where
  "ping_wait poll freq start_tick max_ticks st =
     (if ticks st - start_tick \<le> max_ticks then
        (case poll st of None \<Rightarrow> None
         | Some st \<Rightarrow>
           if ping_reply_received st
           then Some ((0, Some (((ping_reply_tick st - start_tick) * 1000) div freq, ping_reply_ttl st)), st)
           else ping_wait poll freq start_tick max_ticks (hlt_if_enabled st))
      else Some ((- 1, None), st))"

definition net_ping ::
  "(net_state \<Rightarrow> net_state option) \<Rightarrow> u32 \<Rightarrow> u16 \<Rightarrow> u32 \<Rightarrow> net_state \<Rightarrow> ((int \<times> (u32 \<times> u8) option) \<times> net_state) option" where
  "net_ping poll dst_ip sequ timeout_ms st =
     (if \<not> nic_initialized st \<or> \<not> configured (net_config st) then Some ((- 1, None), st)
      else case net_arp_resolve poll (route_next_hop dst_ip st) timeout_ms st of
        None \<Rightarrow> None
      | Some (None, st) \<Rightarrow> Some ((- 2, None), st)
      | Some (Some dst_mac, st) \<Rightarrow>
          let pid = 0xB705;
              pkt = (\<lambda>ck. echo_packet ICMP_ECHO_REQUEST ck pid sequ ping_body);
              p = pkt (bswap16 (net_checksum (pkt 0)));
              st = st\<lparr>ping_expected_id := pid, ping_expected_seq := sequ, ping_reply_received := False\<rparr>;
              start_tick = ticks st
          in (case send_ipv4_packet poll (cfg_ip (net_config st)) dst_ip (Some dst_mac) IP_PROTO_ICMP p st of
                None \<Rightarrow> None
              | Some (False, st) \<Rightarrow> Some ((- 1, None), st)
              | Some (True, st) \<Rightarrow>
                  let freq = (if timer_frequency st \<noteq> 0 then timer_frequency st else 100);
                      max_ticks = (timeout_ms * freq) div 1000;
                      max_ticks = (if max_ticks < 2 then 2 else max_ticks)
                  in ping_wait poll freq start_tick max_ticks st))"

section \<open>DHCP client\<close>

definition dhcp_options :: "u8 \<Rightarrow> u32 \<Rightarrow> u32 \<Rightarrow> packet" where
  "dhcp_options msg_type req_ip srv_ip =
     [53, 1, msg_type]
     @ (if msg_type = DHCP_REQUEST \<and> req_ip \<noteq> 0 then [50, 4] @ put32 (bswap32 req_ip) else [])
     @ (if msg_type = DHCP_REQUEST \<and> srv_ip \<noteq> 0 then [54, 4] @ put32 (bswap32 srv_ip) else [])
     @ [55, 3, 1, 3, 6, 255]"

definition dhcp_packet :: "u8 \<Rightarrow> u32 \<Rightarrow> u32 \<Rightarrow> u32 \<Rightarrow> net_state \<Rightarrow> packet" where
  "dhcp_packet msg_type xid req_ip srv_ip st =
     (let opts = dhcp_options msg_type req_ip srv_ip in
      [1, 1, 6, 0] @ put32 (bswap32 xid) @ put16 0 @ put16 (bswap16 0x8000)
      @ put32 0 @ put32 0 @ put32 0 @ put32 0 @ nic_get_mac st @ replicate 10 0 @ replicate 64 0 @ replicate 128 0
      @ put32 (bswap32 DHCP_MAGIC_COOKIE) @ opts @ replicate (308 - length opts) 0)"

definition send_dhcp_message ::
  "(net_state \<Rightarrow> net_state option) \<Rightarrow> u8 \<Rightarrow> u32 \<Rightarrow> u32 \<Rightarrow> u32 \<Rightarrow> net_state \<Rightarrow> (bool \<times> net_state) option" where
  "send_dhcp_message poll msg_type xid req_ip srv_ip st =
     send_ipv4_packet poll 0 bcast_ip (Some bcast_mac) IP_PROTO_UDP
       (udp_datagram DHCP_CLIENT_PORT DHCP_SERVER_PORT (dhcp_packet msg_type xid req_ip srv_ip st)) st"

text \<open>The two waiting loops of \<^verbatim>\<open>net_dhcp_discover\<close> differ in their exit condition \<^verbatim>\<open>stop\<close>.\<close>

partial_function (option) dhcp_wait ::
  "(net_state \<Rightarrow> net_state option) \<Rightarrow> (net_state \<Rightarrow> bool) \<Rightarrow> u32 \<Rightarrow> u32 \<Rightarrow> net_state \<Rightarrow> net_state option" where
  "dhcp_wait poll stop start half_ticks st =
     (if ticks st - start < half_ticks then
        (case poll st of None \<Rightarrow> None
         | Some st \<Rightarrow> if stop st then Some st else dhcp_wait poll stop start half_ticks (hlt_if_enabled st))
      else Some st)"

definition got_offer :: "net_state \<Rightarrow> bool" where
  "got_offer st \<longleftrightarrow> dhcp_rx_msg_type st = DHCP_OFFER \<and> dhcp_offered_ip st \<noteq> 0"

definition got_ack :: "net_state \<Rightarrow> bool" where
  "got_ack st \<longleftrightarrow> dhcp_rx_msg_type st = DHCP_ACK"

definition dhcp_configure :: "u32 \<Rightarrow> net_state \<Rightarrow> net_state" where
  "dhcp_configure req_ip st = st\<lparr>net_config := (net_config st)\<lparr>
     cfg_ip := (if dhcp_offered_ip st \<noteq> 0 then dhcp_offered_ip st else req_ip),
     netmask := (if dhcp_offered_mask st \<noteq> 0 then dhcp_offered_mask st else net_make_ip 255 255 255 0),
     gateway := dhcp_offered_gw st, dns := dhcp_offered_dns st, dhcp_server := dhcp_offered_srv st,
     dhcp_leased := True, configured := True\<rparr>\<rparr>"

definition dhcp_request ::
  "(net_state \<Rightarrow> net_state option) \<Rightarrow> u32 \<Rightarrow> u32 \<Rightarrow> net_state \<Rightarrow> (int \<times> net_state) option" where
  "dhcp_request poll xid half_ticks st =
     (let req_ip = dhcp_offered_ip st;
          srv_ip = dhcp_offered_srv st;
          st = st\<lparr>dhcp_rx_msg_type := 0\<rparr>
      in case send_dhcp_message poll DHCP_REQUEST xid req_ip srv_ip st of
           None \<Rightarrow> None
         | Some (False, st) \<Rightarrow> Some (- 1, st)
         | Some (True, st) \<Rightarrow>
             (case dhcp_wait poll got_ack (ticks st) half_ticks st of None \<Rightarrow> None
              | Some st \<Rightarrow>
                  if \<not> got_ack st \<and> req_ip = 0 then Some (- 1, st) else Some (0, dhcp_configure req_ip st)))"

definition net_dhcp_discover :: "(net_state \<Rightarrow> net_state option) \<Rightarrow> u32 \<Rightarrow> net_state \<Rightarrow> (int \<times> net_state) option" where
  "net_dhcp_discover poll timeout_ms st =
     (if \<not> nic_initialized st then Some (- 1, st)
      else
        let xid = 0xBE6A1000 XOR (ticks st + 1);
            st = st\<lparr>dhcp_expected_xid := xid, dhcp_rx_msg_type := 0, dhcp_offered_ip := 0,
                   dhcp_offered_mask := net_make_ip 255 255 255 0, dhcp_offered_gw := 0, dhcp_offered_dns := 0,
                   dhcp_offered_srv := 0\<rparr>
        in case send_dhcp_message poll DHCP_DISCOVER xid 0 0 st of
             None \<Rightarrow> None
           | Some (False, st) \<Rightarrow> Some (- 1, st)
           | Some (True, st) \<Rightarrow>
               let freq = (if timer_frequency st \<noteq> 0 then timer_frequency st else 100);
                   half_ticks = ((timeout_ms div 2) * freq) div 1000;
                   half_ticks = (if half_ticks < 5 then 5 else half_ticks)
               in (case dhcp_wait poll got_offer (ticks st) half_ticks st of None \<Rightarrow> None
                   | Some st \<Rightarrow> if \<not> got_offer st then Some (- 1, st) else dhcp_request poll xid half_ticks st))"

definition net_autoconfig :: "(net_state \<Rightarrow> net_state option) \<Rightarrow> net_state \<Rightarrow> net_state option" where
  "net_autoconfig poll st =
     (if \<not> nic_initialized st then Some st
      else case net_dhcp_discover poll 900 st of
        None \<Rightarrow> None
      | Some (rc, st) \<Rightarrow>
          if rc = 0 then Some (st\<lparr>net_log := net_log st @ [Lease_acquired (cfg_ip (net_config st))]\<rparr>)
          else
            let st = net_set_static_ip (net_make_ip 10 0 2 15) (net_make_ip 255 255 255 0) (net_make_ip 10 0 2 2)
                       (net_make_ip 10 0 2 3) st
            in Some (st\<lparr>net_log := net_log st @ [Fallback_configured]\<rparr>))"

section \<open>Incoming packets\<close>

definition bump :: "(net_config_t \<Rightarrow> net_config_t) \<Rightarrow> net_state \<Rightarrow> net_state" where
  "bump f st = st\<lparr>net_config := f (net_config st)\<rparr>"

definition handle_arp :: "packet \<Rightarrow> net_state \<Rightarrow> net_state" where
  "handle_arp p st =
     (if length p < 28 then st
      else if bswap16 (get16 p 0) \<noteq> 1 \<or> bswap16 (get16 p 2) \<noteq> ETH_TYPE_IPV4 then st
      else
        let st = bump (\<lambda>c. c\<lparr>rx_arp := rx_arp c + 1\<rparr>) st;
            sender_ip = bswap32 (get32 p 14);
            target_ip = bswap32 (get32 p 24);
            oper = bswap16 (get16 p 6);
            sha = get_bytes p 8 6;
            st = arp_cache_update sender_ip sha st
        in if oper = ARP_OP_REQUEST \<and> configured (net_config st) \<and> target_ip = cfg_ip (net_config st)
           then send_arp_packet ARP_OP_REPLY sha sender_ip st
           else st)"

definition handle_icmp ::
  "(net_state \<Rightarrow> net_state option) \<Rightarrow> u32 \<Rightarrow> u8 \<Rightarrow> packet \<Rightarrow> net_state \<Rightarrow> net_state option" where
  "handle_icmp poll src_ip ttl p st =
     (if length p < 8 then Some st
      else
        let st = bump (\<lambda>c. c\<lparr>rx_icmp := rx_icmp c + 1\<rparr>) st in
        if p ! 0 = ICMP_ECHO_REQUEST \<and> configured (net_config st) then
          if 1480 < length p then Some st
          else
            let reply = (\<lambda>ck. [ICMP_ECHO_REPLY, 0] @ put16 ck @ drop 4 p)
            in map_option snd (send_ipv4_packet poll (cfg_ip (net_config st)) src_ip None IP_PROTO_ICMP
                                 (reply (bswap16 (net_checksum (reply 0)))) st)
        else if p ! 0 = ICMP_ECHO_REPLY \<and> bswap16 (get16 p 4) = ping_expected_id st
                \<and> bswap16 (get16 p 6) = ping_expected_seq st
        then Some (st\<lparr>ping_reply_ttl := ttl, ping_reply_tick := ticks st, ping_reply_received := True\<rparr>)
        else Some st)"

text \<open>The values the option scan collects, and the scan itself.  A read outside the options has the value None.\<close>

record dhcp_opts =
  o_msg_type :: u8
  o_mask :: u32
  o_gw :: u32
  o_dns :: u32
  o_srv :: u32

definition opt_byte :: "packet \<Rightarrow> nat \<Rightarrow> u8 option" where
  "opt_byte opts i = (if i < length opts then Some (opts ! i) else None)"

definition opt_word :: "packet \<Rightarrow> nat \<Rightarrow> u32 option" where
  "opt_word opts i = (if i + 4 \<le> length opts then Some (bswap32 (get32 opts i)) else None)"

definition dhcp_option :: "packet \<Rightarrow> u8 \<Rightarrow> nat \<Rightarrow> nat \<Rightarrow> dhcp_opts \<Rightarrow> dhcp_opts option" where
  "dhcp_option opts code olen i acc =
     (if code = 53 \<and> 1 \<le> olen then map_option (\<lambda>v. acc\<lparr>o_msg_type := v\<rparr>) (opt_byte opts i)
      else if code = 1 \<and> 4 \<le> olen then map_option (\<lambda>v. acc\<lparr>o_mask := v\<rparr>) (opt_word opts i)
      else if code = 3 \<and> 4 \<le> olen then map_option (\<lambda>v. acc\<lparr>o_gw := v\<rparr>) (opt_word opts i)
      else if code = 6 \<and> 4 \<le> olen then map_option (\<lambda>v. acc\<lparr>o_dns := v\<rparr>) (opt_word opts i)
      else if code = 54 \<and> 4 \<le> olen then map_option (\<lambda>v. acc\<lparr>o_srv := v\<rparr>) (opt_word opts i)
      else Some acc)"

function dhcp_scan :: "packet \<Rightarrow> nat \<Rightarrow> dhcp_opts \<Rightarrow> dhcp_opts option" where
  "dhcp_scan opts i acc =
     (if i < length opts then
        case opt_byte opts i of None \<Rightarrow> None
        | Some code \<Rightarrow>
          if code = 0 then dhcp_scan opts (i + 1) acc
          else if code = 255 then Some acc
          else if length opts \<le> i + 1 then Some acc
          else (case opt_byte opts (i + 1) of None \<Rightarrow> None
                | Some ol \<Rightarrow>
                  let olen = unat ol in
                  if length opts < i + 2 + olen then Some acc
                  else (case dhcp_option opts code olen (i + 2) acc of None \<Rightarrow> None
                        | Some acc \<Rightarrow> dhcp_scan opts (i + 2 + olen) acc))
      else Some acc)"
  by auto
termination by (relation "measure (\<lambda>(opts, i, _). length opts - i)") auto

declare dhcp_scan.simps [simp del]

definition handle_dhcp :: "packet \<Rightarrow> net_state \<Rightarrow> net_state option" where
  "handle_dhcp p st =
     (if length p < 240 then Some st
      else if p ! 0 \<noteq> 2 then Some st
      else if bswap32 (get32 p 4) \<noteq> dhcp_expected_xid st then Some st
      else if bswap32 (get32 p 236) \<noteq> DHCP_MAGIC_COOKIE then Some st
      else if get_bytes p 28 6 \<noteq> nic_get_mac st then Some st
      else
        let yiaddr = bswap32 (get32 p 16) in
        case dhcp_scan (drop 240 p) 0 \<lparr>o_msg_type = 0, o_mask = 0, o_gw = 0, o_dns = 0, o_srv = 0\<rparr> of None \<Rightarrow> None
        | Some v \<Rightarrow>
          if o_msg_type v = DHCP_OFFER \<or> o_msg_type v = DHCP_ACK then
            Some (st\<lparr>dhcp_offered_ip := (if yiaddr \<noteq> 0 then yiaddr else dhcp_offered_ip st),
                    dhcp_offered_mask := (if o_mask v \<noteq> 0 then o_mask v else dhcp_offered_mask st),
                    dhcp_offered_gw := (if o_gw v \<noteq> 0 then o_gw v else dhcp_offered_gw st),
                    dhcp_offered_dns := (if o_dns v \<noteq> 0 then o_dns v else dhcp_offered_dns st),
                    dhcp_offered_srv := (if o_srv v \<noteq> 0 then o_srv v else dhcp_offered_srv st),
                    dhcp_rx_msg_type := o_msg_type v\<rparr>)
          else Some st)"

definition handle_udp :: "packet \<Rightarrow> net_state \<Rightarrow> net_state option" where
  "handle_udp p st =
     (if length p < 8 then Some st
      else
        let ulen = unat (bswap16 (get16 p 4)) in
        if ulen < 8 \<or> length p < ulen then Some st
        else
          let st = bump (\<lambda>c. c\<lparr>rx_udp := rx_udp c + 1\<rparr>) st in
          if bswap16 (get16 p 2) = DHCP_CLIENT_PORT then handle_dhcp (get_bytes p 8 (ulen - 8)) st else Some st)"

definition handle_ipv4 ::
  "(net_state \<Rightarrow> net_state option) \<Rightarrow> u8 list \<Rightarrow> packet \<Rightarrow> net_state \<Rightarrow> net_state option" where
  "handle_ipv4 poll eth_src p st =
     (if length p < 20 then Some st
      else if drop_bit 4 (p ! 0) \<noteq> 4 then Some st
      else
        let ihl = unat (p ! 0 AND 0x0F) * 4 in
        if ihl < 20 \<or> length p < ihl then Some st
        else
          let total_len = unat (bswap16 (get16 p 2)) in
          if total_len < ihl \<or> length p < total_len then Some st
          else if net_checksum (take ihl p) \<noteq> 0 then Some st
          else
            let st = bump (\<lambda>c. c\<lparr>rx_ipv4 := rx_ipv4 c + 1\<rparr>) st;
                src_ip = bswap32 (get32 p 12);
                dst_ip = bswap32 (get32 p 16);
                cfg = net_config st;
                st = (if src_ip \<noteq> 0 \<and> netmask cfg \<noteq> 0 \<and> src_ip AND netmask cfg = cfg_ip cfg AND netmask cfg
                      then arp_cache_update src_ip eth_src st else st)
            in if dst_ip \<noteq> bcast_ip \<and> configured (net_config st) \<and> dst_ip \<noteq> cfg_ip (net_config st) then Some st
               else
                 let l4 = get_bytes p ihl (total_len - ihl) in
                 if p ! 9 = IP_PROTO_ICMP then handle_icmp poll src_ip (p ! 8) l4 st
                 else if p ! 9 = IP_PROTO_UDP then handle_udp l4 st
                 else Some st)"

definition net_rx_packet :: "(net_state \<Rightarrow> net_state option) \<Rightarrow> packet \<Rightarrow> net_state \<Rightarrow> net_state option" where
  "net_rx_packet poll p st =
     (if length p < 14 then Some st
      else
        let st = bump (\<lambda>c. c\<lparr>rx_eth := rx_eth c + 1\<rparr>) st;
            ethertype = bswap16 (get16 p 12);
            pl = drop 14 p
        in if ethertype = ETH_TYPE_ARP then Some (handle_arp pl st)
           else if ethertype = ETH_TYPE_IPV4 then handle_ipv4 poll (get_bytes p 6 6) pl st
           else Some st)"

fun rx_batch :: "(net_state \<Rightarrow> net_state option) \<Rightarrow> packet list \<Rightarrow> net_state \<Rightarrow> net_state option" where
  "rx_batch poll [] st = Some st"
| "rx_batch poll (p # ps) st = (case net_rx_packet poll p st of None \<Rightarrow> None | Some st \<Rightarrow> rx_batch poll ps st)"

text \<open>\<^verbatim>\<open>nic_poll\<close> handles the received frames with interrupts disabled.\<close>

fun nic_poll :: "nat \<Rightarrow> net_state \<Rightarrow> net_state option" where
  "nic_poll 0 st = None"
| "nic_poll (Suc n) st =
     (if \<not> nic_initialized st then Some st
      else case arrivals st of
        [] \<Rightarrow> Some st
      | b # bs \<Rightarrow>
          map_option (\<lambda>st'. st'\<lparr>irq_enabled := irq_enabled st\<rparr>)
            (rx_batch (nic_poll n) b (st\<lparr>arrivals := bs, irq_enabled := False\<rparr>)))"

end
