(* ===== verification/Net_Props.thy ===== *)
theory Net_Props
  imports Net
begin

text \<open>
  Properties of the network stack: the Internet checksum, the ARP cache, the answer to a ping, the DHCP client and the
  textual form of addresses.
\<close>

unbundle bit_operations_syntax

section \<open>Bytes and words of packets\<close>

lemma unat_be_word: "unat (push_bit 8 (ucast (a :: u8) :: u16) OR ucast (b :: u8)) = unat a * 256 + unat b"
proof -
  have "push_bit 8 (ucast a :: u16) OR ucast b = push_bit 8 (ucast a) + ucast b"
    by (rule disjunctive_add[symmetric]) (auto simp: bit_simps dest: bit_imp_le_length)
  then show ?thesis using unat_u8_less[of a] unat_u8_less[of b]
    by (simp add: unat_word_ariths push_bit_eq_mult unat_ucast_up)
qed

lemma put16_bswap16: "put16 (bswap16 v) = [ucast (drop_bit 8 v), ucast v]"
proof -
  have "ucast (bswap16 v) = (ucast (drop_bit 8 v) :: u8)"
    by (rule bit_eqI) (auto simp: bswap16_def bit_simps)
  moreover have "ucast (drop_bit 8 (bswap16 v)) = (ucast v :: u8)"
    by (rule bit_eqI) (auto simp: bswap16_def bit_simps)
  ultimately show ?thesis by (simp add: put16_def)
qed

lemma unat_halves: "unat (ucast (drop_bit 8 v) :: u8) * 256 + unat (ucast v :: u8) = unat (v :: u16)"
  using unat_u16_less[of v]
  by (simp add: unsigned_ucast_eq take_bit_eq_mod drop_bit_eq_div unat_div)

lemma get16_put16: "get16 (xs @ put16 v @ ys) (length xs) = v"
  by (simp add: word_all_bits get16_def put16_def nth_append bit_simps)

lemma get32_put32: "get32 (xs @ put32 v @ ys) (length xs) = v"
  by (simp add: word_all_bits get32_def put32_def nth_append bit_simps)

section \<open>Checksum\<close>

fun wsum :: "packet \<Rightarrow> nat" where
  "wsum (a # b # p) = unat a * 256 + unat b + wsum p"
| "wsum [a] = unat a * 256"
| "wsum [] = 0"

lemma wsum_bound: "wsum p \<le> 65535 * ((length p + 1) div 2)"
proof (induction p rule: wsum.induct)
  case (1 a b p)
  then show ?case using unat_u8_less[of a] unat_u8_less[of b] by simp
next
  case (2 a)
  then show ?case using unat_u8_less[of a] by simp
qed simp

lemma wsum_append: "even (length xs) \<Longrightarrow> wsum (xs @ ys) = wsum xs + wsum ys"
  by (induction xs rule: wsum.induct) auto

lemma unat_checksum_words:
  "unat sm + wsum p < 4294967296 \<Longrightarrow> unat (checksum_words sm p) = unat sm + wsum p"
proof (induction sm p rule: checksum_words.induct)
  case (1 sm a b p)
  have "unat (ucast (push_bit 8 (ucast a :: u16) OR ucast b) :: u32) = unat a * 256 + unat b"
    by (subst unat_ucast_up) (simp_all add: unat_be_word)
  then have "unat (sm + ucast (push_bit 8 (ucast a :: u16) OR ucast b)) = unat sm + unat a * 256 + unat b"
    using 1(2) by (simp add: unat_word_ariths)
  then show ?case using 1 by simp
next
  case (2 sm a)
  then show ?case using unat_u8_less[of a] by (simp add: unat_word_ariths push_bit_eq_mult unat_ucast_up)
qed simp

lemma checksum_fold_mod:
  "unat (checksum_fold s) < 65536 \<and> unat (checksum_fold s) mod 65535 = unat s mod 65535 \<and> (checksum_fold s = 0 \<longleftrightarrow> s = 0)"
proof (induction s rule: checksum_fold.induct)
  case (1 s)
  have hi: "unat (drop_bit 16 s) = unat s div 65536" by (simp add: drop_bit_eq_div unat_div)
  show ?case
  proof (cases "drop_bit 16 s = 0")
    case True
    then have "unat s div 65536 = 0" using hi by simp
    then have "unat s < 65536" by (simp add: div_eq_0_iff)
    moreover have "checksum_fold s = s" using True by (subst checksum_fold.simps) (simp only: simp_thms if_False)
    ultimately show ?thesis by simp
  next
    case False
    let ?s = "(s AND 0xFFFF) + drop_bit 16 s"
    note d = checksum_fold_decreases(1)[OF False]
    have "unat s = unat s div 65536 * 65535 + (unat s mod 65536 + unat s div 65536)"
      using div_mult_mod_eq[of "unat s" 65536] by linarith
    then have m: "(unat s mod 65536 + unat s div 65536) mod 65535 = unat s mod 65535" by (metis mod_mult_self3)
    have "unat s div 65536 \<noteq> 0" using False hi by (metis unat_eq_zero)
    then have nz: "?s \<noteq> 0" "s \<noteq> 0" using d by auto
    have e: "checksum_fold s = checksum_fold ?s" using False by (subst checksum_fold.simps) (simp only: simp_thms if_True)
    have IH: "unat (checksum_fold ?s) < 65536" "unat (checksum_fold ?s) mod 65535 = unat ?s mod 65535"
      "checksum_fold ?s = 0 \<longleftrightarrow> ?s = 0"
      by (rule 1(1)[OF False, THEN conjunct1] 1(1)[OF False, THEN conjunct2, THEN conjunct1]
        1(1)[OF False, THEN conjunct2, THEN conjunct2])+
    show ?thesis unfolding e using IH unfolding d m by (simp only: nz simp_thms)
  qed
qed

lemma unat_net_checksum: "unat (net_checksum p) = 65535 - unat (checksum_fold (checksum_words 0 p))"
proof -
  let ?r = "checksum_fold (checksum_words 0 p)"
  have r: "unat ?r < 65536" using checksum_fold_mod by blast
  have n: "NOT ?r = - 1 - ?r" by (simp add: not_eq_complement)
  have "unat (NOT ?r) = unat (- 1 :: u32) - unat ?r" unfolding n by (rule unat_sub) (rule word_order.extremum)
  moreover have "unat (- 1 :: u32) = 4294967295" by (simp add: unsigned_minus_1_eq_mask mask_eq_exp_minus_1)
  ultimately have "unat (NOT ?r) = 4294967295 - unat ?r" by (simp only:)
  also have "\<dots> = 65535 * 65536 + (65535 - unat ?r)" using r by linarith
  finally have "unat (NOT ?r) mod 65536 = (65535 - unat ?r) mod 65536" by (simp only: mod_mult_self3)
  then have "unat (NOT ?r) mod 65536 = 65535 - unat ?r" by simp
  then show ?thesis unfolding net_checksum_def by (simp add: unsigned_ucast_eq take_bit_eq_mod)
qed

lemma checksum_fold_wsum:
  assumes "length p \<le> 65536"
  defines "r \<equiv> unat (checksum_fold (checksum_words 0 p))"
  shows "r < 65536" "r mod 65535 = wsum p mod 65535" "r = 0 \<longleftrightarrow> wsum p = 0"
proof -
  have "(length p + 1) div 2 \<le> 32768" using assms(1) by linarith
  then have "wsum p \<le> 65535 * 32768" using wsum_bound[of p] by (meson le_trans mult_le_mono2)
  then have u: "unat (checksum_words 0 p) = wsum p" using unat_checksum_words[of 0 p] by simp
  note f = checksum_fold_mod[of "checksum_words 0 p", folded r_def]
  show "r < 65536" "r mod 65535 = wsum p mod 65535" using f u by auto
  show "r = 0 \<longleftrightarrow> wsum p = 0" using f unfolding r_def u[symmetric] by (simp add: unat_eq_zero)
qed

lemma net_checksum_eq_0_iff:
  assumes "length p \<le> 65536"
  shows "net_checksum p = 0 \<longleftrightarrow> 0 < wsum p \<and> 65535 dvd wsum p"
proof -
  let ?r = "unat (checksum_fold (checksum_words 0 p))"
  note r = checksum_fold_wsum[OF assms]
  have "net_checksum p = 0 \<longleftrightarrow> unat (net_checksum p) = 0" by (simp only: unat_eq_zero)
  also have "\<dots> \<longleftrightarrow> ?r = 65535" unfolding unat_net_checksum using r(1) by linarith
  also have "\<dots> \<longleftrightarrow> ?r \<noteq> 0 \<and> ?r mod 65535 = 0" using r(1) by (auto simp: mod_eq_0_iff_dvd dvd_def)
  also have "\<dots> \<longleftrightarrow> 0 < wsum p \<and> 65535 dvd wsum p" using r by (simp add: dvd_eq_mod_eq_0)
  finally show ?thesis .
qed

lemma wsum_put: "even (length xs) \<Longrightarrow> wsum (xs @ put16 (bswap16 v) @ ys) = wsum xs + unat v + wsum ys"
  by (simp add: wsum_append put16_bswap16 unat_halves add.assoc[symmetric])

text \<open>Storing the checksum of a packet whose checksum field is 0 in that field makes the packet's checksum 0.\<close>

lemma net_checksum_store:
  assumes "even (length xs)" and "length xs + length ys + 2 \<le> 65536" and "0 < wsum (xs @ ys)"
  shows "net_checksum (xs @ put16 (bswap16 (net_checksum (xs @ put16 0 @ ys))) @ ys) = 0"
proof -
  let ?p = "xs @ put16 0 @ ys" and ?s = "wsum xs + wsum ys"
  have p: "wsum ?p = ?s" using wsum_put[OF assms(1), of 0 ys] by (simp add: bswap16_def)
  have len: "length ?p \<le> 65536" using assms(2) by (simp add: put16_def)
  let ?r = "unat (checksum_fold (checksum_words 0 ?p))" and ?c = "net_checksum ?p"
  note r = checksum_fold_wsum[OF len, unfolded p]
  have c: "unat ?c = 65535 - ?r" by (rule unat_net_checksum)
  have s0: "0 < ?s" using assms(1,3) by (simp add: wsum_append)
  have "(?s + (65535 - ?r)) mod 65535 = (?s mod 65535 + (65535 - ?r)) mod 65535"
    by (rule mod_add_left_eq[symmetric])
  also have "\<dots> = (?r mod 65535 + (65535 - ?r)) mod 65535" using r(2) by simp
  also have "\<dots> = 0" using r(1) by (cases "?r = 65535") auto
  finally have "65535 dvd ?s + unat ?c" unfolding c by (simp only: dvd_eq_mod_eq_0)
  moreover have "wsum (xs @ put16 (bswap16 ?c) @ ys) = ?s + unat ?c" using wsum_put[OF assms(1)] by simp
  moreover have "length (xs @ put16 (bswap16 ?c) @ ys) \<le> 65536" using assms(2) by (simp add: put16_def)
  ultimately show ?thesis using s0 by (simp only: net_checksum_eq_0_iff) simp
qed

section \<open>ARP cache\<close>

definition arp_ok :: "arp_entry_t list \<Rightarrow> bool" where
  "arp_ok es \<longleftrightarrow> length es = NET_ARP_CACHE_SIZE
     \<and> (\<forall>i < length es. \<forall>j < length es. arp_valid (es ! i) \<and> arp_valid (es ! j) \<and> arp_ip (es ! i) = arp_ip (es ! j) \<longrightarrow> i = j)"

lemma arp_lookup_None: "arp_lookup es ip = None \<longleftrightarrow> (\<forall>i < length es. \<not> (arp_valid (es ! i) \<and> arp_ip (es ! i) = ip))"
  by (induction es) (auto simp: All_less_Suc2)

lemma arp_lookup_SomeD:
  "arp_lookup es ip = Some m \<Longrightarrow> \<exists>i < length es. arp_valid (es ! i) \<and> arp_ip (es ! i) = ip \<and> arp_mac (es ! i) = m"
  by (induction es) (auto split: if_splits intro: exI[of _ 0] exI[of _ "Suc _"])

lemma arp_lookup_eq:
  assumes "arp_ok es" "i < length es" "arp_valid (es ! i)"
  shows "arp_lookup es (arp_ip (es ! i)) = Some (arp_mac (es ! i))"
proof (cases "arp_lookup es (arp_ip (es ! i))")
  case None
  then show ?thesis using assms by (auto simp: arp_lookup_None)
next
  case (Some m)
  then obtain j where "j < length es" "arp_valid (es ! j)" "arp_ip (es ! j) = arp_ip (es ! i)" "arp_mac (es ! j) = m"
    using arp_lookup_SomeD by blast
  then show ?thesis using assms Some by (auto simp: arp_ok_def)
qed

lemma arp_scan_Inl:
  "arp_scan es ip i f os ot = Inl k \<Longrightarrow> k < length es \<and> arp_valid (es ! k) \<and> arp_ip (es ! k) = ip"
proof (induction es ip i f os ot rule: arp_scan.induct)
  case (1 es ip i f os ot)
  then show ?case by (subst (asm) (3) arp_scan.simps) (auto simp: Let_def split: if_splits)
qed

lemma arp_scan_Inr:
  assumes "arp_scan es ip i f os ot = Inr (f', os')"
    and "os < length es" "\<forall>k. f = Some k \<longrightarrow> k < length es \<and> \<not> arp_valid (es ! k)"
    and "f = None \<longrightarrow> (\<forall>j < i. j < length es \<longrightarrow> arp_valid (es ! j) \<and> ot \<le> updated_tick (es ! j))"
    and "f = None \<longrightarrow> ot = updated_tick (es ! os) \<or> ot = 0xFFFFFFFF"
  shows "(\<forall>j. i \<le> j \<and> j < length es \<longrightarrow> \<not> (arp_valid (es ! j) \<and> arp_ip (es ! j) = ip)) \<and> os' < length es
    \<and> (\<forall>k. f' = Some k \<longrightarrow> k < length es \<and> \<not> arp_valid (es ! k))
    \<and> (f' = None \<longrightarrow> (\<forall>j < length es. arp_valid (es ! j) \<and> updated_tick (es ! os') \<le> updated_tick (es ! j)))"
  using assms
proof (induction es ip i f os ot rule: arp_scan.induct)
  case (1 es ip i f os ot)
  show ?case
  proof (cases "i < length es")
    case False
    then have fo: "f' = f" "os' = os" using 1(3) by (simp_all add: arp_scan.simps[of es ip i])
    have "updated_tick (es ! os) \<le> updated_tick (es ! j)" if "f = None" "j < length es" for j
    proof -
      have "ot \<le> updated_tick (es ! j)" using 1(6) that False by simp
      then show ?thesis using 1(7) that(1) u32_max[of "updated_tick (es ! os)"] by auto
    qed
    then show ?thesis using 1(4-6) False unfolding fo by auto
  next
    case True
    let ?e = "es ! i"
    define f1 where "f1 = (if \<not> arp_valid ?e \<and> f = None then Some i else f)"
    have nm: "\<not> (arp_valid ?e \<and> arp_ip ?e = ip)" using 1(3) True by (auto simp: arp_scan.simps[of es ip i])
    have f1: "\<forall>k. f1 = Some k \<longrightarrow> k < length es \<and> \<not> arp_valid (es ! k)" using 1(5) True by (auto simp: f1_def)
    have ran: "\<not> (arp_valid (es ! j) \<and> arp_ip (es ! j) = ip)"
      if "\<forall>j. i + 1 \<le> j \<and> j < length es \<longrightarrow> \<not> (arp_valid (es ! j) \<and> arp_ip (es ! j) = ip)" "i \<le> j" "j < length es" for j
      using that nm by (cases "j = i") auto
    show ?thesis
    proof (cases "arp_valid ?e \<and> updated_tick ?e < ot")
      case less: True
      have "arp_scan es ip (i + 1) f1 i (updated_tick ?e) = Inr (f', os')"
        using 1(3) True nm less by (simp add: arp_scan.simps[of es ip i] f1_def Let_def)
      moreover have "f1 = None \<longrightarrow> (\<forall>j < i + 1. j < length es \<longrightarrow> arp_valid (es ! j) \<and> updated_tick ?e \<le> updated_tick (es ! j))"
        using 1(6) less by (auto simp: f1_def less_Suc_eq intro: order.trans[OF less_imp_le])
      ultimately show ?thesis
        using 1(1)[OF True refl nm f1_def less] f1 True ran by auto
    next
      case False
      have "arp_scan es ip (i + 1) f1 os ot = Inr (f', os')"
        using 1(3) True nm False by (auto simp add: arp_scan.simps[of es ip i] f1_def Let_def)
      moreover have "f1 = None \<longrightarrow> (\<forall>j < i + 1. j < length es \<longrightarrow> arp_valid (es ! j) \<and> ot \<le> updated_tick (es ! j))"
        using 1(6) False by (auto simp: f1_def less_Suc_eq split: if_splits)
      moreover have "f1 = None \<longrightarrow> ot = updated_tick (es ! os) \<or> ot = 0xFFFFFFFF" using 1(7) by (auto simp: f1_def)
      ultimately show ?thesis
        using 1(2)[OF True refl nm f1_def False] f1 1(4) ran by auto
    qed
  qed
qed


lemma arp_lookup_upd:
  assumes ok: "arp_ok es" and k: "k < length es" and v: "arp_valid e" and "es' = es[k := e]"
    and only: "\<forall>j < length es. j \<noteq> k \<longrightarrow> \<not> (arp_valid (es ! j) \<and> arp_ip (es ! j) = arp_ip e)"
  shows "arp_ok es'" "arp_lookup es' (arp_ip e) = Some (arp_mac e)"
    "ip \<noteq> arp_ip e \<Longrightarrow> \<not> (arp_valid (es ! k) \<and> arp_ip (es ! k) = ip) \<Longrightarrow> arp_lookup es' ip = arp_lookup es ip"
proof -
  note es' = \<open>es' = es[k := e]\<close>
  show ok': "arp_ok es'" using ok k only unfolding arp_ok_def es' by (auto simp: nth_list_update)
  show "arp_lookup es' (arp_ip e) = Some (arp_mac e)" using arp_lookup_eq[OF ok', of k] k v by (simp add: es')
  assume ip: "ip \<noteq> arp_ip e" "\<not> (arp_valid (es ! k) \<and> arp_ip (es ! k) = ip)"
  show "arp_lookup es' ip = arp_lookup es ip"
  proof (cases "arp_lookup es ip")
    case None
    have "arp_lookup es' ip = None"
      unfolding arp_lookup_None es' using None[unfolded arp_lookup_None] ip(1) k by (auto simp: nth_list_update)
    then show ?thesis using None by simp
  next
    case (Some m)
    then obtain j where j: "j < length es" "arp_valid (es ! j)" "arp_ip (es ! j) = ip" "arp_mac (es ! j) = m"
      using arp_lookup_SomeD by blast
    then have "es' ! j = es ! j" using ip(2) k by (auto simp: es' nth_list_update)
    then show ?thesis using arp_lookup_eq[OF ok', of j] j Some by (simp add: es')
  qed
qed

lemma arp_update_spec:
  assumes ok: "arp_ok (arp_cache_arr st)" and ip: "ip \<noteq> 0"
  shows "let st' = arp_cache_update ip mac st in
    arp_ok (arp_cache_arr st') \<and> arp_cache_lookup ip st' = Some mac
    \<and> (\<forall>a. a \<noteq> ip \<longrightarrow> arp_cache_lookup a st' = arp_cache_lookup a st
         \<or> arp_cache_lookup ip st = None \<and> (\<forall>e \<in> set (arp_cache_arr st). arp_valid e)
           \<and> (\<exists>e \<in> set (arp_cache_arr st). arp_ip e = a \<and> (\<forall>e' \<in> set (arp_cache_arr st). updated_tick e \<le> updated_tick e')))"
proof -
  let ?es = "arp_cache_arr st"
  have len: "0 < length ?es" using ok by (simp add: arp_ok_def)
  show ?thesis
  proof (cases "arp_scan ?es ip 0 None 0 0xFFFFFFFF")
    case (Inl k)
    note k = arp_scan_Inl[OF Inl]
    let ?e = "(?es ! k)\<lparr>arp_mac := mac, updated_tick := ticks st\<rparr>"
    have "\<forall>j < length ?es. j \<noteq> k \<longrightarrow> \<not> (arp_valid (?es ! j) \<and> arp_ip (?es ! j) = arp_ip ?e)"
      using ok k by (auto simp: arp_ok_def)
    then have "arp_ok (?es[k := ?e])" "arp_lookup (?es[k := ?e]) ip = Some mac"
      "\<And>a. a \<noteq> ip \<Longrightarrow> arp_lookup (?es[k := ?e]) a = arp_lookup ?es a"
      using arp_lookup_upd[OF ok, of k ?e] k by auto
    then show ?thesis using Inl ip by (simp add: arp_cache_update_def arp_cache_lookup_def Let_def)
  next
    case (Inr p)
    obtain f os where p: "p = (f, os)" by force
    note r = arp_scan_Inr[OF Inr[unfolded p]] 
    define k where "k = (case f of Some i \<Rightarrow> i | None \<Rightarrow> os)"
    let ?e = "\<lparr>arp_ip = ip, arp_mac = mac, updated_tick = ticks st, arp_valid = True\<rparr>"
    have none: "\<forall>j < length ?es. \<not> (arp_valid (?es ! j) \<and> arp_ip (?es ! j) = ip)"
      and k: "k < length ?es" using r len by (auto simp: k_def split: option.splits)
    have upd: "arp_ok (?es[k := ?e])" "arp_lookup (?es[k := ?e]) ip = Some mac"
      "\<And>a. a \<noteq> ip \<Longrightarrow> \<not> (arp_valid (?es ! k) \<and> arp_ip (?es ! k) = a) \<Longrightarrow> arp_lookup (?es[k := ?e]) a = arp_lookup ?es a"
      using arp_lookup_upd[OF ok k, of ?e] none by auto
    have st': "arp_cache_arr (arp_cache_update ip mac st) = ?es[k := ?e]"
      using Inr p ip by (simp add: arp_cache_update_def k_def Let_def)
    have "(\<forall>e \<in> set ?es. arp_valid e) \<and> (\<forall>e' \<in> set ?es. updated_tick (?es ! k) \<le> updated_tick e')" if "arp_valid (?es ! k)"
      using r len that by (auto simp: k_def in_set_conv_nth split: option.splits)
    moreover have "arp_lookup ?es ip = None" using none by (simp add: arp_lookup_None)
    ultimately show ?thesis using upd k unfolding arp_cache_lookup_def Let_def st' by (metis nth_mem)
  qed
qed


lemma arp_update_finds:
  assumes "arp_ok (arp_cache_arr st)" "ip \<noteq> 0"
  shows "arp_cache_lookup ip (arp_cache_update ip mac st) = Some mac"
  using arp_update_spec[OF assms] by (simp add: Let_def)

section \<open>Properties\<close>

text \<open>C27. The Internet checksum: a packet of 16-bit words with a zero checksum field, at least one other byte of which
  is not zero, has checksum 0 once \<^verbatim>\<open>htons(net_checksum(...))\<close> is stored in the field; and a packet has checksum 0
  exactly when the sum of its big-endian words is a positive multiple of 65535.\<close>

theorem net_checksum_verifies:
  assumes "even (length xs)" and "length xs + length ys + 2 \<le> 65536" and "0 < wsum (xs @ ys)" and "length p \<le> 65536"
  shows "net_checksum (xs @ put16 (bswap16 (net_checksum (xs @ put16 0 @ ys))) @ ys) = 0
    \<and> (net_checksum p = 0 \<longleftrightarrow> 0 < wsum p \<and> 65535 dvd wsum p)"
  using net_checksum_store[OF assms(1-3)] net_checksum_eq_0_iff[OF assms(4)] by simp

theorem net_checksum_verifies_witness:
  "net_checksum ([0x45, 0] @ put16 (bswap16 (net_checksum ([0x45, 0] @ put16 0 @ [0x40, 0x11]))) @ [0x40, 0x11]) = 0"
  using net_checksum_verifies[of "[0x45, 0]" "[0x40, 0x11]" "[]"] by simp

text \<open>C28. \<^verbatim>\<open>arp_cache_update\<close> keeps the addresses in the cache distinct and makes the new binding the one a lookup finds.
  Another address loses its binding only when the cache was full, did not know the new address, and the other address had
  the oldest entry; otherwise its lookup is unchanged.\<close>

theorem arp_cache_update_lookup:
  assumes ok: "arp_ok (arp_cache_arr st)" and ip: "ip \<noteq> 0"
  shows "let st' = arp_cache_update ip mac st in
    arp_ok (arp_cache_arr st') \<and> arp_cache_lookup ip st' = Some mac
    \<and> (\<forall>a. a \<noteq> ip \<longrightarrow> arp_cache_lookup a st' = arp_cache_lookup a st
         \<or> arp_cache_lookup ip st = None \<and> (\<forall>e \<in> set (arp_cache_arr st). arp_valid e)
           \<and> (\<exists>e \<in> set (arp_cache_arr st). arp_ip e = a \<and> (\<forall>e' \<in> set (arp_cache_arr st). updated_tick e \<le> updated_tick e')))"
  using assms by (rule arp_update_spec)

definition net_bss :: net_state where
  "net_bss = net_init \<lparr>net_config = undefined, arp_cache_arr = [], ip_id_counter = 1,
     ping_reply_received = False, ping_expected_id = 0, ping_expected_seq = 0, ping_reply_ttl = 0, ping_reply_tick = 0,
     dhcp_rx_msg_type = 0, dhcp_expected_xid = 0, dhcp_offered_ip = 0, dhcp_offered_mask = 0, dhcp_offered_gw = 0,
     dhcp_offered_dns = 0, dhcp_offered_srv = 0, nic_initialized = True, nic_mac = [0x52, 0x54, 0, 0x12, 0x34, 0x56],
     tx_ready = True, sent = [], arrivals = [], irq_enabled = True, ticks = 7, timer_frequency = 100, net_log = []\<rparr>"

lemma net_bss_arp_ok: "arp_ok (arp_cache_arr net_bss)"
  by (simp add: arp_ok_def net_bss_def net_init_def)

theorem arp_cache_update_lookup_witness:
  "arp_cache_lookup 0x0A000202 (arp_cache_update 0x0A000202 [1, 2, 3, 4, 5, 6] net_bss) = Some [1, 2, 3, 4, 5, 6]"
  using arp_cache_update_lookup[OF net_bss_arp_ok, of "0x0A000202"] by (simp add: Let_def)

section \<open>Frames\<close>


lemma len_put [simp]: "length (put16 v) = 2" "length (put32 w) = 4"
  by (simp_all add: put16_def put32_def)

lemma get16_at: "i = length xs \<Longrightarrow> get16 (xs @ put16 v @ ys) i = v"
  using get16_put16 by simp

lemma get32_at: "i = length xs \<Longrightarrow> get32 (xs @ put32 v @ ys) i = v"
  using get32_put32 by simp

lemma ipv4_header_fields:
  assumes "h = ipv4_header tlen ident prot ck src dst @ body"
  shows "h ! 0 = 0x45" "h ! 8 = 64" "h ! 9 = prot" "get16 h 2 = bswap16 tlen" "get32 h 12 = bswap32 src" "get32 h 16 = bswap32 dst"
    "take 20 h = ipv4_header tlen ident prot ck src dst" "drop 20 h = body"
proof -
  show "h ! 0 = 0x45" "h ! 8 = 64" "h ! 9 = prot" by (simp_all add: assms ipv4_header_def put16_def nth_append)
  have "h = [0x45, 0] @ put16 (bswap16 tlen) @ (put16 (bswap16 ident) @ put16 0 @ [64, prot] @ put16 ck
     @ put32 (bswap32 src) @ put32 (bswap32 dst) @ body)" by (simp add: assms ipv4_header_def)
  then show "get16 h 2 = bswap16 tlen" using get16_at[of 2 "[0x45, 0]"] by simp
  have "h = ([0x45, 0] @ put16 (bswap16 tlen) @ put16 (bswap16 ident) @ put16 0 @ [64, prot] @ put16 ck)
     @ put32 (bswap32 src) @ (put32 (bswap32 dst) @ body)" by (simp add: assms ipv4_header_def)
  then show "get32 h 12 = bswap32 src" by (simp only:) (rule get32_at, simp)
  have "h = ([0x45, 0] @ put16 (bswap16 tlen) @ put16 (bswap16 ident) @ put16 0 @ [64, prot] @ put16 ck
     @ put32 (bswap32 src)) @ put32 (bswap32 dst) @ body" by (simp add: assms ipv4_header_def)
  then show "get32 h 16 = bswap32 dst" by (simp only:) (rule get32_at, simp)
  have "length (ipv4_header tlen ident prot ck src dst) = 20" by (simp add: ipv4_header_def)
  then show "take 20 h = ipv4_header tlen ident prot ck src dst" "drop 20 h = body" by (simp_all add: assms)
qed

lemma ipv4_frame_checksum: "net_checksum (take 20 (ipv4_frame src dst prot body ident)) = 0"
proof -
  let ?tl = "of_nat (20 + length body) :: u16"
  let ?a = "[0x45, 0] @ put16 (bswap16 ?tl) @ put16 (bswap16 ident) @ put16 0 @ [64, prot]"
    and ?b = "put32 (bswap32 src) @ put32 (bswap32 dst)"
  have h: "ipv4_header ?tl ident prot ck src dst = ?a @ put16 ck @ ?b" for ck by (simp add: ipv4_header_def)
  have "wsum (?a @ ?b) = wsum ([0x45, 0] @ (put16 (bswap16 ?tl) @ put16 (bswap16 ident) @ put16 0 @ [64, prot] @ ?b))" by simp
  also have "\<dots> = wsum [0x45, 0] + wsum (put16 (bswap16 ?tl) @ put16 (bswap16 ident) @ put16 0 @ [64, prot] @ ?b)"
    by (rule wsum_append) simp
  finally have "0 < wsum (?a @ ?b)" by simp
  then have "net_checksum (?a @ put16 (bswap16 (net_checksum (?a @ put16 0 @ ?b))) @ ?b) = 0"
    by (intro net_checksum_store) auto
  then show ?thesis unfolding ipv4_frame_def Let_def ipv4_header_fields(7)[OF refl] unfolding h .
qed

lemma arp_cache_update_eq: "arp_cache_update ip mac st = st\<lparr>arp_cache_arr := arp_cache_arr (arp_cache_update ip mac st)\<rparr>"
  by (auto simp: arp_cache_update_def Let_def split: sum.splits prod.splits)

lemma arp_cache_update_sel [simp]:
  "net_config (arp_cache_update ip mac st) = net_config st" "nic_initialized (arp_cache_update ip mac st) = nic_initialized st"
  "nic_mac (arp_cache_update ip mac st) = nic_mac st" "tx_ready (arp_cache_update ip mac st) = tx_ready st"
  "sent (arp_cache_update ip mac st) = sent st" "ip_id_counter (arp_cache_update ip mac st) = ip_id_counter st"
  by (subst arp_cache_update_eq, simp)+

lemma send_eth_frame_ok:
  assumes "nic_initialized st" "tx_ready st" "length payload \<le> 1500"
  shows "send_eth_frame dst ty payload st = (True, st\<lparr>sent := sent st @ [dst @ nic_mac st @ put16 (bswap16 ty) @ payload]\<rparr>)"
  using assms by (simp add: send_eth_frame_def nic_send_packet_def nic_get_mac_def put16_def)

lemma send_ipv4_known:
  assumes "nic_initialized st" "tx_ready st" "length payload \<le> 1480"
    "route_next_hop dst st = hop" "hop \<noteq> bcast_ip" "arp_cache_lookup hop st = Some mac"
  shows "send_ipv4_packet poll src dst None prot payload st =
    Some (True, st\<lparr>ip_id_counter := ip_id_counter st + 1,
      sent := sent st @ [mac @ nic_mac st @ put16 (bswap16 ETH_TYPE_IPV4) @ ipv4_frame src dst prot payload (ip_id_counter st)]\<rparr>)"
proof -
  have "length (ipv4_frame src dst prot payload (ip_id_counter st)) \<le> 1500"
    using assms(3) by (simp add: ipv4_frame_def Let_def ipv4_header_def)
  then show ?thesis using assms
    by (simp add: send_ipv4_packet_def net_arp_resolve_def send_eth_frame_ok Let_def)
qed

lemma unat_of_nat_u16: "k < 65536 \<Longrightarrow> unat (of_nat k :: u16) = k"
  by (simp add: unat_of_nat take_bit_nat_eq_self)

lemma handle_ipv4_frame:
  assumes f: "p = ipv4_frame src dst IP_PROTO_ICMP body ident @ pad" and len: "length body \<le> 1480"
  shows "handle_ipv4 poll eth_src p st =
    (let st1 = bump (\<lambda>c. c\<lparr>rx_ipv4 := rx_ipv4 c + 1\<rparr>) st;
         cfg = net_config st1;
         st2 = (if src \<noteq> 0 \<and> netmask cfg \<noteq> 0 \<and> src AND netmask cfg = cfg_ip cfg AND netmask cfg
                then arp_cache_update src eth_src st1 else st1)
     in if dst \<noteq> bcast_ip \<and> configured (net_config st2) \<and> dst \<noteq> cfg_ip (net_config st2) then Some st2
        else handle_icmp poll src 64 body st2)"
proof -
  let ?tl = "of_nat (20 + length body) :: u16"
  let ?ck = "bswap16 (net_checksum (ipv4_header ?tl ident IP_PROTO_ICMP 0 src dst))"
  have p: "p = ipv4_header ?tl ident IP_PROTO_ICMP ?ck src dst @ (body @ pad)"
    by (simp add: f ipv4_frame_def Let_def)
  note h = ipv4_header_fields[OF p]
  have tl: "unat ?tl = 20 + length body" using len by (intro unat_of_nat_u16) simp
  have ck: "net_checksum (take 20 p) = 0"
    using ipv4_frame_checksum[of src dst IP_PROTO_ICMP body ident] unfolding h(7)
    by (simp only: ipv4_frame_def Let_def ipv4_header_fields(7)[OF refl])
  have lp: "length p = 20 + length body + length pad" by (simp add: p ipv4_header_def)
  have l4: "get_bytes p 20 (length body) = body" unfolding get_bytes_def h(8) by simp
  have ihl: "unat ((0x45 :: u8) AND 0x0F) * 4 = 20" "drop_bit 4 (0x45 :: u8) = 4" by simp_all
  show ?thesis unfolding handle_ipv4_def h(1-6) ihl Let_def bswap16_bswap16 bswap32_bswap32 tl
    using lp ck l4 by simp
qed


lemma echo_packet_simps:
  "length (echo_packet typ ck ident sequ body) = 8 + length body" "echo_packet typ ck ident sequ body ! 0 = typ"
  "drop 4 (echo_packet typ ck ident sequ body) = put16 (bswap16 ident) @ put16 (bswap16 sequ) @ body"
  by (simp_all add: echo_packet_def put16_def)

lemma handle_icmp_request:
  assumes "configured (net_config st)" "cfg_ip (net_config st) = me" "length body \<le> 1472"
  shows "handle_icmp poll src ttl (echo_packet ICMP_ECHO_REQUEST ck ident sequ body) st =
    map_option snd (send_ipv4_packet poll me src None IP_PROTO_ICMP
      (echo_packet ICMP_ECHO_REPLY (bswap16 (net_checksum (echo_packet ICMP_ECHO_REPLY 0 ident sequ body))) ident sequ body)
      (bump (\<lambda>c. c\<lparr>rx_icmp := rx_icmp c + 1\<rparr>) st))"
  using assms unfolding handle_icmp_def Let_def echo_packet_simps
  by (simp add: bump_def echo_packet_def)

lemma echo_reply_checksum:
  assumes "length body \<le> 1472" "0 < wsum (put16 (bswap16 ident) @ put16 (bswap16 sequ) @ body)"
  shows "net_checksum (echo_packet ICMP_ECHO_REPLY (bswap16 (net_checksum (echo_packet ICMP_ECHO_REPLY 0 ident sequ body))) ident sequ body) = 0"
  using net_checksum_store[of "[0, 0]" "put16 (bswap16 ident) @ put16 (bswap16 sequ) @ body"] assms
  by (simp add: echo_packet_def)

text \<open>The state in which the answer to an echo request is sent: counters and possibly the sender's ARP entry updated.\<close>

definition echo_state :: "u32 \<Rightarrow> u8 list \<Rightarrow> net_state \<Rightarrow> net_state" where
  "echo_state peer peer_mac st =
     (let st1 = bump (\<lambda>c. c\<lparr>rx_ipv4 := rx_ipv4 c + 1\<rparr>) (bump (\<lambda>c. c\<lparr>rx_eth := rx_eth c + 1\<rparr>) st);
          cfg = net_config st;
          st2 = (if peer \<noteq> 0 \<and> netmask cfg \<noteq> 0 \<and> peer AND netmask cfg = cfg_ip cfg AND netmask cfg
                 then arp_cache_update peer peer_mac st1 else st1)
      in bump (\<lambda>c. c\<lparr>rx_icmp := rx_icmp c + 1\<rparr>) st2)"

lemma bump_sel [simp]:
  "arp_cache_arr (bump f st) = arp_cache_arr st" "nic_initialized (bump f st) = nic_initialized st"
  "nic_mac (bump f st) = nic_mac st" "tx_ready (bump f st) = tx_ready st" "sent (bump f st) = sent st"
  "ip_id_counter (bump f st) = ip_id_counter st" "net_config (bump f st) = f (net_config st)"
  "irq_enabled (bump f st) = irq_enabled st" "arrivals (bump f st) = arrivals st"
  by (simp_all add: bump_def)

lemma rx_echo_request:
  assumes mac: "length dst_mac = 6" "length peer_mac = 6" and len: "length body \<le> 1472"
    and cfg: "configured (net_config st)" "cfg_ip (net_config st) = me"
  shows "net_rx_packet poll (dst_mac @ peer_mac @ put16 (bswap16 ETH_TYPE_IPV4)
         @ ipv4_frame peer me IP_PROTO_ICMP (echo_packet ICMP_ECHO_REQUEST ck ident sequ body) ip_ident @ pad) st
      = map_option snd (send_ipv4_packet poll me peer None IP_PROTO_ICMP
         (echo_packet ICMP_ECHO_REPLY (bswap16 (net_checksum (echo_packet ICMP_ECHO_REPLY 0 ident sequ body))) ident sequ body)
         (echo_state peer peer_mac st))"
proof -
  let ?icmp = "echo_packet ICMP_ECHO_REQUEST ck ident sequ body"
  let ?ip = "ipv4_frame peer me IP_PROTO_ICMP ?icmp ip_ident @ pad"
  let ?req = "dst_mac @ peer_mac @ put16 (bswap16 ETH_TYPE_IPV4) @ ?ip"
  have len': "length ?icmp \<le> 1480" using len by (simp add: echo_packet_simps)
  have ty: "get16 ?req 12 = bswap16 ETH_TYPE_IPV4"
    using get16_at[of 12 "dst_mac @ peer_mac"] mac by simp
  have "net_rx_packet poll ?req st = handle_ipv4 poll peer_mac ?ip (bump (\<lambda>c. c\<lparr>rx_eth := rx_eth c + 1\<rparr>) st)"
    using mac ty by (simp add: net_rx_packet_def Let_def get_bytes_def)
  then show ?thesis
    unfolding handle_ipv4_frame[OF refl len'] Let_def using cfg len
    by (simp add: echo_state_def Let_def handle_icmp_request)
qed


definition net_example :: net_state where
  "net_example = net_set_static_ip 0x0A00020F 0xFFFFFF00 0x0A000202 0x0A000203 net_bss"

lemma net_example_simps [simp]:
  "nic_initialized net_example" "tx_ready net_example" "irq_enabled net_example" "configured (net_config net_example)"
  "cfg_ip (net_config net_example) = 0x0A00020F" "netmask (net_config net_example) = 0xFFFFFF00"
  "gateway (net_config net_example) = 0x0A000202" "sent net_example = []"
  "arp_ok (arp_cache_arr net_example)" "arp_cache_lookup ip net_example = None"
  using net_bss_arp_ok
  by (simp_all add: net_example_def net_set_static_ip_def net_bss_def net_init_def arp_cache_lookup_def arp_lookup_None)


section \<open>DHCP\<close>

lemma dhcp_option_in_bounds: "i + olen \<le> length opts \<Longrightarrow> dhcp_option opts code olen i acc \<noteq> None"
  by (auto simp: dhcp_option_def opt_byte_def opt_word_def)

lemma dhcp_scan_in_bounds: "dhcp_scan opts i acc \<noteq> None"
proof (induction opts i acc rule: dhcp_scan.induct)
  case (1 opts i acc)
  let ?c = "opts ! i" and ?n = "unat (opts ! (i + 1))"
  have "dhcp_option opts ?c ?n (i + 2) acc \<noteq> None" if "\<not> length opts < i + 2 + ?n"
    using that by (intro dhcp_option_in_bounds) simp
  then show ?case using 1
    by (subst dhcp_scan.simps) (auto simp: opt_byte_def Let_def split: option.splits)
qed

lemma dhcp_wait_silent:
  assumes "irq_enabled st" "\<And>t. \<not> stop (st\<lparr>ticks := t\<rparr>)"
  shows "\<exists>t. dhcp_wait Some stop start lim st = Some (st\<lparr>ticks := t\<rparr>)"
  using assms
proof (induction "unat lim - unat (ticks st - start)" arbitrary: st rule: less_induct)
  case less
  show ?case
  proof (cases "ticks st - start < lim")
    case True
    let ?st = "st\<lparr>ticks := ticks st + 1\<rparr>"
    have e: "ticks st + 1 - start = (ticks st - start) + 1" by simp
    have "unat lim - unat (ticks st + 1 - start) < unat lim - unat (ticks st - start)"
      unfolding e using loop_measure[OF True order.refl] .
    then obtain t where "dhcp_wait Some stop start lim ?st = Some (?st\<lparr>ticks := t\<rparr>)"
      using less.hyps[of ?st] less.prems by auto
    then show ?thesis using True less.prems(1) less.prems(2)[of "ticks st"]
      by (subst dhcp_wait.simps) (auto simp: hlt_if_enabled_def)
  next
    case False
    then show ?thesis by (subst dhcp_wait.simps) (auto intro: exI[of _ "ticks st"])
  qed
qed


lemma send_dhcp_ok:
  assumes "nic_initialized st" "tx_ready st" "length (nic_mac st) = 6"
  shows "\<exists>p. send_dhcp_message poll ty xid req srv st =
    Some (True, st\<lparr>ip_id_counter := ip_id_counter st + 1, sent := sent st @ [p]\<rparr>)"
proof -
  let ?d = "udp_datagram DHCP_CLIENT_PORT DHCP_SERVER_PORT (dhcp_packet ty xid req srv st)"
  have "length (dhcp_options ty req srv) \<le> 308" by (simp add: dhcp_options_def)
  then have len: "length ?d = 556" using assms by (simp add: udp_datagram_def dhcp_packet_def Let_def nic_get_mac_def)
  then have "length (ipv4_frame 0 bcast_ip IP_PROTO_UDP ?d (ip_id_counter st)) \<le> 1500"
    by (simp add: ipv4_frame_def Let_def ipv4_header_def)
  then show ?thesis using assms len
    by (intro exI[of _ "bcast_mac @ nic_mac st @ put16 (bswap16 ETH_TYPE_IPV4) @ ipv4_frame 0 bcast_ip IP_PROTO_UDP ?d (ip_id_counter st)"])
      (simp add: send_dhcp_message_def send_ipv4_packet_def send_eth_frame_ok Let_def)
qed

section \<open>Waiting with interrupts disabled\<close>

lemma arp_wait_never_some:
  assumes "arp_wait poll ip start lim st = Some y"
  shows "\<not> (poll st = Some st \<and> \<not> irq_enabled st \<and> ticks st - start < lim \<and> arp_cache_lookup ip st = None)"
proof (rule arp_wait.raw_induct[where P = "\<lambda>poll ip start lim st y. \<not> (poll st = Some st \<and> \<not> irq_enabled st
    \<and> ticks st - start < lim \<and> arp_cache_lookup ip st = None)", OF _ assms], rule notI)
  fix f poll ip start lim st y
  assume IH: "\<And>poll ip start lim st y. f poll ip start lim st = Some y \<Longrightarrow>
      \<not> (poll st = Some st \<and> \<not> irq_enabled st \<and> ticks st - start < lim \<and> arp_cache_lookup ip st = None)"
    and body: "(if ticks st - start < lim then
        (case poll st of None \<Rightarrow> None
         | Some st \<Rightarrow> (case arp_cache_lookup ip st of
              Some mac \<Rightarrow> Some (Some mac, st)
            | None \<Rightarrow> f poll ip start lim (hlt_if_enabled st)))
      else Some (None, st)) = Some y"
    and a: "poll st = Some st \<and> \<not> irq_enabled st \<and> ticks st - start < lim \<and> arp_cache_lookup ip st = None"
  then have "f poll ip start lim st = Some y" by (simp add: hlt_if_enabled_def)
  from IH[OF this] a show False by blast
qed

lemma arp_wait_stuck:
  assumes "poll st = Some st" "\<not> irq_enabled st" "ticks st - start < lim" "arp_cache_lookup ip st = None"
  shows "arp_wait poll ip start lim st = None"
  using arp_wait_never_some[of poll ip start lim st] assms by (cases "arp_wait poll ip start lim st") auto


lemma net_arp_resolve_stuck:
  assumes "nic_initialized st" "\<not> irq_enabled st" "ip \<noteq> bcast_ip" "arp_cache_lookup ip st = None"
    "\<And>st. arrivals st = [] \<Longrightarrow> poll st = None \<or> poll st = Some st" "arrivals st = []"
  shows "net_arp_resolve poll ip ms st = None"
proof -
  let ?st = "send_arp_packet ARP_OP_REQUEST bcast_mac ip st"
  have st': "\<not> irq_enabled ?st" "arp_cache_lookup ip ?st = None" "arrivals ?st = []"
    using assms by (simp_all add: send_arp_packet_def send_eth_frame_def nic_send_packet_def arp_cache_lookup_def)
  have stuck: "arp_wait poll ip (ticks ?st) lim ?st = None" if "0 < lim" for lim
  proof (cases "poll ?st")
    case None
    then show ?thesis using that by (subst arp_wait.simps) simp
  next
    case (Some s)
    then show ?thesis using assms(5)[OF st'(3)] st' that by (intro arp_wait_stuck) auto
  qed
  have "arp_attempts poll ip lim 3 st = None" if "0 < lim" for lim
    using stuck[OF that] by (simp add: numeral_3_eq_3 Let_def)
  then show ?thesis using assms by (simp add: net_arp_resolve_def Let_def word_gt_0)
qed


text \<open>C37. A ping can stop the kernel: \<^verbatim>\<open>nic_poll\<close> runs the handlers with interrupts disabled, so the timer stands still
  while \<^verbatim>\<open>handle_icmp\<close> waits for ARP.  When an echo request comes from outside the subnet, the gateway's MAC address is
  not in the cache and no further frame arrives, \<^verbatim>\<open>nic_poll\<close> never returns, however much fuel it has.\<close>

theorem nic_poll_hangs_on_ping:
  assumes nic: "nic_initialized st" "length dst_mac = 6" "length peer_mac = 6"
    and cfg: "configured (net_config st)" "cfg_ip (net_config st) = me" "netmask (net_config st) \<noteq> 0"
    and gw: "gateway (net_config st) \<noteq> 0" "gateway (net_config st) \<noteq> bcast_ip" "arp_cache_lookup (gateway (net_config st)) st = None"
    and peer: "peer AND netmask (net_config st) \<noteq> me AND netmask (net_config st)" "peer \<noteq> bcast_ip"
    and len: "length body \<le> 1472"
    and arr: "arrivals st = [[dst_mac @ peer_mac @ put16 (bswap16 ETH_TYPE_IPV4)
      @ ipv4_frame peer me IP_PROTO_ICMP (echo_packet ICMP_ECHO_REQUEST ck ident sequ body) ip_ident @ pad]]"
  shows "nic_poll n st = None"
proof (cases n)
  case (Suc k)
  let ?st = "st\<lparr>arrivals := [], irq_enabled := False\<rparr>"
  let ?e = "echo_state peer peer_mac ?st"
  let ?gw = "gateway (net_config st)"
  have e: "nic_initialized ?e" "\<not> irq_enabled ?e" "arp_cache_lookup ?gw ?e = None" "arrivals ?e = []" "route_next_hop peer ?e = ?gw"
    using nic cfg gw peer by (simp_all add: echo_state_def Let_def arp_cache_lookup_def route_next_hop_def)
  have poll: "nic_poll k s = None \<or> nic_poll k s = Some s" if "arrivals s = []" for s
    using that by (cases k) simp_all
  have "net_arp_resolve (nic_poll k) ?gw 800 ?e = None"
    using net_arp_resolve_stuck[OF e(1,2) gw(2) e(3) poll e(4)] .
  then have "send_ipv4_packet (nic_poll k) me peer None IP_PROTO_ICMP p ?e = None" if "length p \<le> 1480" for p
    using that e(5) by (simp add: send_ipv4_packet_def)
  then have "rx_batch (nic_poll k) (hd (arrivals st)) ?st = None"
    using rx_echo_request[OF nic(2,3) len, of ?st me "nic_poll k"] cfg len by (simp add: arr echo_packet_simps)
  then show ?thesis using nic(1) arr by (simp add: Suc)
qed simp

theorem nic_poll_hangs_on_ping_witness:
  "nic_poll 10 (net_example\<lparr>arrivals := [[replicate 6 0 @ replicate 6 1 @ put16 (bswap16 ETH_TYPE_IPV4)
     @ ipv4_frame 0xC0A80105 0x0A00020F IP_PROTO_ICMP (echo_packet ICMP_ECHO_REQUEST 0 7 1 []) 5 @ []]]\<rparr>) = None"
proof (rule nic_poll_hangs_on_ping[where me = "0x0A00020F" and peer = "0xC0A80105" and body = "[]"
      and dst_mac = "replicate 6 0" and peer_mac = "replicate 6 1" and ck = 0 and ident = 7 and sequ = 1 and ip_ident = 5 and pad = "[]"])
  show "arp_cache_lookup (gateway (net_config (net_example\<lparr>arrivals := x\<rparr>))) (net_example\<lparr>arrivals := x\<rparr>) = None" for x
    using net_example_simps(10) by (simp add: arp_cache_lookup_def)
qed simp_all


text \<open>C38. A lease needs no acknowledgement: after an offer, when the server never answers the request, \<^verbatim>\<open>net_dhcp_discover\<close>
  waits for its time and still configures the offered address and reports success, because the test for the missing
  acknowledgement also asks for a requested address of 0.\<close>

theorem dhcp_lease_without_ack:
  assumes "nic_initialized st" and "tx_ready st" and "length (nic_mac st) = 6" and "irq_enabled st" and "got_offer st"
  shows "\<exists>st'. dhcp_request Some xid half_ticks st = Some (0, st') \<and> dhcp_rx_msg_type st' \<noteq> DHCP_ACK
    \<and> dhcp_leased (net_config st') \<and> cfg_ip (net_config st') = dhcp_offered_ip st"
proof -
  let ?st = "st\<lparr>dhcp_rx_msg_type := 0\<rparr>"
  obtain p where s: "send_dhcp_message Some DHCP_REQUEST xid (dhcp_offered_ip st) (dhcp_offered_srv st) ?st =
    Some (True, ?st\<lparr>ip_id_counter := ip_id_counter ?st + 1, sent := sent ?st @ [p]\<rparr>)"
    using send_dhcp_ok[of ?st Some DHCP_REQUEST xid] assms by auto
  let ?s = "?st\<lparr>ip_id_counter := ip_id_counter ?st + 1, sent := sent ?st @ [p]\<rparr>"
  obtain t where "dhcp_wait Some got_ack (ticks ?s) half_ticks ?s = Some (?s\<lparr>ticks := t\<rparr>)"
    using dhcp_wait_silent[of ?s got_ack "ticks ?s" half_ticks] assms by (auto simp: got_ack_def)
  then show ?thesis using s assms
    by (auto simp: dhcp_request_def Let_def got_offer_def got_ack_def dhcp_configure_def)
qed

theorem dhcp_lease_without_ack_witness:
  "\<exists>st'. dhcp_request Some 0xBE6A1008 45 (net_bss\<lparr>dhcp_rx_msg_type := DHCP_OFFER, dhcp_offered_ip := 0x0A00020F\<rparr>) = Some (0, st')
    \<and> dhcp_leased (net_config st')"
  using dhcp_lease_without_ack[of "net_bss\<lparr>dhcp_rx_msg_type := DHCP_OFFER, dhcp_offered_ip := 0x0A00020F\<rparr>" "0xBE6A1008" 45]
  by (auto simp: net_bss_def net_init_def got_offer_def)

section \<open>Dotted decimal\<close>

lemma foldl_digits_mono_nat: "v \<le> foldl (\<lambda>v c. v * 10 + digit_val c) v ds"
proof (induction ds arbitrary: v)
  case (Cons c ds)
  have "v \<le> v * 10 + digit_val c" by simp
  also have "\<dots> \<le> foldl (\<lambda>v c. v * 10 + digit_val c) (v * 10 + digit_val c) ds" by (rule Cons.IH)
  finally show ?case by simp
qed simp

lemma parse_digits:
  assumes "\<forall>k < length ds. m (str + i + of_nat k) = ds ! k" "\<forall>c \<in> set ds. 0x30 \<le> c \<and> c \<le> 0x39"
    "unat (parts ! idx) = v" "foldl (\<lambda>v c. v * 10 + digit_val c) v ds \<le> 255" "idx < length parts"
  shows "parse_ip_loop m str i parts idx h =
    parse_ip_loop m str (i + of_nat (length ds)) (parts[idx := of_nat (foldl (\<lambda>v c. v * 10 + digit_val c) v ds)]) idx (h \<or> ds \<noteq> [])"
  using assms
proof (induction ds arbitrary: i parts v h)
  case Nil
  have "of_nat v = parts ! idx" using Nil(3) by auto
  then show ?case by simp
next
  case (Cons c ds)
  let ?v = "v * 10 + digit_val c" and ?F = "\<lambda>v ds. foldl (\<lambda>v c. v * 10 + digit_val c) v ds"
  have v: "?v \<le> 255" using Cons.prems(4) foldl_digits_mono_nat[of ?v ds] by simp
  have c: "m (str + i) = c" "0x30 \<le> c" "c \<le> 0x39" using Cons.prems(1,2) by (auto simp: All_less_Suc2)
  have "unat c = digit_val c + 48" using c(2,3) by (simp add: digit_val_def word_le_nat_alt)
  moreover have "unat (ucast c :: u32) = unat c" by (rule unat_ucast_up) simp
  ultimately have uc: "unat (ucast c - 0x30 :: u32) = digit_val c" by (simp add: unat_sub_if')
  have new: "unat (parts ! idx * 10 + (ucast c - 0x30)) = ?v"
    using v Cons.prems(3) uc by (simp add: unat_word_ariths)
  then have new': "parts ! idx * 10 + (ucast c - 0x30) = of_nat ?v" by (metis of_nat_unat ucast_id)
  have "\<not> 255 < parts ! idx * 10 + (ucast c - 0x30)" using new v by (simp add: word_less_nat_alt)
  then have "parse_ip_loop m str i parts idx h = parse_ip_loop m str (i + 1) (parts[idx := of_nat ?v]) idx True"
    using c new' by (subst parse_ip_loop.simps) (simp add: Let_def)
  also have "\<dots> = parse_ip_loop m str (i + 1 + of_nat (length ds)) ((parts[idx := of_nat ?v])[idx := of_nat (?F ?v ds)]) idx (True \<or> ds \<noteq> [])"
  proof (rule Cons.IH)
    show "\<forall>k < length ds. m (str + (i + 1) + of_nat k) = ds ! k"
      using Cons.prems(1) by (auto simp: All_less_Suc2 add.assoc)
    show "unat ((parts[idx := of_nat ?v]) ! idx) = ?v" 
      using Cons.prems(5) v unat_of_nat_u32[of ?v] by (simp del: of_nat_add of_nat_mult)
  qed (use Cons.prems in auto)
  finally show ?case by (simp add: add.assoc)
qed


definition octet :: "u32 \<Rightarrow> nat \<Rightarrow> nat" where
  "octet ip i = unat (ucast (drop_bit (i * 8) ip AND 0xFF) :: u8)"

fun dotted :: "u32 \<Rightarrow> nat \<Rightarrow> u8 list" where
  "dotted ip 0 = dec (octet ip 0)"
| "dotted ip (Suc j) = dec (octet ip (Suc j)) @ 0x2E # dotted ip j"

lemma octet_less: "octet ip i < 256"
  using unsigned_less[of "ucast (drop_bit (i * 8) ip AND 0xFF) :: u8", where ?'a = nat] by (simp add: octet_def)

lemma dec_octet: "length (dec (octet ip i)) \<le> 3" "dec (octet ip i) \<noteq> []" "\<forall>c \<in> set (dec (octet ip i)). 0x30 \<le> c \<and> c \<le> 0x39"
  "foldl (\<lambda>v c. v * 10 + digit_val c) 0 (dec (octet ip i)) = octet ip i"
proof -
  have "octet ip i < 10 ^ 3" using octet_less[of ip i] by simp
  from dec_props[OF this] show "length (dec (octet ip i)) \<le> 3" "dec (octet ip i) \<noteq> []"
    "\<forall>c \<in> set (dec (octet ip i)). 0x30 \<le> c \<and> c \<le> 0x39" "foldl (\<lambda>v c. v * 10 + digit_val c) 0 (dec (octet ip i)) = octet ip i"
    by simp_all
qed

lemma format_ip_loop_writes:
  assumes "cstr m buf xs" "length xs + 4 * i \<le> 12" "cstr m dot [0x2E]"
    and apart: "region buf 16 \<inter> region tmp 8 = {}" "region buf 16 \<inter> region dot 2 = {}" "region tmp 8 \<inter> region dot 2 = {}"
  shows "\<exists>m'. format_ip_loop ip buf tmp dot i m = Some m' \<and> cstr m' buf (xs @ dotted ip i)"
  using assms(1-3)
proof (induction i arbitrary: m xs)
  let ?d = "\<lambda>i. dec (octet ip i)"
  have step: "\<exists>m'. strcat buf tmp (k_utoa (ucast (ucast (drop_bit (i * 8) ip AND 0xFF) :: u8)) tmp 10 m) = Some m'
      \<and> cstr m' buf (xs @ ?d i) \<and> cstr m' dot [0x2E]"
    if prem: "cstr m buf xs" "length xs \<le> 12" "cstr m dot [0x2E]" for m xs i
  proof -
    let ?v = "ucast (ucast (drop_bit (i * 8) ip AND 0xFF) :: u8) :: u32"
    let ?m = "k_utoa ?v tmp 10 m"
    have v: "unat ?v = octet ip i" unfolding octet_def by (rule unat_ucast_up) simp
    have lt: "unat ?v < 1000" using v octet_less[of ip i] by simp
    have frame: "?m a = m a" if "a \<notin> region tmp 8" for a
      using k_utoa_dec(2)[OF lt] subsetD[OF region_mono[of 4 8 tmp]] that by auto
    have "cstr ?m buf xs" using prem(1,2) apart(1) region_mono[of "Suc (length xs)" 16 buf]
      by (subst cstr_cong[of _ _ _ m]) (auto intro!: frame)
    moreover have d2: "cstr ?m dot [0x2E]" using prem(3) apart(3)
      by (subst cstr_cong[of _ _ _ m]) (auto intro!: frame simp: numeral_2_eq_2)
    moreover have "cstr ?m tmp (?d i)" using k_utoa_dec(1)[OF lt] v by simp
    moreover have "region buf 16 \<inter> region tmp (Suc (length (?d i))) = {}"
      using apart(1) region_mono[of "Suc (length (?d i))" 8 tmp] dec_octet(1)[of ip i] by auto
    ultimately obtain m' where m': "strcat buf tmp ?m = Some m'" "cstr m' buf (xs @ ?d i)" "\<And>a. a \<notin> region buf 16 \<Longrightarrow> m' a = ?m a"
      using strcat_cstr[of ?m buf xs tmp "?d i" 16] prem(2) dec_octet(1)[of ip i] by auto
    have "cstr m' dot [0x2E]" using d2 apart(2)
      by (subst cstr_cong[of _ _ _ ?m]) (auto intro!: m'(3) simp: numeral_2_eq_2)
    then show ?thesis using m' by auto
  qed
  {
    case 0
    then show ?case using step[of m xs 0] by (subst format_ip_loop.simps) (auto simp: Let_def)
  next
    case (Suc i)
    obtain m1 where m1: "strcat buf tmp (k_utoa (ucast (ucast (drop_bit (Suc i * 8) ip AND 0xFF) :: u8)) tmp 10 m) = Some m1"
      "cstr m1 buf (xs @ ?d (Suc i))" "cstr m1 dot [0x2E]"
      using step[of m xs "Suc i"] Suc.prems by auto
    have "region buf 16 \<inter> region dot (Suc (length [0x2E :: u8])) = {}" using apart(2) by (simp add: numeral_2_eq_2)
    then obtain m2 where m2: "strcat buf dot m1 = Some m2" "cstr m2 buf ((xs @ ?d (Suc i)) @ [0x2E])"
      "\<And>a. a \<notin> region buf 16 \<Longrightarrow> m2 a = m1 a"
      using strcat_cstr[OF m1(2,3), of 16] Suc.prems(2) dec_octet(1)[of ip "Suc i"] by auto
    have "cstr m2 dot [0x2E]" using m1(3) apart(2)
      by (subst cstr_cong[of _ _ _ m1]) (auto intro!: m2(3) simp: numeral_2_eq_2)
    moreover have "length ((xs @ ?d (Suc i)) @ [0x2E]) + 4 * i \<le> 12" using Suc.prems(2) dec_octet(1)[of ip "Suc i"] by simp
    ultimately obtain m3 where "format_ip_loop ip buf tmp dot i m2 = Some m3" "cstr m3 buf (((xs @ ?d (Suc i)) @ [0x2E]) @ dotted ip i)"
      using Suc.IH[OF m2(2)] by auto
    then show ?case using m1(1) m2(1) by (subst format_ip_loop.simps) (auto simp: Let_def)
  }
qed


lemma parse_dotted:
  assumes "cstr m (str + i) (dotted ip j)" "j \<le> 3" "length parts = 4" "\<forall>k \<le> j. parts ! (3 - k) = 0"
  shows "\<exists>parts'. parse_ip_loop m str i parts (3 - j) False = Some (Some parts') \<and> length parts' = 4
    \<and> (\<forall>k \<le> j. parts' ! (3 - k) = of_nat (octet ip k)) \<and> (\<forall>k < 3 - j. parts' ! k = parts ! k)"
  using assms
proof (induction j arbitrary: i parts)
  have read: "parse_ip_loop m str i parts (3 - j) False =
      parse_ip_loop m str (i + of_nat (length (dec (octet ip j)))) (parts[3 - j := of_nat (octet ip j)]) (3 - j) True"
    if "cstr m (str + i) (dec (octet ip j) @ ys)" "length parts = 4" "parts ! (3 - j) = 0" for i parts j ys
    using parse_digits[of "dec (octet ip j)" m str i parts "3 - j" 0 False] that dec_octet[of ip j] octet_less[of ip j]
    by (auto simp: cstr_iff_nth nth_append)
  {
    case 0
    let ?n = "length (dec (octet ip 0))"
    have "m (str + (i + of_nat ?n)) = 0" using 0(1) by (simp add: cstr_iff_nth add.assoc)
    then have "parse_ip_loop m str (i + of_nat ?n) (parts[3 := of_nat (octet ip 0)]) 3 True = Some (Some (parts[3 := of_nat (octet ip 0)]))"
      by (subst parse_ip_loop.simps) (simp add: Let_def)
    then show ?case using read[of i 0 "[]" parts] 0 by auto
  next
    case (Suc j)
    let ?ds = "dec (octet ip (Suc j))" and ?p = "parts[3 - Suc j := of_nat (octet ip (Suc j))]"
    have idx: "3 - Suc j + 1 = 3 - j" "3 - Suc j < 3" using Suc.prems(2) by auto
    have at: "cstr m (str + i + of_nat (length ?ds)) (0x2E # dotted ip j)"
      using cstr_drop[of m "str + i" ?ds "0x2E # dotted ip j"] Suc.prems(1) by simp
    have "parse_ip_loop m str i parts (3 - Suc j) False = parse_ip_loop m str (i + of_nat (length ?ds)) ?p (3 - Suc j) True"
      using read[of i "Suc j" "0x2E # dotted ip j" parts] Suc.prems(1,3) Suc.prems(4)[rule_format, of "Suc j"] by simp
    also have "\<dots> = parse_ip_loop m str (i + of_nat (length ?ds) + 1) ?p (3 - j) False"
      using at idx by (subst parse_ip_loop.simps) (simp add: Let_def add.assoc)
    finally have step: "parse_ip_loop m str i parts (3 - Suc j) False = parse_ip_loop m str (i + of_nat (length ?ds) + 1) ?p (3 - j) False" .
    have "\<forall>k \<le> j. ?p ! (3 - k) = 0"
    proof (intro allI impI)
      fix k assume "k \<le> j"
      then have "3 - Suc j \<noteq> 3 - k" "parts ! (3 - k) = 0" using Suc.prems(2,4) by auto
      then show "?p ! (3 - k) = 0" by simp
    qed
    then obtain q where q: "parse_ip_loop m str (i + of_nat (length ?ds) + 1) ?p (3 - j) False = Some (Some q)" "length q = 4"
      "\<forall>k \<le> j. q ! (3 - k) = of_nat (octet ip k)" "\<forall>k < 3 - j. q ! k = ?p ! k"
      using Suc.IH[of "i + of_nat (length ?ds) + 1" ?p] at Suc.prems by (auto simp: add.assoc)
    have "q ! (3 - Suc j) = of_nat (octet ip (Suc j))" using q(4) idx Suc.prems(3) by simp
    then have "\<forall>k \<le> Suc j. q ! (3 - k) = of_nat (octet ip k)" using q(3) by (auto simp: le_Suc_eq)
    moreover have "\<forall>k < 3 - Suc j. q ! k = parts ! k" using q(4) idx by auto
    ultimately show ?case using step q(1,2) by auto
  }
qed

text \<open>C32. Printing an IPv4 address and parsing it back is the identity: in disjoint buffers, \<^verbatim>\<open>net_format_ip\<close> terminates
  and \<^verbatim>\<open>net_parse_ip\<close> of the string it writes returns the address, for every 32-bit address.\<close>

theorem net_parse_format_ip:
  assumes "buf \<noteq> 0" and "m dot = 0x2E" and "m (dot + 1) = 0"
    and "region buf 16 \<inter> region tmp 8 = {}" and "region buf 16 \<inter> region dot 2 = {}" and "region tmp 8 \<inter> region dot 2 = {}"
  shows "\<exists>m'. net_format_ip ip buf tmp dot m = Some m' \<and> net_parse_ip m' buf = Some (Some ip)"
proof -
  have "buf \<notin> region dot 2" using assms(5) region_memI[of 0 16 buf] by auto
  then have "cstr (m(buf := 0)) dot [0x2E]" using assms(2,3) region_memI[of 0 2 dot] region_memI[of 1 2 dot] by auto
  then obtain m' where m': "format_ip_loop ip buf tmp dot 3 (m(buf := 0)) = Some m'" "cstr m' buf (dotted ip 3)"
    using format_ip_loop_writes[of "m(buf := 0)" buf "[]" 3 dot tmp ip] assms by auto
  have z: "\<forall>k \<le> 3. [0, 0, 0, 0 :: u32] ! (3 - k) = 0"
    by (auto simp: numeral_3_eq_3 le_Suc_eq)
  obtain q where q: "parse_ip_loop m' buf 0 [0, 0, 0, 0] 0 False = Some (Some q)"
    "\<And>k. k \<le> 3 \<Longrightarrow> q ! (3 - k) = of_nat (octet ip k)"
    using parse_dotted[of m' buf 0 ip 3 "[0, 0, 0, 0]"] m'(2) z by auto
  have oct: "ucast (of_nat (octet ip k) :: u32) = (ucast (drop_bit (k * 8) ip AND 0xFF) :: u8)" for k
    unfolding octet_def of_nat_unat by (rule ucast_u8_u32)
  have "net_make_ip (ucast (drop_bit (3 * 8) ip AND 0xFF)) (ucast (drop_bit (2 * 8) ip AND 0xFF))
      (ucast (drop_bit (1 * 8) ip AND 0xFF)) (ucast (drop_bit (0 * 8) ip AND 0xFF)) = ip"
    by (simp add: net_make_ip_def word_all_bits bit_simps)
  then have "net_make_ip (ucast (q ! 0)) (ucast (q ! 1)) (ucast (q ! 2)) (ucast (q ! 3)) = ip"
    using q(2)[of 0] q(2)[of 1] q(2)[of 2] q(2)[of 3] oct[of 0] oct[of 1] oct[of 2] oct[of 3] by simp
  then show ?thesis using m'(1) q(1) assms(1) by (simp add: net_format_ip_def net_parse_ip_def)
qed


theorem net_parse_format_ip_witness:
  "\<exists>m'. net_format_ip 0x0A00020F 0x1000 0x2000 0x3000 (put_bytes 0x3000 [0x2E, 0] (\<lambda>_. 0)) = Some m'
    \<and> net_parse_ip m' 0x1000 = Some (Some 0x0A00020F)"
  by (rule net_parse_format_ip) (auto intro!: region_disjoint)

end
