(* ===== verification/Ring.thy ===== *)
theory Ring
  imports Kernel_Prelude
begin

text \<open>
  The ring buffers of the input drivers.  \<^verbatim>\<open>src/kernel/keyboard.c\<close> has three and \<^verbatim>\<open>src/kernel/serial.c\<close> one, with the same
  code: an array of 256 cells, a 16-bit head where the interrupt handler writes and a 16-bit tail where the reader reads.
  The locale is the contract the readers rely on, a bounded first-in first-out queue; the ring implements it.
\<close>

unbundle bit_operations_syntax

section \<open>The ring\<close>

record 'a ring =
  cells :: "u16 \<Rightarrow> 'a"
  head :: u16
  tail :: u16

abbreviation RING_SIZE :: u16 where "RING_SIZE \<equiv> 256"

definition ring_next :: "u16 \<Rightarrow> u16" where
  "ring_next i = (i + 1) AND (RING_SIZE - 1)"

definition ring_push :: "'a \<Rightarrow> 'a ring \<Rightarrow> 'a ring" where
  "ring_push x r =
     (let nxt = ring_next (head r) in
      if nxt \<noteq> tail r then r\<lparr>cells := (cells r)(head r := x), head := nxt\<rparr> else r)"

definition ring_is_empty :: "'a ring \<Rightarrow> bool" where
  "ring_is_empty r \<longleftrightarrow> head r = tail r"

definition ring_pop :: "'a ring \<Rightarrow> ('a \<times> 'a ring) option" where
  "ring_pop r = (if head r = tail r then None else Some (cells r (tail r), r\<lparr>tail := ring_next (tail r)\<rparr>))"

definition ring_reset :: "'a ring \<Rightarrow> 'a ring" where
  "ring_reset r = r\<lparr>head := 0, tail := 0\<rparr>"

section \<open>Bounded queues\<close>

locale bounded_queue =
  fixes inv :: "'q \<Rightarrow> bool" and contents :: "'q \<Rightarrow> 'a list" and cap :: nat
    and push :: "'a \<Rightarrow> 'q \<Rightarrow> 'q" and pop :: "'q \<Rightarrow> ('a \<times> 'q) option"
  assumes push_inv: "inv q \<Longrightarrow> inv (push x q)"
    and push_contents: "inv q \<Longrightarrow> contents (push x q) = (if length (contents q) < cap then contents q @ [x] else contents q)"
    and pop_None: "inv q \<Longrightarrow> pop q = None \<longleftrightarrow> contents q = []"
    and pop_Some: "inv q \<Longrightarrow> pop q = Some (x, q') \<Longrightarrow> inv q' \<and> contents q = x # contents q'"
    and bounded: "inv q \<Longrightarrow> length (contents q) \<le> cap"
begin

text \<open>Pushing a list of items appends as many of them as there is room for.\<close>

lemma push_all: "inv q \<Longrightarrow> inv (fold push xs q) \<and> contents (fold push xs q) = take cap (contents q @ xs)"
proof (induction xs arbitrary: q)
  case Nil
  then show ?case using bounded[of q] by simp
next
  case (Cons x xs)
  have "inv (push x q)" using Cons.prems by (rule push_inv)
  from Cons.IH[OF this] show ?case using push_contents[OF Cons.prems, of x] bounded[OF Cons.prems] by (auto simp: take_Cons')
qed

fun pop_all :: "nat \<Rightarrow> 'q \<Rightarrow> 'a list \<times> 'q" where
  "pop_all 0 q = ([], q)"
| "pop_all (Suc n) q = (case pop q of None \<Rightarrow> ([], q) | Some (x, q') \<Rightarrow> let (xs, q'') = pop_all n q' in (x # xs, q''))"

lemma pop_all_contents:
  "inv q \<Longrightarrow> fst (pop_all n q) = take n (contents q) \<and> contents (snd (pop_all n q)) = drop n (contents q) \<and> inv (snd (pop_all n q))"
proof (induction n arbitrary: q)
  case (Suc n)
  show ?case
  proof (cases "pop q")
    case None
    then show ?thesis using Suc.prems pop_None[of q] by simp
  next
    case (Some p)
    obtain x q' where p: "p = (x, q')" by force
    have q': "inv q'" "contents q = x # contents q'" using pop_Some[OF Suc.prems] Some p by auto
    then show ?thesis using Suc.IH[OF q'(1)] Some p by (auto simp: Let_def split: prod.splits)
  qed
qed simp

end

section \<open>The ring is a bounded queue of 255 items\<close>

definition ring_inv :: "'a ring \<Rightarrow> bool" where
  "ring_inv r \<longleftrightarrow> head r < RING_SIZE \<and> tail r < RING_SIZE"

definition ring_count :: "'a ring \<Rightarrow> nat" where
  "ring_count r = (unat (head r) + 256 - unat (tail r)) mod 256"

definition ring_list :: "'a ring \<Rightarrow> 'a list" where
  "ring_list r = map (\<lambda>k. cells r (of_nat ((unat (tail r) + k) mod 256))) [0..<ring_count r]"

lemma unat_ring_next: "unat (ring_next i) = (unat i + 1) mod 256"
proof -
  have m: "(RING_SIZE - 1 :: u16) = mask 8" by (simp add: mask_eq_exp_minus_1)
  have "unat (i + 1) mod 256 = (unat i + 1) mod 256"
    unfolding unat_word_ariths by (simp add: mod_mod_cancel)
  then show ?thesis unfolding ring_next_def m by (simp add: unat_and_mask del: unat_1)
qed

lemma ring_next_less: "ring_next i < RING_SIZE"
  by (simp add: word_less_nat_alt unat_ring_next)

lemma mod_256_once: "x < 512 \<Longrightarrow> x mod 256 = (if x < 256 then x else x - (256 :: nat))"
  by (simp add: le_mod_geq)

lemma ring_count_arith:
  fixes h t :: nat
  assumes "h < 256" "t < 256"
  defines "n \<equiv> (h + 256 - t) mod 256"
  shows "(t + n) mod 256 = h" "n < 256" "n = 0 \<longleftrightarrow> h = t" "(h + 1) mod 256 = t \<longleftrightarrow> n = 255"
    "n < 255 \<Longrightarrow> ((h + 1) mod 256 + 256 - t) mod 256 = n + 1"
    "0 < n \<Longrightarrow> (h + 256 - (t + 1) mod 256) mod 256 = n - 1"
  using assms(1,2) by (auto simp: n_def mod_256_once split: if_splits)

lemma ring_invD: "ring_inv r \<Longrightarrow> unat (head r) < 256 \<and> unat (tail r) < 256"
  by (simp add: ring_inv_def word_less_nat_alt)

lemmas ring_arith = ring_count_arith[folded ring_count_def]

lemma ring_count_simps:
  assumes "ring_inv r"
  shows "(unat (tail r) + ring_count r) mod 256 = unat (head r)" "ring_count r < 256" "ring_count r = 0 \<longleftrightarrow> head r = tail r"
    "ring_next (head r) = tail r \<longleftrightarrow> ring_count r = 255"
  using ring_count_arith[of "unat (head r)" "unat (tail r)"] ring_invD[OF assms]
  by (simp_all add: ring_count_def word_unat_eq_iff unat_ring_next)

lemma ring_push_list:
  assumes inv: "ring_inv r"
  shows "ring_list (ring_push x r) = (if length (ring_list r) < 255 then ring_list r @ [x] else ring_list r)"
proof (cases "ring_count r < 255")
  case True
  let ?h = "unat (head r)" and ?t = "unat (tail r)" and ?n = "ring_count r"
  have nt: "ring_next (head r) \<noteq> tail r" using ring_count_simps(4)[OF inv] True by simp
  then have r': "ring_push x r = r\<lparr>cells := (cells r)(head r := x), head := ring_next (head r)\<rparr>"
    by (simp add: ring_push_def Let_def)
  have n': "ring_count (ring_push x r) = ?n + 1"
    using ring_count_arith(5)[of ?h ?t] ring_invD[OF inv] True unfolding r' by (simp add: ring_count_def unat_ring_next)
  have old: "of_nat ((?t + k) mod 256) \<noteq> head r" if "k < ?n" for k
  proof -
    have "(?t + k) mod 256 \<noteq> (?t + ?n) mod 256"
      using ring_count_simps(2)[OF inv] that ring_invD[OF inv] by (auto simp: mod_256_once)
    then have "(?t + k) mod 256 \<noteq> ?h" unfolding ring_count_simps(1)[OF inv] .
    moreover have "unat (of_nat ((?t + k) mod 256) :: u16) = (?t + k) mod 256"
      by (simp add: unat_of_nat take_bit_nat_eq_self)
    ultimately show ?thesis by metis
  qed
  have "of_nat ((?t + ?n) mod 256) = head r" unfolding ring_count_simps(1)[OF inv] by simp
  then show ?thesis using True n' old unfolding ring_list_def r' by simp
next
  case False
  then have "ring_next (head r) = tail r" using ring_count_simps(2,4)[OF inv] by simp
  then show ?thesis using False by (simp add: ring_push_def Let_def ring_list_def)
qed

lemma ring_pop_list:
  assumes inv: "ring_inv r" and p: "ring_pop r = Some (x, r')"
  shows "ring_inv r' \<and> ring_list r = x # ring_list r'"
proof -
  let ?h = "unat (head r)" and ?t = "unat (tail r)" and ?n = "ring_count r"
  have r': "x = cells r (tail r)" "r' = r\<lparr>tail := ring_next (tail r)\<rparr>" "head r \<noteq> tail r"
    using p by (auto simp: ring_pop_def split: if_splits)
  have n: "0 < ?n" using r'(3) ring_count_simps(3)[OF inv] by simp
  then have n': "ring_count r' = ?n - 1"
    using ring_count_arith(6)[of ?h ?t] ring_invD[OF inv] unfolding r' by (simp add: ring_count_def unat_ring_next)
  have idx: "(Suc ?t mod 256 + k) mod 256 = Suc (?t + k) mod 256" for k by (simp only: mod_add_left_eq add_Suc)
  have "?t mod 256 = ?t" using ring_invD[OF inv] by simp
  moreover obtain k where "?n = Suc k" using n by (cases "?n") auto
  ultimately have "ring_list r = x # map (\<lambda>k. cells r (of_nat ((?t + Suc k) mod 256))) [0..<?n - 1]"
    unfolding ring_list_def by (simp add: map_upt_Suc r'(1) del: upt_Suc)
  then show ?thesis using inv n' unfolding ring_list_def
    by (simp add: r'(2) unat_ring_next idx ring_inv_def ring_next_less)
qed

interpretation ring: bounded_queue ring_inv ring_list 255 ring_push ring_pop
proof
  fix r :: "'a ring" and x r'
  assume inv: "ring_inv r"
  show "ring_inv (ring_push x r)" using inv by (simp add: ring_push_def Let_def ring_inv_def ring_next_less)
  show "ring_list (ring_push x r) = (if length (ring_list r) < 255 then ring_list r @ [x] else ring_list r)"
    using inv by (rule ring_push_list)
  show "ring_pop r = None \<longleftrightarrow> ring_list r = []"
    using ring_count_simps(3)[OF inv] by (auto simp: ring_pop_def ring_list_def)
  show "length (ring_list r) \<le> 255" using ring_count_simps(2)[OF inv] by (simp add: ring_list_def)
  show "ring_inv r' \<and> ring_list r = x # ring_list r'" if "ring_pop r = Some (x, r')"
    using inv that by (rule ring_pop_list)
qed

lemma ring_reset_empty: "ring_inv (ring_reset r)" "ring_list (ring_reset r) = []"
  by (simp_all add: ring_reset_def ring_inv_def ring_list_def ring_count_def)

text \<open>C12. The ring buffer of the input drivers refines a bounded queue: pushing any sequence of items onto a ring that holds
  \<^verbatim>\<open>ring_list r\<close> appends them in order until the ring holds 255 and drops the rest, and reading it then yields the items in
  the order in which they were pushed.\<close>

theorem ring_refines_queue:
  assumes "ring_inv r"
  shows "ring_inv (fold ring_push xs r)
    \<and> ring_list (fold ring_push xs r) = take 255 (ring_list r @ xs)
    \<and> fst (ring.pop_all n (fold ring_push xs r)) = take n (take 255 (ring_list r @ xs))"
  using ring.push_all[OF assms] ring.pop_all_contents[of "fold ring_push xs r" n] by simp

theorem ring_refines_queue_witness:
  "fst (ring.pop_all 2 (fold ring_push [7, 8, 9] (ring_reset \<lparr>cells = (\<lambda>_. 0 :: nat), head = 5, tail = 9\<rparr>))) = [7, 8]"
  using ring_refines_queue[OF ring_reset_empty(1), where n = 2 and xs = "[7, 8, 9 :: nat]"]
  by (simp add: ring_reset_empty(2))

end
