(* ===== verification/Serial.thy ===== *)
theory Serial
  imports Ring Strings
begin

text \<open>
  The serial port driver \<^verbatim>\<open>src/kernel/serial.c\<close>.  The 16550 UART on the default port is part of the state: the bytes it
  has received and not yet delivered, the bytes it was given to send, whether its scratch register works and whether the
  bus floats (every register then reads \<^verbatim>\<open>0xFF\<close>), and the log of configuration writes.  Waiting for the transmitter changes
  no state and ends after a fixed number of reads, so a write always reaches the data register.  The kernel drives one port,
  COM1; a string argument is the list of its bytes without the terminating NUL.
\<close>

unbundle bit_operations_syntax

abbreviation COM1_PORT :: u16 where "COM1_PORT \<equiv> 0x3F8"
abbreviation SERIAL_DATA :: u16 where "SERIAL_DATA \<equiv> 0"
abbreviation SERIAL_INTR_ENABLE :: u16 where "SERIAL_INTR_ENABLE \<equiv> 1"
abbreviation SERIAL_FIFO_CTRL :: u16 where "SERIAL_FIFO_CTRL \<equiv> 2"
abbreviation SERIAL_LINE_CTRL :: u16 where "SERIAL_LINE_CTRL \<equiv> 3"
abbreviation SERIAL_MODEM_CTRL :: u16 where "SERIAL_MODEM_CTRL \<equiv> 4"
abbreviation SERIAL_SCRATCH :: u16 where "SERIAL_SCRATCH \<equiv> 7"
abbreviation SERIAL_LSR_DR :: u8 where "SERIAL_LSR_DR \<equiv> 0x01"
abbreviation SERIAL_LSR_THRE :: u8 where "SERIAL_LSR_THRE \<equiv> 0x20"

record serial_state =
  default_port :: u16
  serial_present :: bool
  serial_rx_ring :: "u8 ring"
  uart_scratch :: bool
  uart_floating :: bool
  uart_rx :: "u8 list"
  uart_tx :: "u8 list"
  uart_config :: "(u16 \<times> u8) list"

definition line_status :: "serial_state \<Rightarrow> u8" where
  "line_status st = (if uart_floating st then 0xFF else if uart_rx st \<noteq> [] then SERIAL_LSR_DR OR SERIAL_LSR_THRE else SERIAL_LSR_THRE)"

definition serial_rx_push :: "u8 \<Rightarrow> serial_state \<Rightarrow> serial_state" where
  "serial_rx_push c st = st\<lparr>serial_rx_ring := ring_push c (serial_rx_ring st)\<rparr>"

definition serial_init :: "u16 \<Rightarrow> u32 \<Rightarrow> serial_state \<Rightarrow> serial_state" where
  "serial_init port baud st =
     (let st = (if default_port st = 0 then st\<lparr>default_port := port\<rparr> else st);
          divisor = (if 0 < baud then ucast (115200 div baud) else 1) :: u16;
          divisor = (if divisor = 0 then 1 else divisor);
          st = st\<lparr>uart_config := uart_config st @
                 [(port + SERIAL_INTR_ENABLE, 0), (port + SERIAL_LINE_CTRL, 0x80), (port, ucast (divisor AND 0xFF)),
                  (port + 1, ucast (drop_bit 8 divisor AND 0xFF)), (port + SERIAL_LINE_CTRL, 0x03),
                  (port + SERIAL_FIFO_CTRL, 0x01 OR 0x02 OR 0x04 OR 0xC0), (port + SERIAL_MODEM_CTRL, 0x01 OR 0x02 OR 0x08),
                  (port + SERIAL_SCRATCH, 0x5A)]\<rparr>
      in if uart_scratch st \<and> \<not> uart_floating st then
           st\<lparr>serial_present := True, uart_rx := [], uart_config := uart_config st @ [(port + SERIAL_INTR_ENABLE, 0x01)]\<rparr>
         else if line_status st \<noteq> 0xFF then
           st\<lparr>serial_present := True, uart_config := uart_config st @ [(port + SERIAL_INTR_ENABLE, 0x01)]\<rparr>
         else st\<lparr>serial_present := False\<rparr>)"

definition serial_put :: "u8 \<Rightarrow> serial_state \<Rightarrow> serial_state" where
  "serial_put c st = st\<lparr>uart_tx := uart_tx st @ [c]\<rparr>"

definition serial_write_char :: "u16 \<Rightarrow> u8 \<Rightarrow> serial_state \<Rightarrow> serial_state" where
  "serial_write_char port c st =
     (if \<not> serial_present st \<and> port = default_port st then st
      else
        let st = (if c = 0x0A then serial_put 0x0D st else st)
        in serial_put c st)"

definition serial_write_str_port :: "u16 \<Rightarrow> u8 list \<Rightarrow> serial_state \<Rightarrow> serial_state" where
  "serial_write_str_port port s st = fold (serial_write_char port) s st"

definition serial_write_str :: "u8 list \<Rightarrow> serial_state \<Rightarrow> serial_state" where
  "serial_write_str s st =
     (if default_port st \<noteq> 0 \<and> serial_present st then serial_write_str_port (default_port st) s st else st)"

definition serial_has_data :: "u16 \<Rightarrow> serial_state \<Rightarrow> bool" where
  "serial_has_data port st =
     (if \<not> serial_present st \<and> port = default_port st then False
      else if line_status st = 0xFF then False
      else line_status st AND SERIAL_LSR_DR \<noteq> 0)"

text \<open>\<^verbatim>\<open>while (serial_has_data(default_port)) serial_rx_push(inb(...))\<close>: each read takes a byte from the UART.\<close>

function serial_drain :: "serial_state \<Rightarrow> serial_state" where
  "serial_drain st =
     (if serial_has_data (default_port st) st \<and> uart_rx st \<noteq> [] then
        serial_drain (serial_rx_push (hd (uart_rx st)) (st\<lparr>uart_rx := tl (uart_rx st)\<rparr>))
      else st)"
  by auto
termination by (relation "measure (\<lambda>st. length (uart_rx st))") (auto simp: serial_rx_push_def)

declare serial_drain.simps [simp del]

definition serial_poll_rx :: "serial_state \<Rightarrow> serial_state" where
  "serial_poll_rx st = (if default_port st = 0 \<or> \<not> serial_present st then st else serial_drain st)"

definition serial_irq_handler :: "serial_state \<Rightarrow> serial_state" where
  "serial_irq_handler st = (if default_port st = 0 \<or> \<not> serial_present st then st else serial_drain st)"

definition serial_pop_rx_char :: "serial_state \<Rightarrow> u8 option \<times> serial_state" where
  "serial_pop_rx_char st =
     (let st = serial_poll_rx st in
      case ring_pop (serial_rx_ring st) of None \<Rightarrow> (None, st)
      | Some (c, r) \<Rightarrow> (Some c, st\<lparr>serial_rx_ring := r\<rparr>))"

definition hex_digits :: "u32 \<Rightarrow> u8 list" where
  "hex_digits v = [0x30, 0x78] @ map (\<lambda>i. digit_char (unat (drop_bit (4 * (7 - i)) v AND 0x0F))) [0..<8]"

definition serial_write_hex :: "u16 \<Rightarrow> u32 \<Rightarrow> serial_state \<Rightarrow> serial_state" where
  "serial_write_hex port v st = serial_write_str_port port (hex_digits v) st"

definition serial_write_int :: "u16 \<Rightarrow> int \<Rightarrow> serial_state \<Rightarrow> serial_state" where
  "serial_write_int port v st = serial_write_str_port port (itoa_dec v) st"

text \<open>\<^verbatim>\<open>serial_read_char\<close> waits for a byte: \<^const>\<open>None\<close> while the UART has none.\<close>

definition serial_read_char :: "u16 \<Rightarrow> serial_state \<Rightarrow> (u8 \<times> serial_state) option" where
  "serial_read_char port st =
     (if serial_has_data port st \<and> uart_rx st \<noteq> [] then Some (hd (uart_rx st), st\<lparr>uart_rx := tl (uart_rx st)\<rparr>) else None)"

section \<open>What polling delivers\<close>

definition uart_pending :: "serial_state \<Rightarrow> u8 list" where
  "uart_pending st = (if default_port st = 0 \<or> \<not> serial_present st \<or> uart_floating st then [] else uart_rx st)"

lemma serial_has_data_iff:
  "serial_present st \<Longrightarrow> serial_has_data port st \<longleftrightarrow> \<not> uart_floating st \<and> uart_rx st \<noteq> []"
  by (simp add: serial_has_data_def line_status_def)

lemma serial_drain_eq:
  assumes "serial_present st"
  shows "serial_drain st = (if uart_floating st then st
    else st\<lparr>serial_rx_ring := fold ring_push (uart_rx st) (serial_rx_ring st), uart_rx := []\<rparr>)"
  using assms
proof (induction "uart_rx st" arbitrary: st)
  case Nil
  then show ?case by (subst serial_drain.simps) simp
next
  case (Cons c cs)
  let ?st = "serial_rx_push c (st\<lparr>uart_rx := cs\<rparr>)"
  show ?case
  proof (cases "uart_floating st")
    case True
    then show ?thesis using Cons.prems by (subst serial_drain.simps) (simp add: serial_has_data_iff)
  next
    case False
    have "uart_rx st = c # cs" using Cons.hyps(2) by simp
    moreover have "serial_drain ?st = (if uart_floating ?st then ?st
        else ?st\<lparr>serial_rx_ring := fold ring_push (uart_rx ?st) (serial_rx_ring ?st), uart_rx := []\<rparr>)"
      using Cons.prems by (intro Cons.hyps(1)) (simp_all add: serial_rx_push_def)
    ultimately show ?thesis using Cons.prems False
      by (subst serial_drain.simps) (simp add: serial_has_data_iff serial_rx_push_def)
  qed
qed

lemma serial_poll_rx_list:
  assumes "ring_inv (serial_rx_ring st)"
  shows "ring_inv (serial_rx_ring (serial_poll_rx st))"
    "ring_list (serial_rx_ring (serial_poll_rx st)) = take 255 (ring_list (serial_rx_ring st) @ uart_pending st)"
    "uart_pending (serial_poll_rx st) = []"
proof -
  have "length (ring_list (serial_rx_ring st)) \<le> 255" using assms by (rule ring.bounded)
  then show "ring_inv (serial_rx_ring (serial_poll_rx st))"
    "ring_list (serial_rx_ring (serial_poll_rx st)) = take 255 (ring_list (serial_rx_ring st) @ uart_pending st)"
    "uart_pending (serial_poll_rx st) = []"
    using ring.push_all[OF assms] assms by (auto simp: serial_poll_rx_def uart_pending_def serial_drain_eq)
qed

end
