(* ===== verification/Keyboard.thy ===== *)
theory Keyboard
  imports Serial
begin

text \<open>
  Keyboard and unified input, \<^verbatim>\<open>src/kernel/keyboard.c\<close>: the scancode interrupt handler with its modifier state, the
  parser that turns serial bytes (VT100 escape sequences included) into input events, and the three ring buffers both feed.
  The byte the handler reads from port \<^verbatim>\<open>0x60\<close> is its argument; \<^verbatim>\<open>kb_output\<close> is what the keyboard controller still holds
  when the driver starts.  A wait for input is ended by an interrupt: the waiting operations take the list of the
  handlers that run during the halts and give \<^const>\<open>None\<close> when they are still waiting after all of them.
\<close>

unbundle bit_operations_syntax

abbreviation SC_ENTER :: u8 where "SC_ENTER \<equiv> 0x1C"
abbreviation SC_LEFT_CTRL :: u8 where "SC_LEFT_CTRL \<equiv> 0x1D"
abbreviation SC_LEFT_SHIFT :: u8 where "SC_LEFT_SHIFT \<equiv> 0x2A"
abbreviation SC_RIGHT_SHIFT :: u8 where "SC_RIGHT_SHIFT \<equiv> 0x36"
abbreviation SC_LEFT_ALT :: u8 where "SC_LEFT_ALT \<equiv> 0x38"
abbreviation SC_CAPS_LOCK :: u8 where "SC_CAPS_LOCK \<equiv> 0x3A"
abbreviation SC_F1 :: u8 where "SC_F1 \<equiv> 0x3B"
abbreviation SC_F2 :: u8 where "SC_F2 \<equiv> 0x3C"
abbreviation SC_F3 :: u8 where "SC_F3 \<equiv> 0x3D"
abbreviation SC_F10 :: u8 where "SC_F10 \<equiv> 0x44"
abbreviation SC_NUM_LOCK :: u8 where "SC_NUM_LOCK \<equiv> 0x45"
abbreviation SC_SCROLL_LOCK :: u8 where "SC_SCROLL_LOCK \<equiv> 0x46"
abbreviation SC_F11 :: u8 where "SC_F11 \<equiv> 0x57"
abbreviation SC_F12 :: u8 where "SC_F12 \<equiv> 0x58"
abbreviation SC_RELEASE_BIT :: u8 where "SC_RELEASE_BIT \<equiv> 0x80"

abbreviation KEY_NONE :: int where "KEY_NONE \<equiv> 0"
abbreviation KEY_SPECIAL_UP :: int where "KEY_SPECIAL_UP \<equiv> 1001"
abbreviation KEY_SPECIAL_DOWN :: int where "KEY_SPECIAL_DOWN \<equiv> 1002"
abbreviation KEY_SPECIAL_LEFT :: int where "KEY_SPECIAL_LEFT \<equiv> 1003"
abbreviation KEY_SPECIAL_RIGHT :: int where "KEY_SPECIAL_RIGHT \<equiv> 1004"
abbreviation KEY_SPECIAL_HOME :: int where "KEY_SPECIAL_HOME \<equiv> 1005"
abbreviation KEY_SPECIAL_END :: int where "KEY_SPECIAL_END \<equiv> 1006"
abbreviation KEY_SPECIAL_DELETE :: int where "KEY_SPECIAL_DELETE \<equiv> 1007"
abbreviation KEY_SPECIAL_PGUP :: int where "KEY_SPECIAL_PGUP \<equiv> 1008"
abbreviation KEY_SPECIAL_PGDN :: int where "KEY_SPECIAL_PGDN \<equiv> 1009"
abbreviation KEY_SPECIAL_F1 :: int where "KEY_SPECIAL_F1 \<equiv> 1010"
abbreviation KEY_SPECIAL_F2 :: int where "KEY_SPECIAL_F2 \<equiv> 1011"

definition CTRL_KEY :: "u8 \<Rightarrow> u8" where
  "CTRL_KEY c = c AND 0x1F"

record keyboard_modifiers =
  mod_shift :: bool
  mod_ctrl :: bool
  mod_alt :: bool
  mod_caps :: bool
  mod_num :: bool
  mod_scroll :: bool

record keycode =
  kc_ascii :: u8
  kc_scancode :: u8
  kc_mods :: keyboard_modifiers

record keyboard =
  kb_modifiers :: keyboard_modifiers
  key_buffer :: "u8 ring"
  keycode_buffer :: "keycode ring"
  event_buffer :: "int ring"
  e0_prefix :: bool
  ansi_state :: u8
  ansi_param :: u8
  kb_output :: "u8 list"
  com1 :: serial_state

section \<open>Scancodes\<close>

definition scancode_lower :: "u8 list" where
  "scancode_lower = [
     0, 27, 49, 50, 51, 52, 53, 54, 55, 56, 57, 48, 45, 61, 8,
     9, 113, 119, 101, 114, 116, 121, 117, 105, 111, 112, 91, 93, 10, 0,
     97, 115, 100, 102, 103, 104, 106, 107, 108, 59, 39, 96, 0, 92, 122,
     120, 99, 118, 98, 110, 109, 44, 46, 47, 0, 42, 0, 32, 0, 0,
     0, 0, 0, 0, 0, 0, 0, 0, 0, 0, 0, 55, 56, 57, 45,
     52, 53, 54, 43, 49, 50, 51, 48, 46, 0, 0, 0, 0, 0] @ replicate 39 0"

definition scancode_upper :: "u8 list" where
  "scancode_upper = [
     0, 27, 33, 64, 35, 36, 37, 94, 38, 42, 40, 41, 95, 43, 8,
     9, 81, 87, 69, 82, 84, 89, 85, 73, 79, 80, 123, 125, 10, 0,
     65, 83, 68, 70, 71, 72, 74, 75, 76, 58, 34, 126, 0, 124, 90,
     88, 67, 86, 66, 78, 77, 60, 62, 63, 0, 42, 0, 32, 0, 0,
     0, 0, 0, 0, 0, 0, 0, 0, 0, 0, 0, 55, 56, 57, 45,
     52, 53, 54, 43, 49, 50, 51, 48, 46, 0, 0, 0, 0, 0] @ replicate 39 0"

definition event_push :: "int \<Rightarrow> keyboard \<Rightarrow> keyboard" where
  "event_push ev k = k\<lparr>event_buffer := ring_push ev (event_buffer k)\<rparr>"

definition buffer_push :: "u8 \<Rightarrow> keyboard \<Rightarrow> keyboard" where
  "buffer_push ch k = k\<lparr>key_buffer := ring_push ch (key_buffer k)\<rparr>"

definition keycode_push :: "keycode \<Rightarrow> keyboard \<Rightarrow> keyboard" where
  "keycode_push kc k = k\<lparr>keycode_buffer := ring_push kc (keycode_buffer k)\<rparr>"

definition keyboard_init :: "keyboard \<Rightarrow> keyboard" where
  "keyboard_init k =
     k\<lparr>key_buffer := ring_reset (key_buffer k), keycode_buffer := ring_reset (keycode_buffer k),
       event_buffer := ring_reset (event_buffer k), e0_prefix := False, ansi_state := 0,
       kb_modifiers := (kb_modifiers k)\<lparr>mod_shift := False, mod_ctrl := False, mod_alt := False,
         mod_caps := False, mod_num := True, mod_scroll := False\<rparr>,
       kb_output := drop 64 (kb_output k)\<rparr>"

definition scancode_to_ascii :: "keyboard_modifiers \<Rightarrow> u8 \<Rightarrow> u8" where
  "scancode_to_ascii mods scancode =
     (if 128 \<le> scancode then 0
      else
        let use_upper = (if mod_shift mods then \<not> mod_caps mods else mod_caps mods);
            lower = scancode_lower ! unat scancode;
            upper = scancode_upper ! unat scancode
        in if 0x61 \<le> lower \<and> lower \<le> 0x7A then
             (if mod_ctrl mods then CTRL_KEY lower else if use_upper then upper else lower)
           else if mod_shift mods then upper else lower)"

text \<open>The navigation cases both \<^verbatim>\<open>switch\<close> statements of the handler list.\<close>

definition nav_event :: "u8 \<Rightarrow> int option" where
  "nav_event key = map_of [(0x48, KEY_SPECIAL_UP), (0x50, KEY_SPECIAL_DOWN), (0x4B, KEY_SPECIAL_LEFT),
     (0x4D, KEY_SPECIAL_RIGHT), (0x47, KEY_SPECIAL_HOME), (0x4F, KEY_SPECIAL_END), (0x53, KEY_SPECIAL_DELETE),
     (0x49, KEY_SPECIAL_PGUP), (0x51, KEY_SPECIAL_PGDN)] key"

definition modifier_key :: "u8 \<Rightarrow> bool \<Rightarrow> keyboard_modifiers \<Rightarrow> keyboard_modifiers option" where
  "modifier_key key released mods =
     (if key = SC_LEFT_SHIFT \<or> key = SC_RIGHT_SHIFT then Some (mods\<lparr>mod_shift := \<not> released\<rparr>)
      else if key = SC_LEFT_CTRL then Some (mods\<lparr>mod_ctrl := \<not> released\<rparr>)
      else if key = SC_LEFT_ALT then Some (mods\<lparr>mod_alt := \<not> released\<rparr>)
      else if key = SC_CAPS_LOCK then Some (if released then mods else mods\<lparr>mod_caps := \<not> mod_caps mods\<rparr>)
      else if key = SC_NUM_LOCK then Some (if released then mods else mods\<lparr>mod_num := \<not> mod_num mods\<rparr>)
      else if key = SC_SCROLL_LOCK then Some (if released then mods else mods\<lparr>mod_scroll := \<not> mod_scroll mods\<rparr>)
      else None)"

definition extended_key :: "u8 \<Rightarrow> keyboard \<Rightarrow> keyboard" where
  "extended_key key k =
     (if key = SC_ENTER then event_push 0x0A (buffer_push 0x0A k)
      else if key = 0x35 then event_push 0x2F (buffer_push 0x2F k)
      else case nav_event key of Some ev \<Rightarrow> event_push ev k | None \<Rightarrow> k)"

definition plain_key :: "u8 \<Rightarrow> keyboard \<Rightarrow> keyboard" where
  "plain_key key k =
     (if key = SC_F1 then event_push KEY_SPECIAL_F1 k
      else if key = SC_F2 then event_push KEY_SPECIAL_F2 k
      else if SC_F3 \<le> key \<and> key \<le> SC_F10 then k
      else if key = SC_F11 \<or> key = SC_F12 then k
      else
        let ascii = scancode_to_ascii (kb_modifiers k) key in
        if ascii \<noteq> 0 then
          event_push (uint ascii)
            (keycode_push \<lparr>kc_ascii = ascii, kc_scancode = key, kc_mods = kb_modifiers k\<rparr> (buffer_push ascii k))
        else k)"

definition keyboard_handler :: "u8 \<Rightarrow> keyboard \<Rightarrow> keyboard" where
  "keyboard_handler scancode k =
     (if scancode = 0xE0 then k\<lparr>e0_prefix := True\<rparr>
      else
        let is_ext = e0_prefix k;
            k = k\<lparr>e0_prefix := False\<rparr>;
            released = scancode AND SC_RELEASE_BIT \<noteq> 0;
            key = scancode AND NOT SC_RELEASE_BIT
        in case modifier_key key released (kb_modifiers k) of
             Some mods \<Rightarrow> k\<lparr>kb_modifiers := mods\<rparr>
           | None \<Rightarrow>
               if released then k
               else if is_ext then extended_key key k
               else if \<not> mod_num (kb_modifiers k) \<and> nav_event key \<noteq> None then event_push (the (nav_event key)) k
               else plain_key key k)"

section \<open>Serial input\<close>

definition serial_key :: "u8 \<Rightarrow> keyboard \<Rightarrow> keyboard" where
  "serial_key c k =
     (let c = (if c = 0x0D then 0x0A else c);
          c = (if c = 0x7F then 0x08 else c)
      in event_push (uint c) (buffer_push c k))"

definition ansi_tilde :: "u8 \<Rightarrow> keyboard \<Rightarrow> keyboard" where
  "ansi_tilde param k =
     (if param = 0x31 \<or> param = 0x37 then event_push KEY_SPECIAL_HOME k
      else if param = 0x33 then event_push KEY_SPECIAL_DELETE k
      else if param = 0x34 \<or> param = 0x38 then event_push KEY_SPECIAL_END k
      else if param = 0x35 then event_push KEY_SPECIAL_PGUP k
      else if param = 0x36 then event_push KEY_SPECIAL_PGDN k
      else k)"

definition ansi_final :: "u8 \<Rightarrow> keyboard \<Rightarrow> keyboard" where
  "ansi_final c k =
     (if c = 0x41 then event_push KEY_SPECIAL_UP k
      else if c = 0x42 then event_push KEY_SPECIAL_DOWN k
      else if c = 0x43 then event_push KEY_SPECIAL_RIGHT k
      else if c = 0x44 then event_push KEY_SPECIAL_LEFT k
      else if c = 0x48 then event_push KEY_SPECIAL_HOME k
      else if c = 0x46 then event_push KEY_SPECIAL_END k
      else k)"

definition ansi_char :: "u8 \<Rightarrow> keyboard \<Rightarrow> keyboard" where
  "ansi_char c k =
     (if ansi_state k = 0 then
        (if c = 27 then k\<lparr>ansi_state := 1\<rparr> else serial_key c k)
      else if ansi_state k = 1 then
        (if c = 0x5B \<or> c = 0x4F then k\<lparr>ansi_state := 2, ansi_param := 0\<rparr>
         else serial_key c ((event_push 27 k)\<lparr>ansi_state := 0\<rparr>))
      else if ansi_state k = 2 then
        (if 0x30 \<le> c \<and> c \<le> 0x39 then k\<lparr>ansi_param := c\<rparr>
         else if c = 0x7E then (ansi_tilde (ansi_param k) k)\<lparr>ansi_state := 0\<rparr>
         else (ansi_final c k)\<lparr>ansi_state := 0\<rparr>)
      else k)"

partial_function (option) pump_serial_events :: "keyboard \<Rightarrow> keyboard option" where
  "pump_serial_events k =
     (case serial_pop_rx_char (com1 k) of
        (None, s) \<Rightarrow> Some (k\<lparr>com1 := s\<rparr>)
      | (Some c, s) \<Rightarrow> pump_serial_events (ansi_char c (k\<lparr>com1 := s\<rparr>)))"

section \<open>Reading input\<close>

definition take_event :: "keyboard \<Rightarrow> int \<times> keyboard" where
  "take_event k =
     (let k = (if ansi_state k = 1 \<and> \<not> serial_has_data COM1_PORT (com1 k) then event_push 27 (k\<lparr>ansi_state := 0\<rparr>) else k)
      in case ring_pop (event_buffer k) of None \<Rightarrow> (KEY_NONE, k) | Some (ev, r) \<Rightarrow> (ev, k\<lparr>event_buffer := r\<rparr>))"

definition input_poll_event :: "keyboard \<Rightarrow> (int \<times> keyboard) option" where
  "input_poll_event k = map_option take_event (pump_serial_events k)"

fun input_wait_event :: "(keyboard \<Rightarrow> keyboard) list \<Rightarrow> keyboard \<Rightarrow> (int \<times> keyboard) option" where
  "input_wait_event [] k =
     (case input_poll_event k of None \<Rightarrow> None | Some (ev, k) \<Rightarrow> if ev \<noteq> KEY_NONE then Some (ev, k) else None)"
| "input_wait_event (irq # irqs) k =
     (case input_poll_event k of None \<Rightarrow> None
      | Some (ev, k) \<Rightarrow> if ev \<noteq> KEY_NONE then Some (ev, k) else input_wait_event irqs (irq k))"

definition keyboard_has_key :: "keyboard \<Rightarrow> (bool \<times> keyboard) option" where
  "keyboard_has_key k = map_option (\<lambda>k. (\<not> ring_is_empty (key_buffer k), k)) (pump_serial_events k)"

definition keyboard_getchar_nonblock :: "keyboard \<Rightarrow> (u8 \<times> keyboard) option" where
  "keyboard_getchar_nonblock k =
     map_option (\<lambda>k. case ring_pop (key_buffer k) of None \<Rightarrow> (0, k) | Some (ch, r) \<Rightarrow> (ch, k\<lparr>key_buffer := r\<rparr>))
       (pump_serial_events k)"

fun keyboard_getchar :: "(keyboard \<Rightarrow> keyboard) list \<Rightarrow> keyboard \<Rightarrow> (u8 \<times> keyboard) option" where
  "keyboard_getchar irqs k =
     (case pump_serial_events k of None \<Rightarrow> None
      | Some k \<Rightarrow>
          case ring_pop (key_buffer k) of Some (ch, r) \<Rightarrow> Some (ch, k\<lparr>key_buffer := r\<rparr>)
          | None \<Rightarrow> (case irqs of [] \<Rightarrow> None | irq # irqs \<Rightarrow> keyboard_getchar irqs (irq k)))"

declare keyboard_getchar.simps [simp del]

definition keyboard_get_keycode :: "keyboard \<Rightarrow> keycode option \<times> keyboard" where
  "keyboard_get_keycode k =
     (case ring_pop (keycode_buffer k) of None \<Rightarrow> (None, k) | Some (kc, r) \<Rightarrow> (Some kc, k\<lparr>keycode_buffer := r\<rparr>))"

section \<open>The pump consumes what has arrived\<close>

definition serial_text :: "serial_state \<Rightarrow> u8 list" where
  "serial_text s = take 255 (ring_list (serial_rx_ring s) @ uart_pending s)"

lemma serial_pop_None:
  assumes "ring_inv (serial_rx_ring s)" "serial_text s = []"
  shows "serial_pop_rx_char s = (None, serial_poll_rx s)" "serial_text (serial_poll_rx s) = []" "ring_inv (serial_rx_ring (serial_poll_rx s))"
proof -
  note p = serial_poll_rx_list[OF assms(1)]
  have l: "ring_list (serial_rx_ring (serial_poll_rx s)) = []" by (simp only: p(2) serial_text_def[symmetric] assms(2))
  then have "ring_pop (serial_rx_ring (serial_poll_rx s)) = None" using ring.pop_None[OF p(1)] by simp
  then show "serial_pop_rx_char s = (None, serial_poll_rx s)" by (simp add: serial_pop_rx_char_def Let_def)
  show "serial_text (serial_poll_rx s) = []" using l p(3) by (simp add: serial_text_def)
  show "ring_inv (serial_rx_ring (serial_poll_rx s))" by (rule p(1))
qed

lemma serial_pop_Some:
  assumes "ring_inv (serial_rx_ring s)" "serial_text s = c # cs"
  obtains s' where "serial_pop_rx_char s = (Some c, s')" "ring_inv (serial_rx_ring s')" "serial_text s' = cs"
proof -
  let ?s = "serial_poll_rx s"
  note p = serial_poll_rx_list[OF assms(1)]
  have l: "ring_list (serial_rx_ring ?s) = c # cs" by (simp only: p(2) serial_text_def[symmetric] assms(2))
  then obtain x r where r: "ring_pop (serial_rx_ring ?s) = Some (x, r)" using ring.pop_None[OF p(1)] by fastforce
  have "ring_inv r" "x = c" "ring_list r = cs" using ring.pop_Some[OF p(1) r] l by auto
  moreover have "length cs \<le> 255" using ring.bounded[OF p(1)] l by simp
  moreover have "uart_pending (?s\<lparr>serial_rx_ring := r\<rparr>) = uart_pending ?s" by (simp add: uart_pending_def)
  ultimately show ?thesis using that[of "?s\<lparr>serial_rx_ring := r\<rparr>"] r p(3)
    by (simp add: serial_pop_rx_char_def Let_def serial_text_def)
qed

lemmas ansi_defs = ansi_char_def serial_key_def ansi_tilde_def ansi_final_def event_push_def buffer_push_def Let_def

lemma push_com1 [simp]:
  "event_push ev (k\<lparr>com1 := s\<rparr>) = (event_push ev k)\<lparr>com1 := s\<rparr>"
  "buffer_push c (k\<lparr>com1 := s\<rparr>) = (buffer_push c k)\<lparr>com1 := s\<rparr>"
  by (simp_all add: event_push_def buffer_push_def)

lemma ansi_char_com1: "ansi_char c (k\<lparr>com1 := s\<rparr>) = (ansi_char c k)\<lparr>com1 := s\<rparr>"
proof -
  note defs = serial_key_def ansi_tilde_def ansi_final_def Let_def
  have *: "serial_key c (k\<lparr>com1 := s\<rparr>) = (serial_key c k)\<lparr>com1 := s\<rparr>"
    "ansi_tilde c (k\<lparr>com1 := s\<rparr>) = (ansi_tilde c k)\<lparr>com1 := s\<rparr>"
    "ansi_final c (k\<lparr>com1 := s\<rparr>) = (ansi_final c k)\<lparr>com1 := s\<rparr>" for c k
    unfolding defs by (simp_all only: push_com1 if_distrib[where f = "com1_update (\<lambda>_. s)"])
  have "k\<lparr>com1 := s, ansi_state := a\<rparr> = k\<lparr>ansi_state := a, com1 := s\<rparr>" for k :: keyboard and a by (cases k) simp
  then have "serial_key c (k\<lparr>com1 := s, ansi_state := a\<rparr>) = (serial_key c (k\<lparr>ansi_state := a\<rparr>))\<lparr>com1 := s\<rparr>" for c k a
    by (simp only: *)
  then show ?thesis by (simp add: ansi_char_def *)
qed

lemma fold_ansi_char_com1: "fold ansi_char cs (k\<lparr>com1 := s\<rparr>) = (fold ansi_char cs k)\<lparr>com1 := s\<rparr>"
  by (induction cs arbitrary: k) (simp_all add: ansi_char_com1)

lemma pump_serial_events_fold:
  assumes "ring_inv (serial_rx_ring (com1 k))"
  shows "\<exists>s. pump_serial_events k = Some ((fold ansi_char (serial_text (com1 k)) k)\<lparr>com1 := s\<rparr>)
    \<and> ring_inv (serial_rx_ring s) \<and> serial_text s = []"
  using assms
proof (induction "serial_text (com1 k)" arbitrary: k)
  case Nil
  note p = serial_pop_None[OF Nil.prems Nil.hyps[symmetric]]
  then show ?case by (subst pump_serial_events.simps) (use Nil.hyps in auto)
next
  case (Cons c cs)
  obtain s where s: "serial_pop_rx_char (com1 k) = (Some c, s)" "ring_inv (serial_rx_ring s)" "serial_text s = cs"
    using serial_pop_Some[OF Cons.prems Cons.hyps(2)[symmetric]] .
  let ?k = "(ansi_char c k)\<lparr>com1 := s\<rparr>"
  have "\<exists>s. pump_serial_events ?k = Some ((fold ansi_char (serial_text (com1 ?k)) ?k)\<lparr>com1 := s\<rparr>)
    \<and> ring_inv (serial_rx_ring s) \<and> serial_text s = []"
    using s by (intro Cons.hyps(1)) simp_all
  then show ?case using s Cons.hyps(2)[symmetric]
    by (subst pump_serial_events.simps) (simp add: ansi_char_com1 fold_ansi_char_com1)
qed

section \<open>VT100 sequences\<close>

text \<open>What a terminal sends for an input event, and the events it can send so.\<close>

definition vt100 :: "int \<Rightarrow> u8 list" where
  "vt100 ev = (case map_of [(KEY_SPECIAL_UP, [0x5B, 0x41]), (KEY_SPECIAL_DOWN, [0x5B, 0x42]), (KEY_SPECIAL_RIGHT, [0x5B, 0x43]),
     (KEY_SPECIAL_LEFT, [0x5B, 0x44]), (KEY_SPECIAL_HOME, [0x5B, 0x48]), (KEY_SPECIAL_END, [0x4F, 0x46]),
     (KEY_SPECIAL_DELETE, [0x5B, 0x33, 0x7E]), (KEY_SPECIAL_PGUP, [0x5B, 0x35, 0x7E]), (KEY_SPECIAL_PGDN, [0x5B, 0x36, 0x7E])] ev
     of Some cs \<Rightarrow> 27 # cs | None \<Rightarrow> [of_int ev])"

definition vt100_event :: "int \<Rightarrow> bool" where
  "vt100_event ev \<longleftrightarrow> KEY_SPECIAL_UP \<le> ev \<and> ev \<le> KEY_SPECIAL_PGDN \<or> 0 \<le> ev \<and> ev < 256 \<and> ev \<notin> {13, 27, 127}"

lemma int_1001_1009: "1001 \<le> ev \<Longrightarrow> ev \<le> 1009 \<Longrightarrow> ev \<in> {1001, 1002, 1003, 1004, 1005, 1006, 1007, 1008, 1009 :: int}"
  by auto

lemma vt100_char_cases:
  assumes "0 \<le> ev" "ev < 256"
  shows "uint (of_int ev :: u8) = ev"
  using assms by (simp add: uint_word_of_int_eq take_bit_int_eq_self)

lemma fold_ansi_char_vt100:
  assumes "vt100_event ev" "ansi_state k = 0"
  shows "event_buffer (fold ansi_char (vt100 ev) k) = ring_push ev (event_buffer k)" "ansi_state (fold ansi_char (vt100 ev) k) = 0"
proof -
  have "event_buffer (fold ansi_char (vt100 ev) k) = ring_push ev (event_buffer k) \<and> ansi_state (fold ansi_char (vt100 ev) k) = 0"
  proof (cases "1001 \<le> ev \<and> ev \<le> 1009")
    case True
    then have "ev \<in> {1001, 1002, 1003, 1004, 1005, 1006, 1007, 1008, 1009}" using int_1001_1009 by blast
    then show ?thesis using assms(2) by (elim insertE emptyE) (simp_all add: vt100_def ansi_defs)
  next
    case False
    then have e: "0 \<le> ev" "ev < 256" "ev \<noteq> 13" "ev \<noteq> 27" "ev \<noteq> 127" using assms(1) by (auto simp: vt100_event_def)
    have u: "uint (of_int ev :: u8) = ev" using vt100_char_cases e by blast
    have ne: "(of_int ev :: u8) \<noteq> x" if "uint x \<noteq> ev" for x using that u by auto
    have "(of_int ev :: u8) \<noteq> 13" "(of_int ev :: u8) \<noteq> 27" "(of_int ev :: u8) \<noteq> 127"
      using ne[of 13] ne[of 27] ne[of 127] e by simp_all
    then show ?thesis using False e assms(2) u by (simp add: vt100_def ansi_defs)
  qed
  then show "event_buffer (fold ansi_char (vt100 ev) k) = ring_push ev (event_buffer k)" "ansi_state (fold ansi_char (vt100 ev) k) = 0"
    by auto
qed

lemma fold_ansi_char_vt100s:
  assumes "\<forall>ev \<in> set evs. vt100_event ev" "ansi_state k = 0"
  shows "event_buffer (fold ansi_char (concat (map vt100 evs)) k) = fold ring_push evs (event_buffer k)
    \<and> ansi_state (fold ansi_char (concat (map vt100 evs)) k) = 0"
  using assms by (induction evs arbitrary: k) (simp_all add: fold_ansi_char_vt100)

section \<open>Properties\<close>


definition keyboard_example :: keyboard where
  "keyboard_example =
     (let r = \<lparr>cells = \<lambda>_. 0, head = 0, tail = 0\<rparr>; e = \<lparr>cells = \<lambda>_. 0, head = 0, tail = 0\<rparr>;
          m = \<lparr>mod_shift = False, mod_ctrl = False, mod_alt = False, mod_caps = False, mod_num = True, mod_scroll = False\<rparr>
      in \<lparr>kb_modifiers = m, key_buffer = r,
           keycode_buffer = \<lparr>cells = \<lambda>_. \<lparr>kc_ascii = 0, kc_scancode = 0, kc_mods = m\<rparr>, head = 0, tail = 0\<rparr>,
           event_buffer = e, e0_prefix = False, ansi_state = 0, ansi_param = 0, kb_output = [],
           com1 = \<lparr>default_port = COM1_PORT, serial_present = True, serial_rx_ring = r, uart_scratch = True,
             uart_floating = False, uart_rx = [0x6C, 0x73, 27, 0x5B, 0x41, 27, 0x5B, 0x33, 0x7E], uart_tx = [], uart_config = []\<rparr>\<rparr>)"


end
