(* ===== verification/Timer.thy ===== *)
theory Timer
  imports Kernel_Prelude
begin

text \<open>
  The timer and the PC speaker, \<^verbatim>\<open>src/kernel/timer.c\<close>.  The state holds the tick counters, the interrupt flag of the
  processor, the speaker gate (port \<^verbatim>\<open>0x61\<close>) and the log of the writes to the timer chip.  A sleeping task halts until the
  next interrupt, so \<^verbatim>\<open>sleep_ms\<close> takes the interrupts that arrive while it sleeps, \<^verbatim>\<open>True\<close> for a timer tick and
  \<^verbatim>\<open>False\<close> for any other device, and gives \<^const>\<open>None\<close> when it is still halted after all of them.
\<close>

unbundle bit_operations_syntax

abbreviation PIT_FREQUENCY :: u32 where "PIT_FREQUENCY \<equiv> 1193182"
abbreviation TIMER_HZ :: u32 where "TIMER_HZ \<equiv> 100"
abbreviation TIMER_DIVISOR :: u32 where "TIMER_DIVISOR \<equiv> PIT_FREQUENCY div TIMER_HZ"
abbreviation PIT_CHANNEL0 :: u16 where "PIT_CHANNEL0 \<equiv> 0x40"
abbreviation PIT_CHANNEL2 :: u16 where "PIT_CHANNEL2 \<equiv> 0x42"
abbreviation PIT_COMMAND :: u16 where "PIT_COMMAND \<equiv> 0x43"
abbreviation PIT_CMD_CHANNEL0 :: u8 where "PIT_CMD_CHANNEL0 \<equiv> 0x00"
abbreviation PIT_CMD_CHANNEL2 :: u8 where "PIT_CMD_CHANNEL2 \<equiv> 0x80"
abbreviation PIT_CMD_LOHIBYTE :: u8 where "PIT_CMD_LOHIBYTE \<equiv> 0x30"
abbreviation PIT_CMD_MODE3 :: u8 where "PIT_CMD_MODE3 \<equiv> 0x06"

record timer_state =
  ticks :: u32
  seconds :: u32
  frequency :: u32
  irq_enabled :: bool
  speaker_port :: u8
  pit_writes :: "(u16 \<times> u8) list"

definition pit_out :: "u16 \<Rightarrow> u8 \<Rightarrow> timer_state \<Rightarrow> timer_state" where
  "pit_out port v st = st\<lparr>pit_writes := pit_writes st @ [(port, v)]\<rparr>"

definition timer_init :: "timer_state \<Rightarrow> timer_state" where
  "timer_init st =
     (let st = st\<lparr>ticks := 0, seconds := 0, frequency := TIMER_HZ\<rparr>;
          st = pit_out PIT_COMMAND (PIT_CMD_CHANNEL0 OR PIT_CMD_LOHIBYTE OR PIT_CMD_MODE3) st;
          divisor = ucast TIMER_DIVISOR :: u16;
          st = pit_out PIT_CHANNEL0 (ucast (divisor AND 0xFF)) st
      in pit_out PIT_CHANNEL0 (ucast (drop_bit 8 divisor AND 0xFF)) st)"

definition timer_get_ticks :: "timer_state \<Rightarrow> u32" where
  "timer_get_ticks st = ticks st"

definition timer_get_seconds :: "timer_state \<Rightarrow> u32" where
  "timer_get_seconds st = seconds st"

definition timer_get_ms :: "timer_state \<Rightarrow> u32" where
  "timer_get_ms st = ticks st * (1000 div TIMER_HZ)"

definition timer_handler :: "timer_state \<Rightarrow> timer_state" where
  "timer_handler st =
     (let t = ticks st + 1;
          st = st\<lparr>ticks := t\<rparr>
      in if t mod TIMER_HZ = 0 then st\<lparr>seconds := seconds st + 1\<rparr> else st)"

fun sleep_loop :: "u32 \<Rightarrow> u32 \<Rightarrow> bool list \<Rightarrow> timer_state \<Rightarrow> timer_state option" where
  "sleep_loop start ticks_to_wait [] st = (if ticks st - start < ticks_to_wait then None else Some st)"
| "sleep_loop start ticks_to_wait (irq # irqs) st =
     (if ticks st - start < ticks_to_wait then sleep_loop start ticks_to_wait irqs (if irq then timer_handler st else st)
      else Some st)"

text \<open>With interrupts disabled the delay only reads port \<^verbatim>\<open>0x80\<close>, a bounded number of times.\<close>

definition sleep_ms :: "u32 \<Rightarrow> bool list \<Rightarrow> timer_state \<Rightarrow> timer_state option" where
  "sleep_ms ms irqs st =
     (if ms = 0 then Some st
      else if \<not> irq_enabled st then Some st
      else
        let start = ticks st;
            ticks_to_wait = ms div (1000 div TIMER_HZ);
            ticks_to_wait = (if ticks_to_wait = 0 then 1 else ticks_to_wait)
        in sleep_loop start ticks_to_wait irqs st)"

definition sleep_s :: "u32 \<Rightarrow> bool list \<Rightarrow> timer_state \<Rightarrow> timer_state option" where
  "sleep_s s irqs st = sleep_ms (s * 1000) irqs st"

definition speaker_beep :: "u32 \<Rightarrow> u32 \<Rightarrow> bool list \<Rightarrow> timer_state \<Rightarrow> timer_state option" where
  "speaker_beep freq_hz duration_ms irqs st =
     (if freq_hz < 20 \<or> 20000 < freq_hz \<or> duration_ms = 0 then Some st
      else
        let div' = PIT_FREQUENCY div freq_hz;
            st = pit_out PIT_COMMAND (PIT_CMD_CHANNEL2 OR PIT_CMD_LOHIBYTE OR PIT_CMD_MODE3) st;
            st = pit_out PIT_CHANNEL2 (ucast (div' AND 0xFF)) st;
            st = pit_out PIT_CHANNEL2 (ucast (drop_bit 8 div' AND 0xFF)) st;
            st = (if speaker_port st AND 0x03 \<noteq> 0x03 then st\<lparr>speaker_port := speaker_port st OR 0x03\<rparr> else st)
        in map_option (\<lambda>st. st\<lparr>speaker_port := speaker_port st AND 0xFC\<rparr>) (sleep_ms duration_ms irqs st))"

definition digit10 :: "u32 \<Rightarrow> u8" where
  "digit10 v = 0x30 + ucast (v mod 10)"

definition two_digits :: "u32 \<Rightarrow> u8 list" where
  "two_digits v = [digit10 (v div 10), digit10 v]"

text \<open>The text \<^verbatim>\<open>timer_format_uptime\<close> writes before its terminating NUL.\<close>

definition timer_format_uptime :: "timer_state \<Rightarrow> u8 list" where
  "timer_format_uptime st =
     (let total_seconds = seconds st;
          days = total_seconds div 86400;
          hours = (total_seconds mod 86400) div 3600;
          minutes = (total_seconds mod 3600) div 60;
          secs = total_seconds mod 60
      in (if 0 < days then
            (if 100 \<le> days then [digit10 (days div 100)] else []) @
            (if 10 \<le> days then [digit10 (days div 10)] else []) @ [digit10 days, 0x64, 0x20]
          else []) @
         two_digits hours @ [0x3A] @ two_digits minutes @ [0x3A] @ two_digits secs)"

section \<open>Sleeping\<close>

abbreviation timer_ticks :: "bool list \<Rightarrow> nat" where
  "timer_ticks irqs \<equiv> count_list irqs True"

lemma sleep_loop_returns:
  assumes "unat (ticks st - start) + timer_ticks irqs = n" "unat (ticks st - start) < unat w"
  shows "sleep_loop start w irqs st \<noteq> None \<longleftrightarrow> unat w \<le> n"
    "sleep_loop start w irqs st = Some st' \<Longrightarrow> ticks st' = start + w"
proof -
  have "(sleep_loop start w irqs st \<noteq> None \<longleftrightarrow> unat w \<le> n)
     \<and> (\<forall>st'. sleep_loop start w irqs st = Some st' \<longrightarrow> ticks st' = start + w)"
    using assms
  proof (induction irqs arbitrary: st n)
    case Nil
    then show ?case by (simp add: word_less_nat_alt)
  next
    case (Cons irq irqs)
    let ?st = "if irq then timer_handler st else st"
    have lt: "ticks st - start < w" using Cons.prems(2) by (simp add: word_less_nat_alt)
    have step: "sleep_loop start w (irq # irqs) st = sleep_loop start w irqs ?st"
      using lt by simp
    show ?case
    proof (cases irq)
      case False
      then show ?thesis using Cons.IH[OF _ Cons.prems(2)] Cons.prems(1) unfolding step by simp
    next
      case True
      have t: "ticks ?st = ticks st + 1" using True by (simp add: timer_handler_def Let_def)
      have d: "ticks ?st - start = (ticks st - start) + 1" using t by simp
      have u: "unat (ticks ?st - start) = Suc (unat (ticks st - start))" unfolding d by (rule unat_add1_less[OF lt])
      show ?thesis
      proof (cases "Suc (unat (ticks st - start)) < unat w")
        case True
        then show ?thesis unfolding step using \<open>irq\<close> Cons.prems(1) u by (intro Cons.IH) auto
      next
        case False
        then have w: "unat w = unat (ticks ?st - start)" using u Cons.prems(2) by simp
        then have "w = ticks ?st - start" by (simp only: word_unat_eq_iff)
        moreover from this have "sleep_loop start w irqs ?st = Some ?st" by (cases irqs) simp_all
        ultimately show ?thesis unfolding step using \<open>irq\<close> Cons.prems(1) u w by auto
      qed
    qed
  qed
  then show "sleep_loop start w irqs st \<noteq> None \<longleftrightarrow> unat w \<le> n"
    "sleep_loop start w irqs st = Some st' \<Longrightarrow> ticks st' = start + w" by auto
qed

lemma sleep_wait_unat:
  "unat (if ms div (1000 div TIMER_HZ) = 0 then 1 else ms div (1000 div TIMER_HZ)) = max 1 (unat ms div 10)"
  by (simp add: unat_div unat_eq_zero[symmetric])



end
