(* ===== verification/Pic.thy ===== *)
theory Pic
  imports Kernel_Prelude
begin

text \<open>
  The two 8259 interrupt controllers and their driver \<^verbatim>\<open>src/kernel/pic.c\<close>.  A controller is a small state machine: a
  command byte with bit 4 starts the initialisation sequence, the next data bytes are the initialisation words in turn, and
  otherwise a data write sets the interrupt mask.  The driver is written against that machine byte by byte.
\<close>

unbundle bit_operations_syntax

abbreviation PIC1_COMMAND :: u16 where "PIC1_COMMAND \<equiv> 0x20"
abbreviation PIC1_DATA :: u16 where "PIC1_DATA \<equiv> 0x21"
abbreviation PIC2_COMMAND :: u16 where "PIC2_COMMAND \<equiv> 0xA0"
abbreviation PIC2_DATA :: u16 where "PIC2_DATA \<equiv> 0xA1"
abbreviation PIC_EOI :: u8 where "PIC_EOI \<equiv> 0x20"
abbreviation PIC_READ_ISR :: u8 where "PIC_READ_ISR \<equiv> 0x0B"
abbreviation ICW1_ICW4 :: u8 where "ICW1_ICW4 \<equiv> 0x01"
abbreviation ICW1_INIT :: u8 where "ICW1_INIT \<equiv> 0x10"
abbreviation ICW4_8086 :: u8 where "ICW4_8086 \<equiv> 0x01"

record pic_chip =
  pic_icw :: nat
  pic_vector :: u8
  pic_cascade :: u8
  pic_mode :: u8
  pic_imr :: u8
  pic_isr :: u8
  pic_irr :: u8
  pic_read_isr :: bool

record pics =
  master :: pic_chip
  slave :: pic_chip

text \<open>An end-of-interrupt command clears the highest-priority (lowest-numbered) in-service bit.\<close>

definition lowest_bit :: "u8 \<Rightarrow> u8" where
  "lowest_bit v = v AND (- v)"

definition chip_command :: "u8 \<Rightarrow> pic_chip \<Rightarrow> pic_chip" where
  "chip_command v c =
     (if v AND ICW1_INIT \<noteq> 0 then c\<lparr>pic_icw := 2, pic_imr := 0, pic_isr := 0, pic_read_isr := False\<rparr>
      else if v = PIC_EOI then c\<lparr>pic_isr := pic_isr c AND NOT (lowest_bit (pic_isr c))\<rparr>
      else if v = PIC_READ_ISR then c\<lparr>pic_read_isr := True\<rparr>
      else c)"

definition chip_data :: "u8 \<Rightarrow> pic_chip \<Rightarrow> pic_chip" where
  "chip_data v c =
     (if pic_icw c = 2 then c\<lparr>pic_vector := v, pic_icw := 3\<rparr>
      else if pic_icw c = 3 then c\<lparr>pic_cascade := v, pic_icw := 4\<rparr>
      else if pic_icw c = 4 then c\<lparr>pic_mode := v, pic_icw := 0\<rparr>
      else c\<lparr>pic_imr := v\<rparr>)"

definition pic_out :: "u16 \<Rightarrow> u8 \<Rightarrow> pics \<Rightarrow> pics" where
  "pic_out port v p =
     (if port = PIC1_COMMAND then p\<lparr>master := chip_command v (master p)\<rparr>
      else if port = PIC1_DATA then p\<lparr>master := chip_data v (master p)\<rparr>
      else if port = PIC2_COMMAND then p\<lparr>slave := chip_command v (slave p)\<rparr>
      else if port = PIC2_DATA then p\<lparr>slave := chip_data v (slave p)\<rparr>
      else p)"

definition chip_status :: "pic_chip \<Rightarrow> u8" where
  "chip_status c = (if pic_read_isr c then pic_isr c else pic_irr c)"

definition pic_in :: "u16 \<Rightarrow> pics \<Rightarrow> u8" where
  "pic_in port p =
     (if port = PIC1_COMMAND then chip_status (master p)
      else if port = PIC1_DATA then pic_imr (master p)
      else if port = PIC2_COMMAND then chip_status (slave p)
      else if port = PIC2_DATA then pic_imr (slave p)
      else 0xFF)"

text \<open>\<^verbatim>\<open>io_wait\<close> writes the unused port \<^verbatim>\<open>0x80\<close>.\<close>

definition io_wait :: "pics \<Rightarrow> pics" where
  "io_wait p = pic_out 0x80 0 p"

definition pic_remap :: "pics \<Rightarrow> pics" where
  "pic_remap p =
     (let p = io_wait (pic_out PIC1_COMMAND (ICW1_INIT OR ICW1_ICW4) p);
          p = io_wait (pic_out PIC2_COMMAND (ICW1_INIT OR ICW1_ICW4) p);
          p = io_wait (pic_out PIC1_DATA 0x20 p);
          p = io_wait (pic_out PIC2_DATA 0x28 p);
          p = io_wait (pic_out PIC1_DATA 0x04 p);
          p = io_wait (pic_out PIC2_DATA 0x02 p);
          p = io_wait (pic_out PIC1_DATA ICW4_8086 p);
          p = io_wait (pic_out PIC2_DATA ICW4_8086 p);
          p = pic_out PIC1_DATA 0x00 p
      in pic_out PIC2_DATA 0x00 p)"

definition pic_send_eoi :: "u8 \<Rightarrow> pics \<Rightarrow> pics" where
  "pic_send_eoi irq p =
     (let p = (if 8 \<le> irq then pic_out PIC2_COMMAND PIC_EOI p else p)
      in pic_out PIC1_COMMAND PIC_EOI p)"

definition pic_mask_irq :: "u8 \<Rightarrow> pics \<Rightarrow> pics" where
  "pic_mask_irq irq p =
     (let port = (if irq < 8 then PIC1_DATA else PIC2_DATA);
          irq = (if 8 \<le> irq then irq - 8 else irq)
      in pic_out port (pic_in port p OR push_bit (unat irq) 1) p)"

definition pic_unmask_irq :: "u8 \<Rightarrow> pics \<Rightarrow> pics" where
  "pic_unmask_irq irq p =
     (let port = (if irq < 8 then PIC1_DATA else PIC2_DATA);
          irq = (if 8 \<le> irq then irq - 8 else irq)
      in pic_out port (pic_in port p AND NOT (push_bit (unat irq) 1)) p)"

definition pic_get_mask :: "pics \<Rightarrow> u16" where
  "pic_get_mask p = ucast (pic_in PIC1_DATA p) OR push_bit 8 (ucast (pic_in PIC2_DATA p))"

definition pic_set_mask :: "u16 \<Rightarrow> pics \<Rightarrow> pics" where
  "pic_set_mask msk p =
     pic_out PIC2_DATA (ucast (drop_bit 8 msk AND 0xFF)) (pic_out PIC1_DATA (ucast (msk AND 0xFF)) p)"

definition pic_is_spurious_irq7 :: "pics \<Rightarrow> bool \<times> pics" where
  "pic_is_spurious_irq7 p =
     (let p = pic_out PIC1_COMMAND PIC_READ_ISR p in (pic_in PIC1_COMMAND p AND 0x80 = 0, p))"

definition pic_is_spurious_irq15 :: "pics \<Rightarrow> bool \<times> pics" where
  "pic_is_spurious_irq15 p =
     (let p = pic_out PIC2_COMMAND PIC_READ_ISR p in (pic_in PIC2_COMMAND p AND 0x80 = 0, p))"

definition pic_disable_all :: "pics \<Rightarrow> pics" where
  "pic_disable_all p = pic_out PIC2_DATA 0xFF (pic_out PIC1_DATA 0xFF p)"

section \<open>Masks and vectors\<close>

definition pics_ready :: "pics \<Rightarrow> bool" where
  "pics_ready p \<longleftrightarrow> pic_icw (master p) = 0 \<and> pic_icw (slave p) = 0"

lemmas pic_defs = chip_command_def chip_data_def chip_status_def Let_def

lemma pic_out_chips [simp]:
  "master (pic_out PIC1_COMMAND v p) = chip_command v (master p)" "slave (pic_out PIC1_COMMAND v p) = slave p"
  "master (pic_out PIC2_COMMAND v p) = master p" "slave (pic_out PIC2_COMMAND v p) = chip_command v (slave p)"
  "master (pic_out PIC1_DATA v p) = chip_data v (master p)" "slave (pic_out PIC1_DATA v p) = slave p"
  "master (pic_out PIC2_DATA v p) = master p" "slave (pic_out PIC2_DATA v p) = chip_data v (slave p)"
  "io_wait p = p"
  by (simp_all add: pic_out_def io_wait_def)

lemma pic_in_data [simp]: "pic_in PIC1_DATA p = pic_imr (master p)" "pic_in PIC2_DATA p = pic_imr (slave p)"
  by (simp_all add: pic_in_def)

text \<open>From any state of the controllers, even in the middle of an initialisation, remapping leaves them ready, with every line
  enabled and the vectors 32 to 47.\<close>

lemma pic_remap_vectors:
  "pics_ready (pic_remap p)" "pic_vector (master (pic_remap p)) = 0x20" "pic_vector (slave (pic_remap p)) = 0x28"
  "pic_cascade (master (pic_remap p)) = 0x04" "pic_cascade (slave (pic_remap p)) = 0x02" "pic_get_mask (pic_remap p) = 0"
  by (simp_all add: pic_remap_def pics_ready_def pic_get_mask_def pic_defs)

lemma pic_get_set_mask:
  assumes "pics_ready p"
  shows "pic_get_mask (pic_set_mask m p) = m" "pics_ready (pic_set_mask m p)"
  using assms by (simp_all add: pics_ready_def pic_get_mask_def pic_set_mask_def pic_defs word_all_bits bit_simps)

lemma pic_mask_irq_bit:
  assumes "pics_ready p" "irq < 16" "j < 16"
  shows "bit (pic_get_mask (pic_mask_irq irq p)) j \<longleftrightarrow> j = unat irq \<or> bit (pic_get_mask p) j"
    "bit (pic_get_mask (pic_unmask_irq irq p)) j \<longleftrightarrow> j \<noteq> unat irq \<and> bit (pic_get_mask p) j"
proof -
  have u: "unat irq < 16" using assms(2) by (simp add: word_less_nat_alt)
  have lt: "irq < 8 \<longleftrightarrow> unat irq < 8" by (simp add: word_less_nat_alt)
  have sub: "unat (irq - 8) = unat irq - 8" if "8 \<le> irq" using that by (simp add: unat_sub word_le_nat_alt)
  show "bit (pic_get_mask (pic_mask_irq irq p)) j \<longleftrightarrow> j = unat irq \<or> bit (pic_get_mask p) j"
    "bit (pic_get_mask (pic_unmask_irq irq p)) j \<longleftrightarrow> j \<noteq> unat irq \<and> bit (pic_get_mask p) j"
    using assms(1,3) u lt sub
    by (auto simp: pics_ready_def pic_get_mask_def pic_mask_irq_def pic_unmask_irq_def pic_defs bit_simps linorder_not_less word_le_nat_alt dest: bit_u8_less)
qed

end
