(* ===== verification/Klog.thy ===== *)
theory Klog
  imports Timer Serial
begin

text \<open>
  The kernel log \<^verbatim>\<open>src/kernel/klog.c\<close>: an 8192-byte text buffer that drops its oldest line when it is full, and the
  line format that stamps, stores and mirrors messages to the serial port.  The length stays below the buffer size, so it
  is a natural number here; a string argument is the list of its bytes, \<^const>\<open>None\<close> the NULL pointer.
\<close>

abbreviation KLOG_BUFFER_SIZE :: nat where "KLOG_BUFFER_SIZE \<equiv> 8192"

record klog =
  klog_buf :: "u8 list"
  klog_len :: nat

text \<open>The number of bytes to drop: the first line when it ends in the first half of the buffer, else 256.\<close>

definition klog_drop :: "u8 list \<Rightarrow> nat" where
  "klog_drop buf = (case List.find (\<lambda>i. buf ! i = 0x0A) [0..<KLOG_BUFFER_SIZE div 2] of Some i \<Rightarrow> i + 1 | None \<Rightarrow> 256)"

definition klog_append_char :: "u8 \<Rightarrow> klog \<Rightarrow> klog" where
  "klog_append_char c k =
     (if klog_len k < KLOG_BUFFER_SIZE - 1 then
        k\<lparr>klog_buf := ((klog_buf k)[klog_len k := c])[klog_len k + 1 := 0], klog_len := klog_len k + 1\<rparr>
      else
        let d = klog_drop (klog_buf k);
            remain = klog_len k - d;
            buf = take remain (drop d (klog_buf k)) @ drop remain (klog_buf k)
        in k\<lparr>klog_buf := (buf[remain := c])[remain + 1 := 0], klog_len := remain + 1\<rparr>)"

definition klog_init :: "klog \<Rightarrow> klog" where
  "klog_init k = k\<lparr>klog_buf := replicate KLOG_BUFFER_SIZE 0, klog_len := 0\<rparr>"

definition klog_write :: "u8 list option \<Rightarrow> klog \<Rightarrow> klog" where
  "klog_write msg k = (case msg of None \<Rightarrow> k | Some s \<Rightarrow> fold klog_append_char s k)"

definition klog_write_hex :: "u32 \<Rightarrow> klog \<Rightarrow> klog" where
  "klog_write_hex v k = klog_write (Some (hex_digits v)) k"

definition klog_write_int :: "int \<Rightarrow> klog \<Rightarrow> klog" where
  "klog_write_int v k = klog_write (Some (itoa_dec v)) k"

definition klog_prefix :: "u32 \<Rightarrow> u8 list" where
  "klog_prefix ms =
     (let sec = ms div 1000;
          rem = (ms mod 1000) div 10;
          sbuf = dec (unat sec)
      in [0x5B] @ replicate (4 - length sbuf) 0x20 @ sbuf @ [0x2E, digit10 (rem div 10), digit10 rem, 0x5D, 0x20])"

definition klog_writeln :: "u8 list option \<Rightarrow> u8 list option \<Rightarrow> timer_state \<Rightarrow> klog \<times> serial_state \<Rightarrow> klog \<times> serial_state" where
  "klog_writeln subsys msg t ks =
     (let (k, s) = ks;
          prefix = klog_prefix (timer_get_ms t);
          k = klog_write (Some prefix) k;
          s = serial_write_str prefix s;
          (k, s) = (case subsys of
              Some (c # cs) \<Rightarrow>
                (klog_write (Some [0x3A, 0x20]) (klog_write subsys k),
                 serial_write_str [0x3A, 0x20] (serial_write_str (c # cs) s))
            | _ \<Rightarrow> (k, s));
          (k, s) = (case msg of Some m \<Rightarrow> (klog_write msg k, serial_write_str m s) | None \<Rightarrow> (k, s))
      in (klog_write (Some [0x0A]) k, serial_write_str [0x0A] s))"

definition klog_get_buffer :: "klog \<Rightarrow> nat \<times> u8 list" where
  "klog_get_buffer k = (klog_len k, klog_buf k)"

definition klog_clear :: "klog \<Rightarrow> klog" where
  "klog_clear k = klog_init k"

section \<open>The buffer holds a suffix of what was logged\<close>

definition klog_inv :: "klog \<Rightarrow> bool" where
  "klog_inv k \<longleftrightarrow> length (klog_buf k) = KLOG_BUFFER_SIZE \<and> klog_len k < KLOG_BUFFER_SIZE \<and> klog_buf k ! klog_len k = 0"

definition klog_text :: "klog \<Rightarrow> u8 list" where
  "klog_text k = take (klog_len k) (klog_buf k)"

text \<open>\<open>logged k xs k'\<close>: \<open>k'\<close> holds the old text followed by \<open>xs\<close>, less a prefix that is dropped only when the buffer
  overflows and that leaves at least 4096 bytes.\<close>

definition logged :: "klog \<Rightarrow> u8 list \<Rightarrow> klog \<Rightarrow> bool" where
  "logged k xs k' \<longleftrightarrow> (\<exists>n. klog_text k' = drop n (klog_text k @ xs)
     \<and> (length (klog_text k) + length xs < KLOG_BUFFER_SIZE \<longrightarrow> n = 0)
     \<and> (0 < n \<longrightarrow> 4096 \<le> length (klog_text k')))"

lemma klog_drop_bounds: "1 \<le> klog_drop buf" "klog_drop buf \<le> 4096"
proof -
  have "i < 4096" if "List.find (\<lambda>i. buf ! i = 0x0A) [0..<4096] = Some i" for i
    using that by (auto simp: find_Some_iff)
  then show "1 \<le> klog_drop buf" "klog_drop buf \<le> 4096"
    by (auto simp: klog_drop_def Suc_le_eq simp del: upt_rec_numeral split: option.splits)
qed

lemma klog_append_char_text:
  assumes "klog_inv k"
  shows "klog_inv (klog_append_char c k)"
    "klog_text (klog_append_char c k) = (if klog_len k < 8191 then klog_text k @ [c] else drop (klog_drop (klog_buf k)) (klog_text k) @ [c])"
proof -
  let ?d = "klog_drop (klog_buf k)"
  let ?r = "klog_len k - ?d"
  let ?b = "take ?r (drop ?d (klog_buf k)) @ drop ?r (klog_buf k)"
  have len: "length (klog_buf k) = 8192" "klog_len k < 8192" using assms by (auto simp: klog_inv_def)
  show "klog_inv (klog_append_char c k)"
    using len klog_drop_bounds[of "klog_buf k"] by (auto simp: klog_inv_def klog_append_char_def Let_def)
  show "klog_text (klog_append_char c k) = (if klog_len k < 8191 then klog_text k @ [c] else drop ?d (klog_text k) @ [c])"
  proof (cases "klog_len k < 8191")
    case True
    then show ?thesis using len by (simp add: klog_text_def klog_append_char_def take_Suc_conv_app_nth)
  next
    case False
    have lb: "length ?b = 8192" "?r < 8191" "length (take ?r (drop ?d (klog_buf k))) = ?r"
      using len False klog_drop_bounds[of "klog_buf k"] by auto
    have "klog_text (klog_append_char c k) = take (Suc ?r) (?b[?r := c])"
      using False by (simp add: klog_text_def klog_append_char_def Let_def)
    also have "\<dots> = take ?r ?b @ [c]" using lb by (simp add: take_Suc_conv_app_nth)
    also have "take ?r ?b = take ?r (drop ?d (klog_buf k))" using lb(3) by simp
    finally show ?thesis using False by (simp add: klog_text_def drop_take)
  qed
qed

lemma klog_text_length: "klog_inv k \<Longrightarrow> length (klog_text k) = klog_len k"
  by (auto simp: klog_inv_def klog_text_def)

lemma logged_char:
  assumes "klog_inv k"
  shows "logged k [c] (klog_append_char c k)"
proof (cases "klog_len k < 8191")
  case True
  then show ?thesis using klog_append_char_text(2)[OF assms, of c] by (auto simp: logged_def intro!: exI[of _ 0])
next
  case False
  have "klog_len k < 8192" using assms by (simp add: klog_inv_def)
  then show ?thesis using klog_append_char_text(2)[OF assms, of c] False klog_drop_bounds[of "klog_buf k"] klog_text_length[OF assms]
    by (auto simp: logged_def intro!: exI[of _ "klog_drop (klog_buf k)"])
qed

lemma logged_trans:
  assumes "logged k xs k1" "logged k1 ys k2"
  shows "logged k (xs @ ys) k2"
proof -
  obtain n where n: "klog_text k1 = drop n (klog_text k @ xs)" "length (klog_text k) + length xs < 8192 \<longrightarrow> n = 0"
    "0 < n \<longrightarrow> 4096 \<le> length (klog_text k1)" using assms(1) unfolding logged_def by blast
  obtain m where m: "klog_text k2 = drop m (klog_text k1 @ ys)" "length (klog_text k1) + length ys < 8192 \<longrightarrow> m = 0"
    "0 < m \<longrightarrow> 4096 \<le> length (klog_text k2)" using assms(2) unfolding logged_def by blast
  show ?thesis
  proof (cases "n \<le> length (klog_text k @ xs)")
    case True
    have "klog_text k1 @ ys = drop n ((klog_text k @ xs) @ ys)"
      unfolding drop_append[of n "klog_text k @ xs" ys] n(1) using True by simp
    then have "klog_text k2 = drop (n + m) (klog_text k @ xs @ ys)" using m(1) by (simp only: append_assoc drop_drop add.commute)
    moreover have "n + m = 0" if "length (klog_text k) + length (xs @ ys) < 8192"
      using that n(1,2) m(2) by simp
    moreover have "4096 \<le> length (klog_text k2)" if "0 < n + m"
    proof (cases "0 < m")
      case False
      then show ?thesis using that n(3) m(1) by simp
    qed (use m(3) in simp)
    ultimately show ?thesis unfolding logged_def by blast
  next
    case False
    then show ?thesis using n by auto
  qed
qed

lemma klog_write_logged: "klog_inv k \<Longrightarrow> klog_inv (klog_write (Some xs) k) \<and> logged k xs (klog_write (Some xs) k)"
proof (induction xs arbitrary: k)
  case Nil
  then show ?case by (auto simp: klog_write_def logged_def intro!: exI[of _ 0])
next
  case (Cons c xs)
  then have "klog_inv (klog_append_char c k)" by (simp add: klog_append_char_text)
  from Cons.IH[OF this] show ?case using logged_trans[OF logged_char[OF Cons.prems, of c]] by (auto simp: klog_write_def)
qed

definition crlf :: "u8 list \<Rightarrow> u8 list" where
  "crlf xs = concat (map (\<lambda>c. if c = 0x0A then [0x0D, 0x0A] else [c]) xs)"

lemma crlf_append: "crlf (xs @ ys) = crlf xs @ crlf ys"
  by (simp add: crlf_def)

lemma serial_write_str_port_tx:
  "serial_present s \<Longrightarrow> serial_write_str_port port xs s = s\<lparr>uart_tx := uart_tx s @ crlf xs\<rparr>"
  unfolding serial_write_str_port_def
  by (induction xs arbitrary: s) (simp_all add: serial_write_char_def serial_put_def crlf_def)

lemma serial_write_str_tx:
  "serial_write_str xs s =
     (if default_port s \<noteq> 0 \<and> serial_present s then s\<lparr>uart_tx := uart_tx s @ crlf xs\<rparr> else s)"
  by (simp add: serial_write_str_def serial_write_str_port_tx)

text \<open>The line a message makes.\<close>

definition klog_line :: "u8 list option \<Rightarrow> u8 list option \<Rightarrow> timer_state \<Rightarrow> u8 list" where
  "klog_line subsys msg t =
     klog_prefix (timer_get_ms t) @ (case subsys of Some (c # cs) \<Rightarrow> (c # cs) @ [0x3A, 0x20] | _ \<Rightarrow> [])
       @ (case msg of Some m \<Rightarrow> m | None \<Rightarrow> []) @ [0x0A]"

lemma klog_write_append: "klog_write (Some ys) (klog_write (Some xs) k) = klog_write (Some (xs @ ys)) k"
  by (simp add: klog_write_def)

lemma serial_write_str_append: "serial_write_str ys (serial_write_str xs s) = serial_write_str (xs @ ys) s"
  by (simp add: serial_write_str_tx crlf_append)

lemma klog_writeln_line:
  "klog_writeln subsys msg t (k, s) =
     (klog_write (Some (klog_line subsys msg t)) k, serial_write_str (klog_line subsys msg t) s)"
  by (simp add: klog_writeln_def klog_line_def Let_def klog_write_append serial_write_str_append split: option.splits list.splits)

text \<open>C30. Logging a line keeps the newest text: after \<^verbatim>\<open>klog_writeln\<close> the buffer, still NUL-terminated within its 8192 bytes,
  holds the former text followed by the stamped line, from which a prefix is missing only if the two together do not fit, and
  then at least the newest 4096 bytes are there; a serial port that is present receives the line with CR LF line ends.\<close>

theorem klog_writeln_logs:
  assumes "klog_inv k"
  shows "let (k', s') = klog_writeln subsys msg t (k, s); line = klog_line subsys msg t
    in klog_inv k'
     \<and> (\<exists>n. klog_text k' = drop n (klog_text k @ line)
         \<and> (length (klog_text k) + length line < KLOG_BUFFER_SIZE \<longrightarrow> n = 0)
         \<and> (0 < n \<longrightarrow> 4096 \<le> length (klog_text k')))
     \<and> (default_port s \<noteq> 0 \<and> serial_present s \<longrightarrow> uart_tx s' = uart_tx s @ crlf line)"
  using klog_write_logged[OF assms, of "klog_line subsys msg t"]
  by (simp add: klog_writeln_line serial_write_str_tx logged_def Let_def)

theorem klog_writeln_logs_witness:
  "let k = klog_init \<lparr>klog_buf = [], klog_len = 7\<rparr>;
       t = \<lparr>ticks = 512, seconds = 5, frequency = 100, irq_enabled = True, speaker_port = 0, pit_writes = []\<rparr>;
       s = \<lparr>default_port = COM1_PORT, serial_present = False, serial_rx_ring = \<lparr>cells = \<lambda>_. 0, head = 0, tail = 0\<rparr>,
             uart_scratch = False, uart_floating = True, uart_rx = [], uart_tx = [], uart_config = []\<rparr>
   in klog_inv (fst (klog_writeln (Some [0x50]) None t (k, s)))"
proof -
  have "klog_inv (klog_init k)" for k by (simp add: klog_inv_def klog_init_def)
  from klog_writeln_logs[OF this] show ?thesis unfolding Let_def by (simp add: case_prod_beta)
qed

end
