(* ===== verification/Rtc.thy ===== *)
theory Rtc
  imports Kernel_Prelude
begin

text \<open>
  The real-time clock driver \<^verbatim>\<open>src/kernel/rtc.c\<close>.  The CMOS chip is a function from the time (counted in register
  reads) to the contents of its registers, so that the clock may tick between any two reads of the driver; an operation
  takes the current time and returns the time after its reads.
\<close>

unbundle bit_operations_syntax

abbreviation CMOS_SECONDS :: u8 where "CMOS_SECONDS \<equiv> 0x00"
abbreviation CMOS_MINUTES :: u8 where "CMOS_MINUTES \<equiv> 0x02"
abbreviation CMOS_HOURS :: u8 where "CMOS_HOURS \<equiv> 0x04"
abbreviation CMOS_WEEKDAY :: u8 where "CMOS_WEEKDAY \<equiv> 0x06"
abbreviation CMOS_DAY :: u8 where "CMOS_DAY \<equiv> 0x07"
abbreviation CMOS_MONTH :: u8 where "CMOS_MONTH \<equiv> 0x08"
abbreviation CMOS_YEAR :: u8 where "CMOS_YEAR \<equiv> 0x09"
abbreviation CMOS_STATUS_A :: u8 where "CMOS_STATUS_A \<equiv> 0x0A"
abbreviation CMOS_STATUS_B :: u8 where "CMOS_STATUS_B \<equiv> 0x0B"
abbreviation CMOS_CENTURY :: u8 where "CMOS_CENTURY \<equiv> 0x32"
abbreviation CMOS_STAT_A_UIP :: u8 where "CMOS_STAT_A_UIP \<equiv> 0x80"
abbreviation CMOS_STAT_B_24HR :: u8 where "CMOS_STAT_B_24HR \<equiv> 0x02"

type_synonym cmos = "nat \<Rightarrow> u8 \<Rightarrow> u8"

record rtc_time =
  rtc_seconds :: u8
  rtc_minutes :: u8
  rtc_hours :: u8
  rtc_day :: u8
  rtc_month :: u8
  rtc_year :: u16
  rtc_weekday :: u8

definition cmos_read :: "cmos \<Rightarrow> u8 \<Rightarrow> nat \<Rightarrow> u8 \<times> nat" where
  "cmos_read cm reg t = (cm t (reg AND 0x7F), t + 1)"

definition bcd_to_bin :: "u8 \<Rightarrow> u8" where
  "bcd_to_bin bcd = (bcd AND 0x0F) + drop_bit 4 bcd * 10"

fun wait_uip :: "nat \<Rightarrow> cmos \<Rightarrow> nat \<Rightarrow> nat" where
  "wait_uip 0 cm t = t"
| "wait_uip (Suc timeout) cm t =
     (let (v, t) = cmos_read cm CMOS_STATUS_A t in if v AND CMOS_STAT_A_UIP \<noteq> 0 then wait_uip timeout cm t else t)"

definition cmos_wait_uip :: "cmos \<Rightarrow> nat \<Rightarrow> nat" where
  "cmos_wait_uip cm t = wait_uip 100000 cm t"

definition rtc_init :: "cmos \<Rightarrow> nat \<Rightarrow> bool \<times> nat" where
  "rtc_init cm t = (let (status_b, t) = cmos_read cm CMOS_STATUS_B t in (status_b \<noteq> 0xFF, t))"

text \<open>The registers one pass reads, in the order of the reads: seconds, minutes, hours, day, month, year, weekday, century.\<close>

abbreviation rtc_registers :: "u8 list" where
  "rtc_registers \<equiv> [CMOS_SECONDS, CMOS_MINUTES, CMOS_HOURS, CMOS_DAY, CMOS_MONTH, CMOS_YEAR, CMOS_WEEKDAY, CMOS_CENTURY]"

fun cmos_read_all :: "cmos \<Rightarrow> u8 list \<Rightarrow> nat \<Rightarrow> u8 list \<times> nat" where
  "cmos_read_all cm [] t = ([], t)"
| "cmos_read_all cm (r # rs) t =
     (let (v, t) = cmos_read cm r t; (vs, t) = cmos_read_all cm rs t in (v # vs, t))"

fun rtc_read_loop :: "nat \<Rightarrow> cmos \<Rightarrow> nat \<Rightarrow> u8 list \<times> nat" where
  "rtc_read_loop attempts cm t =
     (let (r1, t) = cmos_read_all cm rtc_registers (cmos_wait_uip cm t);
          (r2, t) = cmos_read_all cm rtc_registers (cmos_wait_uip cm t)
      in case attempts of Suc (Suc n) \<Rightarrow> if r1 \<noteq> r2 then rtc_read_loop (Suc n) cm t else (r2, t) | _ \<Rightarrow> (r2, t))"

declare rtc_read_loop.simps [simp del]

definition rtc_convert :: "u8 \<Rightarrow> u8 list \<Rightarrow> rtc_time" where
  "rtc_convert status_b regs =
     (let s = regs ! 0; m = regs ! 1; h = regs ! 2; d = regs ! 3; mo = regs ! 4; y = regs ! 5; w = regs ! 6; c = regs ! 7;
          is_bcd = (status_b AND 0x04 = 0);
          is_24hr = (status_b AND CMOS_STAT_B_24HR \<noteq> 0);
          pm = (\<not> is_24hr \<and> h AND 0x80 \<noteq> 0);
          h = h AND 0x7F;
          (s, m, h, d, mo, y, w, c) =
            (if is_bcd then
               (bcd_to_bin s, bcd_to_bin m, bcd_to_bin h, bcd_to_bin d, bcd_to_bin mo, bcd_to_bin y, bcd_to_bin w,
                if c \<noteq> 0x00 \<and> c \<noteq> 0xFF then bcd_to_bin c else 0)
             else (s, m, h, d, mo, y, w, c));
          h = (if \<not> is_24hr then (if pm then h mod 12 + 12 else if h = 12 then 0 else h) else h)
      in \<lparr>rtc_seconds = if s < 60 then s else 0,
          rtc_minutes = if m < 60 then m else 0,
          rtc_hours = if h < 24 then h else 0,
          rtc_day = if 1 \<le> d \<and> d \<le> 31 then d else 1,
          rtc_month = if 1 \<le> mo \<and> mo \<le> 12 then mo else 1,
          rtc_year = if 19 \<le> c \<and> c \<le> 21 then ucast c * 100 + ucast y
                     else if 70 \<le> y then 1900 + ucast y else 2000 + ucast y,
          rtc_weekday = w\<rparr>)"

definition rtc_read_time :: "bool \<Rightarrow> cmos \<Rightarrow> nat \<Rightarrow> rtc_time option" where
  "rtc_read_time rtc_available cm t =
     (if \<not> rtc_available then None
      else
        let (regs, t) = rtc_read_loop 5 cm t;
            (status_b, t) = cmos_read cm CMOS_STATUS_B t
        in Some (rtc_convert status_b regs))"

text \<open>The bytes the formatting functions store before the terminating NUL.\<close>

definition rtc_format_time :: "rtc_time \<Rightarrow> u8 list" where
  "rtc_format_time time =
     [0x30 + rtc_hours time div 10, 0x30 + rtc_hours time mod 10, 0x3A,
      0x30 + rtc_minutes time div 10, 0x30 + rtc_minutes time mod 10, 0x3A,
      0x30 + rtc_seconds time div 10, 0x30 + rtc_seconds time mod 10]"

definition rtc_format_date :: "rtc_time \<Rightarrow> u8 list" where
  "rtc_format_date time =
     [0x30 + ucast ((rtc_year time div 1000) mod 10), 0x30 + ucast ((rtc_year time div 100) mod 10),
      0x30 + ucast ((rtc_year time div 10) mod 10), 0x30 + ucast (rtc_year time mod 10), 0x2D,
      0x30 + rtc_month time div 10, 0x30 + rtc_month time mod 10, 0x2D,
      0x30 + rtc_day time div 10, 0x30 + rtc_day time mod 10]"

definition rtc_format_datetime :: "rtc_time \<Rightarrow> u8 list" where
  "rtc_format_datetime time = rtc_format_date time @ [0x20] @ rtc_format_time time"

section \<open>Reading is not torn by a tick\<close>

lemma wait_uip_le: "t \<le> wait_uip n cm t"
proof (induction n arbitrary: t)
  case (Suc n)
  show ?case using Suc.IH[of "Suc t"] by (auto simp: cmos_read_def Let_def)
qed simp

lemma cmos_wait_uip_le: "t \<le> cmos_wait_uip cm t"
  unfolding cmos_wait_uip_def by (rule wait_uip_le)

lemma cmos_read_all_eq:
  "cmos_read_all cm rs t = (map (\<lambda>i. cm (t + i) (rs ! i AND 0x7F)) [0..<length rs], t + length rs)"
proof (induction rs arbitrary: t)
  case (Cons r rs)
  show ?case by (simp add: cmos_read_def Cons.IH map_upt_Suc del: upt_Suc)
qed simp

text \<open>\<open>clock_ticks cm a b T\<close>: the date registers hold \<open>a\<close> before time \<open>T\<close> and \<open>b\<close> from then on.\<close>

definition clock_ticks :: "cmos \<Rightarrow> u8 list \<Rightarrow> u8 list \<Rightarrow> nat \<Rightarrow> bool" where
  "clock_ticks cm a b T \<longleftrightarrow> (\<forall>t. \<forall>i < 8. cm t (rtc_registers ! i) = (if t < T then a ! i else b ! i))"

lemma registers_masked: "i < 8 \<Longrightarrow> rtc_registers ! i AND 0x7F = rtc_registers ! i"
  by (auto simp: less_Suc_eq numeral_eq_Suc)

lemma clock_ticks_read:
  assumes "clock_ticks cm a b T" "length a = 8" "length b = 8"
  shows "t + 8 \<le> T \<Longrightarrow> cmos_read_all cm rtc_registers t = (a, t + 8)"
    "T \<le> t \<Longrightarrow> cmos_read_all cm rtc_registers t = (b, t + 8)"
    "snd (cmos_read_all cm rtc_registers t) = t + 8"
proof -
  have l: "length rtc_registers = 8" by simp
  have v: "cm (t + i) (rtc_registers ! i AND 0x7F) = (if t + i < T then a ! i else b ! i)" if "i < 8" for i
    using assms(1) that registers_masked[OF that] by (simp only: clock_ticks_def)
  show "t + 8 \<le> T \<Longrightarrow> cmos_read_all cm rtc_registers t = (a, t + 8)"
    using v assms(2) by (simp only: cmos_read_all_eq l) (auto intro!: nth_equalityI simp del: nth_Cons_numeral)
  show "T \<le> t \<Longrightarrow> cmos_read_all cm rtc_registers t = (b, t + 8)"
    using v assms(3) by (simp only: cmos_read_all_eq l) (auto intro!: nth_equalityI)
  show "snd (cmos_read_all cm rtc_registers t) = t + 8" by (simp only: cmos_read_all_eq l snd_conv)
qed

lemma rtc_read_loop_after:
  assumes "clock_ticks cm a b T" "length a = 8" "length b = 8" "T \<le> t"
  shows "fst (rtc_read_loop n cm t) = b"
proof -
  let ?t1 = "cmos_wait_uip cm t" and ?t2 = "cmos_wait_uip cm (cmos_wait_uip cm t + 8)"
  have "T \<le> ?t1" "T \<le> ?t2" using assms(4) cmos_wait_uip_le le_trans trans_le_add1 by meson+
  then show ?thesis using clock_ticks_read(2)[OF assms(1-3)]
    by (subst rtc_read_loop.simps) (simp add: Let_def split: nat.splits)
qed

lemma rtc_read_loop_not_torn:
  assumes "clock_ticks cm a b T" "length a = 8" "length b = 8"
  shows "fst (rtc_read_loop (Suc (Suc n)) cm t) \<in> {a, b}"
proof -
  let ?t1 = "cmos_wait_uip cm t" let ?t2 = "cmos_wait_uip cm (?t1 + 8)"
  note r = clock_ticks_read[OF assms]
  obtain r1 r2 where e: "cmos_read_all cm rtc_registers ?t1 = (r1, ?t1 + 8)" "cmos_read_all cm rtc_registers ?t2 = (r2, ?t2 + 8)"
    using r(3) by (metis prod.collapse)
  have le: "?t1 + 8 \<le> ?t2" by (rule cmos_wait_uip_le)
  have step: "rtc_read_loop (Suc (Suc n)) cm t = (if r1 \<noteq> r2 then rtc_read_loop (Suc n) cm (?t2 + 8) else (r2, ?t2 + 8))"
    by (subst rtc_read_loop.simps) (simp only: e Let_def split_conv nat.case)
  consider "?t2 + 8 \<le> T" | "T \<le> ?t2" | "?t2 < T" "T < ?t2 + 8" by linarith
  then show ?thesis
  proof cases
    case 1
    then have "r1 = a" "r2 = a" using e r(1)[of ?t1] r(1)[of ?t2] le by auto
    then show ?thesis by (simp add: step)
  next
    case 2
    then have "r2 = b" using e r(2)[of ?t2] by simp
    then show ?thesis using 2 rtc_read_loop_after[OF assms, of "?t2 + 8" "Suc n"] by (simp add: step)
  next
    case 3
    then have "r1 = a" using e r(1)[of ?t1] le by simp
    then show ?thesis using 3 rtc_read_loop_after[OF assms, of "?t2 + 8" "Suc n"] by (simp add: step)
  qed
qed


section \<open>Decoding the registers\<close>

text \<open>What the chip shows in its date registers in the mode that status register B selects.\<close>

definition bin_to_bcd :: "u8 \<Rightarrow> u8" where
  "bin_to_bcd v = push_bit 4 (v div 10) OR v mod 10"

definition hour12 :: "u8 \<Rightarrow> u8" where
  "hour12 h = (if h mod 12 = 0 then 12 else h mod 12)"

definition rtc_encode :: "u8 \<Rightarrow> rtc_time \<Rightarrow> u8 list" where
  "rtc_encode status_b time =
     (let e = (if status_b AND 0x04 = 0 then bin_to_bcd else (\<lambda>v. v)) in
      [e (rtc_seconds time), e (rtc_minutes time),
       if status_b AND CMOS_STAT_B_24HR \<noteq> 0 then e (rtc_hours time)
       else e (hour12 (rtc_hours time)) OR (if 12 \<le> rtc_hours time then 0x80 else 0),
       e (rtc_day time), e (rtc_month time), e (ucast (rtc_year time mod 100)), e (rtc_weekday time),
       e (ucast (rtc_year time div 100))])"

definition rtc_valid :: "rtc_time \<Rightarrow> bool" where
  "rtc_valid time \<longleftrightarrow> rtc_seconds time < 60 \<and> rtc_minutes time < 60 \<and> rtc_hours time < 24
     \<and> 1 \<le> rtc_day time \<and> rtc_day time \<le> 31 \<and> 1 \<le> rtc_month time \<and> rtc_month time \<le> 12
     \<and> 1900 \<le> rtc_year time \<and> rtc_year time < 2200 \<and> rtc_weekday time < 8"

lemma word_in_upt: "unat v < n \<Longrightarrow> v \<in> set (map of_nat [0..<n])"
  unfolding list.set_map by (rule image_eqI[of _ _ "unat v"]) simp_all

lemma bcd_all: "list_all (\<lambda>v. bcd_to_bin (bin_to_bcd v) = v) (map of_nat [0..<100])"
  by code_simp

lemma hour_all:
  "list_all (\<lambda>h. bin_to_bcd h AND 0x7F = bin_to_bcd h \<and> bin_to_bcd h AND 0x80 = 0 \<and> h AND 0x7F = h \<and> h AND 0x80 = 0
     \<and> hour12 h < 24 \<and> (if 12 \<le> h then hour12 h mod 12 + 12 else if hour12 h = 12 then 0 else hour12 h) = h) (map of_nat [0..<24])"
  by code_simp

lemma bcd_inverse: "v < 100 \<Longrightarrow> bcd_to_bin (bin_to_bcd v) = v"
  by (rule bspec[OF bcd_all[unfolded list_all_iff] word_in_upt]) (simp add: word_less_nat_alt)

lemma hour_encode:
  assumes "h < 24"
  shows "bin_to_bcd h AND 0x7F = bin_to_bcd h" "bin_to_bcd h AND 0x80 = 0" "h AND 0x7F = h" "h AND 0x80 = 0" "hour12 h < 24"
    "(if 12 \<le> h then hour12 h mod 12 + 12 else if hour12 h = 12 then 0 else hour12 h) = h"
proof -
  have "unat h < 24" using assms by (simp add: word_less_nat_alt)
  note a = bspec[OF hour_all[unfolded list_all_iff] word_in_upt[OF this]]
  show "bin_to_bcd h AND 0x7F = bin_to_bcd h" "bin_to_bcd h AND 0x80 = 0" "h AND 0x7F = h" "h AND 0x80 = 0" "hour12 h < 24"
    "(if 12 \<le> h then hour12 h mod 12 + 12 else if hour12 h = 12 then 0 else hour12 h) = h"
    using a by blast+
qed

lemma year_encode:
  fixes y :: u16
  assumes "1900 \<le> y" "y < 2200"
  defines "c \<equiv> ucast (y div 100) :: u8" and "n \<equiv> ucast (y mod 100) :: u8"
  shows "19 \<le> c" "c \<le> 21" "bin_to_bcd c \<noteq> 0" "bin_to_bcd c \<noteq> 0xFF" "n < 100" "ucast c * 100 + ucast n = y"
proof -
  have y: "1900 \<le> unat y" "unat y < 2200" using assms(1,2) by (simp_all add: word_le_nat_alt word_less_nat_alt)
  have c: "unat c = unat y div 100" using y unfolding c_def by (simp add: unsigned_ucast_eq take_bit_nat_eq_self unat_div)
  have n: "unat n = unat y mod 100" using y unfolding n_def by (simp add: unsigned_ucast_eq take_bit_nat_eq_self unat_mod)
  have "unat c = 19 \<or> unat c = 20 \<or> unat c = 21" using y c by auto
  then have c3: "c = 19 \<or> c = 20 \<or> c = 21" by (simp add: word_unat_eq_iff)
  have bcd: "bin_to_bcd 19 = 0x19" "bin_to_bcd 20 = 0x20" "bin_to_bcd 21 = 0x21" by code_simp+
  show "19 \<le> c" "c \<le> 21" "bin_to_bcd c \<noteq> 0" "bin_to_bcd c \<noteq> 0xFF" using c3 bcd by auto
  show "n < 100" using n by (simp add: word_less_nat_alt)
  have "unat (ucast c * 100 + ucast n :: u16) = unat y"
    using c n y by (simp add: unat_word_ariths unat_ucast_up mod_less)
  then show "ucast c * 100 + ucast n = y" by (simp only: word_unat_eq_iff)
qed

lemma pm_bit: "(v OR 0x80) AND 0x7F = v AND 0x7F" "(v OR 0x80) AND 0x80 = (0x80 :: u8)"
  by (simp_all add: bit.conj_disj_distrib2 or.commute)

lemma rtc_convert_encode:
  assumes "rtc_valid time"
  shows "rtc_convert status_b (rtc_encode status_b time) = time"
proof -
  have v: "rtc_seconds time < 60" "rtc_minutes time < 60" "rtc_hours time < 24" "1 \<le> rtc_day time" "rtc_day time \<le> 31"
    "1 \<le> rtc_month time" "rtc_month time \<le> 12" "rtc_weekday time < 8" "1900 \<le> rtc_year time" "rtc_year time < 2200"
    using assms by (simp_all add: rtc_valid_def)
  note h = hour_encode[OF v(3)] hour_encode(1-4)[OF hour_encode(5)[OF v(3)]]
  note y = year_encode[OF v(9,10)]
  have b: "bcd_to_bin (bin_to_bcd x) = x" if "x < 60 \<or> x \<le> 31 \<or> x < 24 \<or> x \<le> 12 \<or> x < 8 \<or> x \<le> 21" for x
    using that by (intro bcd_inverse) (auto simp: word_less_nat_alt word_le_nat_alt)
  let ?t = "rtc_convert status_b (rtc_encode status_b time)"
  have conv: "(if P then (a1, a2, a3, a4, a5, a6, a7, a8) else (b1, b2, b3, b4, b5, b6, b7, b8))
     = (if P then a1 else b1, if P then a2 else b2, if P then a3 else b3, if P then a4 else b4, if P then a5 else b5,
        if P then a6 else b6, if P then a7 else b7, if P then a8 else b8)"
    for P and a1 a2 a3 a4 a5 a6 a7 a8 b1 b2 b3 b4 b5 b6 b7 b8 :: u8 by simp
  note sel = rtc_convert_def rtc_encode_def Let_def conv prod.case rtc_time.select_convs nth_Cons_0 nth_Cons_numeral
  have "rtc_seconds ?t = rtc_seconds time" "rtc_minutes ?t = rtc_minutes time" "rtc_weekday ?t = rtc_weekday time"
    unfolding sel using v b by simp_all
  moreover have "rtc_day ?t = rtc_day time" "rtc_month ?t = rtc_month time"
    unfolding sel using v b by simp_all
  moreover have "rtc_hours ?t = rtc_hours time"
    unfolding sel using v(3) h b by (cases "12 \<le> rtc_hours time"; cases "hour12 (rtc_hours time) = 12") (simp_all add: pm_bit)
  moreover have "rtc_year ?t = rtc_year time"
    unfolding sel using y b bcd_inverse by simp
  ultimately show ?thesis by (intro rtc_time.equality) simp_all
qed

text \<open>C26. The clock is read correctly and never torn: whatever mode status register B selects (BCD or binary, 12 or 24 hours),
  if the registers show a valid date and time (between the years 1900 and 2199) and tick over to the next one at any moment,
  even between two register reads, \<^verbatim>\<open>rtc_read_time\<close> returns one of the two, never a mixture.\<close>

theorem rtc_read_time_not_torn:
  assumes "rtc_valid a" and "rtc_valid b" and "\<forall>t. cm t CMOS_STATUS_B = status_b"
    and "clock_ticks cm (rtc_encode status_b a) (rtc_encode status_b b) T"
  shows "rtc_read_time True cm t = Some a \<or> rtc_read_time True cm t = Some b"
proof -
  have "length (rtc_encode status_b x) = 8" for x by (simp add: rtc_encode_def Let_def)
  moreover have five: "(5 :: nat) = Suc (Suc 3)" by simp
  ultimately have "fst (rtc_read_loop 5 cm t) \<in> {rtc_encode status_b a, rtc_encode status_b b}"
    unfolding five by (intro rtc_read_loop_not_torn[OF assms(4)])
  moreover have "fst (cmos_read cm CMOS_STATUS_B u) = status_b" for u using assms(3) by (simp add: cmos_read_def)
  ultimately show ?thesis using rtc_convert_encode[OF assms(1)] rtc_convert_encode[OF assms(2)]
    by (auto simp: rtc_read_time_def Let_def case_prod_beta)
qed

definition rtc_example :: "cmos" where
  "rtc_example t reg =
     (if reg = CMOS_STATUS_A then 0 else if reg = CMOS_STATUS_B then CMOS_STAT_B_24HR
      else the (map_of (zip rtc_registers
        (if t < 3 then [0x59, 0x59, 0x23, 0x31, 0x12, 0x99, 0x06, 0x19] else [0, 0, 0, 1, 1, 0, 0x07, 0x20])) reg))"

theorem rtc_read_time_not_torn_witness:
  "let a = \<lparr>rtc_seconds = 59, rtc_minutes = 59, rtc_hours = 23, rtc_day = 31, rtc_month = 12, rtc_year = 1999, rtc_weekday = 6\<rparr>;
       b = \<lparr>rtc_seconds = 0, rtc_minutes = 0, rtc_hours = 0, rtc_day = 1, rtc_month = 1, rtc_year = 2000, rtc_weekday = 7\<rparr>
   in rtc_read_time True rtc_example 0 = Some a \<or> rtc_read_time True rtc_example 0 = Some b"
  unfolding Let_def
proof (rule rtc_read_time_not_torn[where T = 3 and status_b = CMOS_STAT_B_24HR])
  show "\<forall>t. rtc_example t CMOS_STATUS_B = CMOS_STAT_B_24HR" by (simp add: rtc_example_def)
  have e: "rtc_encode CMOS_STAT_B_24HR \<lparr>rtc_seconds = 59, rtc_minutes = 59, rtc_hours = 23, rtc_day = 31, rtc_month = 12, rtc_year = 1999, rtc_weekday = 6\<rparr>
      = [0x59, 0x59, 0x23, 0x31, 0x12, 0x99, 0x06, 0x19]"
    "rtc_encode CMOS_STAT_B_24HR \<lparr>rtc_seconds = 0, rtc_minutes = 0, rtc_hours = 0, rtc_day = 1, rtc_month = 1, rtc_year = 2000, rtc_weekday = 7\<rparr>
      = [0, 0, 0, 1, 1, 0, 0x07, 0x20]"
    by code_simp+
  show "clock_ticks rtc_example
     (rtc_encode CMOS_STAT_B_24HR \<lparr>rtc_seconds = 59, rtc_minutes = 59, rtc_hours = 23, rtc_day = 31, rtc_month = 12, rtc_year = 1999, rtc_weekday = 6\<rparr>)
     (rtc_encode CMOS_STAT_B_24HR \<lparr>rtc_seconds = 0, rtc_minutes = 0, rtc_hours = 0, rtc_day = 1, rtc_month = 1, rtc_year = 2000, rtc_weekday = 7\<rparr>) 3"
    unfolding e clock_ticks_def all_less_8 by (simp add: rtc_example_def)
qed (simp_all add: rtc_valid_def)

end
