(* ===== verification/Disk.thy ===== *)
theory Disk
  imports Kernel_Prelude "HOL-Library.State_Monad"
begin

text \<open>
  The disk driver \<^verbatim>\<open>src/kernel/disk.c\<close>: programmed I/O on the ATA channels and the RAM disk that stands in for a missing
  hard disk.  The controller hardware is a parameter: a record of the effects of the four port instructions on a device
  state of any type.  The driver's own code is a program in the state monad over that device, in the order of its port
  accesses; a sector buffer is a list of 512 bytes, and a failed read gives \<^const>\<open>None\<close> (the callers discard the buffer).
\<close>

unbundle bit_operations_syntax

abbreviation return :: "'a \<Rightarrow> ('s, 'a) state" where "return \<equiv> State_Monad.return"

abbreviation ATA_DATA :: u16 where "ATA_DATA \<equiv> 0x1F0"
abbreviation ATA_CTRL :: u16 where "ATA_CTRL \<equiv> 0x3F6"
abbreviation ATA2_DATA :: u16 where "ATA2_DATA \<equiv> 0x170"
abbreviation ATA2_CTRL :: u16 where "ATA2_CTRL \<equiv> 0x376"
abbreviation ATA_CMD_READ_PIO :: u8 where "ATA_CMD_READ_PIO \<equiv> 0x20"
abbreviation ATA_CMD_WRITE_PIO :: u8 where "ATA_CMD_WRITE_PIO \<equiv> 0x30"
abbreviation ATA_CMD_IDENTIFY :: u8 where "ATA_CMD_IDENTIFY \<equiv> 0xEC"
abbreviation ATA_CMD_IDENTIFY_PACKET :: u8 where "ATA_CMD_IDENTIFY_PACKET \<equiv> 0xA1"
abbreviation ATA_CMD_CACHE_FLUSH :: u8 where "ATA_CMD_CACHE_FLUSH \<equiv> 0xE7"
abbreviation ATA_STATUS_BSY :: u8 where "ATA_STATUS_BSY \<equiv> 0x80"
abbreviation ATA_STATUS_DRDY :: u8 where "ATA_STATUS_DRDY \<equiv> 0x40"
abbreviation ATA_STATUS_DF :: u8 where "ATA_STATUS_DF \<equiv> 0x20"
abbreviation ATA_STATUS_DRQ :: u8 where "ATA_STATUS_DRQ \<equiv> 0x08"
abbreviation ATA_STATUS_ERR :: u8 where "ATA_STATUS_ERR \<equiv> 0x01"
abbreviation ATA_DRIVE_MASTER :: u8 where "ATA_DRIVE_MASTER \<equiv> 0xA0"
abbreviation ATA_DRIVE_SLAVE :: u8 where "ATA_DRIVE_SLAVE \<equiv> 0xB0"
abbreviation ATA_DRIVE_LBA :: u8 where "ATA_DRIVE_LBA \<equiv> 0x40"
abbreviation ATA_MAX_RETRIES :: nat where "ATA_MAX_RETRIES \<equiv> 3"
abbreviation ATA_TIMEOUT :: nat where "ATA_TIMEOUT \<equiv> 200000"
abbreviation SECTOR_SIZE :: nat where "SECTOR_SIZE \<equiv> 512"
abbreviation RAMDISK_SECTORS :: u32 where "RAMDISK_SECTORS \<equiv> 1024"

datatype ata_type = ATA_TYPE_NONE | ATA_TYPE_ATA | ATA_TYPE_ATAPI

record ata_drive =
  drive_type :: ata_type
  drv_channel :: u8
  drv_is_master :: bool
  is_lba48 :: bool
  sectors_28 :: u32
  sectors_48 :: u64
  drv_model :: "u8 list"
  drv_serial :: "u8 list"
  drv_firmware :: "u8 list"
  pio_mode :: u16
  dma_mode :: u16
  drv_present :: bool

record 'd port_io =
  io_inb :: "u16 \<Rightarrow> 'd \<Rightarrow> u8 \<times> 'd"
  io_inw :: "u16 \<Rightarrow> 'd \<Rightarrow> u16 \<times> 'd"
  io_outb :: "u16 \<Rightarrow> u8 \<Rightarrow> 'd \<Rightarrow> 'd"
  io_outw :: "u16 \<Rightarrow> u16 \<Rightarrow> 'd \<Rightarrow> 'd"

definition inb :: "'d port_io \<Rightarrow> u16 \<Rightarrow> ('d, u8) state" where
  "inb io port = State (io_inb io port)"

definition inw :: "'d port_io \<Rightarrow> u16 \<Rightarrow> ('d, u16) state" where
  "inw io port = State (io_inw io port)"

definition outb :: "'d port_io \<Rightarrow> u16 \<Rightarrow> u8 \<Rightarrow> ('d, unit) state" where
  "outb io port v = State (\<lambda>d. ((), io_outb io port v d))"

definition outw :: "'d port_io \<Rightarrow> u16 \<Rightarrow> u16 \<Rightarrow> ('d, unit) state" where
  "outw io port v = State (\<lambda>d. ((), io_outw io port v d))"

section \<open>The ATA channels\<close>

definition ata_base_port :: "u8 \<Rightarrow> u16" where
  "ata_base_port channel = (if channel = 0 then ATA_DATA else ATA2_DATA)"

definition ata_ctrl_port :: "u8 \<Rightarrow> u16" where
  "ata_ctrl_port channel = (if channel = 0 then ATA_CTRL else ATA2_CTRL)"

fun inb_times :: "'d port_io \<Rightarrow> nat \<Rightarrow> u16 \<Rightarrow> ('d, unit) state" where
  "inb_times io 0 port = return ()"
| "inb_times io (Suc n) port = do { _ \<leftarrow> inb io port; inb_times io n port }"

definition ata_delay_ch :: "'d port_io \<Rightarrow> u8 \<Rightarrow> ('d, unit) state" where
  "ata_delay_ch io channel = inb_times io 4 (ata_ctrl_port channel)"

text \<open>A polling loop reads the status register until a condition decides, at most the given number of times; \<^verbatim>\<open>--timeout > 0\<close>
  allows one read fewer than the timeout.\<close>

fun ata_poll :: "'d port_io \<Rightarrow> u16 \<Rightarrow> (u8 \<Rightarrow> bool option) \<Rightarrow> nat \<Rightarrow> ('d, bool) state" where
  "ata_poll io base decide 0 = return False"
| "ata_poll io base decide (Suc n) = do {
     status \<leftarrow> inb io (base + 7);
     case decide status of Some r \<Rightarrow> return r | None \<Rightarrow> ata_poll io base decide n }"

definition ata_wait_not_bsy :: "'d port_io \<Rightarrow> u16 \<Rightarrow> ('d, bool) state" where
  "ata_wait_not_bsy io base =
     ata_poll io base (\<lambda>status. if status = 0xFF then Some False
       else if status AND ATA_STATUS_BSY = 0 then Some True else None) (ATA_TIMEOUT - 1)"

definition ata_wait_ready :: "'d port_io \<Rightarrow> u8 \<Rightarrow> ('d, bool) state" where
  "ata_wait_ready io channel =
     ata_poll io (ata_base_port channel) (\<lambda>status. if status = 0xFF then Some False
       else if status AND (ATA_STATUS_ERR OR ATA_STATUS_DF) \<noteq> 0 then Some False
       else if status AND ATA_STATUS_BSY = 0 \<and> status AND ATA_STATUS_DRDY \<noteq> 0 then Some True else None) (ATA_TIMEOUT - 1)"

definition ata_wait_drq_ch :: "'d port_io \<Rightarrow> u16 \<Rightarrow> ('d, bool) state" where
  "ata_wait_drq_ch io base =
     ata_poll io base (\<lambda>status. if status AND (ATA_STATUS_ERR OR ATA_STATUS_DF) \<noteq> 0 then Some False
       else if status AND ATA_STATUS_BSY = 0 \<and> status AND ATA_STATUS_DRQ \<noteq> 0 then Some True else None) (ATA_TIMEOUT - 1)"

definition ata_soft_reset :: "'d port_io \<Rightarrow> u8 \<Rightarrow> ('d, unit) state" where
  "ata_soft_reset io channel = do {
     outb io (ata_ctrl_port channel) 0x04;
     ata_delay_ch io channel;
     outb io (ata_ctrl_port channel) 0x00;
     ata_delay_ch io channel }"

text \<open>The string left in the buffer: up to the first NUL, without the blanks at its end and at its start.\<close>

definition trim_ata_string :: "u8 list \<Rightarrow> u8 list" where
  "trim_ata_string str =
     dropWhile (\<lambda>c. c = 0x20) (rev (dropWhile (\<lambda>c. c = 0x20) (rev (takeWhile (\<lambda>c. c \<noteq> 0) str))))"

fun inw_list :: "'d port_io \<Rightarrow> u16 \<Rightarrow> nat \<Rightarrow> ('d, u16 list) state" where
  "inw_list io port 0 = return []"
| "inw_list io port (Suc n) = do { w \<leftarrow> inw io port; ws \<leftarrow> inw_list io port n; return (w # ws) }"

text \<open>The characters of an identification string, high byte of each word first.\<close>

definition ata_chars :: "u16 list \<Rightarrow> nat \<Rightarrow> nat \<Rightarrow> u8 list" where
  "ata_chars identify start n =
     concat (map (\<lambda>i. [ucast (drop_bit 8 (identify ! (start + i)) AND 0xFF), ucast (identify ! (start + i) AND 0xFF)]) [0..<n])"

definition words_le :: "u16 list \<Rightarrow> nat \<Rightarrow> nat \<Rightarrow> u64" where
  "words_le ws start n = fold (OR) (map (\<lambda>i. push_bit (16 * i) (ucast (ws ! (start + i)))) [0..<n]) 0"

definition ata_drive_of :: "u16 list \<Rightarrow> ata_type \<Rightarrow> u8 \<Rightarrow> bool \<Rightarrow> ata_drive" where
  "ata_drive_of identify ty channel is_master =
     (let lba48 = (identify ! 83 AND push_bit 10 1 \<noteq> 0);
          s28 = ucast (words_le identify 60 2) :: u32;
          s48 = words_le identify 100 4
      in \<lparr>drive_type = ty, drv_channel = channel, drv_is_master = is_master, is_lba48 = lba48, sectors_28 = s28,
          sectors_48 = (if lba48 then (if s48 \<noteq> 0 then s48 else ucast s28) else ucast s28),
          drv_model = trim_ata_string (ata_chars identify 27 20),
          drv_serial = trim_ata_string (ata_chars identify 10 10),
          drv_firmware = trim_ata_string (ata_chars identify 23 4),
          pio_mode = drop_bit 8 (identify ! 64) AND 0xFF, dma_mode = identify ! 63 AND 0xFF, drv_present = True\<rparr>)"

definition ata_identify_packet :: "'d port_io \<Rightarrow> u8 \<Rightarrow> ('d, ata_type option) state" where
  "ata_identify_packet io channel = do {
     let base = ata_base_port channel;
     outb io (base + 7) ATA_CMD_IDENTIFY_PACKET;
     ata_delay_ch io channel;
     ok \<leftarrow> ata_wait_not_bsy io base;
     if \<not> ok then return None
     else do {
       status \<leftarrow> inb io (base + 7);
       return (if status AND ATA_STATUS_ERR \<noteq> 0 then None else Some ATA_TYPE_ATAPI) } }"

definition ata_identify_type :: "'d port_io \<Rightarrow> u8 \<Rightarrow> ('d, ata_type option) state" where
  "ata_identify_type io channel = do {
     let base = ata_base_port channel;
     status \<leftarrow> inb io (base + 7);
     if status = 0 \<or> status = 0xFF then return None
     else do {
       ok \<leftarrow> ata_wait_not_bsy io base;
       if \<not> ok then return None
       else do {
         cl \<leftarrow> inb io (base + 4);
         ch_hi \<leftarrow> inb io (base + 5);
         status \<leftarrow> inb io (base + 7);
         if cl = 0x14 \<and> ch_hi = 0xEB \<or> cl = 0x69 \<and> ch_hi = 0x96 \<or> status AND ATA_STATUS_ERR \<noteq> 0 then
           ata_identify_packet io channel
         else return (if cl = 0 \<and> ch_hi = 0 then Some ATA_TYPE_ATA else None) } } }"

definition ata_identify :: "'d port_io \<Rightarrow> u8 \<Rightarrow> bool \<Rightarrow> ('d, ata_drive option) state" where
  "ata_identify io channel is_master = do {
     let base = ata_base_port channel;
     s0 \<leftarrow> inb io (base + 7);
     if s0 = 0xFF then return None
     else do {
       outb io (base + 6) (if is_master then ATA_DRIVE_MASTER else ATA_DRIVE_SLAVE);
       ata_delay_ch io channel;
       outb io (base + 2) 0;
       outb io (base + 3) 0;
       outb io (base + 4) 0;
       outb io (base + 5) 0;
       outb io (base + 7) ATA_CMD_IDENTIFY;
       ata_delay_ch io channel;
       ty \<leftarrow> ata_identify_type io channel;
       case ty of None \<Rightarrow> return None
       | Some ty \<Rightarrow> do {
           ok \<leftarrow> ata_wait_drq_ch io base;
           if \<not> ok then return None
           else do {
             identify \<leftarrow> inw_list io base 256;
             return (Some (ata_drive_of identify ty channel is_master)) } } } }"

section \<open>The disk\<close>

record 'd disk =
  dev :: 'd
  detected_drives :: "ata_drive list"
  active_hdd :: "nat option"
  ramdisk_buf :: "(nat \<Rightarrow> u8) option"
  ramdisk_active :: bool

text \<open>A program on the device, run on the disk.\<close>

definition on_dev :: "('d, 'a) state \<Rightarrow> ('d disk, 'a) state" where
  "on_dev m = State (\<lambda>d. let (a, v) = run_state m (dev d) in (a, d\<lparr>dev := v\<rparr>))"

definition disk_gets :: "('s \<Rightarrow> 'a) \<Rightarrow> ('s, 'a) state" where
  "disk_gets f = State (\<lambda>s. (f s, s))"

definition disk_update :: "('s \<Rightarrow> 's) \<Rightarrow> ('s, unit) state" where
  "disk_update f = State (\<lambda>s. ((), f s))"

definition disk_probe :: "'d port_io \<Rightarrow> u8 \<times> bool \<Rightarrow> ('d disk, unit) state" where
  "disk_probe io cm = do {
     r \<leftarrow> on_dev (ata_identify io (fst cm) (snd cm));
     case r of None \<Rightarrow> return ()
     | Some tmp \<Rightarrow> disk_update (\<lambda>d.
         if drv_present tmp \<and> length (detected_drives d) < 4 then
           (let n = length (detected_drives d);
                d = d\<lparr>detected_drives := detected_drives d @ [tmp]\<rparr>
            in if active_hdd d = None \<and> drive_type tmp = ATA_TYPE_ATA \<and> (0 < sectors_28 tmp \<or> 0 < sectors_48 tmp)
               then d\<lparr>active_hdd := Some n\<rparr> else d)
         else d) }"

definition disk_init :: "'d port_io \<Rightarrow> ('d disk, unit) state" where
  "disk_init io = do {
     disk_update (\<lambda>d. d\<lparr>detected_drives := [], active_hdd := None, ramdisk_active := False\<rparr>);
     disk_probe io (0, True);
     disk_probe io (0, False);
     disk_probe io (1, True);
     disk_probe io (1, False) }"

definition active_drive :: "'d disk \<Rightarrow> ata_drive option" where
  "active_drive d =
     (case active_hdd d of None \<Rightarrow> None
      | Some i \<Rightarrow> if i < length (detected_drives d) \<and> drv_present (detected_drives d ! i) then Some (detected_drives d ! i) else None)"

definition disk_has_hardware_hdd :: "'d disk \<Rightarrow> bool" where
  "disk_has_hardware_hdd d \<longleftrightarrow> active_drive d \<noteq> None"

text \<open>The argument \<open>mem\<close> says whether the kernel heap has 512 KB left for \<^verbatim>\<open>kzalloc\<close>.\<close>

definition disk_enable_ramdisk :: "bool \<Rightarrow> bool \<Rightarrow> 'd disk \<Rightarrow> bool \<times> 'd disk" where
  "disk_enable_ramdisk mem enable d =
     (if enable then
        (case ramdisk_buf d of
           None \<Rightarrow> if mem then (True, d\<lparr>ramdisk_buf := Some (\<lambda>_. 0), ramdisk_active := True\<rparr>) else (False, d)
         | Some _ \<Rightarrow> (True, d\<lparr>ramdisk_active := True\<rparr>))
      else if \<not> disk_has_hardware_hdd d then (False, d)
      else (True, d\<lparr>ramdisk_active := False\<rparr>))"

definition disk_is_ramdisk :: "'d disk \<Rightarrow> bool" where
  "disk_is_ramdisk d = ramdisk_active d"

definition disk_get_total_sectors :: "'d disk \<Rightarrow> u32" where
  "disk_get_total_sectors d =
     (if ramdisk_active d then RAMDISK_SECTORS
      else case active_drive d of None \<Rightarrow> 0
        | Some drv \<Rightarrow> if 0x0FFFFFFF < sectors_48 drv then 0x0FFFFFFF else ucast (sectors_48 drv))"

definition ata_disk_present :: "'d disk \<Rightarrow> bool" where
  "ata_disk_present d \<longleftrightarrow> disk_has_hardware_hdd d \<or> ramdisk_active d"

definition ata_setup_lba28 :: "'d port_io \<Rightarrow> ata_drive \<Rightarrow> u32 \<Rightarrow> ('d, bool) state" where
  "ata_setup_lba28 io drv lba = do {
     let base = ata_base_port (drv_channel drv);
     ok \<leftarrow> ata_wait_not_bsy io base;
     if \<not> ok then return False
     else do {
       outb io (base + 6) ((if drv_is_master drv then ATA_DRIVE_MASTER else ATA_DRIVE_SLAVE) OR ATA_DRIVE_LBA
         OR ucast (drop_bit 24 lba AND 0x0F));
       ata_delay_ch io (drv_channel drv);
       ok \<leftarrow> ata_wait_ready io (drv_channel drv);
       if \<not> ok then return False
       else do {
         outb io (base + 2) 1;
         outb io (base + 3) (ucast (lba AND 0xFF));
         outb io (base + 4) (ucast (drop_bit 8 lba AND 0xFF));
         outb io (base + 5) (ucast (drop_bit 16 lba AND 0xFF));
         return True } } }"

definition words_to_bytes :: "u16 list \<Rightarrow> u8 list" where
  "words_to_bytes ws = concat (map (\<lambda>w. [ucast (w AND 0xFF), ucast (drop_bit 8 w)]) ws)"

fun bytes_to_words :: "u8 list \<Rightarrow> u16 list" where
  "bytes_to_words (lo # hi # bs) = (ucast lo OR push_bit 8 (ucast hi)) # bytes_to_words bs"
| "bytes_to_words _ = []"

fun ata_read_try :: "'d port_io \<Rightarrow> nat \<Rightarrow> ata_drive \<Rightarrow> u32 \<Rightarrow> ('d, u8 list option) state" where
  "ata_read_try io 0 drv lba = return None"
| "ata_read_try io (Suc retries) drv lba = do {
     let base = ata_base_port (drv_channel drv);
     ok \<leftarrow> ata_setup_lba28 io drv lba;
     if \<not> ok then do { ata_soft_reset io (drv_channel drv); ata_read_try io retries drv lba }
     else do {
       outb io (base + 7) ATA_CMD_READ_PIO;
       ok \<leftarrow> ata_wait_drq_ch io base;
       if \<not> ok then do { ata_soft_reset io (drv_channel drv); ata_read_try io retries drv lba }
       else do { ws \<leftarrow> inw_list io base 256; return (Some (words_to_bytes ws)) } } }"

fun outw_list :: "'d port_io \<Rightarrow> u16 \<Rightarrow> u16 list \<Rightarrow> ('d, unit) state" where
  "outw_list io port [] = return ()"
| "outw_list io port (w # ws) = do { outw io port w; outw_list io port ws }"

fun ata_write_try :: "'d port_io \<Rightarrow> nat \<Rightarrow> ata_drive \<Rightarrow> u32 \<Rightarrow> u8 list \<Rightarrow> ('d, bool) state" where
  "ata_write_try io 0 drv lba buf = return False"
| "ata_write_try io (Suc retries) drv lba buf = do {
     let base = ata_base_port (drv_channel drv);
     ok \<leftarrow> ata_setup_lba28 io drv lba;
     if \<not> ok then do { ata_soft_reset io (drv_channel drv); ata_write_try io retries drv lba buf }
     else do {
       outb io (base + 7) ATA_CMD_WRITE_PIO;
       ok \<leftarrow> ata_wait_drq_ch io base;
       if \<not> ok then do { ata_soft_reset io (drv_channel drv); ata_write_try io retries drv lba buf }
       else do {
         outw_list io base (bytes_to_words (take SECTOR_SIZE buf));
         outb io (base + 7) ATA_CMD_CACHE_FLUSH;
         _ \<leftarrow> ata_wait_not_bsy io base;
         return True } } }"

definition ramdisk_read :: "(nat \<Rightarrow> u8) \<Rightarrow> u32 \<Rightarrow> u8 list" where
  "ramdisk_read rd lba = map (\<lambda>i. rd (unat lba * SECTOR_SIZE + i)) [0..<SECTOR_SIZE]"

definition ramdisk_write :: "(nat \<Rightarrow> u8) \<Rightarrow> u32 \<Rightarrow> u8 list \<Rightarrow> nat \<Rightarrow> u8" where
  "ramdisk_write rd lba buf a =
     (if unat lba * SECTOR_SIZE \<le> a \<and> a < unat lba * SECTOR_SIZE + SECTOR_SIZE then buf ! (a - unat lba * SECTOR_SIZE) else rd a)"

definition ata_read_sector :: "'d port_io \<Rightarrow> u32 \<Rightarrow> ('d disk, u8 list option) state" where
  "ata_read_sector io lba = do {
     d \<leftarrow> State_Monad.get;
     if ramdisk_active d then
       return (case ramdisk_buf d of None \<Rightarrow> None
         | Some rd \<Rightarrow> if RAMDISK_SECTORS \<le> lba then None else Some (ramdisk_read rd lba))
     else case active_drive d of None \<Rightarrow> return None
       | Some drv \<Rightarrow> on_dev (ata_read_try io ATA_MAX_RETRIES drv lba) }"

definition ata_write_sector :: "'d port_io \<Rightarrow> u32 \<Rightarrow> u8 list \<Rightarrow> ('d disk, bool) state" where
  "ata_write_sector io lba buf = do {
     d \<leftarrow> State_Monad.get;
     if ramdisk_active d then
       (case ramdisk_buf d of None \<Rightarrow> return False
        | Some rd \<Rightarrow>
            if RAMDISK_SECTORS \<le> lba then return False
            else do { disk_update (\<lambda>d. d\<lparr>ramdisk_buf := Some (ramdisk_write rd lba buf)\<rparr>); return True })
     else case active_drive d of None \<Rightarrow> return False
       | Some drv \<Rightarrow> on_dev (ata_write_try io ATA_MAX_RETRIES drv lba buf) }"

text \<open>Runs of sectors; the device operation is the argument.\<close>

fun read_run :: "(u32 \<Rightarrow> ('s, u8 list option) state) \<Rightarrow> u32 \<Rightarrow> nat \<Rightarrow> ('s, u8 list option) state" where
  "read_run rd lba 0 = return (Some [])"
| "read_run rd lba (Suc n) = do {
     r \<leftarrow> rd lba;
     case r of None \<Rightarrow> return None
     | Some b \<Rightarrow> do { rest \<leftarrow> read_run rd (lba + 1) n; return (map_option ((@) b) rest) } }"

fun write_run :: "(u32 \<Rightarrow> u8 list \<Rightarrow> ('s, bool) state) \<Rightarrow> u32 \<Rightarrow> nat \<Rightarrow> u8 list \<Rightarrow> ('s, bool) state" where
  "write_run wr lba 0 buf = return True"
| "write_run wr lba (Suc n) buf = do {
     ok \<leftarrow> wr lba (take SECTOR_SIZE buf);
     if ok then write_run wr (lba + 1) n (drop SECTOR_SIZE buf) else return False }"

definition ata_read_sectors :: "'d port_io \<Rightarrow> u32 \<Rightarrow> u32 \<Rightarrow> ('d disk, u8 list option) state" where
  "ata_read_sectors io lba count = read_run (ata_read_sector io) lba (unat count)"

definition ata_write_sectors :: "'d port_io \<Rightarrow> u32 \<Rightarrow> u32 \<Rightarrow> u8 list \<Rightarrow> ('d disk, bool) state" where
  "ata_write_sectors io lba count buf = write_run (ata_write_sector io) lba (unat count) buf"

definition ata_get_drive_info :: "'d disk \<Rightarrow> ata_drive option" where
  "ata_get_drive_info d =
     (case active_hdd d of Some i \<Rightarrow> Some (detected_drives d ! i)
      | None \<Rightarrow> if detected_drives d \<noteq> [] then Some (detected_drives d ! 0) else None)"

definition ata_get_drive_count :: "'d disk \<Rightarrow> nat" where
  "ata_get_drive_count d = length (detected_drives d)"

definition ata_get_drive :: "int \<Rightarrow> 'd disk \<Rightarrow> ata_drive option" where
  "ata_get_drive index d = (if index < 0 \<or> int (length (detected_drives d)) \<le> index then None else Some (detected_drives d ! nat index))"

definition ata_get_capacity :: "'d disk \<Rightarrow> u64" where
  "ata_get_capacity d =
     (case active_drive d of Some drv \<Rightarrow> sectors_48 drv * 512
      | None \<Rightarrow> if ramdisk_active d then ucast RAMDISK_SECTORS * 512 else 0)"

section \<open>Block devices\<close>

text \<open>What the file system relies on: on a well-formed state the sectors below the capacity can be read and written, a read
  changes nothing, and a write changes exactly its sector.\<close>

locale block_device =
  fixes inv :: "'s \<Rightarrow> bool" and cap :: nat and sector :: "'s \<Rightarrow> u32 \<Rightarrow> u8 list"
    and rd :: "u32 \<Rightarrow> ('s, u8 list option) state" and wr :: "u32 \<Rightarrow> u8 list \<Rightarrow> ('s, bool) state"
  assumes read_sector: "inv s \<Longrightarrow> unat lba < cap \<Longrightarrow> run_state (rd lba) s = (Some (sector s lba), s)"
    and write_sector: "inv s \<Longrightarrow> unat lba < cap \<Longrightarrow> length b = SECTOR_SIZE
      \<Longrightarrow> \<exists>s'. run_state (wr lba b) s = (True, s') \<and> inv s' \<and> sector s' = (sector s)(lba := b)"
    and sector_length: "inv s \<Longrightarrow> length (sector s lba) = SECTOR_SIZE"
begin

lemma read_run_sectors:
  "inv s \<Longrightarrow> unat lba + n \<le> cap \<Longrightarrow> cap < 2 ^ 32
   \<Longrightarrow> run_state (read_run rd lba n) s = (Some (concat (map (\<lambda>i. sector s (lba + of_nat i)) [0..<n])), s)"
proof (induction n arbitrary: lba)
  case (Suc n)
  have "unat (lba + 1) = Suc (unat lba)" using Suc.prems(2,3) by (intro unat_add1_less[of lba "of_nat cap"])
      (simp add: word_less_nat_alt unat_of_nat take_bit_nat_eq_self)
  then have "run_state (read_run rd (lba + 1) n) s = (Some (concat (map (\<lambda>i. sector s (lba + 1 + of_nat i)) [0..<n])), s)"
    using Suc.prems by (intro Suc.IH) auto
  then show ?case using Suc.prems by (simp add: read_sector map_upt_Suc add.assoc del: upt_Suc)
qed simp

lemma write_run_sectors:
  "inv s \<Longrightarrow> unat lba + n \<le> cap \<Longrightarrow> cap < 2 ^ 32 \<Longrightarrow> length buf = n * SECTOR_SIZE
   \<Longrightarrow> \<exists>s'. run_state (write_run wr lba n buf) s = (True, s') \<and> inv s'
     \<and> (\<forall>i < n. sector s' (lba + of_nat i) = take SECTOR_SIZE (drop (i * SECTOR_SIZE) buf))
     \<and> (\<forall>l. (\<forall>i < n. l \<noteq> lba + of_nat i) \<longrightarrow> sector s' l = sector s l)"
proof (induction n arbitrary: lba buf s)
  case (Suc n)
  obtain s1 where s1: "run_state (wr lba (take 512 buf)) s = (True, s1)" "inv s1" "sector s1 = (sector s)(lba := take 512 buf)"
    using write_sector[of s lba "take 512 buf"] Suc.prems by auto
  have "unat (lba + 1) = Suc (unat lba)" using Suc.prems(2,3) by (intro unat_add1_less[of lba "of_nat cap"])
      (simp add: word_less_nat_alt unat_of_nat take_bit_nat_eq_self)
  then obtain s' where s': "run_state (write_run wr (lba + 1) n (drop 512 buf)) s1 = (True, s')" "inv s'"
    "\<forall>i < n. sector s' (lba + 1 + of_nat i) = take 512 (drop (i * 512) (drop 512 buf))"
    "\<forall>l. (\<forall>i < n. l \<noteq> lba + 1 + of_nat i) \<longrightarrow> sector s' l = sector s1 l"
    using Suc.IH[of s1 "lba + 1" "drop 512 buf"] s1(2) Suc.prems by auto
  have ne: "lba \<noteq> lba + 1 + of_nat i" if "i < n" for i
    using that Suc.prems(2,3) u32_Suc_neq_0[of i] by (simp add: add.assoc)
  have "sector s' (lba + of_nat i) = take 512 (drop (i * 512) buf)" if "i < Suc n" for i
    using that s'(3,4) s1(3) ne by (cases i) (auto simp: ac_simps)
  moreover have "sector s' l = sector s l" if l: "\<forall>i < Suc n. l \<noteq> lba + of_nat i" for l
  proof -
    have "l \<noteq> lba + 1 + of_nat i" if "i < n" for i using l[rule_format, of "Suc i"] that by (simp add: add.assoc)
    then show ?thesis using s'(4) s1(3) l by auto
  qed
  ultimately show ?case using s1(1) s'(1,2) by auto
qed simp

end

section \<open>The RAM disk is a block device\<close>

definition ramdisk_ready :: "'d disk \<Rightarrow> bool" where
  "ramdisk_ready d \<longleftrightarrow> ramdisk_active d \<and> ramdisk_buf d \<noteq> None"

definition ramdisk_sector :: "'d disk \<Rightarrow> u32 \<Rightarrow> u8 list" where
  "ramdisk_sector d lba = ramdisk_read (the (ramdisk_buf d)) lba"

lemma ramdisk_read_write:
  assumes "length b = SECTOR_SIZE"
  shows "ramdisk_read (ramdisk_write r lba b) l = (if l = lba then b else ramdisk_read r l)"
proof (cases "l = lba")
  case True
  then show ?thesis using assms by (auto simp: ramdisk_read_def ramdisk_write_def intro!: nth_equalityI)
next
  case False
  then have ne: "unat l \<noteq> unat lba" by (simp add: word_unat_eq_iff)
  have "\<not> (unat lba * 512 \<le> unat l * 512 + i \<and> unat l * 512 + i < unat lba * 512 + 512)" if "i < 512" for i
    using that ne by (cases "unat l < unat lba") auto
  then show ?thesis using False by (auto simp: ramdisk_read_def ramdisk_write_def)
qed

interpretation ramdisk: block_device ramdisk_ready 1024 ramdisk_sector "ata_read_sector io" "ata_write_sector io"
proof
  fix s :: "'a disk" and lba b
  assume inv: "ramdisk_ready s"
  show "run_state (ata_read_sector io lba) s = (Some (ramdisk_sector s lba), s)" if "unat lba < 1024"
    using inv that by (auto simp: ata_read_sector_def ramdisk_ready_def ramdisk_sector_def word_le_nat_alt)
  show "\<exists>s'. run_state (ata_write_sector io lba b) s = (True, s') \<and> ramdisk_ready s' \<and> ramdisk_sector s' = (ramdisk_sector s)(lba := b)"
    if "unat lba < 1024" "length b = SECTOR_SIZE"
    using inv that ramdisk_read_write[OF that(2)]
    by (auto simp: ata_write_sector_def ramdisk_ready_def ramdisk_sector_def fun_eq_iff word_le_nat_alt disk_update_def)
  show "length (ramdisk_sector s lba) = SECTOR_SIZE" by (simp add: ramdisk_sector_def ramdisk_read_def)
qed

lemma disk_enable_ramdisk_ready: "disk_enable_ramdisk mem True d = (True, d') \<Longrightarrow> ramdisk_ready d'"
  by (auto simp: disk_enable_ramdisk_def ramdisk_ready_def split: option.splits if_splits)

text \<open>C40. What is written to the live disk is read back: with the RAM disk enabled, writing any run of sectors that fits
  succeeds, reading the run returns the bytes that were written, and no other sector changes.\<close>

theorem ata_write_read_sectors:
  assumes "disk_enable_ramdisk mem True d0 = (True, d)" and "unat lba + unat count \<le> 1024"
    and "length buf = unat count * SECTOR_SIZE"
  shows "\<exists>d'. run_state (ata_write_sectors io lba count buf) d = (True, d')
    \<and> run_state (ata_read_sectors io lba count) d' = (Some buf, d')
    \<and> (\<forall>l. (\<forall>i < unat count. l \<noteq> lba + of_nat i) \<longrightarrow> ramdisk_sector d' l = ramdisk_sector d l)"
proof -
  have inv: "ramdisk_ready d" using assms(1) by (rule disk_enable_ramdisk_ready)
  obtain d' where d': "run_state (write_run (ata_write_sector io) lba (unat count) buf) d = (True, d')" "ramdisk_ready d'"
    "\<forall>i < unat count. ramdisk_sector d' (lba + of_nat i) = take 512 (drop (i * 512) buf)"
    "\<forall>l. (\<forall>i < unat count. l \<noteq> lba + of_nat i) \<longrightarrow> ramdisk_sector d' l = ramdisk_sector d l"
    using ramdisk.write_run_sectors[OF inv assms(2) _ assms(3), of io] by auto
  have "concat (map (\<lambda>i. take 512 (drop (i * 512) buf)) [0..<n]) = take (n * 512) buf" for n
    by (induction n) (simp_all add: add.commute[of 512] take_add del: add.commute)
  moreover have "map (\<lambda>i. ramdisk_sector d' (lba + of_nat i)) [0..<unat count] = map (\<lambda>i. take 512 (drop (i * 512) buf)) [0..<unat count]"
    using d'(3) by simp
  ultimately have "concat (map (\<lambda>i. ramdisk_sector d' (lba + of_nat i)) [0..<unat count]) = buf" using assms(3) by (simp only: take_all order_refl)
  then have "run_state (ata_read_sectors io lba count) d' = (Some buf, d')"
    unfolding ata_read_sectors_def using ramdisk.read_run_sectors[OF d'(2) assms(2), of io] by simp
  then show ?thesis using d'(1,4) by (auto simp: ata_write_sectors_def)
qed

theorem ata_write_read_sectors_witness:
  "let d0 = \<lparr>dev = (), detected_drives = [], active_hdd = None, ramdisk_buf = None, ramdisk_active = False\<rparr>;
       io = \<lparr>io_inb = \<lambda>_ d. (0xFF, d), io_inw = \<lambda>_ d. (0xFFFF, d), io_outb = \<lambda>_ _ d. d, io_outw = \<lambda>_ _ d. d\<rparr>
   in \<exists>d'. run_state (ata_write_sectors io 1022 2 (replicate 1024 0x5A)) (snd (disk_enable_ramdisk True True d0)) = (True, d')
        \<and> run_state (ata_read_sectors io 1022 2) d' = (Some (replicate 1024 0x5A), d')"
proof -
  let ?d0 = "\<lparr>dev = (), detected_drives = [], active_hdd = None, ramdisk_buf = None, ramdisk_active = False\<rparr>"
  have "disk_enable_ramdisk True True ?d0 = (True, snd (disk_enable_ramdisk True True ?d0))"
    by (simp add: disk_enable_ramdisk_def)
  from ata_write_read_sectors[OF this, of 1022 2 "replicate 1024 0x5A"] show ?thesis
    unfolding Let_def by auto
qed

end
