(* ===== verification/Fat.thy ===== *)
theory Fat
  imports Disk Klog
begin

text \<open>
  The FAT12/FAT16 file system \<^verbatim>\<open>src/kernel/fat.c\<close>, on the disk of theory \<open>Disk\<close>.  The file-scope variables are a record that
  contains the disk; every operation is a program in the state monad over it, in the order of the source, with the device
  hardware as its first argument.  Sectors and directory entries are lists of bytes, as the code overlays its packed
  structures on sector buffers.  A \<^verbatim>\<open>for\<close> loop over an unsigned range is a recursion over the list of its values; a chain walk
  carries the guard of the source as a natural number.  File names are strings of bytes without the NUL.
\<close>

unbundle bit_operations_syntax

abbreviation FAT_ATTR_VOLUME_ID :: u8 where "FAT_ATTR_VOLUME_ID \<equiv> 0x08"
abbreviation FAT_ATTR_DIRECTORY :: u8 where "FAT_ATTR_DIRECTORY \<equiv> 0x10"
abbreviation FAT_ATTR_ARCHIVE :: u8 where "FAT_ATTR_ARCHIVE \<equiv> 0x20"
abbreviation FAT_ATTR_LFN :: u8 where "FAT_ATTR_LFN \<equiv> 0x0F"
abbreviation FAT_MAX_FILE_SIZE :: u32 where "FAT_MAX_FILE_SIZE \<equiv> 256 * 1024"

definition rd_le16 :: "u8 list \<Rightarrow> nat \<Rightarrow> u16" where
  "rd_le16 p i = ucast (p ! i) OR push_bit 8 (ucast (p ! (i + 1)))"

definition wr_le16 :: "u8 list \<Rightarrow> nat \<Rightarrow> u16 \<Rightarrow> u8 list" where
  "wr_le16 p i v = (p[i := ucast (v AND 0xFF)])[i + 1 := ucast (drop_bit 8 v AND 0xFF)]"

definition rd_le32 :: "u8 list \<Rightarrow> nat \<Rightarrow> u32" where
  "rd_le32 p i = ucast (rd_le16 p i) OR push_bit 16 (ucast (rd_le16 p (i + 2)))"

definition wr_le32 :: "u8 list \<Rightarrow> nat \<Rightarrow> u32 \<Rightarrow> u8 list" where
  "wr_le32 p i v = wr_le16 (wr_le16 p i (ucast v)) (i + 2) (ucast (drop_bit 16 v))"

definition wr_bytes :: "u8 list \<Rightarrow> nat \<Rightarrow> u8 list \<Rightarrow> u8 list" where
  "wr_bytes p i bs = take i p @ bs @ drop (i + length bs) p"

section \<open>On-disk structures\<close>

text \<open>\<^verbatim>\<open>fat_boot_t\<close>, packed: the fields of the boot sector the driver reads, at their offsets.\<close>

record fat_boot =
  bytes_per_sector :: u16
  sectors_per_cluster :: u8
  reserved_sectors :: u16
  num_fats :: u8
  root_entries :: u16
  total_sectors_16 :: u16
  fat_size_16 :: u16
  total_sectors_32 :: u32
  vol_label :: "u8 list"

definition fat_boot_of :: "u8 list \<Rightarrow> fat_boot" where
  "fat_boot_of sec =
     \<lparr>bytes_per_sector = rd_le16 sec 11, sectors_per_cluster = sec ! 13, reserved_sectors = rd_le16 sec 14,
      num_fats = sec ! 16, root_entries = rd_le16 sec 17, total_sectors_16 = rd_le16 sec 19, fat_size_16 = rd_le16 sec 22,
      total_sectors_32 = rd_le32 sec 32, vol_label = take 11 (drop 43 sec)\<rparr>"

text \<open>\<^verbatim>\<open>fat_dirent_t\<close>, packed: 32 bytes, 16 of them in a sector.\<close>

definition dirent :: "u8 list \<Rightarrow> nat \<Rightarrow> u8 list" where
  "dirent sec i = take 32 (drop (32 * i) sec)"

definition dirent_attr :: "u8 list \<Rightarrow> u8" where
  "dirent_attr ent = ent ! 11"

definition dirent_cluster :: "u8 list \<Rightarrow> u32" where
  "dirent_cluster ent = ucast (rd_le16 ent 26) OR push_bit 16 (ucast (rd_le16 ent 20))"

definition dirent_size :: "u8 list \<Rightarrow> u32" where
  "dirent_size ent = rd_le32 ent 28"

text \<open>\<^verbatim>\<open>mbr_part_t\<close>: the partition type, the first sector and the number of sectors of entry \<open>i\<close>.\<close>

definition mbr_part :: "u8 list \<Rightarrow> nat \<Rightarrow> u8 \<times> u32 \<times> u32" where
  "mbr_part mbr i = (let o' = 0x1BE + 16 * i in (mbr ! (o' + 4), rd_le32 mbr (o' + 8), rd_le32 mbr (o' + 12)))"

record 'd fat =
  fdisk :: "'d disk"
  boot_sector :: fat_boot
  vol_lba_offset :: u32
  fat_start_sector :: u32
  root_start_sector :: u32
  root_sectors :: u32
  data_start_sector :: u32
  total_clusters :: u32
  fat_type :: nat
  fs_mounted :: bool

definition on_disk :: "('d disk, 'a) state \<Rightarrow> ('d fat, 'a) state" where
  "on_disk m = State (\<lambda>s. let (a, d) = run_state m (fdisk s) in (a, s\<lparr>fdisk := d\<rparr>))"

definition rd_sec :: "'d port_io \<Rightarrow> u32 \<Rightarrow> ('d fat, u8 list option) state" where
  "rd_sec io lba = on_disk (ata_read_sector io lba)"

definition wr_sec :: "'d port_io \<Rightarrow> u32 \<Rightarrow> u8 list \<Rightarrow> ('d fat, bool) state" where
  "wr_sec io lba b = on_disk (ata_write_sector io lba b)"

definition u32_range :: "u32 \<Rightarrow> u32 \<Rightarrow> u32 list" where
  "u32_range a b = map of_nat [unat a..<unat b]"

definition eoc_threshold :: "'d fat \<Rightarrow> u32" where
  "eoc_threshold st = (if fat_type st = 12 then 0x0FF8 else 0xFFF8)"

definition eoc_marker :: "'d fat \<Rightarrow> u32" where
  "eoc_marker st = (if fat_type st = 12 then 0x0FFF else 0xFFFF)"

section \<open>Mounting\<close>

definition is_power_of_2 :: "u8 \<Rightarrow> bool" where
  "is_power_of_2 x \<longleftrightarrow> x \<noteq> 0 \<and> x AND (x - 1) = 0"

definition boot_total :: "fat_boot \<Rightarrow> u32" where
  "boot_total b = (if total_sectors_16 b \<noteq> 0 then ucast (total_sectors_16 b) else total_sectors_32 b)"

definition root_secs :: "u16 \<Rightarrow> u32" where
  "root_secs root_ents = (ucast root_ents * 32 + 511) div 512"

definition is_valid_bpb :: "u8 list \<Rightarrow> bool" where
  "is_valid_bpb sec =
     (if sec ! 510 \<noteq> 0x55 \<or> sec ! 511 \<noteq> 0xAA then False
      else
        let b = fat_boot_of sec in
        if bytes_per_sector b \<noteq> 512 then False
        else if sectors_per_cluster b = 0 \<or> \<not> is_power_of_2 (sectors_per_cluster b) then False
        else if reserved_sectors b = 0 then False
        else if num_fats b < 1 \<or> 4 < num_fats b then False
        else if root_entries b = 0 \<or> fat_size_16 b = 0 then False
        else
          let meta = ucast (reserved_sectors b) + ucast (num_fats b) * ucast (fat_size_16 b) + root_secs (root_entries b)
          in \<not> boot_total b \<le> meta)"

definition mount_layout :: "u32 \<Rightarrow> u8 list \<Rightarrow> 'd fat \<Rightarrow> 'd fat" where
  "mount_layout base_lba buf st =
     (let b = fat_boot_of buf;
          fat_start = base_lba + ucast (reserved_sectors b);
          root_start = fat_start + ucast (num_fats b) * ucast (fat_size_16 b);
          rsecs = root_secs (root_entries b);
          data_start = root_start + rsecs;
          data_secs = boot_total b - (data_start - base_lba)
      in st\<lparr>boot_sector := b, vol_lba_offset := base_lba, fat_start_sector := fat_start, root_start_sector := root_start,
            root_sectors := rsecs, data_start_sector := data_start,
            total_clusters := data_secs div ucast (sectors_per_cluster b)\<rparr>)"

definition mount_at_lba :: "'d port_io \<Rightarrow> u32 \<Rightarrow> ('d fat, bool) state" where
  "mount_at_lba io base_lba = do {
     r \<leftarrow> rd_sec io base_lba;
     case r of None \<Rightarrow> return False
     | Some buf \<Rightarrow>
         if \<not> is_valid_bpb buf then return False
         else do {
           disk_update (mount_layout base_lba buf);
           n \<leftarrow> disk_gets total_clusters;
           if n = 0 \<or> 65525 \<le> n then return False
           else do {
             disk_update (\<lambda>st. st\<lparr>fat_type := (if total_clusters st < 4085 then 12 else 16), fs_mounted := True\<rparr>);
             return True } } }"

fun try_partitions :: "'d port_io \<Rightarrow> u8 list \<Rightarrow> nat list \<Rightarrow> ('d fat, bool) state" where
  "try_partitions io mbr [] = return False"
| "try_partitions io mbr (i # is) = do {
     let (pt, lba_start, sector_count) = mbr_part mbr i;
     if 0 < lba_start \<and> 0 < sector_count \<and> (pt = 0x01 \<or> pt = 0x04 \<or> pt = 0x06 \<or> pt = 0x0E) then do {
       ok \<leftarrow> mount_at_lba io lba_start;
       if ok then return True else try_partitions io mbr is }
     else try_partitions io mbr is }"

definition try_mount_disk :: "'d port_io \<Rightarrow> ('d fat, bool) state" where
  "try_mount_disk io = do {
     ok \<leftarrow> mount_at_lba io 0;
     if ok then return True
     else do {
       r \<leftarrow> rd_sec io 0;
       case r of None \<Rightarrow> return False
       | Some mbr \<Rightarrow>
           if mbr ! 510 \<noteq> 0x55 \<or> mbr ! 511 \<noteq> 0xAA then return False else try_partitions io mbr [0, 1, 2, 3] } }"

section \<open>The allocation table\<close>

definition fat_offset :: "'d fat \<Rightarrow> u32 \<Rightarrow> u32" where
  "fat_offset st cluster = (if fat_type st = 12 then cluster + cluster div 2 else cluster * 2)"

text \<open>The sector of an entry, and the next one when the entry straddles the boundary.\<close>

definition rd_fat_secs :: "'d port_io \<Rightarrow> u32 \<Rightarrow> nat \<Rightarrow> ('d fat, u8 list option) state" where
  "rd_fat_secs io sector offset = do {
     r \<leftarrow> rd_sec io sector;
     case r of None \<Rightarrow> return None
     | Some buf \<Rightarrow>
         if offset = 511 then do { r2 \<leftarrow> rd_sec io (sector + 1); return (map_option (\<lambda>b. buf @ b) r2) }
         else return (Some buf) }"

definition get_fat_entry :: "'d port_io \<Rightarrow> u32 \<Rightarrow> ('d fat, u32) state" where
  "get_fat_entry io cluster = do {
     st \<leftarrow> State_Monad.get;
     if \<not> fs_mounted st \<or> cluster < 2 then return (eoc_marker st)
     else do {
       let offset = unat (fat_offset st cluster mod 512);
       r \<leftarrow> rd_fat_secs io (fat_start_sector st + fat_offset st cluster div 512) offset;
       case r of None \<Rightarrow> return (eoc_marker st)
       | Some buf \<Rightarrow>
           let raw = rd_le16 buf offset in
           if fat_type st = 12 then
             return (if cluster AND 1 \<noteq> 0 then ucast (drop_bit 4 raw) else ucast (raw AND 0x0FFF))
           else return (ucast raw) } }"

definition new_entry :: "'d fat \<Rightarrow> u32 \<Rightarrow> u32 \<Rightarrow> u16 \<Rightarrow> u16" where
  "new_entry st cluster value entry =
     (if fat_type st = 12 then
        (if cluster AND 1 \<noteq> 0 then ucast ((ucast entry AND 0x000F) OR push_bit 4 (value AND 0x0FFF))
         else ucast ((ucast entry AND 0xF000) OR (value AND 0x0FFF)))
      else ucast (value AND 0xFFFF))"

fun wr_fat_copies :: "'d port_io \<Rightarrow> u32 \<Rightarrow> nat \<Rightarrow> u8 list \<Rightarrow> nat list \<Rightarrow> ('d fat, unit) state" where
  "wr_fat_copies io sec_off offset buf [] = return ()"
| "wr_fat_copies io sec_off offset buf (f # fs) = do {
     st \<leftarrow> State_Monad.get;
     let f_sec = fat_start_sector st + of_nat f * ucast (fat_size_16 (boot_sector st)) + sec_off;
     _ \<leftarrow> wr_sec io f_sec (take 512 buf);
     if offset = 511 then do { _ \<leftarrow> wr_sec io (f_sec + 1) (drop 512 buf); wr_fat_copies io sec_off offset buf fs }
     else wr_fat_copies io sec_off offset buf fs }"

definition set_fat_entry :: "'d port_io \<Rightarrow> u32 \<Rightarrow> u32 \<Rightarrow> ('d fat, unit) state" where
  "set_fat_entry io cluster value = do {
     st \<leftarrow> State_Monad.get;
     if \<not> fs_mounted st \<or> cluster < 2 then return ()
     else do {
       let sec_off = fat_offset st cluster div 512;
       let offset = unat (fat_offset st cluster mod 512);
       r \<leftarrow> rd_fat_secs io (fat_start_sector st + sec_off) offset;
       case r of None \<Rightarrow> return ()
       | Some buf \<Rightarrow>
           wr_fat_copies io sec_off offset (wr_le16 buf offset (new_entry st cluster value (rd_le16 buf offset)))
             [0..<unat (num_fats (boot_sector st))] } }"

fun free_chain_loop :: "'d port_io \<Rightarrow> u32 \<Rightarrow> nat \<Rightarrow> ('d fat, unit) state" where
  "free_chain_loop io c 0 = return ()"
| "free_chain_loop io c (Suc guard) = do {
     st \<leftarrow> State_Monad.get;
     if 2 \<le> c \<and> c < eoc_threshold st then do {
       next \<leftarrow> get_fat_entry io c;
       set_fat_entry io c 0;
       free_chain_loop io next guard }
     else return () }"

definition free_cluster_chain :: "'d port_io \<Rightarrow> u32 \<Rightarrow> ('d fat, unit) state" where
  "free_cluster_chain io start_cluster = do {
     st \<leftarrow> State_Monad.get;
     free_chain_loop io start_cluster (unat (total_clusters st + 2)) }"

definition cluster_sector :: "'d fat \<Rightarrow> u32 \<Rightarrow> u32" where
  "cluster_sector st c = data_start_sector st + (c - 2) * ucast (sectors_per_cluster (boot_sector st))"

fun zero_sectors :: "'d port_io \<Rightarrow> u32 \<Rightarrow> nat \<Rightarrow> ('d fat, unit) state" where
  "zero_sectors io sec 0 = return ()"
| "zero_sectors io sec (Suc n) = do { _ \<leftarrow> wr_sec io sec (replicate 512 0); zero_sectors io (sec + 1) n }"

fun allocate_scan :: "'d port_io \<Rightarrow> u32 list \<Rightarrow> ('d fat, u32) state" where
  "allocate_scan io [] = return 0"
| "allocate_scan io (c # cs) = do {
     v \<leftarrow> get_fat_entry io c;
     if v = 0 then do {
       st \<leftarrow> State_Monad.get;
       set_fat_entry io c (eoc_marker st);
       zero_sectors io (cluster_sector st c) (unat (sectors_per_cluster (boot_sector st)));
       return c }
     else allocate_scan io cs }"

definition allocate_cluster :: "'d port_io \<Rightarrow> ('d fat, u32) state" where
  "allocate_cluster io = do {
     st \<leftarrow> State_Monad.get;
     allocate_scan io (u32_range 2 (total_clusters st + 2)) }"

section \<open>File names\<close>

definition upcase :: "u8 \<Rightarrow> u8" where
  "upcase c = (if 0x61 \<le> c \<and> c \<le> 0x7A then c - 0x61 + 0x41 else c)"

text \<open>The two copying loops of \<^verbatim>\<open>filename_to_fat\<close>: at most \<open>k\<close> characters, up to the dot in the first; a blank or a slash is an
  error.\<close>

fun fat_chars :: "bool \<Rightarrow> nat \<Rightarrow> u8 list \<Rightarrow> (u8 list \<times> u8 list) option" where
  "fat_chars dot k [] = Some ([], [])"
| "fat_chars dot 0 (c # cs) = Some ([], c # cs)"
| "fat_chars dot (Suc k) (c # cs) =
     (if dot \<and> c = 0x2E then Some ([], c # cs)
      else if c = 0x20 \<or> c = 0x2F then None
      else map_option (\<lambda>(xs, rest). (upcase c # xs, rest)) (fat_chars dot k cs))"

definition pad :: "nat \<Rightarrow> u8 list \<Rightarrow> u8 list" where
  "pad n xs = xs @ replicate (n - length xs) 0x20"

definition filename_to_fat :: "u8 list option \<Rightarrow> u8 list option" where
  "filename_to_fat name =
     (case name of None \<Rightarrow> None
      | Some name \<Rightarrow>
          if name = [] then None
          else
            let name = dropWhile (\<lambda>c. c = 0x2F \<or> c = 0x20) name in
            if name = [] then None
            else case fat_chars True 8 name of None \<Rightarrow> None
              | Some (base, rest) \<Rightarrow>
                  (case dropWhile (\<lambda>c. c \<noteq> 0x2E) rest of
                     [] \<Rightarrow> let fat_name = pad 11 base in if fat_name ! 0 = 0x20 then None else Some fat_name
                   | _ # rest \<Rightarrow>
                       (case fat_chars False 3 rest of None \<Rightarrow> None
                        | Some (ext, _) \<Rightarrow>
                            let fat_name = pad 8 base @ pad 3 ext in if fat_name ! 0 = 0x20 then None else Some fat_name)))"

definition fat_name_to_str :: "u8 list \<Rightarrow> u8 list" where
  "fat_name_to_str ent =
     filter (\<lambda>c. c \<noteq> 0x20) (take 8 ent) @
     (if ent ! 8 \<noteq> 0x20 then 0x2E # filter (\<lambda>c. c \<noteq> 0x20) (take 3 (drop 8 ent)) else [])"

section \<open>The root directory\<close>

datatype dirent_scan = Scan_Next | Scan_End | Scan_Found nat

text \<open>A live entry: not deleted, no part of a long name, no volume label.\<close>

definition dirent_live :: "u8 list \<Rightarrow> bool" where
  "dirent_live ent \<longleftrightarrow> ent ! 0 \<noteq> 0xE5 \<and> dirent_attr ent \<noteq> FAT_ATTR_LFN \<and> dirent_attr ent AND FAT_ATTR_VOLUME_ID = 0"

fun scan_entries :: "u8 list \<Rightarrow> u8 list \<Rightarrow> nat list \<Rightarrow> dirent_scan" where
  "scan_entries fat_name buf [] = Scan_Next"
| "scan_entries fat_name buf (i # is) =
     (let ent = dirent buf i in
      if ent ! 0 = 0x00 then Scan_End
      else if dirent_live ent \<and> take 11 ent = fat_name then Scan_Found i
      else scan_entries fat_name buf is)"

fun find_scan :: "'d port_io \<Rightarrow> u8 list \<Rightarrow> u32 list \<Rightarrow> ('d fat, (u8 list \<times> u32 \<times> nat) option) state" where
  "find_scan io fat_name [] = return None"
| "find_scan io fat_name (sec # secs) = do {
     r \<leftarrow> rd_sec io sec;
     case r of None \<Rightarrow> return None
     | Some buf \<Rightarrow>
         (case scan_entries fat_name buf [0..<16] of
            Scan_End \<Rightarrow> return None
          | Scan_Found i \<Rightarrow> return (Some (dirent buf i, sec, i))
          | Scan_Next \<Rightarrow> find_scan io fat_name secs) }"

definition root_range :: "'d fat \<Rightarrow> u32 list" where
  "root_range st = map (\<lambda>s. root_start_sector st + s) (u32_range 0 (root_sectors st))"

definition find_dirent_val :: "'d port_io \<Rightarrow> u8 list option \<Rightarrow> ('d fat, (u8 list \<times> u32 \<times> nat) option) state" where
  "find_dirent_val io name = do {
     st \<leftarrow> State_Monad.get;
     if \<not> fs_mounted st then return None
     else case filename_to_fat name of None \<Rightarrow> return None
       | Some fat_name \<Rightarrow> find_scan io fat_name (root_range st) }"

definition fat_file_exists :: "'d port_io \<Rightarrow> u8 list option \<Rightarrow> ('d fat, bool) state" where
  "fat_file_exists io name = do { r \<leftarrow> find_dirent_val io name; return (r \<noteq> None) }"

record fat_file =
  file_name :: "u8 list"
  file_attr :: u8
  file_size :: u32
  file_first_cluster :: u32

definition fat_stat_file :: "'d port_io \<Rightarrow> u8 list option \<Rightarrow> ('d fat, fat_file option) state" where
  "fat_stat_file io name = do {
     r \<leftarrow> find_dirent_val io name;
     return (map_option (\<lambda>(ent, _, _). \<lparr>file_name = fat_name_to_str ent, file_attr = dirent_attr ent,
       file_size = dirent_size ent, file_first_cluster = dirent_cluster ent\<rparr>) r) }"

section \<open>Reading and writing files\<close>

text \<open>The sectors of one cluster: at most \<open>n\<close> of them, until \<open>left\<close> bytes are read.  The readers give the bytes they store
  in the buffer and whether they succeed: what was read before an error stays there.\<close>

fun read_cluster :: "'d port_io \<Rightarrow> u32 \<Rightarrow> nat \<Rightarrow> nat \<Rightarrow> ('d fat, u8 list \<times> bool) state" where
  "read_cluster io sec 0 left = return ([], True)"
| "read_cluster io sec (Suc n) left =
     (if left = 0 then return ([], True)
      else do {
        r \<leftarrow> rd_sec io sec;
        case r of None \<Rightarrow> return ([], False)
        | Some sec_buf \<Rightarrow> do {
            let chunk = take (if 512 < left then 512 else left) sec_buf;
            (rest, ok) \<leftarrow> read_cluster io (sec + 1) n (left - length chunk);
            return (chunk @ rest, ok) } })"

fun read_chain :: "'d port_io \<Rightarrow> u32 \<Rightarrow> nat \<Rightarrow> nat \<Rightarrow> ('d fat, u8 list \<times> bool) state" where
  "read_chain io cluster left 0 = return ([], True)"
| "read_chain io cluster left (Suc guard) = do {
     st \<leftarrow> State_Monad.get;
     if 2 \<le> cluster \<and> cluster < eoc_threshold st \<and> 0 < left then do {
       (bs, ok) \<leftarrow> read_cluster io (cluster_sector st cluster) (unat (sectors_per_cluster (boot_sector st))) left;
       if \<not> ok then return (bs, False)
       else do {
         next \<leftarrow> get_fat_entry io cluster;
         (rest, ok) \<leftarrow> read_chain io next (left - length bs) guard;
         return (bs @ rest, ok) } }
     else return ([], True) }"

text \<open>The result: the bytes stored from the start of the buffer, \<^verbatim>\<open>*out_size\<close>, and whether the return value is 0.\<close>

definition fat_read_file :: "'d port_io \<Rightarrow> u8 list option \<Rightarrow> u32 \<Rightarrow> ('d fat, u8 list \<times> u32 \<times> bool) state" where
  "fat_read_file io name max_len = do {
     r \<leftarrow> find_dirent_val io name;
     case r of None \<Rightarrow> return ([], 0, False)
     | Some (ent, _, _) \<Rightarrow>
         if max_len = 0 \<or> dirent_size ent = 0 then return ([], dirent_size ent, True)
         else do {
           st \<leftarrow> State_Monad.get;
           let to_read = (if dirent_size ent < max_len then dirent_size ent else max_len);
           (bs, ok) \<leftarrow> read_chain io (dirent_cluster ent) (unat to_read) (unat (total_clusters st + 2));
           return (bs, dirent_size ent, ok) } }"

text \<open>The result of an operation that may loop: success, the error return, or no return at all.\<close>

datatype fat_rc = RC_OK | RC_ERR | RC_DIVERGES

definition rc_of :: "bool \<Rightarrow> fat_rc" where
  "rc_of ok = (if ok then RC_OK else RC_ERR)"

fun write_cluster :: "'d port_io \<Rightarrow> u32 \<Rightarrow> nat \<Rightarrow> u8 list \<Rightarrow> ('d fat, u8 list option) state" where
  "write_cluster io sec 0 src = return (Some src)"
| "write_cluster io sec (Suc n) src =
     (if src = [] then return (Some [])
      else do {
        let chunk = take 512 src;
        ok \<leftarrow> wr_sec io sec (chunk @ replicate (512 - length chunk) 0);
        if ok then write_cluster io (sec + 1) n (drop 512 src) else return None })"

text \<open>The loop over the clusters of a new file; \<open>src\<close> is what is still to be written.  Every round writes a byte unless a
  cluster has no sectors, so more rounds than bytes never return.\<close>

fun write_chain :: "'d port_io \<Rightarrow> u32 \<Rightarrow> u8 list \<Rightarrow> nat \<Rightarrow> ('d fat, fat_rc) state" where
  "write_chain io cur_c src 0 = return RC_DIVERGES"
| "write_chain io cur_c src (Suc fuel) = do {
     st \<leftarrow> State_Monad.get;
     r \<leftarrow> write_cluster io (cluster_sector st cur_c) (unat (sectors_per_cluster (boot_sector st))) src;
     case r of None \<Rightarrow> return RC_ERR
     | Some rest \<Rightarrow>
         if rest \<noteq> [] then do {
           next_c \<leftarrow> allocate_cluster io;
           if next_c < 2 then return RC_ERR
           else do { set_fat_entry io cur_c next_c; write_chain io next_c rest fuel } }
         else do { set_fat_entry io cur_c (eoc_marker st); return RC_OK } }"

definition dirent_set :: "u8 list \<Rightarrow> nat \<Rightarrow> u32 \<Rightarrow> u32 \<Rightarrow> u8 list" where
  "dirent_set sec i first_cluster len =
     (let o' = 32 * i;
          sec = wr_le16 sec (o' + 26) (ucast (first_cluster AND 0xFFFF));
          sec = wr_le16 sec (o' + 20) (ucast (drop_bit 16 first_cluster AND 0xFFFF));
          sec = wr_le32 sec (o' + 28) len
      in sec[o' + 11 := FAT_ATTR_ARCHIVE])"

definition update_dirent :: "'d port_io \<Rightarrow> u32 \<Rightarrow> nat \<Rightarrow> u32 \<Rightarrow> u32 \<Rightarrow> ('d fat, fat_rc) state" where
  "update_dirent io dir_sec dir_idx first_cluster len = do {
     r \<leftarrow> rd_sec io dir_sec;
     case r of None \<Rightarrow> return RC_ERR
     | Some sec_buf \<Rightarrow> do {
         ok \<leftarrow> wr_sec io dir_sec (dirent_set sec_buf dir_idx first_cluster len);
         return (rc_of ok) } }"

definition free_slot :: "u8 list \<Rightarrow> nat option" where
  "free_slot sec = List.find (\<lambda>i. dirent sec i ! 0 = 0x00 \<or> dirent sec i ! 0 = 0xE5) [0..<16]"

fun create_dirent :: "'d port_io \<Rightarrow> u8 list \<Rightarrow> u32 \<Rightarrow> u32 \<Rightarrow> u32 list \<Rightarrow> ('d fat, fat_rc) state" where
  "create_dirent io fat_name first_cluster len [] = return RC_ERR"
| "create_dirent io fat_name first_cluster len (sec # secs) = do {
     r \<leftarrow> rd_sec io sec;
     case r of None \<Rightarrow> return RC_ERR
     | Some sec_buf \<Rightarrow>
         (case free_slot sec_buf of
            Some i \<Rightarrow> do {
              let ent = wr_bytes (replicate 32 0) 0 fat_name;
              ok \<leftarrow> wr_sec io sec (dirent_set (wr_bytes sec_buf (32 * i) ent) i first_cluster len);
              return (rc_of ok) }
          | None \<Rightarrow> create_dirent io fat_name first_cluster len secs) }"

definition store_dirent :: "'d port_io \<Rightarrow> u8 list \<Rightarrow> (u8 list \<times> u32 \<times> nat) option \<Rightarrow> u32 \<Rightarrow> u32 \<Rightarrow> ('d fat, fat_rc) state" where
  "store_dirent io fat_name found first_cluster len =
     (case found of
        Some (_, dir_sec, dir_idx) \<Rightarrow> update_dirent io dir_sec dir_idx first_cluster len
      | None \<Rightarrow> do { st \<leftarrow> State_Monad.get; create_dirent io fat_name first_cluster len (root_range st) })"

definition fat_write_file :: "'d port_io \<Rightarrow> u8 list option \<Rightarrow> u8 list \<Rightarrow> ('d fat, fat_rc) state" where
  "fat_write_file io name data = do {
     st \<leftarrow> State_Monad.get;
     if \<not> fs_mounted st then return RC_ERR
     else case filename_to_fat name of None \<Rightarrow> return RC_ERR
       | Some fat_name \<Rightarrow> do {
           found \<leftarrow> find_dirent_val io name;
           (case found of
              Some (ent, _, _) \<Rightarrow> if 2 \<le> dirent_cluster ent then free_cluster_chain io (dirent_cluster ent) else return ()
            | None \<Rightarrow> return ());
           if data = [] then store_dirent io fat_name found 0 0
           else do {
             first_cluster \<leftarrow> allocate_cluster io;
             if first_cluster < 2 then return RC_ERR
             else do {
               rc \<leftarrow> write_chain io first_cluster data (Suc (length data));
               if rc = RC_OK then store_dirent io fat_name found first_cluster (of_nat (length data)) else return rc } } } }"

text \<open>\<open>alloc\<close> is \<^verbatim>\<open>kmalloc\<close>: the contents of the block it returns, or \<^const>\<open>None\<close> for NULL.\<close>

definition fat_append_file :: "'d port_io \<Rightarrow> (u32 \<Rightarrow> (nat \<Rightarrow> u8) option) \<Rightarrow> u8 list option \<Rightarrow> u8 list \<Rightarrow> ('d fat, fat_rc) state" where
  "fat_append_file io alloc name data = do {
     st \<leftarrow> State_Monad.get;
     if \<not> fs_mounted st \<or> name = None then return RC_ERR
     else do {
       info \<leftarrow> fat_stat_file io name;
       case info of None \<Rightarrow> fat_write_file io name data
       | Some f \<Rightarrow>
           let len = of_nat (length data); total = file_size f + len in
           if FAT_MAX_FILE_SIZE < total then return RC_ERR
           else case alloc (if total \<noteq> 0 then total else 1) of None \<Rightarrow> return RC_ERR
             | Some combined \<Rightarrow> do {
                 (bs, _, ok) \<leftarrow> (if 0 < file_size f then fat_read_file io name (file_size f) else return ([], 0, True));
                 if \<not> ok then return RC_ERR
                 else fat_write_file io name (map (\<lambda>i.
                       if unat (file_size f) \<le> i \<and> i < unat (file_size f) + length data then data ! (i - unat (file_size f))
                       else if i < length bs then bs ! i else combined i) [0..<unat total]) } } }"

definition fat_delete_file :: "'d port_io \<Rightarrow> u8 list option \<Rightarrow> ('d fat, fat_rc) state" where
  "fat_delete_file io name = do {
     found \<leftarrow> find_dirent_val io name;
     case found of None \<Rightarrow> return RC_ERR
     | Some (ent, dir_sec, dir_idx) \<Rightarrow> do {
         (if 2 \<le> dirent_cluster ent then free_cluster_chain io (dirent_cluster ent) else return ());
         r \<leftarrow> rd_sec io dir_sec;
         case r of None \<Rightarrow> return RC_ERR
         | Some sec_buf \<Rightarrow> do { ok \<leftarrow> wr_sec io dir_sec (sec_buf[32 * dir_idx := 0xE5]); return (rc_of ok) } } }"

text \<open>\<^verbatim>\<open>strcasecmp\<close> gives 0.\<close>

definition same_name :: "u8 list \<Rightarrow> u8 list \<Rightarrow> bool" where
  "same_name a b \<longleftrightarrow> map to_lower_ch a = map to_lower_ch b"

definition fat_copy_file :: "'d port_io \<Rightarrow> (u32 \<Rightarrow> (nat \<Rightarrow> u8) option) \<Rightarrow> u8 list \<Rightarrow> u8 list \<Rightarrow> ('d fat, fat_rc) state" where
  "fat_copy_file io alloc src dst =
     (if same_name src dst then return RC_OK
      else do {
        info \<leftarrow> fat_stat_file io (Some src);
        case info of None \<Rightarrow> return RC_ERR
        | Some f \<Rightarrow>
            if FAT_MAX_FILE_SIZE < file_size f then return RC_ERR
            else if file_size f = 0 then fat_write_file io (Some dst) []
            else case alloc (file_size f) of None \<Rightarrow> return RC_ERR
              | Some buf \<Rightarrow> do {
                  (bs, _, ok) \<leftarrow> fat_read_file io (Some src) (file_size f);
                  if \<not> ok then return RC_ERR
                  else fat_write_file io (Some dst)
                        (map (\<lambda>i. if i < length bs then bs ! i else buf i) [0..<unat (file_size f)]) } })"

definition fat_rename_file :: "'d port_io \<Rightarrow> u8 list \<Rightarrow> u8 list \<Rightarrow> ('d fat, fat_rc) state" where
  "fat_rename_file io old_name new_name =
     (if same_name old_name new_name then return RC_OK
      else do {
        ex \<leftarrow> fat_file_exists io (Some new_name);
        if ex then return RC_ERR
        else case filename_to_fat (Some new_name) of None \<Rightarrow> return RC_ERR
          | Some new_fat \<Rightarrow> do {
              found \<leftarrow> find_dirent_val io (Some old_name);
              case found of None \<Rightarrow> return RC_ERR
              | Some (_, dir_sec, dir_idx) \<Rightarrow> do {
                  r \<leftarrow> rd_sec io dir_sec;
                  case r of None \<Rightarrow> return RC_ERR
                  | Some sec_buf \<Rightarrow> do {
                      ok \<leftarrow> wr_sec io dir_sec (wr_bytes sec_buf (32 * dir_idx) new_fat);
                      return (rc_of ok) } } } })"

section \<open>Formatting and start-up\<close>

definition hello_text :: "u8 list" where
  "hello_text = bytes_of (''Welcome to Bengal Tiger OS v1.0.0 (Royal Bengal)!'' @ [CHR 0x0A] @
     ''A real-world 32-bit x86 operating system built in C & Assembly.'' @ [CHR 0x0A])"

definition readme_text :: "u8 list" where
  "readme_text = bytes_of (concat (map (\<lambda>l. l @ [CHR 0x0A])
     [''=== Bengal Tiger OS v1.0.0 Quick Start ==='',
      ''  help              - Show all available shell commands'',
      ''  edit notes.txt    - Open full-screen text editor (^S Save, ^Q Quit)'',
      ''  sh demo.sh        - Execute a shell script from the filesystem'',
      ''  df / disk / mkfs  - View storage or format an ATA hard disk'',
      ''  ifconfig / dhcp   - Configure Intel E1000 / RTL8139 network'',
      ''  ping 10.0.2.2     - Send real ARP + ICMP Echo Requests'',
      ''  spawn / ps / top  - Test preemptive multitasking & task monitor'',
      ''  gui               - Launch graphical VBE desktop workspace'']))"

definition demo_text :: "u8 list" where
  "demo_text = bytes_of (concat (map (\<lambda>l. l @ [CHR 0x0A])
     [''# Bengal Tiger OS Demo Script'', ''echo Running Bengal Tiger OS automated demo...'', ''info'', ''uptime'',
      ''calc (21 * 2) + 8'', ''df'']))"

definition seed_default_files :: "'d port_io \<Rightarrow> ('d fat, unit) state" where
  "seed_default_files io = do {
     _ \<leftarrow> fat_write_file io (Some (bytes_of ''HELLO.TXT'')) hello_text;
     _ \<leftarrow> fat_write_file io (Some (bytes_of ''README.TXT'')) readme_text;
     _ \<leftarrow> fat_write_file io (Some (bytes_of ''DEMO.SH'')) demo_text;
     _ \<leftarrow> fat_write_file io (Some (bytes_of ''CONFIG.CFG'')) (bytes_of ''tiger'');
     return () }"

text \<open>The geometry \<^verbatim>\<open>fat_format\<close> computes for a disk of so many sectors (at least 64).\<close>

record fat_geometry =
  geo_secs :: u32
  geo_spc :: u8
  geo_root_ents :: u16
  geo_root_secs :: u32
  geo_fat :: nat
  geo_fat_secs :: u16

definition format_geometry :: "u32 \<Rightarrow> fat_geometry" where
  "format_geometry secs =
     (let disk_secs = (if 1048576 < secs then 1048576 else secs);
          spc = (if 524288 \<le> disk_secs then 16 else if 262144 \<le> disk_secs then 8 else if 16384 \<le> disk_secs then 4
                 else if 8192 \<le> disk_secs then 2 else 1) :: u8;
          root_ents = (if disk_secs \<le> 2048 then 112 else 512) :: u16;
          r_secs = root_secs root_ents;
          approx_clusters = (disk_secs - 1 - r_secs) div ucast spc;
          target_fat = (if approx_clusters < 4085 then 12 else 16) :: nat;
          fat_bytes = (if target_fat = 12 then ((approx_clusters + 2) * 3 + 1) div 2 else (approx_clusters + 2) * 2);
          fat_secs = ucast ((fat_bytes + 511) div 512) :: u16;
          fat_secs = (if fat_secs = 0 then 1 else fat_secs);
          data_secs = disk_secs - 1 - 2 * ucast fat_secs - r_secs;
          final_clusters = data_secs div ucast spc;
          target_fat = (if target_fat = 16 \<and> final_clusters < 4085 then 12 else target_fat)
      in \<lparr>geo_secs = disk_secs, geo_spc = spc, geo_root_ents = root_ents, geo_root_secs = r_secs,
          geo_fat = target_fat, geo_fat_secs = fat_secs\<rparr>)"

definition format_label :: "u8 list option \<Rightarrow> u8 list" where
  "format_label label =
     (case label of Some (c # cs) \<Rightarrow> pad 11 (map upcase (take 11 (c # cs))) | _ \<Rightarrow> bytes_of ''BENGAL OS  '')"

definition format_boot :: "fat_geometry \<Rightarrow> u8 list option \<Rightarrow> u8 list" where
  "format_boot g label =
     (let sec = replicate 512 0;
          sec = wr_bytes sec 0 ([0xEB, 0x3C, 0x90] @ bytes_of ''BENGALOS'');
          sec = wr_le16 sec 11 512;
          sec = sec[13 := geo_spc g];
          sec = wr_le16 sec 14 1;
          sec = sec[16 := 2];
          sec = wr_le16 sec 17 (geo_root_ents g);
          sec = (if geo_secs g < 65536 then wr_le32 (wr_le16 sec 19 (ucast (geo_secs g))) 32 0
                 else wr_le32 (wr_le16 sec 19 0) 32 (geo_secs g));
          sec = sec[21 := 0xF8];
          sec = wr_le16 sec 22 (geo_fat_secs g);
          sec = wr_le16 sec 24 32;
          sec = wr_le16 sec 26 64;
          sec = wr_le32 sec 28 0;
          sec = sec[36 := 0x80];
          sec = sec[38 := 0x29];
          sec = wr_le32 sec 39 0x20261031;
          sec = wr_bytes sec 43 (format_label label);
          sec = wr_bytes sec 54 (if geo_fat g = 12 then bytes_of ''FAT12   '' else bytes_of ''FAT16   '')
      in (sec[510 := 0x55])[511 := 0xAA])"

definition fat_first_sector :: "nat \<Rightarrow> u8 list" where
  "fat_first_sector target_fat =
     (if target_fat = 12 then [0xF8, 0xFF, 0xFF] @ replicate 509 0 else [0xF8, 0xFF, 0xFF, 0xFF] @ replicate 508 0)"

text \<open>A sequence of sector writes that stops at the first failure.\<close>

fun wr_secs :: "'d port_io \<Rightarrow> (u32 \<times> u8 list) list \<Rightarrow> ('d fat, bool) state" where
  "wr_secs io [] = return True"
| "wr_secs io ((lba, b) # ws) = do { ok \<leftarrow> wr_sec io lba b; if ok then wr_secs io ws else return False }"

definition format_writes :: "fat_geometry \<Rightarrow> u8 list option \<Rightarrow> (u32 \<times> u8 list) list" where
  "format_writes g label =
     (let zero_sec = replicate 512 0;
          fat_secs = ucast (geo_fat_secs g) :: u32;
          fats = concat (map (\<lambda>f. (1 + f * fat_secs, fat_first_sector (geo_fat g)) #
                   map (\<lambda>s. (1 + f * fat_secs + s, zero_sec)) (u32_range 1 fat_secs)) [0, 1]);
          root_base = 1 + 2 * fat_secs
      in (0, format_boot g label) # fats @ map (\<lambda>s. (root_base + s, zero_sec)) (u32_range 0 (geo_root_secs g)))"

definition fat_format :: "'d port_io \<Rightarrow> bool \<Rightarrow> u8 list option \<Rightarrow> bool \<Rightarrow> ('d fat, bool) state" where
  "fat_format io mem label use_hardware_ata = do {
     disk_update (\<lambda>st. st\<lparr>fs_mounted := False\<rparr>);
     ok \<leftarrow> on_disk (State (disk_enable_ramdisk mem (\<not> use_hardware_ata)));
     if \<not> ok then return False
     else do {
       disk_secs \<leftarrow> disk_gets (\<lambda>st. disk_get_total_sectors (fdisk st));
       if disk_secs < 64 then return False
       else do {
         ok \<leftarrow> wr_secs io (format_writes (format_geometry disk_secs) label);
         if \<not> ok then return False
         else do {
           ok \<leftarrow> mount_at_lba io 0;
           if \<not> ok then return False
           else do { seed_default_files io; return True } } } } }"

definition fat_log :: "string \<Rightarrow> timer_state \<Rightarrow> klog \<times> serial_state \<Rightarrow> klog \<times> serial_state" where
  "fat_log msg t ks = klog_writeln (Some (bytes_of ''fat'')) (Some (bytes_of msg)) t ks"

definition fat_init :: "'d port_io \<Rightarrow> bool \<Rightarrow> timer_state \<Rightarrow> 'd fat \<times> klog \<times> serial_state \<Rightarrow> 'd fat \<times> klog \<times> serial_state" where
  "fat_init io mem t s =
     (let (st, ks) = s;
          st = st\<lparr>fs_mounted := False\<rparr>;
          (mounted, st, ks) =
            (if disk_has_hardware_hdd (fdisk st) then
               (let (_, st) = run_state (on_disk (State (disk_enable_ramdisk mem False))) st;
                    (ok, st) = run_state (try_mount_disk io) st
                in if ok then (True, st, fat_log ''Mounted persistent ATA FAT volume'' t ks)
                   else (False, st,
                     fat_log ''ATA disk unformatted; activating Live RAMDisk (run 'mkfs' to format HDD)'' t ks))
             else (False, st, ks))
      in if mounted then (st, ks)
         else
           let (ok, st) = run_state (fat_format io mem (Some (bytes_of ''BENGALLIVE'')) False) st
           in (st, fat_log (if ok then ''Initialized 512KB Live FAT RAMDisk'' else ''Failed to initialize filesystem'') t ks))"

definition fat_is_mounted :: "'d fat \<Rightarrow> bool" where
  "fat_is_mounted st = fs_mounted st"

section \<open>Reports\<close>

record fat_fs_info =
  info_mounted :: bool
  info_fat_type :: nat
  info_is_ramdisk :: bool
  info_volume_start_lba :: u32
  info_bytes_per_cluster :: u32
  info_total_clusters :: u32
  info_used_clusters :: u32
  info_free_clusters :: u32
  info_total_bytes :: u32
  info_used_bytes :: u32
  info_free_bytes :: u32
  info_file_count :: u32
  info_label :: "u8 list"

fun count_used :: "'d port_io \<Rightarrow> u32 list \<Rightarrow> ('d fat, u32) state" where
  "count_used io [] = return 0"
| "count_used io (c # cs) = do {
     v \<leftarrow> get_fat_entry io c;
     n \<leftarrow> count_used io cs;
     return (if v \<noteq> 0 then n + 1 else n) }"

text \<open>The live entries of a directory sector up to the end mark, and whether the mark is there.\<close>

fun sector_files :: "u8 list \<Rightarrow> nat list \<Rightarrow> u8 list list \<times> bool" where
  "sector_files buf [] = ([], False)"
| "sector_files buf (i # is) =
     (let ent = dirent buf i in
      if ent ! 0 = 0x00 then ([], True)
      else let (es, e) = sector_files buf is in (if dirent_live ent then ent # es else es, e))"

fun root_files :: "'d port_io \<Rightarrow> u32 list \<Rightarrow> ('d fat, u8 list list) state" where
  "root_files io [] = return []"
| "root_files io (sec # secs) = do {
     r \<leftarrow> rd_sec io sec;
     case r of None \<Rightarrow> return []
     | Some buf \<Rightarrow>
         let (es, e) = sector_files buf [0..<16] in
         if e then return es else do { rest \<leftarrow> root_files io secs; return (es @ rest) } }"

definition fat_get_fs_info :: "'d port_io \<Rightarrow> ('d fat, fat_fs_info) state" where
  "fat_get_fs_info io = do {
     st \<leftarrow> State_Monad.get;
     if \<not> fs_mounted st then
       return \<lparr>info_mounted = False, info_fat_type = 0, info_is_ramdisk = False, info_volume_start_lba = 0,
         info_bytes_per_cluster = 0, info_total_clusters = 0, info_used_clusters = 0, info_free_clusters = 0,
         info_total_bytes = 0, info_used_bytes = 0, info_free_bytes = 0, info_file_count = 0, info_label = []\<rparr>
     else do {
       let bpc = ucast (sectors_per_cluster (boot_sector st)) * 512;
       used \<leftarrow> count_used io (u32_range 2 (total_clusters st + 2));
       let free = (if used \<le> total_clusters st then total_clusters st - used else 0);
       files \<leftarrow> root_files io (root_range st);
       return \<lparr>info_mounted = True, info_fat_type = fat_type st, info_is_ramdisk = disk_is_ramdisk (fdisk st),
         info_volume_start_lba = vol_lba_offset st, info_bytes_per_cluster = bpc, info_total_clusters = total_clusters st,
         info_used_clusters = used, info_free_clusters = free, info_total_bytes = total_clusters st * bpc,
         info_used_bytes = used * bpc, info_free_bytes = free * bpc, info_file_count = of_nat (length files),
         info_label = rev (dropWhile (\<lambda>c. c = 0x20) (rev (vol_label (boot_sector st))))\<rparr> } }"

fun enumerate_scan :: "'d port_io \<Rightarrow> nat \<Rightarrow> u32 list \<Rightarrow> ('d fat, u8 list list) state" where
  "enumerate_scan io left [] = return []"
| "enumerate_scan io left (sec # secs) =
     (if left = 0 then return []
      else do {
        r \<leftarrow> rd_sec io sec;
        case r of None \<Rightarrow> return []
        | Some buf \<Rightarrow>
            let (es, e) = sector_files buf [0..<16]; names = map fat_name_to_str (take left es) in
            if e then return names
            else do { rest \<leftarrow> enumerate_scan io (left - length names) secs; return (names @ rest) } })"

definition fat_enumerate_files :: "'d port_io \<Rightarrow> int \<Rightarrow> ('d fat, u8 list list) state" where
  "fat_enumerate_files io max_files = do {
     st \<leftarrow> State_Monad.get;
     if \<not> fs_mounted st \<or> max_files \<le> 0 then return []
     else enumerate_scan io (nat max_files) (root_range st) }"

definition fat_load_file :: "'d port_io \<Rightarrow> u8 list option \<Rightarrow> ('d fat, u8 list) state" where
  "fat_load_file io name = do {
     (bs, _, _) \<leftarrow> fat_read_file io name 511;
     return (wr_bytes (replicate 512 0) 0 bs) }"

definition fat_save_file :: "'d port_io \<Rightarrow> u8 list option \<Rightarrow> u8 list \<Rightarrow> ('d fat, fat_rc) state" where
  "fat_save_file io name text = (if name = None then return RC_ERR else fat_write_file io name text)"

end
