(* ===== verification/Fat_Table.thy ===== *)
theory Fat_Table
  imports Fat
begin

text \<open>
  The allocation table as a function from clusters to entries, for a volume on any block device that meets the contract of
  theory \<open>Disk\<close>.  A layout predicate says where the parts of the volume lie; under it \<^verbatim>\<open>get_fat_entry\<close> reads the function
  and \<^verbatim>\<open>set_fat_entry\<close> updates it at one cluster, for 12-bit and 16-bit entries, also where an entry straddles two sectors.
\<close>

unbundle bit_operations_syntax

abbreviation n_fat :: "'d fat \<Rightarrow> nat" where "n_fat st \<equiv> unat (fat_start_sector st)"
abbreviation n_fats :: "'d fat \<Rightarrow> nat" where "n_fats st \<equiv> unat (num_fats (boot_sector st))"
abbreviation n_size :: "'d fat \<Rightarrow> nat" where "n_size st \<equiv> unat (fat_size_16 (boot_sector st))"
abbreviation n_root :: "'d fat \<Rightarrow> nat" where "n_root st \<equiv> unat (root_start_sector st)"
abbreviation n_data :: "'d fat \<Rightarrow> nat" where "n_data st \<equiv> unat (data_start_sector st)"
abbreviation n_spc :: "'d fat \<Rightarrow> nat" where "n_spc st \<equiv> unat (sectors_per_cluster (boot_sector st))"
abbreviation n_clusters :: "'d fat \<Rightarrow> nat" where "n_clusters st \<equiv> unat (total_clusters st)"

definition entry_offset :: "'d fat \<Rightarrow> nat \<Rightarrow> nat" where
  "entry_offset st c = (if fat_type st = 12 then c + c div 2 else c * 2)"

definition fat_layout :: "nat \<Rightarrow> 'd fat \<Rightarrow> bool" where
  "fat_layout cap st \<longleftrightarrow> fs_mounted st \<and> 1 \<le> n_fats st \<and> 1 \<le> n_spc st
     \<and> n_root st = n_fat st + n_fats st * n_size st \<and> n_data st = n_root st + unat (root_sectors st)
     \<and> n_data st + n_clusters st * n_spc st \<le> cap \<and> cap \<le> 2 ^ 28
     \<and> n_clusters st < 65525 \<and> fat_type st = (if n_clusters st < 4085 then 12 else 16)
     \<and> entry_offset st (n_clusters st + 1) + 1 < n_size st * 512"

definition cluster_ok :: "'d fat \<Rightarrow> u32 \<Rightarrow> bool" where
  "cluster_ok st c \<longleftrightarrow> 2 \<le> unat c \<and> unat c < n_clusters st + 2"

definition fat_byte :: "(u32 \<Rightarrow> u8 list) \<Rightarrow> 'd fat \<Rightarrow> nat \<Rightarrow> u8" where
  "fat_byte S st i = S (fat_start_sector st + of_nat (i div 512)) ! (i mod 512)"

definition entry_value :: "'d fat \<Rightarrow> u32 \<Rightarrow> u16 \<Rightarrow> u32" where
  "entry_value st c raw =
     (if fat_type st = 12 then (if c AND 1 \<noteq> 0 then ucast (drop_bit 4 raw) else ucast (raw AND 0x0FFF)) else ucast raw)"

definition fat_raw :: "(u32 \<Rightarrow> u8 list) \<Rightarrow> 'd fat \<Rightarrow> u32 \<Rightarrow> u16" where
  "fat_raw S st c =
     ucast (fat_byte S st (entry_offset st (unat c))) OR push_bit 8 (ucast (fat_byte S st (entry_offset st (unat c) + 1)))"

definition fat_table :: "(u32 \<Rightarrow> u8 list) \<Rightarrow> 'd fat \<Rightarrow> u32 \<Rightarrow> u32" where
  "fat_table S st c = entry_value st c (fat_raw S st c)"

definition entry_mask :: "'d fat \<Rightarrow> u32" where
  "entry_mask st = (if fat_type st = 12 then 0x0FFF else 0xFFFF)"

lemma fdisk_update_simps [simp]:
  "entry_offset (st\<lparr>fdisk := d\<rparr>) = entry_offset st" "cluster_ok (st\<lparr>fdisk := d\<rparr>) = cluster_ok st"
  "fat_byte S (st\<lparr>fdisk := d\<rparr>) = fat_byte S st" "entry_value (st\<lparr>fdisk := d\<rparr>) = entry_value st"
  "entry_mask (st\<lparr>fdisk := d\<rparr>) = entry_mask st" "eoc_marker (st\<lparr>fdisk := d\<rparr>) = eoc_marker st"
  "eoc_threshold (st\<lparr>fdisk := d\<rparr>) = eoc_threshold st" "cluster_sector (st\<lparr>fdisk := d\<rparr>) = cluster_sector st"
  "root_range (st\<lparr>fdisk := d\<rparr>) = root_range st"
  by (simp_all add: fun_eq_iff entry_offset_def cluster_ok_def fat_byte_def entry_value_def entry_mask_def eoc_marker_def
      eoc_threshold_def cluster_sector_def root_range_def)

lemma fdisk_update_table [simp]:
  "fat_raw S (st\<lparr>fdisk := d\<rparr>) = fat_raw S st" "fat_table S (st\<lparr>fdisk := d\<rparr>) = fat_table S st"
  "fat_layout cap (st\<lparr>fdisk := d\<rparr>) = fat_layout cap st"
  by (simp_all add: fun_eq_iff fat_raw_def fat_table_def fat_layout_def)

section \<open>Layout arithmetic\<close>

lemma entry_offset_mono: "c \<le> c' \<Longrightarrow> entry_offset st c \<le> entry_offset st c'"
  by (auto simp: entry_offset_def intro: add_mono div_le_mono)

lemma entry_offset_bound:
  assumes "fat_layout cap st" "cluster_ok st c"
  shows "unat (fat_offset st c) = entry_offset st (unat c)" "entry_offset st (unat c) + 1 < n_size st * 512"
proof -
  have c: "unat c \<le> n_clusters st + 1" "n_clusters st < 65525" using assms by (auto simp: cluster_ok_def fat_layout_def)
  have "entry_offset st (unat c) \<le> entry_offset st (n_clusters st + 1)" using c(1) by (rule entry_offset_mono)
  then show "entry_offset st (unat c) + 1 < n_size st * 512" using assms(1) by (simp add: fat_layout_def)
  show "unat (fat_offset st c) = entry_offset st (unat c)"
    using c by (simp add: fat_offset_def entry_offset_def unat_word_ariths unat_div mod_less)
qed

lemma straddle_bound:
  fixes k n :: nat
  assumes "k + 1 < n * 512"
  shows "k div 512 + (if k mod 512 = 511 then 1 else 0) < n"
proof (cases "k mod 512 = 511")
  case True
  have "(k div 512 + 1) * 512 = k + 1" using div_mult_mod_eq[of k 512] True by (simp add: algebra_simps)
  then have "(k div 512 + 1) * 512 < n * 512" using assms by simp
  then have "k div 512 + 1 < n" by (simp only: mult_less_cancel2)
  then show ?thesis using True by simp
next
  case False
  then show ?thesis using assms by (simp add: less_mult_imp_div_less)
qed

lemma unat_of_nat_small: "n < 4294967296 \<Longrightarrow> unat (of_nat n :: u32) = n"
  by (rule unat_of_nat_u32)

lemma unat_add_small: "unat (a :: u32) + unat b < 4294967296 \<Longrightarrow> unat (a + b) = unat a + unat b"
  by (simp add: unat_word_ariths)

lemma layout_bounds:
  assumes "fat_layout cap st"
  shows "n_fat st + n_fats st * n_size st \<le> cap" "cap \<le> 268435456" "n_size st \<le> n_fats st * n_size st" "1 \<le> n_fats st"
  using assms by (auto simp: fat_layout_def)

lemma fat_sector_index:
  assumes "fat_layout cap st" "j < n_fats st * n_size st"
  shows "unat (fat_start_sector st + of_nat j) = n_fat st + j" "n_fat st + j < cap"
proof -
  show lt: "n_fat st + j < cap" using layout_bounds(1)[OF assms(1)] assms(2) by linarith
  then have j: "unat (of_nat j :: u32) = j" using layout_bounds(2)[OF assms(1)] by (intro unat_of_nat_small) linarith
  show "unat (fat_start_sector st + of_nat j) = n_fat st + j"
    using lt layout_bounds(2)[OF assms(1)] by (subst unat_add_small) (simp_all add: j)
qed

section \<open>Reading and writing entries on a block device\<close>

definition le_word :: "u8 \<Rightarrow> u8 \<Rightarrow> u16" where
  "le_word lo hi = ucast lo OR push_bit 8 (ucast hi)"

abbreviation lo_byte :: "u16 \<Rightarrow> u8" where "lo_byte e \<equiv> ucast (e AND 0xFF)"
abbreviation hi_byte :: "u16 \<Rightarrow> u8" where "hi_byte e \<equiv> ucast (drop_bit 8 e AND 0xFF)"

lemma le_word_bytes: "le_word (lo_byte e) (hi_byte e) = e"
  by (simp add: word_all_bits le_word_def bit_simps)

lemma entry16: "ucast (ucast (v AND 0xFFFF) :: u16) = (v AND 0xFFFF :: u32)"
  by (simp add: word_all_bits bit_simps)

lemma entry12_even:
  fixes v :: u32 and r :: u16
  defines "e \<equiv> ucast ((ucast r AND 0xF000) OR (v AND 0x0FFF)) :: u16"
  shows "ucast (e AND 0x0FFF) = v AND 0x0FFF" "drop_bit 4 (le_word (hi_byte e) b) = drop_bit 4 (le_word (hi_byte r) b)"
  by (simp_all add: word_all_bits e_def le_word_def bit_simps)

lemma entry12_odd:
  fixes v :: u32 and r :: u16
  defines "e \<equiv> ucast ((ucast r AND 0x000F) OR push_bit 4 (v AND 0x0FFF)) :: u16"
  shows "ucast (drop_bit 4 e) = v AND 0x0FFF" "le_word b (lo_byte e) AND 0x0FFF = le_word b (lo_byte r) AND 0x0FFF"
  by (simp_all add: word_all_bits e_def le_word_def bit_simps)

lemma odd_cluster: "c AND 1 \<noteq> (0 :: u32) \<longleftrightarrow> odd (unat c)"
  using bit_unsigned_iff[where ?'a = nat, of c 0] by (simp add: and_one_eq mod_2_eq_odd bit_0)

lemma entry_offset_cases:
  assumes "c \<noteq> c'" "fat_type st = 12"
  shows "entry_offset st c + 2 \<le> entry_offset st c' \<or> entry_offset st c' + 2 \<le> entry_offset st c
    \<or> even c \<and> c' = c + 1 \<and> entry_offset st c' = entry_offset st c + 1
    \<or> odd c \<and> c = c' + 1 \<and> entry_offset st c = entry_offset st c' + 1"
proof -
  have "c = 2 * (c div 2) + c mod 2" "c' = 2 * (c' div 2) + c' mod 2" by simp_all
  then obtain m a m' a' where c: "c = 2 * m + a" "a < 2" "c' = 2 * m' + a'" "a' < 2" by (metis mod_less_divisor zero_less_numeral)
  then have "entry_offset st c = 3 * m + a" "entry_offset st c' = 3 * m' + a'" using assms(2) by (simp_all add: entry_offset_def)
  moreover have "a = 0 \<or> a = 1" "a' = 0 \<or> a' = 1" using c by auto
  ultimately show ?thesis using c(1,3) assms(1) by auto
qed

lemma fat_raw_le: "fat_raw S st c = le_word (fat_byte S st (entry_offset st (unat c))) (fat_byte S st (entry_offset st (unat c) + 1))"
  by (simp add: fat_raw_def le_word_def)

lemma fat_raw_bytes:
  "lo_byte (fat_raw S st c) = fat_byte S st (entry_offset st (unat c))" "hi_byte (fat_raw S st c) = fat_byte S st (entry_offset st (unat c) + 1)"
  by (simp_all add: word_all_bits fat_raw_def bit_simps bit_u8_high)

lemma fat_table_update:
  fixes S S' :: "u32 \<Rightarrow> u8 list" and v :: u32
  assumes l: "fat_layout cap st" and c: "cluster_ok st c" and c': "cluster_ok st c'"
  defines "k \<equiv> entry_offset st (unat c)" and "e \<equiv> new_entry st c v (fat_raw S st c)"
  assumes B: "\<And>i. i < n_size st * 512 \<Longrightarrow> fat_byte S' st i = (if i = k then lo_byte e else if i = k + 1 then hi_byte e else fat_byte S st i)"
  shows "fat_table S' st c' = (if c' = c then v AND entry_mask st else fat_table S st c')"
proof -
  let ?k' = "entry_offset st (unat c')"
  note kb = entry_offset_bound(2)[OF l c, folded k_def] entry_offset_bound(2)[OF l c']
  have raw': "fat_raw S' st c' = le_word (if ?k' = k then lo_byte e else if ?k' = k + 1 then hi_byte e else fat_byte S st ?k')
      (if ?k' + 1 = k then lo_byte e else if ?k' = k then hi_byte e else fat_byte S st (?k' + 1))"
    using B[of ?k'] B[of "?k' + 1"] kb(2) by (simp add: fat_raw_le)
  show ?thesis
  proof (cases "c' = c")
    case True
    then have "fat_raw S' st c = e" using raw' le_word_bytes by (simp add: k_def)
    then show ?thesis using True entry16 entry12_even(1) entry12_odd(1)
      by (simp add: fat_table_def entry_value_def e_def new_entry_def entry_mask_def)
  next
    case False
    then have ne: "unat c \<noteq> unat c'" by (simp add: word_unat_eq_iff)
    show ?thesis
    proof (cases "fat_type st = 12")
      case True
      from entry_offset_cases[OF ne True] consider "k + 2 \<le> ?k' \<or> ?k' + 2 \<le> k" | "even (unat c)" "unat c' = unat c + 1" "?k' = k + 1"
        | "odd (unat c)" "unat c = unat c' + 1" "k = ?k' + 1" unfolding k_def by blast
      then show ?thesis
      proof cases
        case 1
        then have "fat_raw S' st c' = fat_raw S st c'" using raw' by (auto simp: fat_raw_le)
        then show ?thesis using False by (simp add: fat_table_def)
      next
        case 2
        then have "fat_raw S' st c' = le_word (hi_byte e) (fat_byte S st (?k' + 1))" "c AND 1 = 0" "c' AND 1 \<noteq> 0"
          using raw' odd_cluster[of c] odd_cluster[of c'] by auto
        then show ?thesis using False True 2(3) entry12_even(2)[of "fat_raw S st c" v] fat_raw_bytes(2)[of S st c]
          by (simp add: fat_table_def entry_value_def e_def new_entry_def fat_raw_le[of S st c'] k_def)
      next
        case 3
        then have "fat_raw S' st c' = le_word (fat_byte S st ?k') (lo_byte e)" "c AND 1 \<noteq> 0" "c' AND 1 = 0"
          using raw' odd_cluster[of c] odd_cluster[of c'] by auto
        then show ?thesis using False True 3(3) entry12_odd(2)[of _ "fat_raw S st c" v] fat_raw_bytes(1)[of S st c]
          by (simp add: fat_table_def entry_value_def e_def new_entry_def fat_raw_le[of S st c'] k_def)
      qed
    next
      case no: False
      then have "k = 2 * unat c" "?k' = 2 * unat c'" by (simp_all add: entry_offset_def k_def)
      then have "?k' \<noteq> k" "?k' \<noteq> k + 1" "?k' + 1 \<noteq> k" using ne by presburger+
      then have "fat_raw S' st c' = fat_raw S st c'" using raw' by (simp add: fat_raw_le)
      then show ?thesis using False by (simp add: fat_table_def)
    qed
  qed
qed

text \<open>The sectors after the new contents of FAT sector \<open>so\<close> (and the next one when an entry straddles the boundary) were written to the
  copies \<open>fs\<close> of the table.\<close>

definition copies_written :: "'d fat \<Rightarrow> nat \<Rightarrow> nat \<Rightarrow> u8 list \<Rightarrow> nat list \<Rightarrow> (u32 \<Rightarrow> u8 list) \<Rightarrow> (u32 \<Rightarrow> u8 list) \<Rightarrow> bool" where
  "copies_written st so off buf fs S S' \<longleftrightarrow>
     (\<forall>l. S' l = (if \<exists>f \<in> set fs. l = fat_start_sector st + of_nat (f * n_size st + so) then take 512 buf
         else if off = 511 \<and> (\<exists>f \<in> set fs. l = fat_start_sector st + of_nat (f * n_size st + so + 1)) then drop 512 buf else S l))"

lemma fat_byte_in_buf:
  assumes len: "\<And>l. length (S l) = 512"
    and buf: "buf = (if off = (511 :: nat) then S (fat_start_sector st + of_nat so) @ S (fat_start_sector st + of_nat so + 1)
                 else S (fat_start_sector st + of_nat so))"
    and i: "so * 512 \<le> i" "i < so * 512 + length buf"
  shows "fat_byte S st i = buf ! (i - so * 512)"
proof -
  obtain k where k: "i = so * 512 + k" using i(1) le_Suc_ex by blast
  show ?thesis
  proof (cases "k < 512")
    case True
    then show ?thesis using k buf len by (simp add: fat_byte_def nth_append)
  next
    case False
    then obtain j where j: "k = 512 + j" using le_Suc_ex by (metis not_less)
    then have o: "off = 511" "j < 512" using i(2) k buf len by (auto split: if_splits)
    then have "i div 512 = so + 1" "i mod 512 = j" using k j by auto
    then show ?thesis using o k j buf len by (simp add: fat_byte_def nth_append ac_simps)
  qed
qed

lemma wr_le16_nth_at:
  assumes "off + 1 < length buf" "so * 512 \<le> i" "i < so * 512 + length buf" "k = so * 512 + off"
  shows "wr_le16 buf off e ! (i - so * 512) =
    (if i = k then ucast (e AND 0xFF) else if i = k + 1 then ucast (drop_bit 8 e AND 0xFF) else buf ! (i - so * 512))"
proof -
  obtain j where j: "i = so * 512 + j" using assms(2) le_Suc_ex by blast
  then have "j < length buf" using assms(3) by simp
  then show ?thesis using assms(1,4) j by (simp add: wr_le16_def nth_list_update)
qed

locale fat_volume = block_device inv cap sector "ata_read_sector io" "ata_write_sector io"
  for inv :: "'d disk \<Rightarrow> bool" and cap :: nat and sector :: "'d disk \<Rightarrow> u32 \<Rightarrow> u8 list" and io :: "'d port_io"
begin

lemma rd_sec_run:
  "inv (fdisk st) \<Longrightarrow> unat lba < cap \<Longrightarrow> run_state (rd_sec io lba) st = (Some (sector (fdisk st) lba), st)"
  by (simp add: rd_sec_def on_disk_def read_sector)

lemma wr_sec_run:
  assumes "inv (fdisk st)" "unat lba < cap" "length b = 512"
  obtains d' where "run_state (wr_sec io lba b) st = (True, st\<lparr>fdisk := d'\<rparr>)" "inv d'" "sector d' = (sector (fdisk st))(lba := b)"
  using write_sector[OF assms] by (auto simp: wr_sec_def on_disk_def)

lemma rd_fat_secs_run:
  assumes l: "fat_layout cap st" and inv: "inv (fdisk st)" and o: "o' + 1 < n_size st * 512"
  defines "S \<equiv> sector (fdisk st)"
  obtains buf where "run_state (rd_fat_secs io (fat_start_sector st + of_nat (o' div 512)) (o' mod 512)) st = (Some buf, st)"
    "buf = (if o' mod 512 = 511 then S (fat_start_sector st + of_nat (o' div 512)) @ S (fat_start_sector st + of_nat (o' div 512) + 1)
            else S (fat_start_sector st + of_nat (o' div 512)))"
    "buf ! (o' mod 512) = fat_byte S st o'" "buf ! (o' mod 512 + 1) = fat_byte S st (o' + 1)"
proof -
  let ?l = "fat_start_sector st + of_nat (o' div 512)"
  have len: "length (S l) = 512" for l unfolding S_def using inv by (rule sector_length)
  have "o' div 512 < n_size st" using o by (simp add: less_mult_imp_div_less)
  then have "o' div 512 < n_fats st * n_size st" using layout_bounds(3)[OF l] by (rule less_le_trans)
  then have i: "unat ?l < cap" using fat_sector_index[OF l, of "o' div 512"] by simp
  have eq: "of_nat ((o' + 1) div 512) = (of_nat (o' div 512) + 1 :: u32)" "(o' + 1) mod 512 = 0" if m: "o' mod 512 = 511"
  proof -
    have "(o' + 1) div 512 = o' div 512 + 1" "(o' + 1) mod 512 = 0" using m by (simp_all add: mod_Suc div_Suc)
    then show "of_nat ((o' + 1) div 512) = (of_nat (o' div 512) + 1 :: u32)" "(o' + 1) mod 512 = 0" by simp_all
  qed
  show ?thesis
  proof (cases "o' mod 512 = 511")
    case True
    have "(o' + 1) div 512 < n_size st" using o by (simp add: less_mult_imp_div_less)
    then have "(o' + 1) div 512 < n_fats st * n_size st" using layout_bounds(3)[OF l] by (rule less_le_trans)
    then have "unat (fat_start_sector st + of_nat ((o' + 1) div 512)) < cap"
      using fat_sector_index[OF l, of "(o' + 1) div 512"] by simp
    then have "unat (?l + 1) < cap" unfolding eq(1)[OF True] by (simp add: add.assoc)
    then have "run_state (rd_fat_secs io ?l (o' mod 512)) st = (Some (S ?l @ S (?l + 1)), st)"
      using True i inv by (simp add: rd_fat_secs_def rd_sec_run S_def)
    then show ?thesis using True len eq[OF True]
      by (intro that[of "S ?l @ S (?l + 1)"]) (simp_all add: fat_byte_def nth_append add.assoc)
  next
    case False
    then have "(o' + 1) div 512 = o' div 512" "(o' + 1) mod 512 = o' mod 512 + 1" "o' mod 512 + 1 < 512"
      using mod_less_divisor[of 512 o'] by (auto simp: mod_Suc div_Suc)
    moreover have "run_state (rd_fat_secs io ?l (o' mod 512)) st = (Some (S ?l), st)"
      using False i inv by (simp add: rd_fat_secs_def rd_sec_run S_def)
    ultimately show ?thesis using False by (intro that[of "S ?l"]) (simp_all add: fat_byte_def)
  qed
qed

lemma fat_offset_div:
  assumes "fat_layout cap st" "cluster_ok st c"
  shows "fat_offset st c div 512 = of_nat (entry_offset st (unat c) div 512)"
    "unat (fat_offset st c mod 512) = entry_offset st (unat c) mod 512"
    "\<not> (\<not> fs_mounted st \<or> c < 2)"
proof -
  have "unat (fat_offset st c div 512) = entry_offset st (unat c) div 512"
    using entry_offset_bound(1)[OF assms] by (simp add: unat_div)
  then show "fat_offset st c div 512 = of_nat (entry_offset st (unat c) div 512)" by (metis of_nat_unat ucast_id)
  show "unat (fat_offset st c mod 512) = entry_offset st (unat c) mod 512"
    using entry_offset_bound(1)[OF assms] by (simp add: unat_mod)
  show "\<not> (\<not> fs_mounted st \<or> c < 2)" using assms by (simp add: fat_layout_def cluster_ok_def word_less_nat_alt)
qed

lemma get_fat_entry_run:
  assumes l: "fat_layout cap st" and inv: "inv (fdisk st)" and c: "cluster_ok st c"
  shows "run_state (get_fat_entry io c) st = (fat_table (sector (fdisk st)) st c, st)"
proof -
  let ?o = "entry_offset st (unat c)"
  obtain buf where b: "run_state (rd_fat_secs io (fat_start_sector st + of_nat (?o div 512)) (?o mod 512)) st = (Some buf, st)"
    "buf ! (?o mod 512) = fat_byte (sector (fdisk st)) st ?o" "buf ! (?o mod 512 + 1) = fat_byte (sector (fdisk st)) st (?o + 1)"
    using rd_fat_secs_run[OF l inv entry_offset_bound(2)[OF l c]] by metis
  show ?thesis using fat_offset_div[OF l c] b
    by (simp add: get_fat_entry_def fat_table_def entry_value_def fat_raw_def rd_le16_def Let_def)
qed

lemma wr_fat_copies_run:
  assumes "fat_layout cap st" "inv (fdisk st)" "length buf = (if off = 511 then 1024 else 512)"
    "so + (if off = 511 then 1 else 0) < n_size st" "set fs \<subseteq> {..<n_fats st}"
  shows "\<exists>d'. run_state (wr_fat_copies io (of_nat so) off buf fs) st = ((), st\<lparr>fdisk := d'\<rparr>) \<and> inv d'
    \<and> copies_written st so off buf fs (sector (fdisk st)) (sector d')"
  using assms unfolding copies_written_def
proof (induction fs arbitrary: st)
  case Nil
  then show ?case by (auto intro!: exI[of _ "fdisk st"])
next
  case (Cons f fs)
  define n where "n = n_size st"
  define L where "L = (\<lambda>j. fat_start_sector st + of_nat j)"
  have idx: "f' * n + so + (if off = 511 then 1 else 0) < n_fats st * n" if "f' < n_fats st" for f'
  proof -
    have "f' * n + n \<le> n_fats st * n" using that by (metis Suc_leI add.commute mult_Suc mult_le_mono1)
    then show ?thesis using Cons.prems(4) by (simp add: n_def)
  qed
  note u = fat_sector_index[OF Cons.prems(1)]
  have uL: "unat (L (f' * n + so)) = n_fat st + (f' * n + so)" "unat (L (f' * n + so)) < cap" if "f' < n_fats st" for f'
    using u[of "f' * n + so"] idx[OF that] by (auto simp: L_def n_def)
  have uL1: "unat (L (f' * n + so + 1)) = n_fat st + (f' * n + so + 1)" "unat (L (f' * n + so + 1)) < cap"
    if "f' < n_fats st" "off = 511" for f'
    using u[of "f' * n + so + 1"] idx[OF that(1)] that(2) by (auto simp: L_def n_def)
  have ne: "L (f' * n + so + 1) \<noteq> L (g * n + so)" if "f' < n_fats st" "g < n_fats st" "off = 511" for f' g
  proof
    assume "L (f' * n + so + 1) = L (g * n + so)"
    then have "f' * n + 1 = g * n" using uL(1)[OF that(2)] uL1(1)[OF that(1,3)] by simp
    then have "n = 1" by (metis dvd_add_right_iff dvd_triv_right nat_dvd_1_iff_1)
    then show False using Cons.prems(4) that(3) by (simp add: n_def)
  qed
  have F: "fat_start_sector st + of_nat f * ucast (fat_size_16 (boot_sector st)) + of_nat so = L (f * n + so)"
    by (simp add: L_def n_def unat_ucast_up of_nat_unat)
  have f: "f < n_fats st" "set fs \<subseteq> {..<n_fats st}" using Cons.prems(5) by auto
  obtain d1 where d1: "run_state (wr_sec io (L (f * n + so)) (take 512 buf)) st = (True, st\<lparr>fdisk := d1\<rparr>)" "inv d1"
    "sector d1 = (sector (fdisk st))(L (f * n + so) := take 512 buf)"
    using wr_sec_run[OF Cons.prems(2) uL(2)[OF f(1)], of "take 512 buf"] Cons.prems(3) by (auto split: if_splits)
  show ?case
  proof (cases "off = 511")
    case True
    let ?s1 = "st\<lparr>fdisk := d1\<rparr>"
    obtain d2 where d2: "run_state (wr_sec io (L (f * n + so + 1)) (drop 512 buf)) ?s1 = (True, ?s1\<lparr>fdisk := d2\<rparr>)" "inv d2"
      "sector d2 = (sector d1)(L (f * n + so + 1) := drop 512 buf)"
      using wr_sec_run[of ?s1 "L (f * n + so + 1)" "drop 512 buf"] d1(2) uL1(2)[OF f(1) True] Cons.prems(3) True by auto
    let ?s2 = "st\<lparr>fdisk := d2\<rparr>"
    have "fat_layout cap ?s2" using Cons.prems(1) by simp
    from Cons.IH[OF this] obtain d' where d': "run_state (wr_fat_copies io (of_nat so) off buf fs) ?s2 = ((), ?s2\<lparr>fdisk := d'\<rparr>)" "inv d'"
      "\<forall>l. sector d' l = (if \<exists>f \<in> set fs. l = L (f * n + so) then take 512 buf
         else if \<exists>f \<in> set fs. l = L (f * n + so + 1) then drop 512 buf else sector d2 l)"
      using d2(2) Cons.prems f True by (auto simp: L_def n_def)
    have L1: "L (f * n + so) + 1 = L (f * n + so + 1)" by (simp add: L_def)
    have "run_state (wr_fat_copies io (of_nat so) off buf (f # fs)) st = ((), st\<lparr>fdisk := d'\<rparr>)"
      using d1(1) d2(1) d'(1) True F L1 by (simp add: Let_def)
    moreover have "sector d' l = (if \<exists>f \<in> set (f # fs). l = L (f * n + so) then take 512 buf
         else if off = 511 \<and> (\<exists>f \<in> set (f # fs). l = L (f * n + so + 1)) then drop 512 buf else sector (fdisk st) l)" for l
    proof -
      have ne': "\<forall>a \<in> set (f # fs). \<forall>b \<in> set (f # fs). L (a * n + so + 1) \<noteq> L (b * n + so)"
        using ne[OF _ _ True] f by (metis insert_iff lessThan_iff list.set(2) subsetD)
      have s2: "sector d2 l = (if l = L (f * n + so + 1) then drop 512 buf else if l = L (f * n + so) then take 512 buf else sector (fdisk st) l)"
        using d1(3) d2(3) by simp
      show ?thesis unfolding d'(3)[rule_format] s2 using ne' True
        by (cases "\<exists>g \<in> set fs. l = L (g * n + so)"; cases "l = L (f * n + so)") auto
    qed
    ultimately show ?thesis using d'(2) unfolding L_def n_def by blast
  next
    case False
    let ?s1 = "st\<lparr>fdisk := d1\<rparr>"
    have "fat_layout cap ?s1" using Cons.prems(1) by simp
    from Cons.IH[OF this] obtain d' where d': "run_state (wr_fat_copies io (of_nat so) off buf fs) ?s1 = ((), ?s1\<lparr>fdisk := d'\<rparr>)" "inv d'"
      "\<forall>l. sector d' l = (if \<exists>f \<in> set fs. l = L (f * n + so) then take 512 buf else sector d1 l)"
      using d1(2) Cons.prems f False by (auto simp: L_def n_def)
    have "run_state (wr_fat_copies io (of_nat so) off buf (f # fs)) st = ((), st\<lparr>fdisk := d'\<rparr>)"
      using d1(1) d'(1) False F by (simp add: Let_def)
    moreover have "sector d' l = (if \<exists>f \<in> set (f # fs). l = L (f * n + so) then take 512 buf
         else if off = 511 \<and> (\<exists>f \<in> set (f # fs). l = L (f * n + so + 1)) then drop 512 buf else sector (fdisk st) l)" for l
      unfolding d'(3)[rule_format] d1(3) using False by auto
    ultimately show ?thesis using d'(2) unfolding L_def n_def by blast
  qed
qed

lemma fat_index_copy0:
  assumes "fat_layout cap st" "j < n_size st" "k < n_size st" "f < n_fats st"
  shows "fat_start_sector st + of_nat j = fat_start_sector st + of_nat (f * n_size st + k) \<longleftrightarrow> f = 0 \<and> j = k"
proof -
  have "f * n_size st + n_size st \<le> n_fats st * n_size st"
    using assms(4) by (metis Suc_leI add.commute mult_Suc mult_le_mono1)
  then have "f * n_size st + k < n_fats st * n_size st" using assms(3) by linarith
  moreover have "j < n_fats st * n_size st" using assms(2) layout_bounds(3)[OF assms(1)] by (rule less_le_trans)
  ultimately have "unat (fat_start_sector st + of_nat j) = n_fat st + j"
    "unat (fat_start_sector st + of_nat (f * n_size st + k)) = n_fat st + (f * n_size st + k)"
    using fat_sector_index[OF assms(1)] by blast+
  then have "fat_start_sector st + of_nat j = fat_start_sector st + of_nat (f * n_size st + k) \<longleftrightarrow> j = f * n_size st + k"
    by (metis add_left_cancel word_unat_eq_iff)
  moreover have "j \<noteq> f * n_size st + k" if "f \<noteq> 0"
  proof -
    have "n_size st \<le> f * n_size st" using that by simp
    then show ?thesis using assms(2) by linarith
  qed
  ultimately show ?thesis by (cases "f = 0") simp_all
qed

text \<open>The bytes of the first copy after new sector contents were written at sector \<open>so\<close>.\<close>

lemma fat_byte_written:
  fixes off :: nat
  assumes l: "fat_layout cap st" and so: "so + (if off = 511 then 1 else 0) < n_size st"
    and len: "length buf = (if off = 511 then 1024 else 512)" and i: "i < n_size st * 512"
    and W: "copies_written st so off buf [0..<n_fats st] S S'"
  shows "fat_byte S' st i = (if so * 512 \<le> i \<and> i < so * 512 + length buf then buf ! (i - so * 512) else fat_byte S st i)"
proof -
  let ?j = "i div 512" and ?L = "\<lambda>j. fat_start_sector st + of_nat j"
  note S' = W[unfolded copies_written_def, rule_format]
  have j: "?j < n_size st" using i by (simp add: less_mult_imp_div_less)
  have "1 \<le> n_fats st" by (rule layout_bounds(4)[OF l])
  then have A: "(\<exists>f \<in> set [0..<n_fats st]. ?L ?j = ?L (f * n_size st + so)) \<longleftrightarrow> ?j = so"
    using fat_index_copy0[OF l j, of so] so by (auto simp del: of_nat_add of_nat_mult)
  have B: "(\<exists>f \<in> set [0..<n_fats st]. ?L ?j = ?L (f * n_size st + so + 1)) \<longleftrightarrow> ?j = so + 1" if "off = 511"
    using fat_index_copy0[OF l j, of "so + 1"] so that \<open>1 \<le> n_fats st\<close> by (auto simp del: of_nat_add of_nat_mult simp: add.assoc)
  have v: "S' (?L ?j) = (if ?j = so then take 512 buf else if off = 511 \<and> ?j = so + 1 then drop 512 buf else S (?L ?j))"
    unfolding S'[of "?L ?j"] A using B by auto
  have eq: "i = ?j * 512 + i mod 512" "i mod 512 < 512" by simp_all
  show ?thesis
  proof (cases "?j = so")
    case True
    then have "i - so * 512 = i mod 512" "so * 512 \<le> i" "i < so * 512 + length buf" using eq len by auto
    then show ?thesis using v True eq(2) by (simp add: fat_byte_def)
  next
    case False
    show ?thesis
    proof (cases "off = 511 \<and> ?j = so + 1")
      case True
      then have "i - so * 512 = 512 + i mod 512" "so * 512 \<le> i" "i < so * 512 + length buf" using eq len by auto
      then show ?thesis using v True eq(2) len by (simp add: fat_byte_def)
    next
      case no: False
      have "\<not> (so * 512 \<le> i \<and> i < so * 512 + length buf)"
      proof
        assume a: "so * 512 \<le> i \<and> i < so * 512 + length buf"
        then have "so \<le> ?j" by (metis div_le_mono div_mult_self_is_m zero_less_numeral)
        moreover have "?j < so + (if off = 511 then 2 else 1)" using a len by (intro less_mult_imp_div_less) (auto split: if_splits)
        ultimately show False using False no by (auto split: if_splits)
      qed
      moreover have "S' (?L ?j) = S (?L ?j)" unfolding v using False no by auto
      ultimately show ?thesis by (simp only: fat_byte_def if_False)
    qed
  qed
qed

lemma set_fat_entry_bytes:
  fixes v :: u32
  assumes l: "fat_layout cap st" and inv: "inv (fdisk st)" and c: "cluster_ok st c"
  defines "S \<equiv> sector (fdisk st)" and "k \<equiv> entry_offset st (unat c)"
  defines "e \<equiv> new_entry st c v (fat_raw S st c)"
  obtains d' where "run_state (set_fat_entry io c v) st = ((), st\<lparr>fdisk := d'\<rparr>)" "inv d'"
    "\<And>i. i < n_size st * 512 \<Longrightarrow> fat_byte (sector d') st i
       = (if i = k then ucast (e AND 0xFF) else if i = k + 1 then ucast (drop_bit 8 e AND 0xFF) else fat_byte S st i)"
    "\<And>l. unat l < n_fat st \<or> n_root st \<le> unat l \<Longrightarrow> sector d' l = S l"
proof -
  define so off where "so = k div 512" and "off = k mod 512"
  have k: "k = so * 512 + off" "off < 512" by (simp_all add: so_def off_def)
  have kb: "k + 1 < n_size st * 512" unfolding k_def by (rule entry_offset_bound(2)[OF l c])
  have so: "so + (if off = 511 then 1 else 0) < n_size st" unfolding so_def off_def by (rule straddle_bound[OF kb])
  obtain buf where b: "run_state (rd_fat_secs io (fat_start_sector st + of_nat so) off) st = (Some buf, st)"
    "buf = (if off = 511 then S (fat_start_sector st + of_nat so) @ S (fat_start_sector st + of_nat so + 1)
            else S (fat_start_sector st + of_nat so))"
    "buf ! off = fat_byte S st k" "buf ! (off + 1) = fat_byte S st (k + 1)"
    using rd_fat_secs_run[OF l inv kb] unfolding S_def so_def off_def by blast
  have lS: "length (S l) = 512" for l unfolding S_def by (rule sector_length[OF inv])
  have len: "length buf = (if off = 511 then 1024 else 512)" using b(2) lS by simp
  define nb where "nb = wr_le16 buf off e"
  have lnb: "length nb = length buf" by (simp add: nb_def wr_le16_def)
  have e: "new_entry st c v (rd_le16 buf off) = e" using b(3,4) by (simp add: e_def fat_raw_def rd_le16_def k_def)
  have sub: "set [0..<n_fats st] \<subseteq> {..<n_fats st}" by auto
  obtain d' where d': "run_state (wr_fat_copies io (of_nat so) off nb [0..<n_fats st]) st = ((), st\<lparr>fdisk := d'\<rparr>)" "inv d'"
    "copies_written st so off nb [0..<n_fats st] S (sector d')"
    using wr_fat_copies_run[OF l inv lnb[unfolded len] so sub, folded S_def] by blast
  have off: "off + 1 < length buf" using k(2) len by simp
  have "fat_byte (sector d') st i
       = (if i = k then ucast (e AND 0xFF) else if i = k + 1 then ucast (drop_bit 8 e AND 0xFF) else fat_byte S st i)"
    if i: "i < n_size st * 512" for i
  proof -
    have w: "fat_byte (sector d') st i = (if so * 512 \<le> i \<and> i < so * 512 + length nb then nb ! (i - so * 512) else fat_byte S st i)"
      by (rule fat_byte_written[OF l so lnb[unfolded len] i d'(3)])
    show ?thesis
    proof (cases "so * 512 \<le> i \<and> i < so * 512 + length buf")
      case True
      then show ?thesis unfolding w lnb using wr_le16_nth_at[OF off _ _ k(1), of i e] fat_byte_in_buf[OF lS b(2), of i]
        by (simp add: nb_def)
    next
      case False
      then have "i \<noteq> k" "i \<noteq> k + 1" using k(1) off by auto
      then show ?thesis unfolding w lnb using False by (simp only: if_False)
    qed
  qed
  moreover have "run_state (set_fat_entry io c v) st = ((), st\<lparr>fdisk := d'\<rparr>)"
    using d'(1) b(1) e fat_offset_div[OF l c] by (simp add: set_fat_entry_def Let_def nb_def so_def off_def k_def)
  moreover have "sector d' l' = S l'" if out: "unat l' < n_fat st \<or> n_root st \<le> unat l'" for l'
  proof -
    have root: "n_root st = n_fat st + n_fats st * n_size st" using l by (simp add: fat_layout_def)
    have ne: "l' \<noteq> fat_start_sector st + of_nat (f * n_size st + j)" if "f < n_fats st" "j < n_size st" for f j
    proof -
      have "f * n_size st + n_size st \<le> n_fats st * n_size st"
        using that(1) by (metis Suc_leI add.commute mult_Suc mult_le_mono1)
      then have lt: "f * n_size st + j < n_fats st * n_size st" using that(2) by linarith
      show ?thesis using fat_sector_index(1)[OF l lt] out root lt by auto
    qed
    have "l' \<noteq> fat_start_sector st + of_nat (f * n_size st + so)"
      "off = 511 \<Longrightarrow> l' \<noteq> fat_start_sector st + of_nat (f * n_size st + so + 1)" if "f \<in> set [0..<n_fats st]" for f
      using ne[of f so] ne[of f "so + 1"] so that by (auto simp del: of_nat_add of_nat_mult simp: add.assoc)
    then have "\<not> (\<exists>f \<in> set [0..<n_fats st]. l' = fat_start_sector st + of_nat (f * n_size st + so))"
      "\<not> (off = 511 \<and> (\<exists>f \<in> set [0..<n_fats st]. l' = fat_start_sector st + of_nat (f * n_size st + so + 1)))"
      by blast+
    then show ?thesis using d'(3)[unfolded copies_written_def, rule_format, of l'] by (simp only: if_False)
  qed
  ultimately show ?thesis using d'(2) by (intro that[of d'])
qed

text \<open>The table is updated at one cluster, and no sector outside the copies of the table changes.\<close>

lemma set_fat_entry_run:
  assumes "fat_layout cap st" "inv (fdisk st)" "cluster_ok st c"
  obtains d' where "run_state (set_fat_entry io c v) st = ((), st\<lparr>fdisk := d'\<rparr>)" "inv d'"
    "\<And>c'. cluster_ok st c' \<Longrightarrow> fat_table (sector d') st c' = (if c' = c then v AND entry_mask st else fat_table (sector (fdisk st)) st c')"
    "\<And>l. unat l < n_fat st \<or> n_root st \<le> unat l \<Longrightarrow> sector d' l = sector (fdisk st) l"
proof -
  obtain d' where d': "run_state (set_fat_entry io c v) st = ((), st\<lparr>fdisk := d'\<rparr>)" "inv d'"
    "\<And>i. i < n_size st * 512 \<Longrightarrow> fat_byte (sector d') st i = (if i = entry_offset st (unat c)
       then lo_byte (new_entry st c v (fat_raw (sector (fdisk st)) st c)) else if i = entry_offset st (unat c) + 1
       then hi_byte (new_entry st c v (fat_raw (sector (fdisk st)) st c)) else fat_byte (sector (fdisk st)) st i)"
    "\<And>l. unat l < n_fat st \<or> n_root st \<le> unat l \<Longrightarrow> sector d' l = sector (fdisk st) l"
    using set_fat_entry_bytes[OF assms, of v] by blast
  then show ?thesis using fat_table_update[OF assms(1,3) _ d'(3)] by (intro that[of d'])
qed

end

interpretation ramfat: fat_volume ramdisk_ready 1024 ramdisk_sector io
  by unfold_locales

text \<open>C25. Allocation table entries are independent cells, for 12-bit and 16-bit tables: on a mounted volume on any device that
  keeps its sectors, \<^verbatim>\<open>set_fat_entry(c, v)\<close> makes \<^verbatim>\<open>get_fat_entry(c)\<close> return the low 12 or 16 bits of \<open>v\<close> and leaves every other entry
  as it was, also where two entries share a byte or an entry straddles two sectors.\<close>

theorem set_get_fat_entry:
  assumes "fat_volume ready cap sector io" and "ready (fdisk st)" and "fat_layout cap st"
    and "cluster_ok st c" and "cluster_ok st c'"
  shows "\<exists>st'. run_state (set_fat_entry io c v) st = ((), st')
    \<and> fst (run_state (get_fat_entry io c') st')
        = (if c' = c then v AND entry_mask st else fst (run_state (get_fat_entry io c') st))"
proof -
  note vol = assms(1)
  obtain d' where d': "run_state (set_fat_entry io c v) st = ((), st\<lparr>fdisk := d'\<rparr>)" "ready d'"
    "fat_table (sector d') st c' = (if c' = c then v AND entry_mask st else fat_table (sector (fdisk st)) st c')"
    using fat_volume.set_fat_entry_run[OF vol assms(3,2,4), of v] assms(5) by metis
  have "run_state (get_fat_entry io c') st = (fat_table (sector (fdisk st)) st c', st)"
    by (rule fat_volume.get_fat_entry_run[OF vol assms(3,2,5)])
  moreover have "run_state (get_fat_entry io c') (st\<lparr>fdisk := d'\<rparr>) = (fat_table (sector d') st c', st\<lparr>fdisk := d'\<rparr>)"
    using fat_volume.get_fat_entry_run[OF vol, of "st\<lparr>fdisk := d'\<rparr>" c'] assms(3,5) d'(2) by simp
  ultimately show ?thesis using d'(1,3) by auto
qed

text \<open>The volume that formatting the RAM disk makes: one FAT12 volume of 1010 clusters.\<close>

definition ram_volume :: "unit fat" where
  "ram_volume =
     \<lparr>fdisk = \<lparr>dev = (), detected_drives = [], active_hdd = None, ramdisk_buf = Some (\<lambda>_. 0), ramdisk_active = True\<rparr>,
      boot_sector = \<lparr>bytes_per_sector = 512, sectors_per_cluster = 1, reserved_sectors = 1, num_fats = 2, root_entries = 112,
        total_sectors_16 = 1024, fat_size_16 = 3, total_sectors_32 = 0, vol_label = replicate 11 0x20\<rparr>,
      vol_lba_offset = 0, fat_start_sector = 1, root_start_sector = 7, root_sectors = 7, data_start_sector = 14,
      total_clusters = 1010, fat_type = 12, fs_mounted = True\<rparr>"

lemma ram_volume_layout: "fat_layout 1024 ram_volume" "ramdisk_ready (fdisk ram_volume)"
  by (simp_all add: ram_volume_def fat_layout_def entry_offset_def ramdisk_ready_def)

theorem set_get_fat_entry_witness:
  "let io = \<lparr>io_inb = \<lambda>_ d. (0xFF, d), io_inw = \<lambda>_ d. (0xFFFF, d), io_outb = \<lambda>_ _ d. d, io_outw = \<lambda>_ _ d. d\<rparr>
   in \<exists>st'. run_state (set_fat_entry io 341 0x155) ram_volume = ((), st') \<and> fst (run_state (get_fat_entry io 341) st') = 0x155"
proof -
  let ?io = "\<lparr>io_inb = \<lambda>_ d. (0xFF, d), io_inw = \<lambda>_ d. (0xFFFF, d), io_outb = \<lambda>_ _ d. d, io_outw = \<lambda>_ _ d. d\<rparr> :: unit port_io"
  have "cluster_ok ram_volume 341" by (simp add: cluster_ok_def ram_volume_def)
  from set_get_fat_entry[where io = ?io and v = "0x155", OF ramfat.fat_volume_axioms ram_volume_layout(2,1) this this] show ?thesis
    by (simp add: Let_def entry_mask_def ram_volume_def)
qed

end
