(* ===== verification/Fat_Files.thy ===== *)
theory Fat_Files
  imports Fat_Table
begin

text \<open>
  Files on a volume: the clusters of a chain and the bytes they hold.  On a block device that meets the contract of theory
  \<open>Disk\<close>, allocation takes a free cluster, a written chain holds the bytes of the file, and every other cluster keeps its
  table entry and its contents.
\<close>

unbundle bit_operations_syntax

section \<open>Clusters\<close>

abbreviation bpc :: "'d fat \<Rightarrow> nat" where "bpc st \<equiv> n_spc st * 512"

definition run_bytes :: "(u32 \<Rightarrow> u8 list) \<Rightarrow> u32 \<Rightarrow> nat \<Rightarrow> u8 list" where
  "run_bytes S sec n = concat (map (\<lambda>i. S (sec + of_nat i)) [0..<n])"

definition cluster_bytes :: "(u32 \<Rightarrow> u8 list) \<Rightarrow> 'd fat \<Rightarrow> u32 \<Rightarrow> u8 list" where
  "cluster_bytes S st c = run_bytes S (cluster_sector st c) (n_spc st)"

text \<open>From \<open>S\<close> to \<open>S'\<close> only the clusters in \<open>C\<close> may change, in their entries or their contents; the boot area and the root
  directory stay as they are.\<close>

definition vol_keeps :: "'d fat \<Rightarrow> u32 set \<Rightarrow> (u32 \<Rightarrow> u8 list) \<Rightarrow> (u32 \<Rightarrow> u8 list) \<Rightarrow> bool" where
  "vol_keeps st C S S' \<longleftrightarrow>
     (\<forall>c. cluster_ok st c \<and> c \<notin> C \<longrightarrow> fat_table S' st c = fat_table S st c \<and> cluster_bytes S' st c = cluster_bytes S st c)
     \<and> (\<forall>l. unat l < n_fat st \<or> n_root st \<le> unat l \<and> unat l < n_data st \<longrightarrow> S' l = S l)"

lemma fdisk_update_bytes [simp]: "cluster_bytes S (st\<lparr>fdisk := d\<rparr>) = cluster_bytes S st" "vol_keeps (st\<lparr>fdisk := d\<rparr>) = vol_keeps st"
  by (simp_all add: fun_eq_iff cluster_bytes_def vol_keeps_def)

lemma vol_keeps_refl [simp]: "vol_keeps st C S S"
  by (simp add: vol_keeps_def)

lemma vol_keeps_mono: "vol_keeps st C S S' \<Longrightarrow> C \<subseteq> D \<Longrightarrow> vol_keeps st D S S'"
  by (auto simp: vol_keeps_def)

lemma vol_keeps_trans: "vol_keeps st C S S' \<Longrightarrow> vol_keeps st C S' S'' \<Longrightarrow> vol_keeps st C S S''"
  by (simp add: vol_keeps_def)

lemma vol_keepsD:
  assumes "vol_keeps st C S S'" "cluster_ok st c" "c \<notin> C"
  shows "fat_table S' st c = fat_table S st c" "cluster_bytes S' st c = cluster_bytes S st c"
  using assms by (auto simp: vol_keeps_def)

lemma run_bytes_Suc: "run_bytes S sec (Suc n) = S sec @ run_bytes S (sec + 1) n"
  by (simp add: run_bytes_def map_upt_Suc ac_simps del: upt_Suc)

lemma run_bytes_0 [simp]: "run_bytes S sec 0 = []"
  by (simp add: run_bytes_def)

lemma run_bytes_length: "(\<And>l. length (S l) = 512) \<Longrightarrow> length (run_bytes S sec n) = n * 512"
  by (induction n arbitrary: sec) (simp_all add: run_bytes_Suc)

lemma run_bytes_cong: "(\<And>i. i < n \<Longrightarrow> S' (sec + of_nat i) = S (sec + of_nat i)) \<Longrightarrow> run_bytes S' sec n = run_bytes S sec n"
  unfolding run_bytes_def by (rule arg_cong[of _ _ concat]) simp

lemma cluster_sector_index:
  assumes l: "fat_layout cap st" and c: "cluster_ok st c" and i: "i \<le> n_spc st"
  shows "unat (cluster_sector st c + of_nat i) = n_data st + (unat c - 2) * n_spc st + i"
    and "n_data st + (unat c - 2) * n_spc st + n_spc st \<le> cap"
proof -
  have "unat c - 2 + 1 \<le> n_clusters st" using c by (auto simp: cluster_ok_def)
  then have "(unat c - 2 + 1) * n_spc st \<le> n_clusters st * n_spc st" by (rule mult_le_mono1)
  then show cap: "n_data st + (unat c - 2) * n_spc st + n_spc st \<le> cap" using l by (simp add: fat_layout_def)
  have b: "cap \<le> 268435456" using layout_bounds(2)[OF l] .
  have "unat (c - 2) = unat c - 2" using c by (simp add: cluster_ok_def unat_sub word_le_nat_alt)
  then have m: "unat ((c - 2) * ucast (sectors_per_cluster (boot_sector st))) = (unat c - 2) * n_spc st"
    using cap b by (simp add: unat_word_ariths unat_ucast_up)
  have s: "unat (cluster_sector st c) = n_data st + (unat c - 2) * n_spc st"
    unfolding cluster_sector_def using cap b by (subst unat_add_small) (simp_all add: m)
  have "unat (of_nat i :: u32) = i" using i cap b by (intro unat_of_nat_small) linarith
  then show "unat (cluster_sector st c + of_nat i) = n_data st + (unat c - 2) * n_spc st + i"
    using cap b i by (subst unat_add_small) (simp_all add: s)
qed

lemma cluster_disjoint:
  assumes l: "fat_layout cap st" and c: "cluster_ok st c" "cluster_ok st c'" "c \<noteq> c'" and i: "i < n_spc st" "j < n_spc st"
  shows "cluster_sector st c + of_nat i \<noteq> cluster_sector st c' + of_nat j"
proof
  assume "cluster_sector st c + of_nat i = cluster_sector st c' + of_nat j"
  then have "(unat c - 2) * n_spc st + i = (unat c' - 2) * n_spc st + j"
    using cluster_sector_index(1)[OF l c(1), of i] cluster_sector_index(1)[OF l c(2), of j] i by simp
  then have "((unat c - 2) * n_spc st + i) div n_spc st = ((unat c' - 2) * n_spc st + j) div n_spc st" by simp
  then have "unat c - 2 = unat c' - 2" using i by simp
  then show False using c by (auto simp: cluster_ok_def word_unat_eq_iff)
qed

lemma fat_table_cong:
  assumes l: "fat_layout cap st" and c: "cluster_ok st c" and S: "\<And>l. n_fat st \<le> unat l \<Longrightarrow> unat l < n_root st \<Longrightarrow> S' l = S l"
  shows "fat_table S' st c = fat_table S st c"
proof -
  have "fat_byte S' st i = fat_byte S st i" if "i < n_size st * 512" for i
  proof -
    have j: "i div 512 < n_fats st * n_size st" using that layout_bounds(3)[OF l] less_mult_imp_div_less order_less_le_trans by blast
    have "n_root st = n_fat st + n_fats st * n_size st" using l by (simp add: fat_layout_def)
    then show ?thesis using fat_sector_index[OF l j] j by (simp add: fat_byte_def S)
  qed
  then show ?thesis using entry_offset_bound(2)[OF l c] by (simp add: fat_table_def fat_raw_def)
qed

text \<open>A change of the sectors of one cluster, and a change of the table.\<close>

lemma vol_keeps_cluster:
  assumes l: "fat_layout cap st" and c: "cluster_ok st c"
    and S: "\<And>l. (\<And>i. i < n_spc st \<Longrightarrow> l \<noteq> cluster_sector st c + of_nat i) \<Longrightarrow> S' l = S l"
  shows "vol_keeps st {c} S S'" "fat_table S' st c' = fat_table S st c' \<or> \<not> cluster_ok st c'"
proof -
  have low: "S' l = S l" if "unat l < n_data st" for l
    using that cluster_sector_index(1)[OF l c] by (intro S) auto
  have "n_root st \<le> n_data st" using l by (simp add: fat_layout_def)
  then have T: "fat_table S' st c = fat_table S st c" if "cluster_ok st c" for c
    using low by (intro fat_table_cong[OF l that]) (blast intro: order_less_le_trans)
  then show "fat_table S' st c' = fat_table S st c' \<or> \<not> cluster_ok st c'" by blast
  have "cluster_bytes S' st c' = cluster_bytes S st c'" if "cluster_ok st c'" "c' \<noteq> c" for c'
    unfolding cluster_bytes_def using cluster_disjoint[OF l that(1) c that(2)] by (intro run_bytes_cong S) blast
  moreover have "n_fat st \<le> n_data st" using l by (simp add: fat_layout_def)
  ultimately show "vol_keeps st {c} S S'" using T low by (auto simp: vol_keeps_def)
qed

lemma vol_keeps_table:
  assumes l: "fat_layout cap st" and S: "\<And>l. unat l < n_fat st \<or> n_root st \<le> unat l \<Longrightarrow> S' l = S l"
    and T: "\<And>c'. cluster_ok st c' \<Longrightarrow> c' \<noteq> c \<Longrightarrow> fat_table S' st c' = fat_table S st c'"
  shows "vol_keeps st {c} S S'" "cluster_ok st c' \<Longrightarrow> cluster_bytes S' st c' = cluster_bytes S st c'"
proof -
  have r: "n_root st \<le> n_data st" using l by (simp add: fat_layout_def)
  have b: "cluster_bytes S' st c' = cluster_bytes S st c'" if "cluster_ok st c'" for c'
    unfolding cluster_bytes_def using cluster_sector_index(1)[OF l that] r by (intro run_bytes_cong S) auto
  then show "cluster_ok st c' \<Longrightarrow> cluster_bytes S' st c' = cluster_bytes S st c'" .
  show "vol_keeps st {c} S S'" using b T S by (auto simp: vol_keeps_def)
qed


section \<open>Operations on clusters\<close>

lemma and_low_bits: "unat c < 2 ^ n \<Longrightarrow> c AND mask n = (c :: u32)"
  by (simp add: take_bit_eq_mask [symmetric] word_unat_eq_iff unsigned_take_bit_eq take_bit_nat_eq_self)

lemma eoc_facts:
  assumes "fat_layout cap st" "cluster_ok st c"
  shows "c AND entry_mask st = c" "2 \<le> c" "c < eoc_threshold st" "c \<noteq> 0"
proof -
  have c: "2 \<le> unat c" "unat c \<le> n_clusters st + 1" "n_clusters st < 65525" "fat_type st = (if n_clusters st < 4085 then 12 else 16)"
    using assms by (auto simp: cluster_ok_def fat_layout_def)
  then show "c AND entry_mask st = c"
    using and_low_bits[of c 12] and_low_bits[of c 16] by (auto simp: entry_mask_def mask_eq_exp_minus_1)
  show "2 \<le> c" "c \<noteq> 0" using c(1) by (auto simp: word_le_nat_alt)
  show "c < eoc_threshold st" using c by (auto simp: eoc_threshold_def word_less_nat_alt)
qed

lemma eoc_marker_facts: "eoc_marker st AND entry_mask st = eoc_marker st" "\<not> eoc_marker st < eoc_threshold st" "eoc_marker st \<noteq> 0"
  by (auto simp: eoc_marker_def entry_mask_def eoc_threshold_def)

context fat_volume
begin

lemma zero_sectors_run:
  assumes "inv (fdisk st)" "unat sec + n \<le> cap" "cap \<le> 268435456"
  shows "\<exists>d'. run_state (zero_sectors io sec n) st = ((), st\<lparr>fdisk := d'\<rparr>) \<and> inv d'
    \<and> (\<forall>l. (\<forall>i<n. l \<noteq> sec + of_nat i) \<longrightarrow> sector d' l = sector (fdisk st) l)"
  using assms
proof (induction n arbitrary: sec st)
  case 0
  then show ?case by (intro exI[of _ "fdisk st"]) simp
next
  case (Suc n)
  obtain d1 where d1: "run_state (wr_sec io sec (replicate 512 0)) st = (True, st\<lparr>fdisk := d1\<rparr>)" "inv d1"
    "sector d1 = (sector (fdisk st))(sec := replicate 512 0)"
    using wr_sec_run[OF Suc.prems(1), of sec "replicate 512 0"] Suc.prems(2) by auto
  have "unat (sec + 1) = unat sec + 1" using Suc.prems by (subst unat_add_small) simp_all
  then obtain d' where d': "run_state (zero_sectors io (sec + 1) n) (st\<lparr>fdisk := d1\<rparr>) = ((), st\<lparr>fdisk := d'\<rparr>)" "inv d'"
    "\<And>l. (\<forall>i<n. l \<noteq> sec + 1 + of_nat i) \<Longrightarrow> sector d' l = sector d1 l"
    using Suc.IH[of "st\<lparr>fdisk := d1\<rparr>" "sec + 1"] d1(2) Suc.prems by auto
  have "sector d' l = sector (fdisk st) l" if "\<forall>i<Suc n. l \<noteq> sec + of_nat i" for l
    using that d1(3) d'(3)[of l] by (auto simp: All_less_Suc2 ac_simps)
  then show ?case using d1(1) d'(1,2) by auto
qed

lemma write_cluster_run:
  assumes "inv (fdisk st)" "unat sec + n \<le> cap" "cap \<le> 268435456"
  shows "\<exists>d'. run_state (write_cluster io sec n src) st = (Some (drop (n * 512) src), st\<lparr>fdisk := d'\<rparr>) \<and> inv d'
    \<and> take (min (length src) (n * 512)) (run_bytes (sector d') sec n) = take (n * 512) src
    \<and> (\<forall>l. (\<forall>i<n. l \<noteq> sec + of_nat i) \<longrightarrow> sector d' l = sector (fdisk st) l)"
  using assms
proof (induction n arbitrary: sec st src)
  case 0
  then show ?case by (intro exI[of _ "fdisk st"]) simp
next
  case (Suc n)
  show ?case
  proof (cases "src = []")
    case True
    then show ?thesis using Suc.prems(1) by (intro exI[of _ "fdisk st"]) simp
  next
    case False
    let ?b = "take 512 src @ replicate (512 - length (take 512 src)) 0"
    have b: "length ?b = 512" by simp
    obtain d1 where d1: "run_state (wr_sec io sec ?b) st = (True, st\<lparr>fdisk := d1\<rparr>)" "inv d1"
      "sector d1 = (sector (fdisk st))(sec := ?b)"
      using wr_sec_run[OF Suc.prems(1) _ b, of sec] Suc.prems(2) by auto
    have u: "unat (sec + 1) = unat sec + 1" using Suc.prems by (subst unat_add_small) simp_all
    then obtain d' where d': "run_state (write_cluster io (sec + 1) n (drop 512 src)) (st\<lparr>fdisk := d1\<rparr>)
        = (Some (drop (n * 512) (drop 512 src)), st\<lparr>fdisk := d'\<rparr>)" "inv d'"
      "take (min (length (drop 512 src)) (n * 512)) (run_bytes (sector d') (sec + 1) n) = take (n * 512) (drop 512 src)"
      "\<And>l. (\<forall>i<n. l \<noteq> sec + 1 + of_nat i) \<Longrightarrow> sector d' l = sector d1 l"
      using Suc.IH[of "st\<lparr>fdisk := d1\<rparr>" "sec + 1" "drop 512 src"] d1(2) Suc.prems by auto
    have "sec \<noteq> sec + 1 + of_nat i" if "i < n" for i
    proof -
      have "unat (sec + of_nat (Suc i)) = unat sec + Suc i"
        using that Suc.prems by (subst unat_add_small) (simp_all add: unat_of_nat_small del: of_nat_Suc)
      then have "unat (sec + of_nat (Suc i)) \<noteq> unat sec" by simp
      then have "sec + of_nat (Suc i) \<noteq> sec" by metis
      then show ?thesis by (simp add: ac_simps)
    qed
    then have h: "sector d' sec = ?b" using d'(4)[of sec] d1(3) by simp
    have "take (min (length src) (Suc n * 512)) (?b @ run_bytes (sector d') (sec + 1) n) = take (Suc n * 512) src"
    proof (cases "length src \<le> 512")
      case True
      then show ?thesis by (simp add: min_def)
    next
      case False
      have "min (length src) (Suc n * 512) = 512 + min (length (drop 512 src)) (n * 512)" using False by (auto simp: min_def)
      then have "take (min (length src) (Suc n * 512)) (?b @ run_bytes (sector d') (sec + 1) n)
        = take 512 src @ take (min (length (drop 512 src)) (n * 512)) (run_bytes (sector d') (sec + 1) n)"
        using False by simp
      also have "\<dots> = take (512 + n * 512) src" by (simp only: d'(3) take_add)
      finally show ?thesis by simp
    qed
    moreover have "sector d' l = sector (fdisk st) l" if "\<forall>i<Suc n. l \<noteq> sec + of_nat i" for l
      using that d1(3) d'(4)[of l] by (auto simp: All_less_Suc2 ac_simps)
    ultimately show ?thesis using False d1(1) d'(1,2) h by (auto simp: run_bytes_Suc Let_def ac_simps)
  qed
qed

lemma read_cluster_run:
  assumes "inv (fdisk st)" "unat sec + n \<le> cap" "cap \<le> 268435456"
  shows "run_state (read_cluster io sec n left) st = ((take left (run_bytes (sector (fdisk st)) sec n), True), st)"
  using assms
proof (induction n arbitrary: sec left)
  case (Suc n)
  have u: "unat (sec + 1) = unat sec + 1" using Suc.prems by (subst unat_add_small) simp_all
  have len: "length (sector (fdisk st) sec) = 512" using sector_length[OF Suc.prems(1)] by simp
  show ?case
    using Suc.prems Suc.IH[of "sec + 1" "left - 512"] u len rd_sec_run[OF Suc.prems(1), of sec]
    by (auto simp: Let_def run_bytes_Suc min_def)
qed simp

end

section \<open>Chains\<close>

definition free_clusters :: "(u32 \<Rightarrow> u8 list) \<Rightarrow> 'd fat \<Rightarrow> u32 set" where
  "free_clusters S st = {c. cluster_ok st c \<and> fat_table S st c = 0}"

definition allocated :: "'d fat \<Rightarrow> u32 \<Rightarrow> (u32 \<Rightarrow> u8 list) \<Rightarrow> (u32 \<Rightarrow> u8 list) \<Rightarrow> bool" where
  "allocated st c S S' \<longleftrightarrow> c \<in> free_clusters S st \<and> fat_table S' st c = eoc_marker st \<and> vol_keeps st {c} S S'"

text \<open>The clusters of a chain hold the bytes of a file that is not empty, and the last entry marks the end.\<close>

fun chain_holds :: "(u32 \<Rightarrow> u8 list) \<Rightarrow> 'd fat \<Rightarrow> u32 list \<Rightarrow> u8 list \<Rightarrow> bool" where
  "chain_holds S st [] bs \<longleftrightarrow> False"
| "chain_holds S st (c # cs) bs \<longleftrightarrow>
     cluster_ok st c \<and> bs \<noteq> [] \<and> take (length bs) (cluster_bytes S st c) = take (bpc st) bs
     \<and> (if length bs \<le> bpc st then cs = [] \<and> eoc_threshold st \<le> fat_table S st c
        else cs \<noteq> [] \<and> fat_table S st c = hd cs \<and> chain_holds S st cs (drop (bpc st) bs))"

definition chain_written :: "'d fat \<Rightarrow> u32 \<Rightarrow> u8 list \<Rightarrow> (u32 \<Rightarrow> u8 list) \<Rightarrow> (u32 \<Rightarrow> u8 list) \<Rightarrow> fat_rc \<Rightarrow> bool" where
  "chain_written st c bs S S' rc \<longleftrightarrow>
     rc \<noteq> RC_DIVERGES \<and> vol_keeps st (insert c (free_clusters S st)) S S'
     \<and> (rc = RC_OK \<longrightarrow> (\<exists>cs. chain_holds S' st (c # cs) bs \<and> distinct (c # cs) \<and> set cs \<subseteq> free_clusters S st))
     \<and> (length bs \<le> Suc (card (free_clusters S st)) * bpc st \<longrightarrow> rc = RC_OK)"

lemma fdisk_update_chains [simp]:
  "free_clusters S (st\<lparr>fdisk := d\<rparr>) = free_clusters S st" "allocated (st\<lparr>fdisk := d\<rparr>) = allocated st"
  "chain_holds S (st\<lparr>fdisk := d\<rparr>) cs bs = chain_holds S st cs bs" "chain_written (st\<lparr>fdisk := d\<rparr>) = chain_written st"
proof -
  show *: "free_clusters S (st\<lparr>fdisk := d\<rparr>) = free_clusters S st" for S by (simp add: free_clusters_def)
  then show "allocated (st\<lparr>fdisk := d\<rparr>) = allocated st" by (simp add: fun_eq_iff allocated_def)
  show **: "chain_holds S (st\<lparr>fdisk := d\<rparr>) cs bs = chain_holds S st cs bs" for S cs bs
    by (induction S st cs bs rule: chain_holds.induct) auto
  show "chain_written (st\<lparr>fdisk := d\<rparr>) = chain_written st" 
    by (simp add: fun_eq_iff chain_written_def * ** del: chain_holds.simps)
qed

lemma free_clusters_finite [simp]: "finite (free_clusters S st)"
  by simp

lemma chain_holds_ok: "chain_holds S st cs bs \<Longrightarrow> c \<in> set cs \<Longrightarrow> cluster_ok st c"
  by (induction S st cs bs rule: chain_holds.induct) (auto split: if_splits)

lemma chain_holds_keeps:
  "chain_holds S st cs bs \<Longrightarrow> vol_keeps st C S S' \<Longrightarrow> set cs \<inter> C = {} \<Longrightarrow> chain_holds S' st cs bs"
  by (induction S st cs bs rule: chain_holds.induct) (auto simp: vol_keepsD split: if_splits)

lemma chain_holds_used: "fat_layout cap st \<Longrightarrow> chain_holds S st cs bs \<Longrightarrow> set cs \<inter> free_clusters S st = {}"
proof (induction S st cs bs rule: chain_holds.induct)
  case (2 S st c cs bs)
  have "eoc_threshold st \<noteq> 0" by (simp add: eoc_threshold_def)
  then have "fat_table S st c \<noteq> 0"
    using 2 chain_holds_ok[of S st cs "drop (bpc st) bs" "hd cs"] eoc_facts(4)[of cap st "hd cs"] by (auto split: if_splits)
  then show ?case using 2 by (auto simp: free_clusters_def split: if_splits)
qed simp

lemma allocated_free:
  assumes "allocated st c S S'"
  shows "free_clusters S' st = free_clusters S st - {c}"
proof -
  have "fat_table S' st x = (if x = c then eoc_marker st else fat_table S st x)" if "cluster_ok st x" for x
    using assms that vol_keepsD(1)[of st "{c}" S S' x] by (auto simp: allocated_def)
  then show ?thesis by (auto simp: free_clusters_def eoc_marker_facts split: if_splits)
qed

text \<open>One round of the loop that writes a chain: the cluster is written, the next one allocated and linked, the rest written.\<close>

lemma free_clusters_eq:
  assumes "vol_keeps st {c} S S'" "fat_table S st c \<noteq> 0" "fat_table S' st c \<noteq> 0"
  shows "free_clusters S' st = free_clusters S st"
proof -
  have "fat_table S' st x = 0 \<longleftrightarrow> fat_table S st x = 0" if "cluster_ok st x" for x
    using assms(2,3) vol_keepsD(1)[OF assms(1) that] by (cases "x = c") auto
  then show ?thesis by (auto simp: free_clusters_def)
qed

lemma chain_written_step:
  assumes l: "fat_layout cap st" and c: "cluster_ok st c" "fat_table S st c \<noteq> 0" and len: "bpc st < length src"
    and 1: "vol_keeps st {c} S S1" "fat_table S1 st c = fat_table S st c" "take (length src) (cluster_bytes S1 st c) = take (bpc st) src"
    and 2: "allocated st n S1 S2" and 3: "vol_keeps st {c} S2 S3" "fat_table S3 st c = n" "cluster_bytes S3 st c = cluster_bytes S2 st c"
    and 4: "chain_written st n (drop (bpc st) src) S3 S4 rc"
  shows "chain_written st c src S S4 rc"
proof -
  let ?F = "free_clusters S st"
  have F1: "free_clusters S1 st = ?F" using free_clusters_eq[OF 1(1)] 1(2) c(2) by simp
  have n: "n \<in> ?F" "n \<noteq> c" "c \<notin> ?F" "cluster_ok st n" "n \<noteq> 0"
    using 2 F1 c(2) eoc_facts(4)[OF l] by (auto simp: allocated_def free_clusters_def)
  have T2: "fat_table S2 st c = fat_table S1 st c" "cluster_bytes S2 st c = cluster_bytes S1 st c"
    using 2 n(2) vol_keepsD[of st "{n}" S1 S2 c] c(1) by (auto simp: allocated_def)
  then have F3: "free_clusters S3 st = ?F - {n}"
    using free_clusters_eq[OF 3(1)] 1(2) 3(2) n(5) c(2) allocated_free[OF 2] F1 by simp
  then have card: "card ?F = Suc (card (free_clusters S3 st))" using card_Suc_Diff1[OF free_clusters_finite n(1)] by simp
  have T4: "fat_table S4 st c = n" "cluster_bytes S4 st c = cluster_bytes S1 st c"
    using 4 vol_keepsD[of st "insert n (free_clusters S3 st)" S3 S4 c] 3(2,3) T2 n c(1) F3 by (auto simp: chain_written_def)
  have "vol_keeps st (insert c ?F) S S1" "vol_keeps st (insert c ?F) S1 S2" "vol_keeps st (insert c ?F) S2 S3" "vol_keeps st (insert c ?F) S3 S4"
    using 1(1) 2 3(1) 4 F3 n(1) by (auto simp: allocated_def chain_written_def elim!: vol_keeps_mono)
  then have "vol_keeps st (insert c ?F) S S4" by (blast intro: vol_keeps_trans)
  moreover have "\<exists>cs. chain_holds S4 st (c # cs) src \<and> distinct (c # cs) \<and> set cs \<subseteq> ?F" if ok: "rc = RC_OK"
  proof -
    obtain cs where cs: "chain_holds S4 st (n # cs) (drop (bpc st) src)" "distinct (n # cs)" "set cs \<subseteq> ?F - {n}"
      using 4 ok F3 by (auto simp: chain_written_def simp del: chain_holds.simps)
    have "chain_holds S4 st (c # n # cs) src" using cs(1) T4 1(3) c(1) len by (subst chain_holds.simps) auto
    then show ?thesis using cs n by (intro exI[of _ "n # cs"]) auto
  qed
  moreover have "rc = RC_OK" if "length src \<le> Suc (card ?F) * bpc st"
    using that 4 card by (auto simp: chain_written_def)
  ultimately show ?thesis using 4 by (simp add: chain_written_def)
qed

lemma set_u32_range: "set (u32_range a b) = {c. unat a \<le> unat c \<and> unat c < unat b}"
proof -
  have u: "unat (of_nat k :: u32) = k" if "k < unat b" for k
  proof -
    have "unat b < 2 ^ LENGTH(32)" by (rule unsigned_less)
    then have "k < 4294967296" using that by simp
    then show ?thesis by (rule unat_of_nat_small)
  qed
  have "c \<in> of_nat ` {unat a..<unat b}" if "unat a \<le> unat c" "unat c < unat b" for c :: u32
    using that by (intro image_eqI[of _ _ "unat c"]) simp_all
  then show ?thesis using u by (auto simp: u32_range_def)
qed

context fat_volume
begin

lemma set_entry_keeps:
  assumes "fat_layout cap st" "inv (fdisk st)" "cluster_ok st c"
  obtains d' where "run_state (set_fat_entry io c v) st = ((), st\<lparr>fdisk := d'\<rparr>)" "inv d'" "vol_keeps st {c} (sector (fdisk st)) (sector d')"
    "fat_table (sector d') st c = v AND entry_mask st" "cluster_bytes (sector d') st c = cluster_bytes (sector (fdisk st)) st c"
proof -
  obtain d' where d': "run_state (set_fat_entry io c v) st = ((), st\<lparr>fdisk := d'\<rparr>)" "inv d'"
    "\<And>c'. cluster_ok st c' \<Longrightarrow> fat_table (sector d') st c' = (if c' = c then v AND entry_mask st else fat_table (sector (fdisk st)) st c')"
    "\<And>l. unat l < n_fat st \<or> n_root st \<le> unat l \<Longrightarrow> sector d' l = sector (fdisk st) l"
    using set_fat_entry_run[OF assms, of v] by blast
  then show ?thesis using vol_keeps_table(1)[OF assms(1) d'(4), where c = c] vol_keeps_table(2)[OF assms(1) d'(4), where c = c and c' = c] assms(3) by (intro that[of d']) simp_all
qed

lemma allocate_scan_run:
  assumes l: "fat_layout cap st" and inv: "inv (fdisk st)" and cs: "\<forall>c \<in> set cs. cluster_ok st c"
  shows "(\<forall>c \<in> set cs. fat_table (sector (fdisk st)) st c \<noteq> 0) \<and> run_state (allocate_scan io cs) st = (0, st)
    \<or> (\<exists>c d'. run_state (allocate_scan io cs) st = (c, st\<lparr>fdisk := d'\<rparr>) \<and> inv d' \<and> allocated st c (sector (fdisk st)) (sector d'))"
  using cs
proof (induction cs)
  case (Cons c cs)
  then have c: "cluster_ok st c" by simp
  show ?case
  proof (cases "fat_table (sector (fdisk st)) st c = 0")
    case True
    obtain d1 where d1: "run_state (set_fat_entry io c (eoc_marker st)) st = ((), st\<lparr>fdisk := d1\<rparr>)" "inv d1"
      "vol_keeps st {c} (sector (fdisk st)) (sector d1)" "fat_table (sector d1) st c = eoc_marker st"
      using set_entry_keeps[OF l inv c, of "eoc_marker st"] by (metis eoc_marker_facts(1))
    have "unat (cluster_sector st c) + n_spc st \<le> cap" "cap \<le> 268435456"
      using cluster_sector_index[OF l c, of 0] layout_bounds(2)[OF l] by simp_all
    then obtain d' where d': "run_state (zero_sectors io (cluster_sector st c) (n_spc st)) (st\<lparr>fdisk := d1\<rparr>) = ((), st\<lparr>fdisk := d'\<rparr>)"
      "inv d'" "\<And>l. (\<forall>i<n_spc st. l \<noteq> cluster_sector st c + of_nat i) \<Longrightarrow> sector d' l = sector d1 l"
      using zero_sectors_run[of "st\<lparr>fdisk := d1\<rparr>" "cluster_sector st c" "n_spc st"] d1(2) by auto
    have "vol_keeps st {c} (sector d1) (sector d')" "fat_table (sector d') st c = fat_table (sector d1) st c"
      using vol_keeps_cluster[OF l c, of "sector d'" "sector d1"] d'(3) c by blast+
    then have "allocated st c (sector (fdisk st)) (sector d')"
      using d1(3,4) True c by (auto simp: allocated_def free_clusters_def intro: vol_keeps_trans)
    then show ?thesis using True get_fat_entry_run[OF l inv c] d1(1) d'(1,2) by auto
  next
    case False
    then show ?thesis using Cons get_fat_entry_run[OF l inv c] by auto
  qed
qed simp

lemma allocate_cluster_run:
  assumes l: "fat_layout cap st" and inv: "inv (fdisk st)"
  obtains (full) "free_clusters (sector (fdisk st)) st = {}" "run_state (allocate_cluster io) st = (0, st)"
  | (found) c d' where "run_state (allocate_cluster io) st = (c, st\<lparr>fdisk := d'\<rparr>)" "inv d'"
      "allocated st c (sector (fdisk st)) (sector d')"
proof -
  have "unat (total_clusters st + 2) = n_clusters st + 2" using l by (subst unat_add_small) (simp_all add: fat_layout_def)
  then have "set (u32_range 2 (total_clusters st + 2)) = {c. cluster_ok st c}"
    by (simp add: set_u32_range cluster_ok_def)
  then show ?thesis
    using allocate_scan_run[OF l inv, of "u32_range 2 (total_clusters st + 2)"] that
    by (auto simp: allocate_cluster_def free_clusters_def)
qed

lemma write_cluster_keeps:
  assumes l: "fat_layout cap st" and inv: "inv (fdisk st)" and c: "cluster_ok st c"
  obtains d' where "run_state (write_cluster io (cluster_sector st c) (n_spc st) src) st = (Some (drop (bpc st) src), st\<lparr>fdisk := d'\<rparr>)"
    "inv d'" "vol_keeps st {c} (sector (fdisk st)) (sector d')" "fat_table (sector d') st c = fat_table (sector (fdisk st)) st c"
    "take (length src) (cluster_bytes (sector d') st c) = take (bpc st) src"
proof -
  have "unat (cluster_sector st c) + n_spc st \<le> cap" "cap \<le> 268435456"
    using cluster_sector_index[OF l c, of 0] layout_bounds(2)[OF l] by simp_all
  then obtain d' where d': "run_state (write_cluster io (cluster_sector st c) (n_spc st) src) st = (Some (drop (bpc st) src), st\<lparr>fdisk := d'\<rparr>)"
    "inv d'" "take (min (length src) (bpc st)) (cluster_bytes (sector d') st c) = take (bpc st) src"
    "\<And>l. (\<forall>i<n_spc st. l \<noteq> cluster_sector st c + of_nat i) \<Longrightarrow> sector d' l = sector (fdisk st) l"
    using write_cluster_run[OF inv, of "cluster_sector st c" "n_spc st" src] by (auto simp: cluster_bytes_def)
  have "length (cluster_bytes (sector d') st c) = bpc st"
    using sector_length[OF d'(2)] by (simp add: cluster_bytes_def run_bytes_length)
  then have "take (length src) (cluster_bytes (sector d') st c) = take (bpc st) src" using d'(3) by (simp add: min_def split: if_splits)
  then show ?thesis using d'(1,2) vol_keeps_cluster[OF l c, of "sector d'" "sector (fdisk st)"] d'(4) c by (intro that[of d']) blast+
qed

lemma read_cluster_bytes:
  assumes l: "fat_layout cap st" and inv: "inv (fdisk st)" and c: "cluster_ok st c"
  shows "run_state (read_cluster io (cluster_sector st c) (n_spc st) left) st
     = ((take left (cluster_bytes (sector (fdisk st)) st c), True), st)"
proof -
  have "unat (cluster_sector st c) + n_spc st \<le> cap" "cap \<le> 268435456"
    using cluster_sector_index[OF l c, of 0] layout_bounds(2)[OF l] by simp_all
  then show ?thesis using read_cluster_run[OF inv] by (simp add: cluster_bytes_def)
qed

lemma write_chain_run:
  assumes "fat_layout cap st" "inv (fdisk st)" "cluster_ok st c" "fat_table (sector (fdisk st)) st c \<noteq> 0" "src \<noteq> []" "length src < fuel"
  shows "\<exists>rc d'. run_state (write_chain io c src fuel) st = (rc, st\<lparr>fdisk := d'\<rparr>) \<and> inv d' \<and> chain_written st c src (sector (fdisk st)) (sector d') rc"
  using assms
proof (induction fuel arbitrary: st c src)
  case (Suc fuel)
  note l = Suc.prems(1) and c = Suc.prems(3)
  let ?S = "sector (fdisk st)"
  obtain d1 where d1: "run_state (write_cluster io (cluster_sector st c) (n_spc st) src) st = (Some (drop (bpc st) src), st\<lparr>fdisk := d1\<rparr>)"
    "inv d1" "vol_keeps st {c} ?S (sector d1)" "fat_table (sector d1) st c = fat_table ?S st c"
    "take (length src) (cluster_bytes (sector d1) st c) = take (bpc st) src"
    by (rule write_cluster_keeps[OF Suc.prems(1-3)])
  have spc: "1 \<le> n_spc st" using l by (simp add: fat_layout_def)
  have free1: "free_clusters (sector d1) st = free_clusters ?S st"
    using free_clusters_eq[OF d1(3)] d1(4) Suc.prems(4) by simp
  show ?case
  proof (cases "length src \<le> bpc st")
    case True
    obtain d2 where d2: "run_state (set_fat_entry io c (eoc_marker st)) (st\<lparr>fdisk := d1\<rparr>) = ((), st\<lparr>fdisk := d2\<rparr>)" "inv d2"
      "vol_keeps st {c} (sector d1) (sector d2)" "fat_table (sector d2) st c = eoc_marker st"
      "cluster_bytes (sector d2) st c = cluster_bytes (sector d1) st c"
      using set_entry_keeps[of "st\<lparr>fdisk := d1\<rparr>" c "eoc_marker st"] l c d1(2) by (simp add: eoc_marker_facts) metis
    have "vol_keeps st (insert c (free_clusters ?S st)) ?S (sector d2)"
      using vol_keeps_trans[OF d1(3) d2(3)] by (rule vol_keeps_mono) simp
    moreover have "chain_holds (sector d2) st [c] src"
      using c Suc.prems(5) True d1(5) d2(4,5) eoc_marker_facts(2)[of st] by (simp add: not_less)
    ultimately have "chain_written st c src ?S (sector d2) RC_OK" unfolding chain_written_def by fastforce
    then show ?thesis using d1(1) d2(1,2) True by (auto simp: Let_def)
  next
    case False
    have L1: "fat_layout cap (st\<lparr>fdisk := d1\<rparr>)" "inv (fdisk (st\<lparr>fdisk := d1\<rparr>))" using l d1(2) by simp_all
    show ?thesis
    proof (cases rule: allocate_cluster_run[OF L1, case_names full found])
      case full
      then have "chain_written st c src ?S (sector d1) RC_ERR"
        using False free1 vol_keeps_mono[OF d1(3)] by (simp add: chain_written_def)
      then show ?thesis using full(2) d1(1,2) False by auto
    next
      case (found n d2)
      have n: "cluster_ok st n" "fat_table (sector d2) st n = eoc_marker st" "n \<noteq> c"
        using found(3) Suc.prems(4) d1(4) by (auto simp: allocated_def free_clusters_def)
      obtain d3 where d3: "run_state (set_fat_entry io c n) (st\<lparr>fdisk := d2\<rparr>) = ((), st\<lparr>fdisk := d3\<rparr>)" "inv d3"
        "vol_keeps st {c} (sector d2) (sector d3)" "fat_table (sector d3) st c = n"
        "cluster_bytes (sector d3) st c = cluster_bytes (sector d2) st c"
        using set_entry_keeps[of "st\<lparr>fdisk := d2\<rparr>" c n] l c found(2) eoc_facts(1)[OF l n(1)] by simp metis
      have "fat_table (sector d3) st n \<noteq> 0" using vol_keepsD(1)[OF d3(3) n(1)] n(2,3) eoc_marker_facts(3)[of st] by simp
      moreover have "length (drop (bpc st) src) < fuel" "drop (bpc st) src \<noteq> []" using False spc Suc.prems(6) by auto
      ultimately obtain rc d4 where d4: "run_state (write_chain io n (drop (bpc st) src) fuel) (st\<lparr>fdisk := d3\<rparr>) = (rc, st\<lparr>fdisk := d4\<rparr>)"
        "inv d4" "chain_written st n (drop (bpc st) src) (sector d3) (sector d4) rc"
        using Suc.IH[of "st\<lparr>fdisk := d3\<rparr>" n "drop (bpc st) src"] l n(1) d3(2) by auto
      have "chain_written st c src ?S (sector d4) rc"
        using chain_written_step[OF l c Suc.prems(4) _ d1(3-5) _ d3(3-5) d4(3)] found(3) False by simp
      moreover have "\<not> n < 2" using eoc_facts(2)[OF l n(1)] by (simp add: not_less)
      ultimately show ?thesis using d1(1) found(1) d3(1) d4(1,2) False by auto
    qed
  qed
qed simp

lemma read_chain_0 [simp]: "run_state (read_chain io c 0 guard) st = (([], True), st)"
  by (cases guard) simp_all

lemma read_chain_run:
  assumes l: "fat_layout cap st" and inv: "inv (fdisk st)"
  shows "chain_holds (sector (fdisk st)) st cs bs \<Longrightarrow> length cs \<le> guard \<Longrightarrow> left \<le> length bs
    \<Longrightarrow> run_state (read_chain io (hd cs) left guard) st = ((take left bs, True), st)"
proof (induction guard arbitrary: cs bs left)
  case (Suc guard)
  then obtain c cs' where cs: "cs = c # cs'" by (cases cs) auto
  let ?S = "sector (fdisk st)"
  have c: "cluster_ok st c" "take (length bs) (cluster_bytes ?S st c) = take (bpc st) bs" using Suc.prems(1) cs by auto
  have "take left (cluster_bytes ?S st c) = take left (take (length bs) (cluster_bytes ?S st c))" using Suc.prems(3) by (simp add: min_absorb1)
  also have "\<dots> = take (min left (bpc st)) bs" by (simp add: c(2))
  finally have bytes: "run_state (read_cluster io (cluster_sector st c) (n_spc st) left) st = ((take (min left (bpc st)) bs, True), st)"
    by (simp add: read_cluster_bytes[OF l inv c(1)])
  show ?case
  proof (cases "left \<le> bpc st")
    case True
    then show ?thesis using Suc.prems(3) cs bytes eoc_facts[OF l c(1)] get_fat_entry_run[OF l inv c(1)] by (simp add: min_absorb1)
  next
    case False
    then have nx: "fat_table ?S st c = hd cs'" "chain_holds ?S st cs' (drop (bpc st) bs)" "cs' \<noteq> []"
      using Suc.prems cs by (auto split: if_splits)
    have "run_state (read_chain io (hd cs') (left - bpc st) guard) st = ((take (left - bpc st) (drop (bpc st) bs), True), st)"
      using Suc.prems(2,3) cs by (intro Suc.IH nx) auto
    moreover have "take (bpc st) bs @ take (left - bpc st) (drop (bpc st) bs) = take left bs"
      using False take_add[of "bpc st" "left - bpc st" bs] by simp
    ultimately show ?thesis
      using False Suc.prems(3) cs bytes eoc_facts[OF l c(1)] get_fat_entry_run[OF l inv c(1)] nx(1) by (simp add: min_absorb2 min_def)
  qed
qed simp

lemma free_chain_loop_run:
  "fat_layout cap st \<Longrightarrow> inv (fdisk st) \<Longrightarrow> chain_holds (sector (fdisk st)) st cs bs \<Longrightarrow> distinct cs \<Longrightarrow> length cs \<le> guard
   \<Longrightarrow> \<exists>d'. run_state (free_chain_loop io (hd cs) guard) st = ((), st\<lparr>fdisk := d'\<rparr>) \<and> inv d'
     \<and> vol_keeps st (set cs) (sector (fdisk st)) (sector d') \<and> (\<forall>c \<in> set cs. fat_table (sector d') st c = 0)"
proof (induction guard arbitrary: cs bs st)
  case (Suc guard)
  note l = Suc.prems(1)
  obtain c cs' where cs: "cs = c # cs'" using Suc.prems(3) by (cases cs) auto
  let ?S = "sector (fdisk st)"
  have c: "cluster_ok st c" using Suc.prems(3) cs by auto
  obtain d1 where d1: "run_state (set_fat_entry io c 0) st = ((), st\<lparr>fdisk := d1\<rparr>)" "inv d1"
    "vol_keeps st {c} ?S (sector d1)" "fat_table (sector d1) st c = 0"
    using set_entry_keeps[OF l Suc.prems(2) c, of 0] by auto
  show ?case
  proof (cases "length bs \<le> bpc st")
    case True
    then have "cs' = []" "\<not> fat_table ?S st c < eoc_threshold st" using Suc.prems(3) cs by (auto simp: not_less)
    moreover have "run_state (free_chain_loop io e guard) st' = ((), st')" if "\<not> e < eoc_threshold st'" for e st'
      using that by (cases guard) auto
    ultimately show ?thesis
      using cs d1 eoc_facts[OF l c] get_fat_entry_run[OF l Suc.prems(2) c] by auto
  next
    case False
    then have nx: "fat_table ?S st c = hd cs'" "chain_holds ?S st cs' (drop (bpc st) bs)" using Suc.prems(3) cs by auto
    then have "chain_holds (sector d1) st cs' (drop (bpc st) bs)" using chain_holds_keeps[OF _ d1(3)] Suc.prems(4) cs by auto
    then obtain d2 where d2: "run_state (free_chain_loop io (hd cs') guard) (st\<lparr>fdisk := d1\<rparr>) = ((), st\<lparr>fdisk := d2\<rparr>)" "inv d2"
      "vol_keeps st (set cs') (sector d1) (sector d2)" "\<forall>c \<in> set cs'. fat_table (sector d2) st c = 0"
      using Suc.IH[of "st\<lparr>fdisk := d1\<rparr>" cs' "drop (bpc st) bs"] l d1(2) Suc.prems(4,5) cs by auto
    have "vol_keeps st (set cs) ?S (sector d2)"
      using vol_keeps_trans[OF vol_keeps_mono[OF d1(3)] vol_keeps_mono[OF d2(3)], of "set cs"] cs by auto
    moreover have "fat_table (sector d2) st c = 0" using vol_keepsD(1)[OF d2(3) c] d1(4) Suc.prems(4) cs by auto
    ultimately show ?thesis
      using cs d1(1) d2 eoc_facts[OF l c] get_fat_entry_run[OF l Suc.prems(2) c] nx(1) by auto
  qed
qed simp

end

lemma chain_length:
  assumes "chain_holds S st cs bs" "distinct cs"
  shows "length cs \<le> n_clusters st"
proof -
  have "unat ` set cs \<subseteq> {2..<n_clusters st + 2}" using chain_holds_ok[OF assms(1)] by (auto simp: cluster_ok_def)
  then have "card (unat ` set cs) \<le> card {2..<n_clusters st + 2}" by (intro card_mono) auto
  moreover have "card (unat ` set cs) = length cs" using assms(2) by (simp add: card_image inj_on_def word_unat_eq_iff distinct_card)
  ultimately show ?thesis by simp
qed

end
