(* ===== verification/Fat_Dir.thy ===== *)
theory Fat_Dir
  imports Fat_Files
begin

text \<open>
  The root directory as a table of slots, and the volume as a map from names to files: \<^verbatim>\<open>fat_read_file\<close>, \<^verbatim>\<open>fat_write_file\<close> and
  \<^verbatim>\<open>fat_delete_file\<close> look up, update and delete in that map.
\<close>

unbundle bit_operations_syntax

section \<open>Slots\<close>

type_synonym slot = "u32 \<times> nat"

definition slots_of :: "u32 list \<Rightarrow> slot list" where
  "slots_of secs = concat (map (\<lambda>sec. map (Pair sec) [0..<16]) secs)"

definition slot_ent :: "(u32 \<Rightarrow> u8 list) \<Rightarrow> slot \<Rightarrow> u8 list" where
  "slot_ent S p = dirent (S (fst p)) (snd p)"

definition ent_is :: "u8 list \<Rightarrow> u8 list \<Rightarrow> bool" where
  "ent_is fn ent \<longleftrightarrow> dirent_live ent \<and> take 11 ent = fn"

definition ent_free :: "u8 list \<Rightarrow> bool" where
  "ent_free ent \<longleftrightarrow> ent ! 0 = 0x00 \<or> ent ! 0 = 0xE5"

fun find_slot :: "(slot \<Rightarrow> u8 list) \<Rightarrow> u8 list \<Rightarrow> slot list \<Rightarrow> slot option" where
  "find_slot E fn [] = None"
| "find_slot E fn (p # ps) =
     (if E p ! 0 = 0 then None else if ent_is fn (E p) then Some p else find_slot E fn ps)"

text \<open>Behind the first entry that was never used there is no other entry.\<close>

fun tail_zero :: "(slot \<Rightarrow> u8 list) \<Rightarrow> slot list \<Rightarrow> bool" where
  "tail_zero E [] \<longleftrightarrow> True"
| "tail_zero E (p # ps) \<longleftrightarrow> (if E p ! 0 = 0 then \<forall>q \<in> set ps. E q ! 0 = 0 else tail_zero E ps)"

definition unique_names :: "(slot \<Rightarrow> u8 list) \<Rightarrow> slot list \<Rightarrow> bool" where
  "unique_names E ps \<longleftrightarrow>
     (\<forall>p \<in> set ps. \<forall>q \<in> set ps. \<forall>fn. E p ! 0 \<noteq> 0 \<and> E q ! 0 \<noteq> 0 \<and> ent_is fn (E p) \<and> ent_is fn (E q) \<longrightarrow> p = q)"

lemma ent_is_unique: "ent_is fn ent \<Longrightarrow> ent_is fn' ent \<Longrightarrow> fn' = fn"
  by (simp add: ent_is_def)

lemma find_slot_Some: "find_slot E fn ps = Some p \<Longrightarrow> p \<in> set ps \<and> E p ! 0 \<noteq> 0 \<and> ent_is fn (E p)"
  by (induction ps) (auto split: if_splits)

lemma find_slot_all_zero: "\<forall>q \<in> set ps. E q ! 0 = 0 \<Longrightarrow> find_slot E fn ps = None"
  by (cases ps) auto

lemma find_slot_None: "tail_zero E ps \<Longrightarrow> find_slot E fn ps = None \<longleftrightarrow> (\<forall>p \<in> set ps. E p ! 0 \<noteq> 0 \<longrightarrow> \<not> ent_is fn (E p))"
  by (induction ps) auto

lemma find_slot_iff:
  assumes "tail_zero E ps" "unique_names E ps"
  shows "find_slot E fn ps = Some p \<longleftrightarrow> p \<in> set ps \<and> E p ! 0 \<noteq> 0 \<and> ent_is fn (E p)"
proof
  assume p: "p \<in> set ps \<and> E p ! 0 \<noteq> 0 \<and> ent_is fn (E p)"
  then obtain q where q: "find_slot E fn ps = Some q" using find_slot_None[OF assms(1), of fn] by fastforce
  then show "find_slot E fn ps = Some p" using find_slot_Some[OF q] p assms(2) by (auto simp: unique_names_def)
qed (rule find_slot_Some)

text \<open>Changing an entry: in place, in the first free slot, and by marking it deleted.\<close>

lemma tail_zero_update:
  "tail_zero E ps \<Longrightarrow> E p ! 0 \<noteq> 0 \<Longrightarrow> ent ! 0 \<noteq> 0 \<Longrightarrow> tail_zero (E(p := ent)) ps"
  by (induction ps) auto

lemma tail_zero_cong: "(\<And>q. q \<in> set ps \<Longrightarrow> E' q = E q) \<Longrightarrow> tail_zero E' ps = tail_zero E ps"
  by (induction ps) auto

lemma tail_zero_all_zero: "\<forall>q \<in> set ps. E q ! 0 = 0 \<Longrightarrow> tail_zero E ps"
  by (cases ps) auto

lemma tail_zero_create:
  "tail_zero E ps \<Longrightarrow> distinct ps \<Longrightarrow> List.find (\<lambda>q. ent_free (E q)) ps = Some p \<Longrightarrow> ent ! 0 \<noteq> 0 \<Longrightarrow> tail_zero (E(p := ent)) ps"
proof (induction ps)
  case (Cons q ps)
  show ?case
  proof (cases "ent_free (E q)")
    case True
    then have "p = q" "q \<notin> set ps" using Cons.prems by auto
    moreover from this have "tail_zero (E(q := ent)) ps = tail_zero E ps" by (intro tail_zero_cong) auto
    moreover have "tail_zero E ps" using Cons.prems(1) tail_zero_all_zero[of ps E] by (simp split: if_splits)
    ultimately show ?thesis using Cons.prems(4) by (simp only: tail_zero.simps fun_upd_same if_False simp_thms)
  next
    case False
    then show ?thesis using Cons by (auto simp: ent_free_def)
  qed
qed simp

definition dir_ok :: "(slot \<Rightarrow> u8 list) \<Rightarrow> slot list \<Rightarrow> bool" where
  "dir_ok E ps \<longleftrightarrow> distinct ps \<and> tail_zero E ps \<and> unique_names E ps"

lemma find_slot_ok:
  "dir_ok E ps \<Longrightarrow> find_slot E fn ps = Some p \<longleftrightarrow> p \<in> set ps \<and> E p ! 0 \<noteq> 0 \<and> ent_is fn (E p)"
  unfolding dir_ok_def by (rule find_slot_iff) simp_all

lemma find_slot_eqI:
  assumes "dir_ok E ps" "dir_ok E' ps"
    and "\<And>q. q \<in> set ps \<Longrightarrow> (E' q ! 0 \<noteq> 0 \<and> ent_is fn (E' q)) = (E q ! 0 \<noteq> 0 \<and> ent_is fn (E q))"
  shows "find_slot E' fn ps = find_slot E fn ps"
proof (rule option.expand)
  have eq: "find_slot E' fn ps = Some q \<longleftrightarrow> find_slot E fn ps = Some q" for q
    using assms(3)[of q] by (auto simp: find_slot_ok[OF assms(1)] find_slot_ok[OF assms(2)])
  show "(find_slot E' fn ps = None) = (find_slot E fn ps = None)" using eq by (metis not_None_eq)
  show "find_slot E' fn ps \<noteq> None \<Longrightarrow> find_slot E fn ps \<noteq> None \<Longrightarrow> the (find_slot E' fn ps) = the (find_slot E fn ps)"
    using eq by (metis option.collapse option.sel)
qed

definition put_slot :: "(slot \<Rightarrow> u8 list) \<Rightarrow> u8 list \<Rightarrow> slot list \<Rightarrow> slot option" where
  "put_slot E fn ps =
     (case find_slot E fn ps of Some p \<Rightarrow> Some p | None \<Rightarrow> List.find (\<lambda>q. ent_free (E q)) ps)"

lemma dir_put:
  assumes ok: "dir_ok E ps" and p: "put_slot E fn ps = Some p" and ent: "ent ! 0 \<noteq> 0" "ent_is fn ent"
  shows "dir_ok (E(p := ent)) ps" "p \<in> set ps"
    "find_slot (E(p := ent)) fn' ps = (if fn' = fn then Some p else find_slot E fn' ps)"
proof -
  have cases: "p \<in> set ps \<and> E p ! 0 \<noteq> 0 \<and> ent_is fn (E p)
      \<or> find_slot E fn ps = None \<and> List.find (\<lambda>q. ent_free (E q)) ps = Some p \<and> p \<in> set ps \<and> ent_free (E p)"
    using p find_slot_ok[OF ok] by (auto simp: put_slot_def find_Some_iff split: option.splits)
  then show mem: "p \<in> set ps" by blast
  have others: "q = p" if "q \<in> set ps" "E q ! 0 \<noteq> 0" "ent_is fn (E q)" for q
    using that cases find_slot_ok[OF ok, of fn q] find_slot_ok[OF ok, of fn p] by auto
  have old: "fn' = fn" if "E p ! 0 \<noteq> 0" "ent_is fn' (E p)" for fn'
    using cases that by (auto simp: ent_free_def ent_is_def dirent_live_def)
  have "tail_zero (E(p := ent)) ps"
    using ok cases ent(1) unfolding dir_ok_def by (blast intro: tail_zero_update tail_zero_create)
  moreover have "unique_names (E(p := ent)) ps"
    unfolding unique_names_def
  proof (intro ballI allI impI)
    fix q r f
    assume *: "q \<in> set ps" "r \<in> set ps" "(E(p := ent)) q ! 0 \<noteq> 0 \<and> (E(p := ent)) r ! 0 \<noteq> 0 \<and> ent_is f ((E(p := ent)) q) \<and> ent_is f ((E(p := ent)) r)"
    have u: "E q ! 0 \<noteq> 0 \<Longrightarrow> E r ! 0 \<noteq> 0 \<Longrightarrow> ent_is f (E q) \<Longrightarrow> ent_is f (E r) \<Longrightarrow> q = r"
      using ok *(1,2) unfolding dir_ok_def unique_names_def by blast
    consider "q = p" "r = p" | "q = p" "r \<noteq> p" | "q \<noteq> p" "r = p" | "q \<noteq> p" "r \<noteq> p" by blast
    then show "q = r"
    proof cases
      case 2
      then have "f = fn" using *(3) ent_is_unique[OF ent(2), of f] by simp
      then show ?thesis using 2 *(3) others[OF *(2)] by simp
    next
      case 3
      then have "f = fn" using *(3) ent_is_unique[OF ent(2), of f] by simp
      then show ?thesis using 3 *(3) others[OF *(1)] by simp
    next
      case 4
      then show ?thesis using *(3) by (intro u) simp_all
    qed simp
  qed
  ultimately show ok': "dir_ok (E(p := ent)) ps" using ok by (simp add: dir_ok_def)
  show "find_slot (E(p := ent)) fn' ps = (if fn' = fn then Some p else find_slot E fn' ps)"
  proof (cases "fn' = fn")
    case True
    then show ?thesis using find_slot_ok[OF ok'] mem ent by simp
  next
    case False
    have "find_slot (E(p := ent)) fn' ps = find_slot E fn' ps"
      using False old ent_is_unique[OF ent(2), of fn'] by (intro find_slot_eqI[OF ok ok']) auto
    then show ?thesis using False by simp
  qed
qed

lemma dir_delete:
  assumes ok: "dir_ok E ps" and p: "find_slot E fn ps = Some p" and ent: "ent ! 0 = 0xE5"
  shows "dir_ok (E(p := ent)) ps" "find_slot (E(p := ent)) fn' ps = (if fn' = fn then None else find_slot E fn' ps)"
proof -
  have p': "p \<in> set ps" "E p ! 0 \<noteq> 0" "ent_is fn (E p)" using find_slot_ok[OF ok] p by auto
  have dead: "\<not> ent_is f ent" for f using ent by (simp add: ent_is_def dirent_live_def)
  have "tail_zero (E(p := ent)) ps" using ok ent p'(2) by (intro tail_zero_update) (simp_all add: dir_ok_def)
  moreover have "unique_names (E(p := ent)) ps" using ok dead by (auto simp: dir_ok_def unique_names_def)
  ultimately show ok': "dir_ok (E(p := ent)) ps" using ok by (simp add: dir_ok_def)
  show "find_slot (E(p := ent)) fn' ps = (if fn' = fn then None else find_slot E fn' ps)"
  proof (cases "fn' = fn")
    case True
    have "find_slot (E(p := ent)) fn ps \<noteq> Some q" for q
      using find_slot_ok[OF ok', of fn q] find_slot_ok[OF ok, of fn q] p dead by auto
    then show ?thesis using True by (metis not_None_eq)
  next
    case False
    have "find_slot (E(p := ent)) fn' ps = find_slot E fn' ps"
      using False dead ent_is_unique[OF p'(3), of fn'] by (intro find_slot_eqI[OF ok ok']) auto
    then show ?thesis using False by simp
  qed
qed

section \<open>Directory entries in a sector\<close>

lemma dirent_update:
  "k < 32 \<Longrightarrow> dirent (sec[32 * i + k := v]) i = (dirent sec i)[k := v]"
  by (simp add: dirent_def drop_update_swap take_update_swap)

lemma dirent_update_other:
  assumes "k < 32" "i \<noteq> j"
  shows "dirent (sec[32 * i + k := v]) j = dirent sec j"
proof (cases "i < j")
  case True
  then have "32 * i + 32 \<le> 32 * j" by simp
  then have "32 * i + k < 32 * j" using assms(1) by linarith
  then show ?thesis by (simp add: dirent_def drop_update_cancel)
next
  case False
  then have "32 * j + 32 \<le> 32 * i" using assms(2) by simp
  then show ?thesis by (simp add: dirent_def drop_update_swap take_update_cancel)
qed

lemma dirent_length: "length sec = 512 \<Longrightarrow> i < 16 \<Longrightarrow> length (dirent sec i) = 32"
  by (simp add: dirent_def)

lemma dirent_set_updates:
  "dirent_set sec i c len = sec[32 * i + 26 := lo_byte (ucast (c AND 0xFFFF)), 32 * i + 27 := hi_byte (ucast (c AND 0xFFFF)),
     32 * i + 20 := lo_byte (ucast (drop_bit 16 c AND 0xFFFF)), 32 * i + 21 := hi_byte (ucast (drop_bit 16 c AND 0xFFFF)),
     32 * i + 28 := lo_byte (ucast len), 32 * i + 29 := hi_byte (ucast len),
     32 * i + 30 := lo_byte (ucast (drop_bit 16 len)), 32 * i + 31 := hi_byte (ucast (drop_bit 16 len)), 32 * i + 11 := 0x20]"
  by (simp add: dirent_set_def wr_le32_def wr_le16_def Let_def ac_simps)

lemma dirent_set_other: "i \<noteq> j \<Longrightarrow> dirent (dirent_set sec i c len) j = dirent sec j"
  by (simp only: dirent_set_updates) (simp add: dirent_update_other)

lemma halves_u32:
  "ucast (ucast (c AND 0xFFFF) :: u16) OR push_bit 16 (ucast (ucast (drop_bit 16 c AND 0xFFFF) :: u16)) = (c :: u32)"
  "ucast (ucast c :: u16) OR push_bit 16 (ucast (ucast (drop_bit 16 c) :: u16)) = (c :: u32)"
  by (simp_all add: word_all_bits bit_simps)

lemma dirent_set_fields:
  fixes c len :: u32
  assumes "length sec = 512" "i < 16"
  defines "ent \<equiv> dirent (dirent_set sec i c len) i"
  shows "take 11 ent = take 11 (dirent sec i)" "dirent_attr ent = 0x20" "dirent_cluster ent = c" "dirent_size ent = len"
    "ent ! 0 = dirent sec i ! 0"
proof -
  have len: "length (dirent sec i) = 32" using assms by (simp add: dirent_length)
  have ent: "ent = (dirent sec i)[26 := lo_byte (ucast (c AND 0xFFFF)), 27 := hi_byte (ucast (c AND 0xFFFF)),
     20 := lo_byte (ucast (drop_bit 16 c AND 0xFFFF)), 21 := hi_byte (ucast (drop_bit 16 c AND 0xFFFF)),
     28 := lo_byte (ucast len), 29 := hi_byte (ucast len), 30 := lo_byte (ucast (drop_bit 16 len)),
     31 := hi_byte (ucast (drop_bit 16 len)), 11 := 0x20]"
    unfolding ent_def dirent_set_updates by (simp add: dirent_update)
  show "take 11 ent = take 11 (dirent sec i)" by (simp add: ent)
  show "dirent_attr ent = 0x20" by (simp add: ent len dirent_attr_def)
  have le: "rd_le16 ent k = le_word (ent ! k) (ent ! (k + 1))" for k by (simp add: rd_le16_def le_word_def)
  show "dirent_cluster ent = c"
    unfolding dirent_cluster_def le by (simp add: ent len le_word_bytes halves_u32 del: ucast_drop_bit_eq)
  show "dirent_size ent = len"
    unfolding dirent_size_def rd_le32_def le by (simp add: ent len le_word_bytes halves_u32 del: ucast_drop_bit_eq)
  show "ent ! 0 = dirent sec i ! 0" by (simp add: ent)
qed

lemma dirent_wr_bytes:
  assumes "length sec = 512" "i < 16" "length ent = 32"
  shows "dirent (wr_bytes sec (32 * i) ent) i = ent" "length (wr_bytes sec (32 * i) ent) = 512"
    "j < 16 \<Longrightarrow> i \<noteq> j \<Longrightarrow> dirent (wr_bytes sec (32 * i) ent) j = dirent sec j"
proof -
  show "dirent (wr_bytes sec (32 * i) ent) i = ent" "length (wr_bytes sec (32 * i) ent) = 512"
    using assms by (simp_all add: dirent_def wr_bytes_def min_absorb2)
  show "dirent (wr_bytes sec (32 * i) ent) j = dirent sec j" if "j < 16" "i \<noteq> j"
  proof (cases "i < j")
    case True
    then obtain k where "j = i + 1 + k" using less_iff_Suc_add by auto
    then show ?thesis using assms that(1) by (simp add: dirent_def wr_bytes_def min_absorb2 ac_simps)
  next
    case False
    then have "32 * j + 32 \<le> 32 * i" using that(2) by simp
    then have "32 \<le> 32 * i - 32 * j" by simp
    then show ?thesis using assms by (simp add: dirent_def wr_bytes_def min_absorb2 drop_take min_absorb1)
  qed
qed

lemma fat_chars_length: "fat_chars dot k cs = Some (xs, rest) \<Longrightarrow> length xs \<le> k"
  by (induction dot k cs arbitrary: xs rest rule: fat_chars.induct) (auto split: if_splits)

lemma filename_to_fat_length: "filename_to_fat name = Some fn \<Longrightarrow> length fn = 11"
  by (auto simp: filename_to_fat_def pad_def Let_def dest!: fat_chars_length split: option.splits if_splits list.splits)

section \<open>The directory on a block device\<close>

definition root_slots :: "'d fat \<Rightarrow> slot list" where
  "root_slots st = slots_of (root_range st)"

text \<open>Only the entry of slot \<open>p\<close> changed, and no sector outside the directory.\<close>

definition dir_written :: "'d fat \<Rightarrow> slot \<Rightarrow> u8 list \<Rightarrow> (u32 \<Rightarrow> u8 list) \<Rightarrow> (u32 \<Rightarrow> u8 list) \<Rightarrow> bool" where
  "dir_written st p ent S S' \<longleftrightarrow>
     (\<forall>q \<in> set (root_slots st). slot_ent S' q = ((slot_ent S)(p := ent)) q)
     \<and> (\<forall>l. \<not> (n_root st \<le> unat l \<and> unat l < n_data st) \<longrightarrow> S' l = S l)"

lemma fdisk_update_dir [simp]: "root_slots (st\<lparr>fdisk := d\<rparr>) = root_slots st" "dir_written (st\<lparr>fdisk := d\<rparr>) = dir_written st"
  by (simp_all add: fun_eq_iff root_slots_def dir_written_def)

lemma slots_of_simps [simp]: "slots_of [] = []" "slots_of (sec # secs) = map (Pair sec) [0..<16] @ slots_of secs"
  by (simp_all add: slots_of_def)

lemma set_slots_of: "set (slots_of secs) = set secs \<times> {..<16}"
  by (auto simp: slots_of_def)

lemma slots_of_distinct: "distinct secs \<Longrightarrow> distinct (slots_of secs)"
  by (induction secs) (auto simp: distinct_map set_slots_of inj_on_def simp del: upt_Suc)

lemma root_range_facts:
  assumes "fat_layout cap st"
  shows "set (root_range st) = {l. n_root st \<le> unat l \<and> unat l < n_data st}" "distinct (root_range st)"
    "sec \<in> set (root_range st) \<Longrightarrow> unat sec < cap"
proof -
  have b: "n_data st = n_root st + unat (root_sectors st)" "n_data st \<le> cap" "cap \<le> 268435456"
    using assms layout_bounds(2)[OF assms] by (auto simp: fat_layout_def)
  have s: "unat (root_start_sector st + of_nat k) = n_root st + k" if "k < unat (root_sectors st)" for k
    using that b by (subst unat_add_small) (simp_all add: unat_of_nat_small)
  have m: "root_range st = map (\<lambda>k. root_start_sector st + of_nat k) [0..<unat (root_sectors st)]"
    by (simp only: root_range_def u32_range_def map_map comp_def unsigned_0)
  have mem: "l \<in> set (root_range st)" if r: "n_root st \<le> unat l" "unat l < n_data st" for l
  proof -
    obtain k where k: "unat l = n_root st + k" using le_Suc_ex[OF r(1)] by blast
    then have lt: "k < unat (root_sectors st)" using r(2) b(1) by simp
    have "l = root_start_sector st + of_nat k" unfolding word_unat_eq_iff k s[OF lt] ..
    then show ?thesis unfolding m using lt by auto
  qed
  show r: "set (root_range st) = {l. n_root st \<le> unat l \<and> unat l < n_data st}"
    using mem s b(1) by (auto simp: m)
  show "sec \<in> set (root_range st) \<Longrightarrow> unat sec < cap" using b by (auto simp: r)
  have "inj_on (\<lambda>k. root_start_sector st + of_nat k :: u32) {0..<unat (root_sectors st)}"
    using s by (intro inj_onI) (metis atLeastLessThan_iff add_left_cancel)
  then show "distinct (root_range st)" by (simp add: m distinct_map)
qed

lemma slot_ent_pair [simp]: "slot_ent S (sec, i) = dirent (S sec) i"
  by (simp add: slot_ent_def)

lemma find_slot_sector:
  "find_slot (slot_ent S) fn (map (Pair sec) is @ ps) =
     (case scan_entries fn (S sec) is of Scan_End \<Rightarrow> None | Scan_Found i \<Rightarrow> Some (sec, i)
      | Scan_Next \<Rightarrow> find_slot (slot_ent S) fn ps)"
  by (induction "is") (auto simp: Let_def ent_is_def)

lemma find_free_sector:
  "List.find (\<lambda>q. ent_free (slot_ent S q)) (map (Pair sec) is @ ps) =
     (case List.find (\<lambda>i. ent_free (dirent (S sec) i)) is of Some i \<Rightarrow> Some (sec, i)
      | None \<Rightarrow> List.find (\<lambda>q. ent_free (slot_ent S q)) ps)"
  by (induction "is") auto

lemma find_Some_less: "List.find P [0..<n] = Some i \<Longrightarrow> i < n"
  by (auto simp: find_Some_iff)

context fat_volume
begin

lemma find_scan_run:
  assumes "inv (fdisk st)" "\<forall>sec \<in> set secs. unat sec < cap"
  shows "run_state (find_scan io fn secs) st =
    (map_option (\<lambda>p. (slot_ent (sector (fdisk st)) p, p)) (find_slot (slot_ent (sector (fdisk st))) fn (slots_of secs)), st)"
  using assms(2)
proof (induction secs)
  case (Cons sec secs)
  then show ?case using rd_sec_run[OF assms(1), of sec]
    by (auto simp: find_slot_sector split: dirent_scan.splits simp del: upt_Suc)
qed simp

lemma find_dirent_run:
  assumes "fat_layout cap st" "inv (fdisk st)" "filename_to_fat name = Some fn"
  shows "run_state (find_dirent_val io name) st =
    (map_option (\<lambda>p. (slot_ent (sector (fdisk st)) p, p)) (find_slot (slot_ent (sector (fdisk st))) fn (root_slots st)), st)"
proof -
  have "fs_mounted st" using assms(1) by (simp add: fat_layout_def)
  then show ?thesis using find_scan_run[OF assms(2), of "root_range st" fn] root_range_facts(3)[OF assms(1)] assms(3)
    by (simp add: find_dirent_val_def root_slots_def)
qed

lemma create_dirent_run:
  assumes "inv (fdisk st)" "\<forall>sec \<in> set secs. unat sec < cap" "length fn = 11"
  shows "case List.find (\<lambda>q. ent_free (slot_ent (sector (fdisk st)) q)) (slots_of secs) of
      None \<Rightarrow> run_state (create_dirent io fn c len secs) st = (RC_ERR, st)
    | Some (sec, i) \<Rightarrow> \<exists>d'. run_state (create_dirent io fn c len secs) st = (RC_OK, st\<lparr>fdisk := d'\<rparr>) \<and> inv d'
        \<and> sector d' = (sector (fdisk st))(sec :=
            dirent_set (wr_bytes (sector (fdisk st) sec) (32 * i) (wr_bytes (replicate 32 0) 0 fn)) i c len)"
  using assms(2)
proof (induction secs)
  case (Cons sec secs)
  let ?S = "sector (fdisk st)"
  have free: "free_slot buf = List.find (\<lambda>i. ent_free (dirent buf i)) [0..<16]" for buf
    by (simp add: free_slot_def ent_free_def)
  show ?case
  proof (cases "free_slot (?S sec)")
    case None
    have e: "run_state (create_dirent io fn c len (sec # secs)) st = run_state (create_dirent io fn c len secs) st"
      using rd_sec_run[OF assms(1), of sec] None Cons.prems by simp
    have f: "List.find (\<lambda>q. ent_free (slot_ent ?S q)) (slots_of (sec # secs)) = List.find (\<lambda>q. ent_free (slot_ent ?S q)) (slots_of secs)"
      using None unfolding free slots_of_simps find_free_sector by simp
    show ?thesis unfolding e f by (rule Cons.IH) (use Cons.prems in simp)
  next
    case (Some i)
    let ?b = "dirent_set (wr_bytes (?S sec) (32 * i) (wr_bytes (replicate 32 0) 0 fn)) i c len"
    have i: "i < 16" using Some unfolding free by (rule find_Some_less)
    have ent: "length (wr_bytes (replicate 32 (0 :: u8)) 0 fn) = 32" using assms(3) by (simp add: wr_bytes_def)
    have "length (wr_bytes (?S sec) (32 * i) (wr_bytes (replicate 32 0) 0 fn)) = 512"
      using dirent_wr_bytes(2)[OF sector_length[OF assms(1)] i ent] .
    then have "length ?b = 512" by (simp add: dirent_set_updates)
    then obtain d' where d': "run_state (wr_sec io sec ?b) st = (True, st\<lparr>fdisk := d'\<rparr>)" "inv d'" "sector d' = ?S(sec := ?b)"
      using wr_sec_run[OF assms(1), of sec ?b] Cons.prems by auto
    have "List.find (\<lambda>q. ent_free (slot_ent ?S q)) (slots_of (sec # secs)) = Some (sec, i)"
      using Some unfolding free slots_of_simps find_free_sector by simp
    moreover have "run_state (create_dirent io fn c len (sec # secs)) st = (RC_OK, st\<lparr>fdisk := d'\<rparr>)"
      using rd_sec_run[OF assms(1), of sec] Some d'(1) Cons.prems by (simp add: Let_def rc_of_def)
    ultimately show ?thesis using d'(2,3) by (simp only: option.case prod.case) blast
  qed
qed simp

lemma dir_write:
  assumes l: "fat_layout cap st" and p: "(sec, i) \<in> set (root_slots st)"
    and b: "\<And>j. j < 16 \<Longrightarrow> j \<noteq> i \<Longrightarrow> dirent b j = dirent (S sec) j"
  shows "dir_written st (sec, i) (dirent b i) S (S(sec := b))"
proof -
  have sec: "n_root st \<le> unat sec" "unat sec < n_data st"
    using p root_range_facts(1)[OF l] by (auto simp: root_slots_def set_slots_of)
  have "slot_ent (S(sec := b)) q = ((slot_ent S)((sec, i) := dirent b i)) q" if "q \<in> set (root_slots st)" for q
  proof -
    obtain qs qi where q: "q = (qs, qi)" by (cases q)
    show ?thesis using that b unfolding q by (auto simp: root_slots_def set_slots_of)
  qed
  then show ?thesis using sec by (auto simp: dir_written_def)
qed

lemma store_dirent_run:
  assumes l: "fat_layout cap st" and inv: "inv (fdisk st)" and fn: "length fn = 11"
    and found: "found = map_option (\<lambda>p. (slot_ent (sector (fdisk st)) p, p)) (find_slot (slot_ent (sector (fdisk st))) fn (root_slots st))"
  shows "put_slot (slot_ent (sector (fdisk st))) fn (root_slots st) = None \<Longrightarrow> run_state (store_dirent io fn found c len) st = (RC_ERR, st)"
    and "put_slot (slot_ent (sector (fdisk st))) fn (root_slots st) = Some p \<Longrightarrow>
      \<exists>ent d'. run_state (store_dirent io fn found c len) st = (RC_OK, st\<lparr>fdisk := d'\<rparr>) \<and> inv d'
        \<and> dir_written st p ent (sector (fdisk st)) (sector d')
        \<and> take 11 ent = fn \<and> ent ! 0 = fn ! 0 \<and> dirent_attr ent = 0x20 \<and> dirent_cluster ent = c \<and> dirent_size ent = len"
proof -
  let ?S = "sector (fdisk st)"
  have cap: "\<forall>sec \<in> set (root_range st). unat sec < cap" using root_range_facts(3)[OF l] by blast
  note create = create_dirent_run[OF inv cap fn, folded root_slots_def, of c len]
  show "put_slot (slot_ent ?S) fn (root_slots st) = None \<Longrightarrow> run_state (store_dirent io fn found c len) st = (RC_ERR, st)"
    using create found by (auto simp: put_slot_def store_dirent_def split: option.splits)
  assume put: "put_slot (slot_ent ?S) fn (root_slots st) = Some p"
  obtain sec i where p: "p = (sec, i)" by (cases p)
  have mem: "(sec, i) \<in> set (root_slots st)"
    using put p find_slot_Some by (auto simp: put_slot_def find_Some_iff split: option.splits)
  then have i: "i < 16" and sec: "unat sec < cap" using cap by (auto simp: root_slots_def set_slots_of)
  have len: "length (?S sec) = 512" by (rule sector_length[OF inv])
  show "\<exists>ent d'. run_state (store_dirent io fn found c len) st = (RC_OK, st\<lparr>fdisk := d'\<rparr>) \<and> inv d'
        \<and> dir_written st p ent ?S (sector d')
        \<and> take 11 ent = fn \<and> ent ! 0 = fn ! 0 \<and> dirent_attr ent = 0x20 \<and> dirent_cluster ent = c \<and> dirent_size ent = len"
  proof (cases "find_slot (slot_ent ?S) fn (root_slots st)")
    case None
    let ?b = "wr_bytes (?S sec) (32 * i) (wr_bytes (replicate 32 0) 0 fn)"
    have e: "length (wr_bytes (replicate 32 (0 :: u8)) 0 fn) = 32" using fn by (simp add: wr_bytes_def)
    note b = dirent_wr_bytes[OF len i e]
    have "List.find (\<lambda>q. ent_free (slot_ent ?S q)) (root_slots st) = Some (sec, i)" using put None p by (simp add: put_slot_def)
    then obtain d' where d': "run_state (store_dirent io fn found c len) st = (RC_OK, st\<lparr>fdisk := d'\<rparr>)" "inv d'"
      "sector d' = ?S(sec := dirent_set ?b i c len)"
      using create found None by (simp only: option.case prod.case) (auto simp: store_dirent_def)
    have "dir_written st p (dirent (dirent_set ?b i c len) i) ?S (sector d')"
      unfolding p d'(3) using b(3) by (intro dir_write[OF l mem]) (simp add: dirent_set_other)
    moreover have "take 11 (wr_bytes (replicate 32 (0 :: u8)) 0 fn) = fn" "wr_bytes (replicate 32 (0 :: u8)) 0 fn ! 0 = fn ! 0"
      using fn by (simp_all add: wr_bytes_def nth_append)
    ultimately show ?thesis using d'(1,2) dirent_set_fields[OF b(2) i, of c len] b(1) by (metis)
  next
    case (Some q)
    then have q: "q = (sec, i)" "take 11 (dirent (?S sec) i) = fn"
      using put p find_slot_Some[OF Some] by (auto simp: put_slot_def ent_is_def)
    then have q0: "dirent (?S sec) i ! 0 = fn ! 0" by (metis nth_take zero_less_numeral)
    have "length (dirent_set (?S sec) i c len) = 512" using len by (simp add: dirent_set_updates)
    then obtain d' where d': "run_state (wr_sec io sec (dirent_set (?S sec) i c len)) st = (True, st\<lparr>fdisk := d'\<rparr>)" "inv d'"
      "sector d' = ?S(sec := dirent_set (?S sec) i c len)"
      using wr_sec_run[OF inv sec] by metis
    have "dir_written st p (dirent (dirent_set (?S sec) i c len) i) ?S (sector d')"
      unfolding p d'(3) by (intro dir_write[OF l mem]) (simp add: dirent_set_other)
    moreover have "run_state (store_dirent io fn found c len) st = (RC_OK, st\<lparr>fdisk := d'\<rparr>)"
      using found Some q(1) d'(1) rd_sec_run[OF inv sec] by (simp add: store_dirent_def update_dirent_def rc_of_def)
    ultimately show ?thesis using d'(2) dirent_set_fields[OF len i, of c len] q(2) q0 by metis
  qed
qed

end

end
