(* ===== verification/Fat_Fs.thy ===== *)
theory Fat_Fs
  imports Fat_Dir
begin

text \<open>
  The volume as a map from names to files.  The directory, the chains and the table together hold a map when every name of
  the map has one directory entry, its chain holds its bytes, and no two files share a cluster.  \<^verbatim>\<open>fat_read_file\<close> looks up in
  the map, \<^verbatim>\<open>fat_write_file\<close> updates it and \<^verbatim>\<open>fat_delete_file\<close> removes a name, whatever else is on the volume.
\<close>

unbundle bit_operations_syntax

section \<open>The files of a volume\<close>

type_synonym files = "u8 list \<rightharpoonup> u32 list \<times> u8 list"

definition entry_holds :: "(u32 \<Rightarrow> u8 list) \<Rightarrow> 'd fat \<Rightarrow> u8 list \<Rightarrow> u32 list \<times> u8 list \<Rightarrow> bool" where
  "entry_holds S st ent f \<longleftrightarrow>
     (case f of (cs, bs) \<Rightarrow> length bs < 2 ^ 32 \<and> dirent_size ent = of_nat (length bs)
        \<and> (if bs = [] then cs = [] \<and> dirent_cluster ent < 2
           else chain_holds S st cs bs \<and> distinct cs \<and> hd cs = dirent_cluster ent))"

definition chain_of :: "files \<Rightarrow> u8 list \<Rightarrow> u32 set" where
  "chain_of F fn = (case F fn of None \<Rightarrow> {} | Some (cs, _) \<Rightarrow> set cs)"

definition fs_holds :: "(u32 \<Rightarrow> u8 list) \<Rightarrow> 'd fat \<Rightarrow> files \<Rightarrow> bool" where
  "fs_holds S st F \<longleftrightarrow>
     dir_ok (slot_ent S) (root_slots st)
     \<and> (\<forall>fn. case F fn of None \<Rightarrow> find_slot (slot_ent S) fn (root_slots st) = None
          | Some f \<Rightarrow> \<exists>p. find_slot (slot_ent S) fn (root_slots st) = Some p \<and> entry_holds S st (slot_ent S p) f)
     \<and> (\<forall>fn fn'. fn \<noteq> fn' \<longrightarrow> chain_of F fn \<inter> chain_of F fn' = {})"

lemma fdisk_update_fs [simp]:
  "entry_holds S (st\<lparr>fdisk := d\<rparr>) ent f = entry_holds S st ent f" "fs_holds S (st\<lparr>fdisk := d\<rparr>) F = fs_holds S st F"
proof -
  show *: "entry_holds S (st\<lparr>fdisk := d\<rparr>) ent f = entry_holds S st ent f" for ent f by (simp add: entry_holds_def)
  show "fs_holds S (st\<lparr>fdisk := d\<rparr>) F = fs_holds S st F" by (simp add: fs_holds_def * cong: option.case_cong)
qed

lemma fs_holds_at:
  "fs_holds S st F \<Longrightarrow> (case F fn of None \<Rightarrow> find_slot (slot_ent S) fn (root_slots st) = None
     | Some f \<Rightarrow> \<exists>p. find_slot (slot_ent S) fn (root_slots st) = Some p \<and> entry_holds S st (slot_ent S p) f)"
  unfolding fs_holds_def by blast

lemma fs_holds_Some:
  assumes "fs_holds S st F" "F fn = Some f"
  obtains p where "find_slot (slot_ent S) fn (root_slots st) = Some p" "entry_holds S st (slot_ent S p) f"
  using fs_holds_at[OF assms(1), of fn] assms(2) by auto

lemma fs_holds_None: "fs_holds S st F \<Longrightarrow> F fn = None \<Longrightarrow> find_slot (slot_ent S) fn (root_slots st) = None"
  using fs_holds_at[of S st F fn] by simp

lemma fs_holds_find: "fs_holds S st F \<Longrightarrow> find_slot (slot_ent S) fn (root_slots st) = None \<longleftrightarrow> F fn = None"
  using fs_holds_at[of S st F fn] by (cases "F fn") auto

lemma chain_of_used:
  assumes "fat_layout cap st" "fs_holds S st F"
  shows "chain_of F fn \<inter> free_clusters S st = {}" "fn \<noteq> fn' \<Longrightarrow> chain_of F fn \<inter> chain_of F fn' = {}"
proof -
  show "chain_of F fn \<inter> free_clusters S st = {}"
  proof (cases "F fn")
    case (Some f)
    obtain p where "entry_holds S st (slot_ent S p) f" using fs_holds_Some[OF assms(2) Some] by blast
    then show ?thesis using Some chain_holds_used[OF assms(1), of S]
      by (auto simp: chain_of_def entry_holds_def split: if_splits)
  qed (simp add: chain_of_def)
  show "fn \<noteq> fn' \<Longrightarrow> chain_of F fn \<inter> chain_of F fn' = {}" using assms(2) unfolding fs_holds_def by blast
qed

lemma entry_holds_keeps: "entry_holds S st ent (cs, bs) \<Longrightarrow> vol_keeps st C S S' \<Longrightarrow> set cs \<inter> C = {} \<Longrightarrow> entry_holds S' st ent (cs, bs)"
  using chain_holds_keeps by (auto simp: entry_holds_def)

lemma dir_written_keeps: "fat_layout cap st \<Longrightarrow> dir_written st p ent S S' \<Longrightarrow> chain_holds S st cs bs \<Longrightarrow> chain_holds S' st cs bs"
proof (induction S st cs bs rule: chain_holds.induct)
  case (2 S st c cs bs)
  note l = 2(2) and w = 2(3)
  have c: "cluster_ok st c" using 2(4) by simp
  have out: "S' l = S l" if "unat l < n_root st \<or> n_data st \<le> unat l" for l using w that unfolding dir_written_def by (metis not_le)
  have "fat_table S' st c = fat_table S st c" using out by (intro fat_table_cong[OF l c]) blast
  moreover have "cluster_bytes S' st c = cluster_bytes S st c"
    unfolding cluster_bytes_def using cluster_sector_index(1)[OF l c] by (intro run_bytes_cong out) simp
  ultimately show ?case using 2 by (auto split: if_splits)
qed simp

lemma entry_holds_dir_written:
  "fat_layout cap st \<Longrightarrow> dir_written st p ent' S S' \<Longrightarrow> entry_holds S st ent f \<Longrightarrow> entry_holds S' st ent f"
  using dir_written_keeps by (fastforce simp: entry_holds_def split: prod.splits)

lemma find_slot_cong: "(\<And>q. q \<in> set ps \<Longrightarrow> E' q = E q) \<Longrightarrow> find_slot E' fn ps = find_slot E fn ps"
  by (induction ps) auto

lemma dir_ok_cong: "(\<And>q. q \<in> set ps \<Longrightarrow> E' q = E q) \<Longrightarrow> dir_ok E' ps = dir_ok E ps"
  using tail_zero_cong[of ps E' E] by (simp add: dir_ok_def unique_names_def)

lemma vol_keeps_slots: "fat_layout cap st \<Longrightarrow> vol_keeps st C S S' \<Longrightarrow> q \<in> set (root_slots st) \<Longrightarrow> slot_ent S' q = slot_ent S q"
  using root_range_facts(1)[of cap st] by (auto simp: slot_ent_def root_slots_def set_slots_of vol_keeps_def)

text \<open>Changing clusters of one file or free ones, and then one directory entry, changes one name of the map.\<close>

lemma fs_step:
  assumes l: "fat_layout cap st" and fs: "fs_holds S st F" and k: "vol_keeps st C S S1"
    and C: "\<And>fn'. fn' \<noteq> fn \<Longrightarrow> chain_of F fn' \<inter> C = {}" and w: "dir_written st p ent S1 S'"
    and ok: "dir_ok ((slot_ent S)(p := ent)) (root_slots st)"
    and find: "\<And>fn'. fn' \<noteq> fn \<Longrightarrow> find_slot ((slot_ent S)(p := ent)) fn' (root_slots st) = find_slot (slot_ent S) fn' (root_slots st)"
    and other: "\<And>fn'. fn' \<noteq> fn \<Longrightarrow> find_slot (slot_ent S) fn' (root_slots st) \<noteq> Some p"
    and F': "\<And>fn'. fn' \<noteq> fn \<Longrightarrow> F' fn' = F fn'" "chain_of F' fn \<subseteq> C"
    and new: "case F' fn of None \<Rightarrow> find_slot ((slot_ent S)(p := ent)) fn (root_slots st) = None
      | Some f \<Rightarrow> find_slot ((slot_ent S)(p := ent)) fn (root_slots st) = Some p \<and> entry_holds S' st ent f"
  shows "fs_holds S' st F'"
proof -
  define E' where "E' = (slot_ent S)(p := ent)"
  note ok = ok[folded E'_def] and find = find[folded E'_def] and new = new[folded E'_def]
  have E'p: "E' p = ent" "q \<noteq> p \<Longrightarrow> E' q = slot_ent S q" for q by (simp_all add: E'_def)
  have E: "slot_ent S' q = E' q" if "q \<in> set (root_slots st)" for q
    using w vol_keeps_slots[OF l k that] that by (auto simp: dir_written_def E'_def)
  have fc: "find_slot (slot_ent S') f (root_slots st) = find_slot E' f (root_slots st)" for f by (rule find_slot_cong) (rule E)
  have "case F' fn' of None \<Rightarrow> find_slot (slot_ent S') fn' (root_slots st) = None
      | Some f \<Rightarrow> \<exists>q. find_slot (slot_ent S') fn' (root_slots st) = Some q \<and> entry_holds S' st (slot_ent S' q) f" for fn'
  proof (cases "fn' = fn")
    case True
    show ?thesis
    proof (cases "F' fn")
      case (Some f)
      then have p: "find_slot E' fn (root_slots st) = Some p" "entry_holds S' st ent f" using new by simp_all
      then have "slot_ent S' p = ent" using E E'p find_slot_Some[OF p(1)] by simp
      then show ?thesis using True Some p fc by simp
    qed (use True new fc in simp)
  next
    case False
    show ?thesis
    proof (cases "F fn'")
      case (Some f)
      obtain q where q: "find_slot (slot_ent S) fn' (root_slots st) = Some q" "entry_holds S st (slot_ent S q) f"
        using fs_holds_Some[OF fs Some] by blast
      have "slot_ent S' q = slot_ent S q" using E E'p other[OF False] q(1) find_slot_Some[OF q(1)] by (cases "q = p") simp_all
      moreover have "entry_holds S1 st (slot_ent S q) f"
        using entry_holds_keeps[of S st _ "fst f" "snd f", OF _ k] q(2) C[OF False] Some
        by (simp add: chain_of_def split: prod.splits)
      ultimately show ?thesis
        using False F'(1) Some q(1) find fc entry_holds_dir_written[OF l w] by simp
    qed (use False F'(1) find fs_holds_None[OF fs, of fn'] fc in simp)
  qed
  moreover have "dir_ok (slot_ent S') (root_slots st)" using ok dir_ok_cong[of "root_slots st", OF E] by simp
  moreover have "chain_of F' f \<inter> chain_of F' f' = {}" if "f \<noteq> f'" for f f'
  proof -
    have same: "chain_of F' f = chain_of F f" if "f \<noteq> fn" for f using F'(1)[OF that] by (simp add: chain_of_def)
    show ?thesis using that same C F'(2) chain_of_used(2)[OF l fs that] by (cases "f = fn"; cases "f' = fn") (simp_all, blast+)
  qed
  ultimately show ?thesis unfolding fs_holds_def by blast
qed

section \<open>Reading, writing and deleting files\<close>

text \<open>There is room for the file: clusters that are free or belong to the old file, and a directory slot.\<close>

definition file_fits :: "(u32 \<Rightarrow> u8 list) \<Rightarrow> 'd fat \<Rightarrow> files \<Rightarrow> u8 list \<Rightarrow> u8 list \<Rightarrow> bool" where
  "file_fits S st F fn bs \<longleftrightarrow>
     length bs \<le> card (free_clusters S st \<union> chain_of F fn) * bpc st \<and> put_slot (slot_ent S) fn (root_slots st) \<noteq> None"

lemma guard_clusters: "fat_layout cap st \<Longrightarrow> unat (total_clusters st + 2) = n_clusters st + 2"
  by (subst unat_add_small) (simp_all add: fat_layout_def)

lemma put_slot_cong:
  assumes "\<And>q. q \<in> set ps \<Longrightarrow> E' q = E q"
  shows "put_slot E' fn ps = put_slot E fn ps"
proof -
  have f: "List.find (\<lambda>q. ent_free (E' q)) ps = List.find (\<lambda>q. ent_free (E q)) ps" using assms by (intro find_cong) auto
  have g: "find_slot E' fn ps = find_slot E fn ps" using assms by (rule find_slot_cong)
  show ?thesis unfolding put_slot_def f g ..
qed

lemma fs_write:
  assumes l: "fat_layout cap st" and fs: "fs_holds S st F" and k: "vol_keeps st (free_clusters S st \<union> chain_of F fn) S S1"
    and put: "put_slot (slot_ent S) fn (root_slots st) = Some p" and w: "dir_written st p ent S1 S'"
    and ent: "ent ! 0 \<noteq> 0" "ent_is fn ent" and f: "entry_holds S' st ent (cs, bs)" "set cs \<subseteq> free_clusters S st \<union> chain_of F fn"
  shows "fs_holds S' st (F(fn \<mapsto> (cs, bs)))"
proof -
  have ok: "dir_ok (slot_ent S) (root_slots st)" using fs by (simp add: fs_holds_def)
  note dp = dir_put[OF ok put ent]
  have "find_slot (slot_ent S) fn' (root_slots st) \<noteq> Some p" if "fn' \<noteq> fn" for fn'
    using dp(3)[of fn'] find_slot_Some[of "(slot_ent S)(p := ent)" fn' "root_slots st" p] ent_is_unique[OF ent(2), of fn'] that
    by auto
  moreover have "chain_of F fn' \<inter> (free_clusters S st \<union> chain_of F fn) = {}" if "fn' \<noteq> fn" for fn'
    using chain_of_used(1)[OF l fs, of fn'] chain_of_used(2)[OF l fs that] by blast
  ultimately show ?thesis using fs_step[OF l fs k _ w dp(1), of fn "F(fn \<mapsto> (cs, bs))"] dp(3) f by (simp add: chain_of_def)
qed

lemma fs_delete:
  assumes l: "fat_layout cap st" and fs: "fs_holds S st F" and k: "vol_keeps st (chain_of F fn) S S1"
    and p: "find_slot (slot_ent S) fn (root_slots st) = Some p" and w: "dir_written st p ent S1 S'" and ent: "ent ! 0 = 0xE5"
  shows "fs_holds S' st (F(fn := None))"
proof -
  have ok: "dir_ok (slot_ent S) (root_slots st)" using fs by (simp add: fs_holds_def)
  note dd = dir_delete[OF ok p ent]
  have "find_slot (slot_ent S) fn' (root_slots st) \<noteq> Some p" if "fn' \<noteq> fn" for fn'
    using find_slot_Some[OF p] find_slot_Some[of "slot_ent S" fn' "root_slots st" p] ent_is_unique that by blast
  moreover have "chain_of F fn' \<inter> chain_of F fn = {}" if "fn' \<noteq> fn" for fn'
    using chain_of_used(2)[OF l fs that] .
  ultimately show ?thesis using fs_step[OF l fs k _ w dd(1), of fn "F(fn := None)"] dd(2) by (simp add: chain_of_def)
qed

context fat_volume
begin

lemma fat_read_file_run:
  assumes l: "fat_layout cap st" and inv: "inv (fdisk st)" and fn: "filename_to_fat name = Some fn"
    and fs: "fs_holds (sector (fdisk st)) st F" and f: "F fn = Some (cs, bs)"
  shows "run_state (fat_read_file io name max_len) st = ((take (unat max_len) bs, of_nat (length bs), True), st)"
proof -
  let ?S = "sector (fdisk st)"
  obtain p where p: "find_slot (slot_ent ?S) fn (root_slots st) = Some p" "entry_holds ?S st (slot_ent ?S p) (cs, bs)"
    using fs_holds_Some[OF fs f] by blast
  have size: "dirent_size (slot_ent ?S p) = of_nat (length bs)" "unat (of_nat (length bs) :: u32) = length bs"
    using p(2) by (auto simp: entry_holds_def unat_of_nat_small)
  note find = find_dirent_run[OF l inv fn]
  show ?thesis
  proof (cases "max_len = 0 \<or> bs = []")
    case True
    then show ?thesis using find p(1) size by (auto simp: fat_read_file_def)
  next
    case False
    then have ch: "chain_holds ?S st cs bs" "distinct cs" "hd cs = dirent_cluster (slot_ent ?S p)"
      using p(2) by (auto simp: entry_holds_def)
    have nz: "of_nat (length bs) \<noteq> (0 :: u32)" using size(2) False by (metis length_greater_0_conv less_irrefl unsigned_0)
    have "length cs \<le> unat (total_clusters st + 2)" using chain_length[OF ch(1,2)] guard_clusters[OF l] by simp
    then have "run_state (read_chain io (dirent_cluster (slot_ent ?S p)) n (unat (total_clusters st + 2))) st = ((take n bs, True), st)"
      if "n \<le> length bs" for n using read_chain_run[OF l inv ch(1)] that ch(3) by simp
    then show ?thesis using find p(1) size False nz by (auto simp: fat_read_file_def Let_def word_less_nat_alt)
  qed
qed

lemma fat_read_file_absent:
  assumes "fat_layout cap st" "inv (fdisk st)" "filename_to_fat name = Some fn"
    and "fs_holds (sector (fdisk st)) st F" "F fn = None"
  shows "run_state (fat_read_file io name max_len) st = (([], 0, False), st)"
  using find_dirent_run[OF assms(1-3)] fs_holds_None[OF assms(4,5)] by (simp add: fat_read_file_def)

lemma free_old_run:
  assumes l: "fat_layout cap st" and inv: "inv (fdisk st)" and fs: "fs_holds (sector (fdisk st)) st F" and f: "F fn = Some (cs, bs)"
    and p: "entry_holds (sector (fdisk st)) st ent (cs, bs)"
  shows "\<exists>d'. run_state (if 2 \<le> dirent_cluster ent then free_cluster_chain io (dirent_cluster ent) else return ()) st = ((), st\<lparr>fdisk := d'\<rparr>)
    \<and> inv d' \<and> vol_keeps st (chain_of F fn) (sector (fdisk st)) (sector d')
    \<and> free_clusters (sector d') st = free_clusters (sector (fdisk st)) st \<union> chain_of F fn"
proof (cases "bs = []")
  case True
  then have "\<not> 2 \<le> dirent_cluster ent" "chain_of F fn = {}" using p f by (auto simp: entry_holds_def chain_of_def not_le)
  then show ?thesis using inv by (intro exI[of _ "fdisk st"]) simp
next
  case False
  then have ch: "chain_holds (sector (fdisk st)) st cs bs" "distinct cs" "hd cs = dirent_cluster ent"
    using p by (auto simp: entry_holds_def)
  have "cs \<noteq> []" using ch(1) by auto
  then have hd: "2 \<le> hd cs" using chain_holds_ok[OF ch(1)] eoc_facts(2)[OF l] by simp
  have "length cs \<le> unat (total_clusters st + 2)" using chain_length[OF ch(1,2)] guard_clusters[OF l] by simp
  then obtain d' where d': "run_state (free_cluster_chain io (hd cs)) st = ((), st\<lparr>fdisk := d'\<rparr>)" "inv d'"
    "vol_keeps st (set cs) (sector (fdisk st)) (sector d')" "\<forall>c \<in> set cs. fat_table (sector d') st c = 0"
    using free_chain_loop_run[OF l inv ch(1,2)] by (auto simp: free_cluster_chain_def)
  have C: "chain_of F fn = set cs" using f by (simp add: chain_of_def)
  have "free_clusters (sector d') st = free_clusters (sector (fdisk st)) st \<union> set cs"
    using d'(4) vol_keepsD(1)[OF d'(3)] chain_holds_ok[OF ch(1)] unfolding free_clusters_def by auto
  then show ?thesis using d' ch(3) hd C by auto
qed

lemma store_file_run:
  assumes l: "fat_layout cap st" and inv: "inv d" and fs: "fs_holds S st F" and fn: "length fn = 11" "fn ! 0 \<noteq> 0" "fn ! 0 \<noteq> 0xE5"
    and k: "vol_keeps st (free_clusters S st \<union> chain_of F fn) S (sector d)" and len: "length bs < 2 ^ 32"
    and c: "if bs = [] then cs = [] \<and> c < 2 else chain_holds (sector d) st cs bs \<and> distinct cs \<and> hd cs = c"
    and cs: "set cs \<subseteq> free_clusters S st \<union> chain_of F fn"
    and found: "found = map_option (\<lambda>p. (slot_ent S p, p)) (find_slot (slot_ent S) fn (root_slots st))"
  shows "\<exists>rc d'. run_state (store_dirent io fn found c (of_nat (length bs))) (st\<lparr>fdisk := d\<rparr>) = (rc, st\<lparr>fdisk := d'\<rparr>) \<and> inv d'
    \<and> rc \<noteq> RC_DIVERGES \<and> (rc = RC_OK \<longrightarrow> fs_holds (sector d') st (F(fn \<mapsto> (cs, bs))))
    \<and> (put_slot (slot_ent S) fn (root_slots st) \<noteq> None \<longrightarrow> rc = RC_OK)"
proof -
  let ?st = "st\<lparr>fdisk := d\<rparr>"
  have E: "slot_ent (sector d) q = slot_ent S q" if "q \<in> set (root_slots st)" for q using vol_keeps_slots[OF l k that] .
  have find: "find_slot (slot_ent (sector d)) fn (root_slots st) = find_slot (slot_ent S) fn (root_slots st)"
    by (rule find_slot_cong) (rule E)
  have put: "put_slot (slot_ent (sector d)) fn (root_slots st) = put_slot (slot_ent S) fn (root_slots st)"
    by (rule put_slot_cong) (rule E)
  have found': "found = map_option (\<lambda>p. (slot_ent (sector (fdisk ?st)) p, p)) (find_slot (slot_ent (sector (fdisk ?st))) fn (root_slots ?st))"
    using found find E find_slot_Some[of "slot_ent S" fn "root_slots st"] by (cases "find_slot (slot_ent S) fn (root_slots st)") auto
  have l': "fat_layout cap ?st" "inv (fdisk ?st)" using l inv by simp_all
  note store = store_dirent_run[OF l' fn(1) found', where c = c and len = "of_nat (length bs)", simplified, unfolded put]
  show ?thesis
  proof (cases "put_slot (slot_ent S) fn (root_slots st)")
    case None
    then show ?thesis using store(1) inv by auto
  next
    case (Some p)
    obtain ent d' where d': "run_state (store_dirent io fn found c (of_nat (length bs))) ?st = (RC_OK, st\<lparr>fdisk := d'\<rparr>)" "inv d'"
      "dir_written st p ent (sector d) (sector d')" "take 11 ent = fn" "ent ! 0 = fn ! 0" "dirent_attr ent = 0x20"
      "dirent_cluster ent = c" "dirent_size ent = of_nat (length bs)"
      using store(2)[OF Some] by blast
    have "ent_is fn ent" using d'(4-6) fn(3) by (simp add: ent_is_def dirent_live_def)
    moreover have "entry_holds (sector d) st ent (cs, bs)" using d'(7,8) len c by (simp add: entry_holds_def split: if_splits)
    then have "entry_holds (sector d') st ent (cs, bs)" by (rule entry_holds_dir_written[OF l d'(3)])
    ultimately have "fs_holds (sector d') st (F(fn \<mapsto> (cs, bs)))"
      using fs_write[OF l fs k Some d'(3)] d'(5) fn(2) cs by simp
    then show ?thesis using d'(1,2) by auto
  qed
qed

lemma write_data_run:
  assumes l: "fat_layout cap st" and inv: "inv d" and fs: "fs_holds S st F" and fn: "length fn = 11" "fn ! 0 \<noteq> 0" "fn ! 0 \<noteq> 0xE5"
    and C: "C = free_clusters S st \<union> chain_of F fn" and k: "vol_keeps st C S (sector d)" and free: "free_clusters (sector d) st = C"
    and bs: "bs \<noteq> []" "length bs < 2 ^ 32"
    and found: "found = map_option (\<lambda>p. (slot_ent S p, p)) (find_slot (slot_ent S) fn (root_slots st))"
  shows "\<exists>rc d'. run_state (do {
       first_cluster \<leftarrow> allocate_cluster io;
       if first_cluster < 2 then return RC_ERR
       else do {
         rc \<leftarrow> write_chain io first_cluster bs (Suc (length bs));
         if rc = RC_OK then store_dirent io fn found first_cluster (of_nat (length bs)) else return rc } })
       (st\<lparr>fdisk := d\<rparr>) = (rc, st\<lparr>fdisk := d'\<rparr>) \<and> inv d'
    \<and> rc \<noteq> RC_DIVERGES \<and> (rc = RC_OK \<longrightarrow> (\<exists>cs. fs_holds (sector d') st (F(fn \<mapsto> (cs, bs))))) \<and> (file_fits S st F fn bs \<longrightarrow> rc = RC_OK)"
proof -
  have l': "fat_layout cap (st\<lparr>fdisk := d\<rparr>)" "inv (fdisk (st\<lparr>fdisk := d\<rparr>))" using l inv by simp_all
  show ?thesis
  proof (cases rule: allocate_cluster_run[OF l', case_names full found])
    case full
    then have "C = {}" using free by simp
    then have "\<not> file_fits S st F fn bs" using bs(1) C by (simp add: file_fits_def)
    then show ?thesis using full inv by auto
  next
    case (found c d1)
    then have c: "c \<in> C" "cluster_ok st c" "fat_table (sector d1) st c = eoc_marker st" "vol_keeps st {c} (sector d) (sector d1)"
      using free by (auto simp: allocated_def free_clusters_def)
    have free1: "free_clusters (sector d1) st = C - {c}" using allocated_free[of st c "sector d" "sector d1"] found(3) free by simp
    obtain rc d2 where d2: "run_state (write_chain io c bs (Suc (length bs))) (st\<lparr>fdisk := d1\<rparr>) = (rc, st\<lparr>fdisk := d2\<rparr>)" "inv d2"
      "chain_written st c bs (sector d1) (sector d2) rc"
      using write_chain_run[of "st\<lparr>fdisk := d1\<rparr>" c bs "Suc (length bs)"] l found(2) c bs(1) eoc_marker_facts(3)[of st]
      by (auto simp del: write_chain.simps)
    have "vol_keeps st C (sector d) (sector d1)" "vol_keeps st C (sector d1) (sector d2)"
      using c(1,4) d2(3) free1 by (auto simp: chain_written_def elim!: vol_keeps_mono)
    then have k2: "vol_keeps st C S (sector d2)" using k by (blast intro: vol_keeps_trans)
    have c2: "\<not> c < 2" using eoc_facts(2)[OF l c(2)] by (simp add: not_less)
    have fits: "rc = RC_OK" if "file_fits S st F fn bs"
    proof -
      have "finite C" using C free free_clusters_finite by metis
      then have "card C = Suc (card (C - {c}))" using c(1) card_Suc_Diff1 by metis
      then show ?thesis using that d2(3) free1 C by (simp add: file_fits_def chain_written_def)
    qed
    show ?thesis
    proof (cases "rc = RC_OK")
      case True
      then obtain cs where cs: "chain_holds (sector d2) st (c # cs) bs" "distinct (c # cs)" "set cs \<subseteq> C - {c}"
        using d2(3) free1 by (auto simp: chain_written_def simp del: chain_holds.simps)
      then have "if bs = [] then c # cs = [] \<and> c < 2 else chain_holds (sector d2) st (c # cs) bs \<and> distinct (c # cs) \<and> hd (c # cs) = c"
        using bs(1) by simp
      from store_file_run[OF l d2(2) fs fn k2[unfolded C] bs(2) this _ assms(12)] cs(3) c(1) C
      obtain rc' d' where d': "run_state (store_dirent io fn found c (of_nat (length bs))) (st\<lparr>fdisk := d2\<rparr>) = (rc', st\<lparr>fdisk := d'\<rparr>)"
        "inv d'" "rc' \<noteq> RC_DIVERGES" "rc' = RC_OK \<longrightarrow> fs_holds (sector d') st (F(fn \<mapsto> (c # cs, bs)))"
        "put_slot (slot_ent S) fn (root_slots st) \<noteq> None \<longrightarrow> rc' = RC_OK" by auto
      have "file_fits S st F fn bs \<longrightarrow> rc' = RC_OK" using d'(5) by (simp add: file_fits_def)
      then show ?thesis using found(1) d2(1) True d'(1-4) c2 by (auto simp del: write_chain.simps)
    next
      case False
      then have "rc \<noteq> RC_DIVERGES" using d2(3) by (simp add: chain_written_def)
      then show ?thesis using found(1) d2(1,2) False c2 fits by (auto simp del: write_chain.simps)
    qed
  qed
qed

lemma fat_write_file_run:
  assumes l: "fat_layout cap st" and inv: "inv (fdisk st)" and fn: "filename_to_fat name = Some fn" "fn ! 0 \<noteq> 0" "fn ! 0 \<noteq> 0xE5"
    and fs: "fs_holds (sector (fdisk st)) st F" and len: "length bs < 2 ^ 32"
  shows "\<exists>rc d'. run_state (fat_write_file io name bs) st = (rc, st\<lparr>fdisk := d'\<rparr>) \<and> inv d'
    \<and> rc \<noteq> RC_DIVERGES \<and> (rc = RC_OK \<longrightarrow> (\<exists>cs. fs_holds (sector d') st (F(fn \<mapsto> (cs, bs)))))
    \<and> (file_fits (sector (fdisk st)) st F fn bs \<longrightarrow> rc = RC_OK)"
proof -
  let ?S = "sector (fdisk st)"
  let ?C = "free_clusters ?S st \<union> chain_of F fn"
  define found where "found = map_option (\<lambda>p. (slot_ent ?S p, p)) (find_slot (slot_ent ?S) fn (root_slots st))"
  have m: "fs_mounted st" using l by (simp add: fat_layout_def)
  obtain d1 where d1: "run_state (case found of
        Some (ent, _, _) \<Rightarrow> if 2 \<le> dirent_cluster ent then free_cluster_chain io (dirent_cluster ent) else return ()
      | None \<Rightarrow> return ()) st = ((), st\<lparr>fdisk := d1\<rparr>)" "inv d1" "vol_keeps st (chain_of F fn) ?S (sector d1)" "free_clusters (sector d1) st = ?C"
  proof (cases "F fn")
    case None
    then have "found = None" "chain_of F fn = {}" using fs_holds_None[OF fs] by (simp_all add: found_def chain_of_def)
    then show ?thesis using inv by (intro that[of "fdisk st"]) simp_all
  next
    case (Some f)
    obtain p where p: "find_slot (slot_ent ?S) fn (root_slots st) = Some p" "entry_holds ?S st (slot_ent ?S p) f"
      using fs_holds_Some[OF fs Some] by blast
    then show ?thesis using free_old_run[OF l inv fs, of fn "fst f" "snd f" "slot_ent ?S p"] Some that by (auto simp: found_def)
  qed
  have k: "vol_keeps st ?C ?S (sector d1)" using d1(3) by (rule vol_keeps_mono) blast
  note len11 = filename_to_fat_length[OF fn(1)]
  have run: "run_state (fat_write_file io name bs) st = run_state (if bs = [] then store_dirent io fn found 0 0
      else do {
       first_cluster \<leftarrow> allocate_cluster io;
       if first_cluster < 2 then return RC_ERR
       else do {
         rc \<leftarrow> write_chain io first_cluster bs (Suc (length bs));
         if rc = RC_OK then store_dirent io fn found first_cluster (of_nat (length bs)) else return rc } }) (st\<lparr>fdisk := d1\<rparr>)"
    using m fn(1) find_dirent_run[OF l inv fn(1), folded found_def] d1(1) by (simp add: fat_write_file_def del: write_chain.simps)
  show ?thesis
  proof (cases "bs = []")
    case True
    have "if bs = [] then [] = [] \<and> 0 < (2 :: u32) else chain_holds (sector d1) st [] bs \<and> distinct [] \<and> hd [] = (0 :: u32)" using True by simp
    from store_file_run[OF l d1(2) fs len11 fn(2,3) k len this _ found_def] True run show ?thesis
      by (auto simp: file_fits_def)
  next
    case False
    then show ?thesis using run write_data_run[OF l d1(2) fs len11 fn(2,3) refl k d1(4) False len found_def] by (simp del: write_chain.simps)
  qed
qed

lemma fat_delete_file_run:
  assumes l: "fat_layout cap st" and inv: "inv (fdisk st)" and fn: "filename_to_fat name = Some fn"
    and fs: "fs_holds (sector (fdisk st)) st F"
  shows "F fn = None \<Longrightarrow> run_state (fat_delete_file io name) st = (RC_ERR, st)"
    and "F fn = Some f \<Longrightarrow> \<exists>d'. run_state (fat_delete_file io name) st = (RC_OK, st\<lparr>fdisk := d'\<rparr>) \<and> inv d'
      \<and> fs_holds (sector d') st (F(fn := None))"
proof -
  let ?S = "sector (fdisk st)"
  note find = find_dirent_run[OF l inv fn]
  show "F fn = None \<Longrightarrow> run_state (fat_delete_file io name) st = (RC_ERR, st)"
    using find fs_holds_None[OF fs] by (simp add: fat_delete_file_def)
  assume f: "F fn = Some f"
  obtain p where p: "find_slot (slot_ent ?S) fn (root_slots st) = Some p" "entry_holds ?S st (slot_ent ?S p) f"
    using fs_holds_Some[OF fs f] by blast
  obtain sec i where pi: "p = (sec, i)" by (cases p)
  have mem: "(sec, i) \<in> set (root_slots st)" using find_slot_Some[OF p(1)] pi by simp
  then have sec: "unat sec < cap" "i < 16" using root_range_facts(3)[OF l] by (auto simp: root_slots_def set_slots_of)
  obtain d1 where d1: "run_state (if 2 \<le> dirent_cluster (slot_ent ?S p) then free_cluster_chain io (dirent_cluster (slot_ent ?S p))
      else return ()) st = ((), st\<lparr>fdisk := d1\<rparr>)" "inv d1" "vol_keeps st (chain_of F fn) ?S (sector d1)"
    using free_old_run[OF l inv fs, of fn "fst f" "snd f" "slot_ent ?S p"] f p(2) by auto
  have len: "length (sector d1 sec) = 512" by (rule sector_length[OF d1(2)])
  obtain d2 where d2: "run_state (wr_sec io sec ((sector d1 sec)[32 * i := 0xE5])) (st\<lparr>fdisk := d1\<rparr>) = (True, st\<lparr>fdisk := d2\<rparr>)" "inv d2"
    "sector d2 = (sector d1)(sec := (sector d1 sec)[32 * i := 0xE5])"
    using wr_sec_run[of "st\<lparr>fdisk := d1\<rparr>" sec "(sector d1 sec)[32 * i := 0xE5]"] d1(2) sec(1) len by auto
  have "dir_written st p (dirent ((sector d1 sec)[32 * i := 0xE5]) i) (sector d1) (sector d2)"
    unfolding pi d2(3) using dirent_update_other[of 0 i] by (intro dir_write[OF l mem]) simp
  moreover have "dirent ((sector d1 sec)[32 * i := 0xE5]) i ! 0 = 0xE5"
    using dirent_update[of 0 "sector d1 sec" i "0xE5"] dirent_length[OF len sec(2)] by simp
  ultimately have "fs_holds (sector d2) st (F(fn := None))" using fs_delete[OF l fs d1(3) p(1)] by blast
  moreover have "run_state (fat_delete_file io name) st = (RC_OK, st\<lparr>fdisk := d2\<rparr>)"
    using find p(1) d1(1) d2(1) pi rd_sec_run[of "st\<lparr>fdisk := d1\<rparr>" sec] d1(2) sec(1)
    by (cases "2 \<le> dirent_cluster (slot_ent ?S p)") (simp_all add: fat_delete_file_def rc_of_def)
  ultimately show "\<exists>d'. run_state (fat_delete_file io name) st = (RC_OK, st\<lparr>fdisk := d'\<rparr>) \<and> inv d' \<and> fs_holds (sector d') st (F(fn := None))"
    using d2(2) by blast
qed

text \<open>What \<^verbatim>\<open>fat_read_file\<close> returns is the map.\<close>

lemma fat_read_file_result:
  assumes "fat_layout cap st" "inv (fdisk st)" "filename_to_fat name = Some fn" "fs_holds (sector (fdisk st)) st F"
  shows "run_state (fat_read_file io name max_len) st =
    ((case F fn of None \<Rightarrow> ([], 0, False) | Some (cs, bs) \<Rightarrow> (take (unat max_len) bs, of_nat (length bs), True)), st)"
  using fat_read_file_run[OF assms] fat_read_file_absent[OF assms] by (cases "F fn") auto

end

lemma fs_holds_empty:
  assumes "fat_layout cap st" "\<And>sec. sec \<in> set (root_range st) \<Longrightarrow> S sec = replicate 512 0"
  shows "fs_holds S st Map.empty"
proof -
  have z: "slot_ent S q ! 0 = 0" if "q \<in> set (root_slots st)" for q
    using that assms(2) by (auto simp: root_slots_def set_slots_of slot_ent_def dirent_def)
  then have "dir_ok (slot_ent S) (root_slots st)"
    using root_range_facts(2)[OF assms(1)] tail_zero_all_zero[of "root_slots st" "slot_ent S"]
    by (auto simp: dir_ok_def root_slots_def slots_of_distinct unique_names_def)
  then show ?thesis using z find_slot_all_zero[of "root_slots st" "slot_ent S"] by (simp add: fs_holds_def chain_of_def)
qed

text \<open>C3. A file written is the file read, and no other file changes: on a volume whose directory, chains and allocation table
  hold the files \<open>F\<close>, \<^verbatim>\<open>fat_write_file\<close> always returns, it succeeds when the clusters that are free or belong to the old file of
  that name are enough and the directory has a slot, and after it succeeded the volume holds \<open>F\<close> updated at that name:
  \<^verbatim>\<open>fat_read_file\<close> of the name gives exactly the bytes written, and of every other name what it gave before.\<close>

theorem fat_write_file_correct:
  assumes "fat_volume ready cap sector io" and "ready (fdisk st)" and "fat_layout cap st" and "fs_holds (sector (fdisk st)) st F"
    and "filename_to_fat name = Some fn" and "fn ! 0 \<noteq> 0" and "fn ! 0 \<noteq> 0xE5" and "length bs < 2 ^ 32"
  shows "\<exists>rc st'. run_state (fat_write_file io name bs) st = (rc, st') \<and> rc \<noteq> RC_DIVERGES
    \<and> (file_fits (sector (fdisk st)) st F fn bs \<longrightarrow> rc = RC_OK)
    \<and> (rc = RC_OK \<longrightarrow> (\<exists>cs. fs_holds (sector (fdisk st')) st' (F(fn \<mapsto> (cs, bs))))
        \<and> (\<forall>n. run_state (fat_read_file io name n) st' = ((take (unat n) bs, of_nat (length bs), True), st'))
        \<and> (\<forall>name' fn' n. filename_to_fat name' = Some fn' \<and> fn' \<noteq> fn
            \<longrightarrow> fst (run_state (fat_read_file io name' n) st') = fst (run_state (fat_read_file io name' n) st)))"
proof -
  note vol = assms(1)
  obtain rc d' where d': "run_state (fat_write_file io name bs) st = (rc, st\<lparr>fdisk := d'\<rparr>)" "ready d'" "rc \<noteq> RC_DIVERGES"
    "rc = RC_OK \<longrightarrow> (\<exists>cs. fs_holds (sector d') st (F(fn \<mapsto> (cs, bs))))" "file_fits (sector (fdisk st)) st F fn bs \<longrightarrow> rc = RC_OK"
    using fat_volume.fat_write_file_run[OF vol assms(3,2,5-7,4,8)] by blast
  have read': "run_state (fat_read_file io nm n) (st\<lparr>fdisk := d'\<rparr>) =
    ((case F' f of None \<Rightarrow> ([], 0, False) | Some (cs, bs) \<Rightarrow> (take (unat n) bs, of_nat (length bs), True)), st\<lparr>fdisk := d'\<rparr>)"
    if "fs_holds (sector d') st F'" "filename_to_fat nm = Some f" for F' nm f n
    using fat_volume.fat_read_file_result[OF vol, of "st\<lparr>fdisk := d'\<rparr>" nm f F' n] assms(3) d'(2) that by simp
  note read = fat_volume.fat_read_file_result[OF vol assms(3,2) _ assms(4)]
  have "(\<forall>n. run_state (fat_read_file io name n) (st\<lparr>fdisk := d'\<rparr>) = ((take (unat n) bs, of_nat (length bs), True), st\<lparr>fdisk := d'\<rparr>))
      \<and> (\<forall>name' fn' n. filename_to_fat name' = Some fn' \<and> fn' \<noteq> fn
          \<longrightarrow> fst (run_state (fat_read_file io name' n) (st\<lparr>fdisk := d'\<rparr>)) = fst (run_state (fat_read_file io name' n) st))"
    if "fs_holds (sector d') st (F(fn \<mapsto> (cs, bs)))" for cs
    using read'[OF that] read assms(5) by simp
  then show ?thesis using d' by (intro exI[of _ rc] exI[of _ "st\<lparr>fdisk := d'\<rparr>"]) auto
qed

text \<open>The RAM disk volume of theory \<open>Fat_Table\<close> holds no file and has room for one.\<close>

lemma ram_volume_empty: "fs_holds (ramdisk_sector (fdisk ram_volume)) ram_volume Map.empty"
  by (rule fs_holds_empty[OF ram_volume_layout(1)])
    (simp add: ramdisk_sector_def ramdisk_read_def ram_volume_def map_replicate_const)

lemma ram_volume_fits: "file_fits (ramdisk_sector (fdisk ram_volume)) ram_volume Map.empty (0x41 # replicate 10 0x20) [1, 2, 3]"
proof -
  let ?S = "ramdisk_sector (fdisk ram_volume)" and ?fn = "0x41 # replicate 10 0x20 :: u8 list"
  have z: "?S l = replicate 512 0" for l
    by (simp add: ramdisk_sector_def ramdisk_read_def ram_volume_def map_replicate_const)
  have "fat_table ?S ram_volume 2 = 0"
    by (simp add: fat_table_def fat_raw_def fat_byte_def z entry_value_def)
  then have "2 \<in> free_clusters ?S ram_volume" by (simp add: free_clusters_def cluster_ok_def ram_volume_def)
  then have "card (free_clusters ?S ram_volume) > 0" using free_clusters_finite card_gt_0_iff by blast
  moreover have "n_spc ram_volume = 1" by (simp add: ram_volume_def)
  ultimately have size: "3 \<le> card (free_clusters ?S ram_volume) * bpc ram_volume" by simp
  have "root_start_sector ram_volume \<in> set (root_range ram_volume)"
    using root_range_facts(1)[OF ram_volume_layout(1)] by (simp add: ram_volume_def)
  then have "(root_start_sector ram_volume, 0) \<in> set (root_slots ram_volume)" by (simp add: root_slots_def set_slots_of)
  moreover have "ent_free (slot_ent ?S (root_start_sector ram_volume, 0))" by (simp add: ent_free_def z dirent_def)
  ultimately have "List.find (\<lambda>q. ent_free (slot_ent ?S q)) (root_slots ram_volume) \<noteq> None" unfolding find_None_iff by blast
  then have "put_slot (slot_ent ?S) ?fn (root_slots ram_volume) \<noteq> None" by (simp only: put_slot_def split: option.split) simp
  with size show ?thesis by (simp add: file_fits_def chain_of_def)
qed

lemma name_A: "filename_to_fat (Some [0x61]) = Some (0x41 # replicate 10 0x20)"
  by code_simp

theorem fat_write_file_correct_witness:
  "let io = \<lparr>io_inb = \<lambda>_ d. (0xFF, d), io_inw = \<lambda>_ d. (0xFFFF, d), io_outb = \<lambda>_ _ d. d, io_outw = \<lambda>_ _ d. d\<rparr>
   in \<exists>st'. run_state (fat_write_file io (Some [0x61]) [1, 2, 3]) ram_volume = (RC_OK, st')
        \<and> run_state (fat_read_file io (Some [0x61]) 100) st' = (([1, 2, 3], 3, True), st')"
proof -
  let ?io = "\<lparr>io_inb = \<lambda>_ d. (0xFF, d), io_inw = \<lambda>_ d. (0xFFFF, d), io_outb = \<lambda>_ _ d. d, io_outw = \<lambda>_ _ d. d\<rparr> :: unit port_io"
  from fat_write_file_correct[where io = ?io and bs = "[1, 2, 3]", OF ramfat.fat_volume_axioms ram_volume_layout(2,1) ram_volume_empty name_A]
    ram_volume_fits show ?thesis by (fastforce simp: Let_def)
qed



end
