(* ===== verification/Scheduler.thy ===== *)
theory Scheduler
  imports Heap_Correct Klog
begin

text \<open>
  The round-robin task scheduler \<^verbatim>\<open>src/kernel/scheduler.c\<close>.  Task structures are a store from addresses to records, so that the
  circular doubly linked list of the source is the \<^verbatim>\<open>next\<close> and \<^verbatim>\<open>prev\<close> addresses in them; the stacks lie in the memory of the
  kernel heap, and structures and stacks are allocated and freed there by the operations of theory \<open>Heap\<close>.  Every walk of the
  list is a \<^verbatim>\<open>partial_function\<close>: \<^const>\<open>None\<close> stands for a walk that does not end.  The addresses of the static \<^verbatim>\<open>kernel_task\<close> and of
  the function \<^verbatim>\<open>task_exit\<close>, which the linker chooses, are arguments.  The operations run with interrupts disabled, by
  \<^verbatim>\<open>irq_save\<close> or inside an interrupt gate, so each of them is one step.
\<close>

unbundle bit_operations_syntax

abbreviation TASK_STATE_READY :: u32 where "TASK_STATE_READY \<equiv> 0"
abbreviation TASK_STATE_RUNNING :: u32 where "TASK_STATE_RUNNING \<equiv> 1"
abbreviation TASK_STATE_WAITING :: u32 where "TASK_STATE_WAITING \<equiv> 2"
abbreviation TASK_STATE_BLOCKED :: u32 where "TASK_STATE_BLOCKED \<equiv> 3"
abbreviation TASK_STATE_ZOMBIE :: u32 where "TASK_STATE_ZOMBIE \<equiv> 4"
abbreviation MAX_TASKS :: nat where "MAX_TASKS \<equiv> 64"
abbreviation STACK_SIZE :: u32 where "STACK_SIZE \<equiv> 8192"
abbreviation TASK_SIZE :: u32 where "TASK_SIZE \<equiv> 64"

record task =
  tid :: u32
  tname :: "u8 list"
  tstate :: u32
  cpu_ticks :: u32
  regs_ptr :: u32
  stack_base :: u32
  page_dir :: u32
  tnext :: u32
  tprev :: u32

record sched =
  sched_tick :: u32
  tasks :: "u32 \<Rightarrow> task"
  current_task :: u32
  task_head :: u32
  next_pid :: u32
  theap :: heap_state
  tlog :: "klog \<times> serial_state"

text \<open>A \<^verbatim>\<open>char[32]\<close> filled by \<^verbatim>\<open>strncpy(.., 31)\<close>.\<close>

definition task_name :: "u8 list \<Rightarrow> u8 list" where
  "task_name s = take 31 s @ replicate (32 - length (take 31 s)) 0"

definition scheduler_init :: "u32 \<Rightarrow> sched \<Rightarrow> sched" where
  "scheduler_init kernel_task s =
     s\<lparr>tasks := (tasks s)(kernel_task := \<lparr>tid = 0, tname = task_name (map of_char ''kernel''), tstate = TASK_STATE_RUNNING,
         cpu_ticks = 0, regs_ptr = 0, stack_base = 0, page_dir = 0, tnext = kernel_task, tprev = kernel_task\<rparr>),
       current_task := kernel_task, task_head := kernel_task, next_pid := 1\<rparr>"

partial_function (option) count_tasks :: "(u32 \<Rightarrow> task) \<Rightarrow> u32 \<Rightarrow> u32 \<Rightarrow> nat \<Rightarrow> nat option" where
  "count_tasks T first p c =
     (let c = c + 1; p = tnext (T p) in if p \<noteq> first then count_tasks T first p c else Some c)"

definition scheduler_get_task_list :: "sched \<Rightarrow> (u32 \<times> nat) option" where
  "scheduler_get_task_list s =
     (if task_head s = 0 then Some (0, 0)
      else map_option (\<lambda>c. (task_head s, c)) (count_tasks (tasks s) (task_head s) (task_head s) 0))"

definition scheduler_get_current :: "sched \<Rightarrow> u32" where
  "scheduler_get_current s = current_task s"

text \<open>\<^verbatim>\<open>top--; *top = v\<close>\<close>

definition push :: "u32 \<Rightarrow> u32 \<times> memory \<Rightarrow> u32 \<times> memory" where
  "push v = (\<lambda>(top, m). (top - 4, store32 m (top - 4) v))"

definition task_frame :: "u32 \<Rightarrow> u32 \<Rightarrow> u32 \<Rightarrow> memory \<Rightarrow> u32 \<times> memory" where
  "task_frame task_exit entry_point stack m =
     (let top = ALIGN_DOWN (stack + STACK_SIZE) 16;
          (top, m) = fold push [task_exit, 0x202, 0x08, entry_point, 0, 0, 0, 0, 0, 0] (top, m);
          stack_esp = top
      in fold push [stack_esp, stack_esp, 0, 0, 0x10, 0x10, 0x10, 0x10] (top, m))"

definition link_tail :: "u32 \<Rightarrow> u32 \<Rightarrow> (u32 \<Rightarrow> task) \<Rightarrow> u32 \<Rightarrow> task" where
  "link_tail first t T =
     (let T = T(t := (T t)\<lparr>tnext := first\<rparr>);
          T = T(t := (T t)\<lparr>tprev := tprev (T first)\<rparr>);
          T = T(tprev (T first) := (T (tprev (T first)))\<lparr>tnext := t\<rparr>)
      in T(first := (T first)\<lparr>tprev := t\<rparr>))"

definition task_create :: "u32 \<Rightarrow> timer_state \<Rightarrow> u8 list option \<Rightarrow> u32 \<Rightarrow> sched \<Rightarrow> (u32 \<times> sched) option" where
  "task_create task_exit tm name entry_point s =
     (if entry_point = 0 \<or> task_head s = 0 then Some (0, s)
      else case scheduler_get_task_list s of None \<Rightarrow> None
      | Some (_, count) \<Rightarrow>
          if MAX_TASKS \<le> count then Some (0, s)
          else case kzalloc TASK_SIZE (theap s) of None \<Rightarrow> None
          | Some (t, h) \<Rightarrow>
              if t = 0 then Some (0, s\<lparr>theap := h\<rparr>)
              else case kzalloc STACK_SIZE h of None \<Rightarrow> None
              | Some (stack, h) \<Rightarrow>
                  if stack = 0 then Some (0, s\<lparr>theap := kfree t h\<rparr>)
                  else
                    let (top, m) = task_frame task_exit entry_point stack (mem h);
                        nm = task_name (case name of Some n \<Rightarrow> n | None \<Rightarrow> map of_char ''thread'');
                        T = (tasks s)(t := \<lparr>tid = next_pid s, tname = nm, tstate = TASK_STATE_READY, cpu_ticks = 0,
                              regs_ptr = top, stack_base = stack, page_dir = 0, tnext = 0, tprev = 0\<rparr>)
                    in Some (t, s\<lparr>tasks := link_tail (task_head s) t T, next_pid := next_pid s + 1, theap := h\<lparr>mem := m\<rparr>,
                         tlog := klog_writeln (Some (map of_char ''sched'')) (Some (takeWhile (\<lambda>c. c \<noteq> 0) nm)) tm (tlog s)\<rparr>))"

partial_function (option) kill_from :: "(u32 \<Rightarrow> task) \<Rightarrow> u32 \<Rightarrow> u32 \<Rightarrow> u32 \<Rightarrow> u32 option option" where
  "kill_from T first pid t =
     (if tid (T t) = pid \<and> tstate (T t) \<noteq> TASK_STATE_ZOMBIE then Some (Some t)
      else let t = tnext (T t) in if t \<noteq> first then kill_from T first pid t else Some None)"

definition set_tstate :: "u32 \<Rightarrow> u32 \<Rightarrow> sched \<Rightarrow> sched" where
  "set_tstate t v s = s\<lparr>tasks := (tasks s)(t := (tasks s t)\<lparr>tstate := v\<rparr>)\<rparr>"

definition task_kill :: "u32 \<Rightarrow> sched \<Rightarrow> (int \<times> sched) option" where
  "task_kill pid s =
     (if pid = 0 then Some (- 1, s)
      else if task_head s = 0 then Some (- 1, s)
      else case kill_from (tasks s) (task_head s) pid (task_head s) of
        None \<Rightarrow> None
      | Some None \<Rightarrow> Some (- 1, s)
      | Some (Some t) \<Rightarrow> Some (0, set_tstate t TASK_STATE_ZOMBIE s))"

text \<open>Unlinking a task: the two assignments to the links of its neighbours.\<close>

definition unlink_task :: "u32 \<Rightarrow> (u32 \<Rightarrow> task) \<Rightarrow> u32 \<Rightarrow> task" where
  "unlink_task c T =
     (let T = T(tprev (T c) := (T (tprev (T c)))\<lparr>tnext := tnext (T c)\<rparr>)
      in T(tnext (T c) := (T (tnext (T c)))\<lparr>tprev := tprev (T c)\<rparr>))"

partial_function (option) reap_zombies ::
  "u32 \<Rightarrow> u32 \<Rightarrow> u32 \<Rightarrow> (u32 \<Rightarrow> task) \<Rightarrow> heap_state \<Rightarrow> ((u32 \<Rightarrow> task) \<times> heap_state) option" where
  "reap_zombies first cur p T h =
     (if p = first then Some (T, h)
      else
        let nxt = tnext (T p) in
        if tstate (T p) = TASK_STATE_ZOMBIE \<and> p \<noteq> cur then
          let T = unlink_task p T;
              h = (if stack_base (T p) \<noteq> 0 then kfree (stack_base (T p)) h else h)
          in reap_zombies first cur nxt T (kfree p h)
        else reap_zombies first cur nxt T h)"

partial_function (option) pick_next :: "(u32 \<Rightarrow> task) \<Rightarrow> u32 \<Rightarrow> u32 \<Rightarrow> u32 option" where
  "pick_next T cur n =
     (if n \<noteq> cur \<and> tstate (T n) \<noteq> TASK_STATE_READY \<and> tstate (T n) \<noteq> TASK_STATE_RUNNING
      then pick_next T cur (tnext (T n)) else Some n)"

definition scheduler_schedule :: "u32 \<Rightarrow> u32 \<Rightarrow> sched \<Rightarrow> (u32 \<times> sched) option" where
  "scheduler_schedule kernel_task r s =
     (if current_task s = 0 \<or> task_head s = 0 then Some (r, s)
      else
        let cur = current_task s;
            T = (tasks s)(cur := (tasks s cur)\<lparr>regs_ptr := r\<rparr>)
        in case reap_zombies (task_head s) cur (tnext (T (task_head s))) T (theap s) of
          None \<Rightarrow> None
        | Some (T, h) \<Rightarrow>
            (case pick_next T cur (tnext (T cur)) of
              None \<Rightarrow> None
            | Some n \<Rightarrow>
                let n = (if n = cur \<and> tstate (T cur) \<noteq> TASK_STATE_RUNNING \<and> tstate (T cur) \<noteq> TASK_STATE_READY
                         then kernel_task else n);
                    s = s\<lparr>tasks := T, theap := h\<rparr>;
                    s = (if n \<noteq> cur then
                           let s = (if tstate (T cur) = TASK_STATE_RUNNING then set_tstate cur TASK_STATE_READY s else s)
                           in set_tstate n TASK_STATE_RUNNING (s\<lparr>current_task := n\<rparr>)
                         else s)
                in Some (regs_ptr (tasks s (current_task s)), s)))"

definition scheduler_tick :: "u32 \<Rightarrow> u32 \<Rightarrow> sched \<Rightarrow> (u32 \<times> sched) option" where
  "scheduler_tick kernel_task r s =
     (let s = s\<lparr>sched_tick := sched_tick s + 1\<rparr>;
          cur = current_task s;
          s = (if cur \<noteq> 0 then s\<lparr>tasks := (tasks s)(cur := (tasks s cur)\<lparr>cpu_ticks := cpu_ticks (tasks s cur) + 1\<rparr>)\<rparr> else s)
      in scheduler_schedule kernel_task r s)"

text \<open>\<^verbatim>\<open>task_exit\<close> up to its yield: \<^const>\<open>None\<close> when it halts the processor in its first loop.\<close>

definition task_exit :: "sched \<Rightarrow> sched option" where
  "task_exit s =
     (if current_task s = 0 \<or> tid (tasks s (current_task s)) = 0 then None
      else Some (set_tstate (current_task s) TASK_STATE_ZOMBIE s))"

section \<open>The ring\<close>

fun linked :: "(u32 \<Rightarrow> task) \<Rightarrow> u32 list \<Rightarrow> bool" where
  "linked T (a # b # xs) \<longleftrightarrow> tnext (T a) = b \<and> tprev (T b) = a \<and> linked T (b # xs)"
| "linked T _ \<longleftrightarrow> True"

definition task_ring :: "(u32 \<Rightarrow> task) \<Rightarrow> u32 list \<Rightarrow> bool" where
  "task_ring T xs \<longleftrightarrow> xs \<noteq> [] \<and> distinct xs \<and> 0 \<notin> set xs \<and> linked T (xs @ [hd xs])"

lemma linked_append: "linked T (xs @ a # ys) \<longleftrightarrow> linked T (xs @ [a]) \<and> linked T (a # ys)"
  by (induction T xs rule: linked.induct) auto

lemma linked_single [simp]: "linked T [a]" "linked T [a, b] \<longleftrightarrow> tnext (T a) = b \<and> tprev (T b) = a"
  by simp_all

text \<open>A list of tasks depends on the links of its members only.\<close>

lemma linked_cong:
  "(\<And>a. a \<in> set (butlast xs) \<Longrightarrow> tnext (T' a) = tnext (T a)) \<Longrightarrow> (\<And>a. a \<in> set (tl xs) \<Longrightarrow> tprev (T' a) = tprev (T a))
   \<Longrightarrow> linked T' xs = linked T xs"
  by (induction T xs rule: linked.induct) auto

lemma task_ring_rotate:
  assumes "task_ring T (a # xs)"
  shows "task_ring T (xs @ [a])"
proof (cases xs)
  case (Cons b ys)
  then show ?thesis using assms linked_append[of T "b # ys" a "[b]"] by (auto simp: task_ring_def)
qed (use assms in simp)

lemma task_ring_split: "task_ring T (xs @ ys) \<Longrightarrow> task_ring T (ys @ xs)"
proof (induction xs arbitrary: ys)
  case (Cons a xs)
  then show ?case using task_ring_rotate[of T a "xs @ ys"] Cons.IH[of "ys @ [a]"] by simp
qed simp

lemma task_ring_cong:
  assumes "\<And>a. a \<in> set xs \<Longrightarrow> tnext (T' a) = tnext (T a) \<and> tprev (T' a) = tprev (T a)"
  shows "task_ring T' xs = task_ring T xs"
proof (cases xs)
  case (Cons a l)
  then have "linked T' (xs @ [hd xs]) = linked T (xs @ [hd xs])" using assms by (intro linked_cong) (auto simp: butlast_append)
  then show ?thesis by (simp add: task_ring_def)
qed (simp add: task_ring_def)

lemma task_ring_walk: "task_ring T (a # xs) \<Longrightarrow> linked T (a # xs @ [a]) \<and> a \<notin> set xs \<and> a \<noteq> 0"
  by (simp add: task_ring_def)

section \<open>Walks of the ring\<close>

lemma count_tasks_walk: "linked T (p # ys @ [f]) \<Longrightarrow> f \<notin> set ys \<Longrightarrow> count_tasks T f p c = Some (c + Suc (length ys))"
proof (induction ys arbitrary: p c)
  case Nil
  then show ?case by (subst count_tasks.simps) (simp add: Let_def)
next
  case (Cons y ys)
  then show ?case by (subst count_tasks.simps) (auto simp: Let_def)
qed

lemma kill_from_walk:
  "linked T (p # ys @ [f]) \<Longrightarrow> f \<notin> set ys
   \<Longrightarrow> kill_from T f pid p = Some (List.find (\<lambda>t. tid (T t) = pid \<and> tstate (T t) \<noteq> TASK_STATE_ZOMBIE) (p # ys))"
proof (induction ys arbitrary: p)
  case Nil
  then show ?case by (subst kill_from.simps) (simp add: Let_def)
next
  case (Cons y ys)
  then show ?case by (subst kill_from.simps) (auto simp: Let_def)
qed

abbreviation runnable :: "task \<Rightarrow> bool" where
  "runnable t \<equiv> tstate t = TASK_STATE_READY \<or> tstate t = TASK_STATE_RUNNING"

lemma pick_next_walk:
  "linked T (ys @ [cur]) \<Longrightarrow> cur \<notin> set ys
   \<Longrightarrow> pick_next T cur (hd (ys @ [cur])) = Some (case List.find (\<lambda>t. runnable (T t)) ys of Some t \<Rightarrow> t | None \<Rightarrow> cur)"
proof (induction ys)
  case Nil
  then show ?case by (subst pick_next.simps) simp
next
  case (Cons y ys)
  then have "tnext (T y) = hd (ys @ [cur])" "linked T (ys @ [cur])" by (cases ys; simp)+
  then show ?case using Cons by (subst pick_next.simps) auto
qed

definition same_data :: "(u32 \<Rightarrow> task) \<Rightarrow> (u32 \<Rightarrow> task) \<Rightarrow> bool" where
  "same_data T T' \<longleftrightarrow> (\<forall>a. \<exists>n p. T' a = (T a)\<lparr>tnext := n, tprev := p\<rparr>)"

lemma same_dataD:
  assumes "same_data T T'"
  shows "tid (T' a) = tid (T a)" "tname (T' a) = tname (T a)" "tstate (T' a) = tstate (T a)" "cpu_ticks (T' a) = cpu_ticks (T a)"
    "regs_ptr (T' a) = regs_ptr (T a)" "stack_base (T' a) = stack_base (T a)" "page_dir (T' a) = page_dir (T a)"
proof -
  obtain n p where "T' a = (T a)\<lparr>tnext := n, tprev := p\<rparr>" using assms unfolding same_data_def by blast
  then show "tid (T' a) = tid (T a)" "tname (T' a) = tname (T a)" "tstate (T' a) = tstate (T a)" "cpu_ticks (T' a) = cpu_ticks (T a)"
    "regs_ptr (T' a) = regs_ptr (T a)" "stack_base (T' a) = stack_base (T a)" "page_dir (T' a) = page_dir (T a)" by simp_all
qed

lemma same_data_refl [simp]: "same_data T T"
proof -
  have "T a = (T a)\<lparr>tnext := tnext (T a), tprev := tprev (T a)\<rparr>" for a by simp
  then show ?thesis unfolding same_data_def by blast
qed

lemma same_data_trans: "same_data T T' \<Longrightarrow> same_data T' T'' \<Longrightarrow> same_data T T''"
proof -
  assume a: "same_data T T'" "same_data T' T''"
  have "\<exists>n p. T'' x = (T x)\<lparr>tnext := n, tprev := p\<rparr>" for x
  proof -
    obtain n p n' p' where "T' x = (T x)\<lparr>tnext := n, tprev := p\<rparr>" "T'' x = (T' x)\<lparr>tnext := n', tprev := p'\<rparr>"
      using a unfolding same_data_def by metis
    then show ?thesis by auto
  qed
  then show ?thesis by (simp add: same_data_def)
qed

lemma same_data_links [simp]: "same_data T (T(a := (T a)\<lparr>tnext := n\<rparr>))" "same_data T (T(a := (T a)\<lparr>tprev := n\<rparr>))"
proof -
  have "(T(a := (T a)\<lparr>tnext := n\<rparr>)) x = (T x)\<lparr>tnext := (if x = a then n else tnext (T x)), tprev := tprev (T x)\<rparr>"
    "(T(a := (T a)\<lparr>tprev := n\<rparr>)) x = (T x)\<lparr>tnext := tnext (T x), tprev := (if x = a then n else tprev (T x))\<rparr>" for x by simp_all
  then show "same_data T (T(a := (T a)\<lparr>tnext := n\<rparr>))" "same_data T (T(a := (T a)\<lparr>tprev := n\<rparr>))"
    unfolding same_data_def by blast+
qed

lemma unlink_task_data: "same_data T (unlink_task c T)"
  unfolding unlink_task_def Let_def by (rule same_data_trans[OF same_data_links(1) same_data_links(2)])

lemma unlink_first:
  assumes r: "task_ring T (z # ws)" and ws: "ws \<noteq> []"
  shows "task_ring (unlink_task z T) ws" "tnext (unlink_task z T z) = tnext (T z)"
proof -
  let ?T = "unlink_task z T"
  have d: "z \<notin> set ws" "distinct ws" "0 \<notin> set ws" using r by (auto simp: task_ring_def)
  have split: "ws = butlast ws @ [last ws]" "ws = hd ws # tl ws" using ws by simp_all
  have l: "linked T (z # ws)" "linked T [last ws, z]"
    using r linked_append[of T "z # butlast ws" "last ws" "[z]"] split(1) by (simp_all add: task_ring_def) (metis append.assoc append_Cons append_Nil)+
  have lw: "linked T ws" "tnext (T z) = hd ws" "tprev (T (hd ws)) = z" using l(1) ws by (cases ws; simp)+
  have ne: "last ws \<noteq> z" "hd ws \<noteq> z" using d(1) ws last_in_set hd_in_set by metis+
  have nx: "tnext (?T a) = (if a = last ws then hd ws else tnext (T a))" and pv: "tprev (?T a) = (if a = hd ws then last ws else tprev (T a))" for a
    using l(2) lw ne by (auto simp: unlink_task_def Let_def)
  show "tnext (?T z) = tnext (T z)" using nx ne by simp
  have out: "last ws \<notin> set (butlast ws)" "hd ws \<notin> set (tl ws)"
    using d(2) split by (metis distinct_append disjoint_insert(2) list.set(2), metis distinct.simps(2))
  have "linked ?T ws = linked T ws" using out nx pv by (intro linked_cong) auto
  then have "linked ?T (butlast ws @ [last ws])" using lw(1) split(1) by metis
  then have "linked ?T (butlast ws @ [last ws, hd ws])"
    using linked_append[of ?T "butlast ws" "last ws" "[hd ws]"] nx[of "last ws"] pv[of "hd ws"] by simp
  then have "linked ?T (ws @ [hd ws])" using split(1) by (metis append.assoc append_Cons append_Nil)
  then show "task_ring ?T ws" using d ws by (simp add: task_ring_def)
qed

lemma unlink_task_ring:
  assumes "task_ring T (f # ys @ z # zs)"
  shows "task_ring (unlink_task z T) (f # ys @ zs)" "tnext (unlink_task z T z) = tnext (T z)"
proof -
  have "task_ring T (z # zs @ f # ys)" using task_ring_split[of T "f # ys" "z # zs"] assms by simp
  note u = unlink_first[OF this]
  then show "task_ring (unlink_task z T) (f # ys @ zs)" using task_ring_split[of "unlink_task z T" zs "f # ys"] by simp
  show "tnext (unlink_task z T z) = tnext (T z)" using u(2) by simp
qed

text \<open>Reaping: every zombie but the current task leaves the ring, and its stack and its structure are freed.\<close>

definition reaped :: "(u32 \<Rightarrow> task) \<Rightarrow> u32 \<Rightarrow> u32 \<Rightarrow> bool" where
  "reaped T cur t \<longleftrightarrow> tstate (T t) = TASK_STATE_ZOMBIE \<and> t \<noteq> cur"

definition free_task :: "(u32 \<Rightarrow> task) \<Rightarrow> u32 \<Rightarrow> heap_state \<Rightarrow> heap_state" where
  "free_task T t h = kfree t (if stack_base (T t) \<noteq> 0 then kfree (stack_base (T t)) h else h)"

lemma reaped_data: "same_data T T' \<Longrightarrow> reaped T' = reaped T" "same_data T T' \<Longrightarrow> free_task T' = free_task T"
  by (simp_all add: fun_eq_iff reaped_def free_task_def same_dataD)

lemma task_ring_next: "task_ring T (f # ys @ z # zs) \<Longrightarrow> tnext (T z) = hd (zs @ [f]) \<and> z \<noteq> f"
  using linked_append[of T "f # ys" z "zs @ [f]"] by (cases zs) (auto simp: task_ring_def)

lemma reap_zombies_walk:
  "task_ring T (f # ys @ zs) \<Longrightarrow>
   \<exists>T'. reap_zombies f cur (hd (zs @ [f])) T h = Some (T', fold (free_task T) (filter (reaped T cur) zs) h)
     \<and> same_data T T' \<and> task_ring T' (f # ys @ filter (\<lambda>t. \<not> reaped T cur t) zs)"
proof (induction zs arbitrary: ys T h)
  case Nil
  then show ?case by (subst reap_zombies.simps) auto
next
  case (Cons z zs)
  note nz = task_ring_next[OF Cons.prems]
  show ?case
  proof (cases "reaped T cur z")
    case True
    let ?T = "unlink_task z T"
    have sd: "same_data T ?T" by (rule unlink_task_data)
    obtain T' where T': "reap_zombies f cur (hd (zs @ [f])) ?T (free_task T z h) = Some (T', fold (free_task ?T) (filter (reaped ?T cur) zs) (free_task T z h))"
      "same_data ?T T'" "task_ring T' (f # ys @ filter (\<lambda>t. \<not> reaped ?T cur t) zs)"
      using Cons.IH[OF unlink_task_ring(1)[OF Cons.prems], of "free_task T z h"] by blast
    have "reap_zombies f cur z T h = reap_zombies f cur (hd (zs @ [f])) ?T (free_task T z h)"
      using True nz same_dataD(6)[OF sd] by (subst reap_zombies.simps) (simp add: reaped_def free_task_def Let_def)
    then show ?thesis using T' True same_data_trans[OF sd] by (auto simp: reaped_data[OF sd])
  next
    case False
    have "reap_zombies f cur z T h = reap_zombies f cur (hd (zs @ [f])) T h"
      using False nz by (subst reap_zombies.simps) (auto simp: reaped_def Let_def)
    then show ?thesis using Cons.IH[of T "ys @ [z]" h] Cons.prems False by simp
  qed
qed

lemma link_tail_data: "same_data T (link_tail f t T)"
  unfolding link_tail_def Let_def by (rule same_data_trans[OF same_data_trans[OF same_data_trans[OF
    same_data_links(1) same_data_links(2)] same_data_links(1)] same_data_links(2)])

lemma link_tail_ring:
  assumes r: "task_ring T (f # ys)" and t: "t \<notin> set (f # ys)" "t \<noteq> 0"
  shows "task_ring (link_tail f t T) (f # ys @ [t])"
proof -
  let ?T = "link_tail f t T" and ?p = "last (f # ys)"
  have d: "f \<notin> set ys" "distinct ys" "0 \<notin> set (f # ys)" using r by (auto simp: task_ring_def)
  have split: "f # ys = butlast (f # ys) @ [?p]" by simp
  have l: "linked T (f # ys)" "linked T [?p, f]"
    using r linked_append[of T "butlast (f # ys)" ?p "[f]"] split unfolding task_ring_def
    by (metis append.assoc append_Cons append_Nil list.sel(1))+
  have ne: "t \<noteq> f" "?p \<noteq> t" using t last_in_set[of "f # ys"] by auto
  have nx: "tnext (?T a) = (if a = ?p then t else if a = t then f else tnext (T a))"
    and pv: "tprev (?T a) = (if a = f then t else if a = t then ?p else tprev (T a))" for a
    using l(2) ne by (auto simp: link_tail_def Let_def)
  have "distinct (butlast (f # ys) @ [?p])" using d split by (metis distinct.simps(2))
  then have "?p \<notin> set (butlast (f # ys))" by simp
  moreover have "t \<notin> set (butlast (f # ys))" using t(1) in_set_butlastD by metis
  ultimately have "linked ?T (f # ys) = linked T (f # ys)" using t(1) d(1) nx pv by (intro linked_cong) auto
  then have "linked ?T (butlast (f # ys) @ [?p])" using l(1) split by metis
  then have "linked ?T (butlast (f # ys) @ ?p # [t, f])"
    using linked_append[of ?T "butlast (f # ys)" ?p "[t, f]"] nx[of ?p] nx[of t] pv[of t] pv[of f] ne by simp
  then have "linked ?T ((f # ys) @ [t, f])" using split by (metis append.assoc append_Cons append_Nil)
  then show ?thesis using d t by (auto simp: task_ring_def)
qed

section \<open>Blocks of the kernel heap\<close>

lemma kzalloc_holds:
  assumes "heap_holds h B" "0 < unat n" "heap_fits h n"
  shows "\<exists>p h'. kzalloc n h = Some (p, h') \<and> heap_base_addr h' = heap_base_addr h \<and> heap_max_limit h' = heap_max_limit h \<and> (p = 0 \<and> h' = h \<or> p \<noteq> 0 \<and>
     (\<exists>k. unat n \<le> k \<and> (unat p, k) \<notin> B \<and> heap_holds h' (insert (unat p, k) B)))"
proof -
  obtain bs where bs: "heap_ok h bs" "coalesced bs" and B: "B = live (unat (heap_base_addr h)) bs"
    using assms(1) by (auto simp: heap_holds_def)
  obtain p h' where k: "kmalloc n h = Some (p, h')" and r: "alloc_result h bs (unat n) p h' \<or> p = 0 \<and> h' = h"
    using kmalloc_cases[OF bs(1) assms(2)] assms(3) by (fastforce simp: heap_fits_def split: if_splits)
  show ?thesis
  proof (cases "p = 0 \<and> h' = h")
    case True
    then show ?thesis using k by (simp add: kzalloc_def)
  next
    case False
    then obtain h2 where h2: "kzalloc n h = Some (p, h2)" and r2: "alloc_result h bs (unat n) p h2"
      using kzalloc_ok[OF _ k] r by blast
    then have base: "heap_base_addr h2 = heap_base_addr h" "heap_max_limit h2 = heap_max_limit h" "p \<noteq> 0"
      by (auto simp: alloc_result_def keeps_def)
    obtain bs' k where "heap_ok h2 bs'" "coalesced bs'" "unat n \<le> k" "(unat p, k) \<notin> B"
      "live (unat (heap_base_addr h)) bs' = insert (unat p, k) B"
      using r2 bs(2) B by (auto simp: alloc_result_def)
    then have "unat n \<le> k \<and> (unat p, k) \<notin> B \<and> heap_holds h2 (insert (unat p, k) B)" unfolding heap_holds_def base by metis
    then show ?thesis using h2 base by blast
  qed
qed

lemma heap_holds_bounds: "heap_holds h B \<Longrightarrow> (a, k) \<in> B \<Longrightarrow> unat (heap_base_addr h) + 24 \<le> a \<and> a + k < 4294967296"
  using live_bounds[of a k] live_range(1)[of h _ a k] unfolding heap_holds_def by blast

lemma heap_holds_write:
  assumes h: "heap_holds h B" and p: "(p, k) \<in> B" and m: "\<And>x. \<not> (p \<le> unat x \<and> unat x < p + k) \<Longrightarrow> m x = mem h x"
  shows "heap_holds (h\<lparr>mem := m\<rparr>) B"
proof -
  obtain bs where bs: "heap_ok h bs" "coalesced bs" and B: "B = live (unat (heap_base_addr h)) bs"
    using h by (auto simp: heap_holds_def)
  have "heap_ok (h\<lparr>mem := m\<rparr>) bs" using p B by (intro heap_ok_user_write[OF bs(1)] m) (auto simp: used_at_live)
  then show ?thesis using bs(2) B unfolding heap_holds_def by auto
qed

lemma kfree_holds:
  assumes "heap_holds h B" "(unat p, k) \<in> B" "0 < k"
  shows "heap_holds (kfree p h) (B - {(unat p, k)})" "heap_base_addr (kfree p h) = heap_base_addr h"
    "heap_max_limit (kfree p h) = heap_max_limit h"
proof -
  show "heap_holds (kfree p h) (B - {(unat p, k)})" using kheap.release_block[OF assms] by blast
  obtain bs where bs: "heap_ok h bs" and B: "B = live (unat (heap_base_addr h)) bs" using assms(1) by (auto simp: heap_holds_def)
  show "heap_base_addr (kfree p h) = heap_base_addr h" "heap_max_limit (kfree p h) = heap_max_limit h"
    using kfree_live[OF bs assms(2)[unfolded B] assms(3)] by (auto simp: keeps_def)
qed

section \<open>The invariant of the scheduler\<close>

definition task_blocks :: "(u32 \<Rightarrow> task) \<Rightarrow> u32 list \<Rightarrow> u32 list" where
  "task_blocks T ts = concat (map (\<lambda>t. [t, stack_base (T t)]) ts)"

text \<open>The live blocks of the heap are the blocks \<open>B\<close> of the rest of the kernel and one block at each of the addresses \<open>as\<close>.\<close>

definition task_heap :: "(nat \<times> nat) set \<Rightarrow> heap_state \<Rightarrow> u32 list \<Rightarrow> bool" where
  "task_heap B h as \<longleftrightarrow> distinct as \<and>
     (\<exists>K. heap_holds h (B \<union> (\<lambda>a. (unat a, K a)) ` set as) \<and> (\<forall>a \<in> set as. 0 < K a \<and> (unat a, K a) \<notin> B))"

definition sched_ok :: "u32 \<Rightarrow> (nat \<times> nat) set \<Rightarrow> sched \<Rightarrow> u32 list \<Rightarrow> bool" where
  "sched_ok kt B s L \<longleftrightarrow>
     task_head s = kt \<and> task_ring (tasks s) (kt # L) \<and> length L < MAX_TASKS \<and> current_task s \<in> set (kt # L)
     \<and> tid (tasks s kt) = 0 \<and> tstate (tasks s kt) \<noteq> TASK_STATE_ZOMBIE
     \<and> (\<forall>t \<in> set (kt # L). tstate (tasks s t) = TASK_STATE_ZOMBIE
          \<or> tstate (tasks s t) = (if t = current_task s then TASK_STATE_RUNNING else TASK_STATE_READY))
     \<and> task_heap B (theap s) (task_blocks (tasks s) L) \<and> heap_fits (theap s) STACK_SIZE
     \<and> unat kt < unat (heap_base_addr (theap s))"

lemma task_blocks_simps [simp]:
  "task_blocks T [] = []" "task_blocks T (t # ts) = t # stack_base (T t) # task_blocks T ts"
  "task_blocks T (ts @ us) = task_blocks T ts @ task_blocks T us"
  by (simp_all add: task_blocks_def)

lemma task_blocks_cong: "(\<And>t. t \<in> set ts \<Longrightarrow> stack_base (T' t) = stack_base (T t)) \<Longrightarrow> task_blocks T' ts = task_blocks T ts"
  by (induction ts) simp_all

lemma task_heap_perm: "task_heap B h as \<Longrightarrow> set bs = set as \<Longrightarrow> distinct bs \<Longrightarrow> task_heap B h bs"
  by (simp add: task_heap_def)

lemma task_heap_nonzero: "task_heap B h as \<Longrightarrow> a \<in> set as \<Longrightarrow> a \<noteq> 0 \<and> unat (heap_base_addr h) < unat a"
proof -
  assume h: "task_heap B h as" "a \<in> set as"
  then obtain K where K: "heap_holds h (B \<union> (\<lambda>a. (unat a, K a)) ` set as)" by (auto simp: task_heap_def)
  have "unat (heap_base_addr h) + 24 \<le> unat a" using heap_holds_bounds[OF K, of "unat a" "K a"] h(2) by auto
  then show ?thesis by auto
qed

lemma task_heap_free:
  assumes h: "task_heap B h (a # as)"
  shows "task_heap B (kfree a h) as" "heap_base_addr (kfree a h) = heap_base_addr h" "heap_max_limit (kfree a h) = heap_max_limit h"
proof -
  obtain K where K: "heap_holds h (B \<union> (\<lambda>a. (unat a, K a)) ` set (a # as))" "\<forall>a \<in> set (a # as). 0 < K a \<and> (unat a, K a) \<notin> B"
    using h by (auto simp: task_heap_def)
  have d: "a \<notin> set as" "distinct as" using h by (auto simp: task_heap_def)
  have m: "(unat a, K a) \<in> B \<union> (\<lambda>a. (unat a, K a)) ` set (a # as)" "0 < K a" using K(2) by auto
  note f = kfree_holds[OF K(1) m]
  have "B \<union> (\<lambda>a. (unat a, K a)) ` set (a # as) - {(unat a, K a)} = B \<union> (\<lambda>a. (unat a, K a)) ` set as"
    using K(2) d(1) by (auto simp: word_unat_eq_iff[symmetric])
  then show "task_heap B (kfree a h) as" using f(1) K(2) d(2) unfolding task_heap_def by auto
  show "heap_base_addr (kfree a h) = heap_base_addr h" "heap_max_limit (kfree a h) = heap_max_limit h" by (rule f)+
qed

text \<open>The block at \<open>p\<close> has at least \<open>n\<close> bytes, which may be written freely.\<close>

definition own_block :: "(nat \<times> nat) set \<Rightarrow> heap_state \<Rightarrow> u32 \<Rightarrow> nat \<Rightarrow> u32 list \<Rightarrow> bool" where
  "own_block B h p n as \<longleftrightarrow> (\<exists>k \<ge> n. unat p + k < 4294967296 \<and>
     (\<forall>m. (\<forall>x. \<not> (unat p \<le> unat x \<and> unat x < unat p + k) \<longrightarrow> m x = mem h x) \<longrightarrow> task_heap B (h\<lparr>mem := m\<rparr>) (p # as)))"

lemma task_heap_alloc:
  assumes h: "task_heap B h as" and n: "0 < unat n" "heap_fits h n"
  obtains p h' where "kzalloc n h = Some (p, h')" "heap_base_addr h' = heap_base_addr h" "heap_max_limit h' = heap_max_limit h"
    "p = 0 \<longrightarrow> h' = h" "p \<noteq> 0 \<longrightarrow> task_heap B h' (p # as)" "p \<noteq> 0 \<longrightarrow> own_block B h' p (unat n) as"
proof -
  obtain K where K: "heap_holds h (B \<union> (\<lambda>a. (unat a, K a)) ` set as)" "\<forall>a \<in> set as. 0 < K a \<and> (unat a, K a) \<notin> B"
    using h by (auto simp: task_heap_def)
  let ?L = "B \<union> (\<lambda>a. (unat a, K a)) ` set as"
  obtain p h' where k: "kzalloc n h = Some (p, h')" "heap_base_addr h' = heap_base_addr h" "heap_max_limit h' = heap_max_limit h"
    and r: "p = 0 \<and> h' = h \<or> p \<noteq> 0 \<and> (\<exists>k. unat n \<le> k \<and> (unat p, k) \<notin> ?L \<and> heap_holds h' (insert (unat p, k) ?L))"
    using kzalloc_holds[OF K(1) n] by blast
  have th: "task_heap B h' (p # as)" "own_block B h' p (unat n) as"
    if r: "unat n \<le> k" "(unat p, k) \<notin> ?L" "heap_holds h' (insert (unat p, k) ?L)" for k
  proof -
    have new: "p \<notin> set as"
    proof
      assume a: "p \<in> set as"
      then have "(unat p, K p) \<noteq> (unat p, k)" "(unat p, K p) \<in> insert (unat p, k) ?L" "0 < K p" using r(2) K(2) by auto
      then show False using kheap.blocks_disjoint[OF r(3), of "unat p" k "unat p" "K p"] r(1) n(1) by auto
    qed
    have eq: "insert (unat p, k) ?L = B \<union> (\<lambda>a. (unat a, (K(p := k)) a)) ` set (p # as)" using new by auto
    have cond: "\<forall>a \<in> set (p # as). 0 < (K(p := k)) a \<and> (unat a, (K(p := k)) a) \<notin> B" using K(2) r(1,2) n(1) by auto
    have d: "distinct (p # as)" using h new by (simp add: task_heap_def)
    show "task_heap B h' (p # as)" unfolding task_heap_def using d r(3) cond unfolding eq by blast
    have "unat p + k < 4294967296" using heap_holds_bounds[OF r(3), of "unat p" k] by simp
    then show "own_block B h' p (unat n) as"
      unfolding own_block_def
    proof (intro exI[of _ k] conjI allI impI)
      show "unat n \<le> k" by (rule r(1))
      fix m assume "\<forall>x. \<not> (unat p \<le> unat x \<and> unat x < unat p + k) \<longrightarrow> m x = mem h' x"
      then have "heap_holds (h'\<lparr>mem := m\<rparr>) (insert (unat p, k) ?L)" by (intro heap_holds_write[OF r(3), of "unat p" k]) auto
      then show "task_heap B (h'\<lparr>mem := m\<rparr>) (p # as)" unfolding task_heap_def using d cond unfolding eq by blast
    qed
  qed
  show ?thesis using r th by (intro that[OF k]) blast+
qed

lemma heap_fits_cong: "heap_max_limit h' = heap_max_limit h \<Longrightarrow> heap_fits h' n = heap_fits h n"
  by (simp add: heap_fits_def)

lemma free_tasks_heap:
  "task_heap B h (as @ task_blocks T L) \<Longrightarrow> h' = fold (free_task T) (filter P L) h \<Longrightarrow>
     task_heap B h' (as @ task_blocks T (filter (\<lambda>t. \<not> P t) L)) \<and> heap_base_addr h' = heap_base_addr h \<and> heap_max_limit h' = heap_max_limit h"
proof (induction L arbitrary: h as)
  case (Cons t L)
  show ?case
  proof (cases "P t")
    case True
    have nz: "stack_base (T t) \<noteq> 0" using task_heap_nonzero[OF Cons.prems(1), of "stack_base (T t)"] by simp
    have d: "distinct (as @ task_blocks T (t # L))" using Cons.prems(1) by (simp only: task_heap_def)
    have "task_heap B h (stack_base (T t) # t # as @ task_blocks T L)" using Cons.prems(1) by (rule task_heap_perm) (use d in auto)
    then have f: "task_heap B (free_task T t h) (as @ task_blocks T L)" "heap_base_addr (free_task T t h) = heap_base_addr h"
      "heap_max_limit (free_task T t h) = heap_max_limit h"
      using nz task_heap_free[OF task_heap_free(1)] task_heap_free(2,3) by (auto simp: free_task_def)
    then show ?thesis using Cons.IH[OF f(1)] Cons.prems(2) True f(2,3) by simp
  next
    case False
    then show ?thesis using Cons.IH[of h "as @ [t, stack_base (T t)]"] Cons.prems by simp
  qed
qed simp

end
