(* ===== verification/Scheduler_Props.thy ===== *)
theory Scheduler_Props
  imports Scheduler Heap_Props
begin

text \<open>
  Correctness of the scheduler: its operations return and keep the ring, the task states and the heap blocks in order;
  scheduling rotates the ring and reaps exactly the zombies; no task that is ready waits longer than one round.
\<close>

unbundle bit_operations_syntax

section \<open>Scheduling\<close>

definition live_task :: "sched \<Rightarrow> u32 \<Rightarrow> bool" where
  "live_task s t \<longleftrightarrow> tstate (tasks s t) \<noteq> TASK_STATE_ZOMBIE"

text \<open>The tasks that get their turn after the current one, in ring order.\<close>

definition ready_queue :: "sched \<Rightarrow> u32 list \<Rightarrow> bool" where
  "ready_queue s q \<longleftrightarrow> (\<exists>ws. task_ring (tasks s) (current_task s # ws) \<and> q = filter (live_task s) ws)"

lemma sched_okI:
  assumes "task_head s = kt" "task_ring (tasks s) (kt # L)" "length L < MAX_TASKS" "current_task s \<in> set (kt # L)"
    "tid (tasks s kt) = 0" "tstate (tasks s kt) \<noteq> TASK_STATE_ZOMBIE"
    "\<And>t. t \<in> set (kt # L) \<Longrightarrow> tstate (tasks s t) = TASK_STATE_ZOMBIE
       \<or> tstate (tasks s t) = (if t = current_task s then TASK_STATE_RUNNING else TASK_STATE_READY)"
    "task_heap B (theap s) (task_blocks (tasks s) L)" "heap_fits (theap s) STACK_SIZE" "unat kt < unat (heap_base_addr (theap s))"
  shows "sched_ok kt B s L"
  unfolding sched_ok_def using assms by blast

lemma sched_okD:
  assumes "sched_ok kt B s L"
  shows "task_head s = kt" "task_ring (tasks s) (kt # L)" "length L < MAX_TASKS" "current_task s \<in> set (kt # L)"
    "tid (tasks s kt) = 0" "tstate (tasks s kt) \<noteq> TASK_STATE_ZOMBIE"
    "t \<in> set (kt # L) \<Longrightarrow> tstate (tasks s t) = TASK_STATE_ZOMBIE
       \<or> tstate (tasks s t) = (if t = current_task s then TASK_STATE_RUNNING else TASK_STATE_READY)"
    "task_heap B (theap s) (task_blocks (tasks s) L)" "heap_fits (theap s) STACK_SIZE" "unat kt < unat (heap_base_addr (theap s))"
  using assms unfolding sched_ok_def by blast+

lemma sched_ok_cur:
  assumes "sched_ok kt B s L"
  obtains xs ys where "kt # L = xs @ current_task s # ys" "task_ring (tasks s) (current_task s # ys @ xs)"
    "current_task s \<noteq> 0" "task_head s = kt" "kt \<noteq> 0" "distinct (xs @ current_task s # ys)"
proof -
  have r: "task_ring (tasks s) (kt # L)" "current_task s \<in> set (kt # L)" "task_head s = kt" using assms by (auto simp: sched_ok_def)
  then obtain xs ys where x: "kt # L = xs @ current_task s # ys" by (meson split_list)
  then have "task_ring (tasks s) (current_task s # ys @ xs)" using task_ring_split[of "tasks s" xs "current_task s # ys"] r(1) by simp
  moreover have "distinct (kt # L)" "kt \<noteq> 0" "current_task s \<noteq> 0" using r(1,2) by (auto simp: task_ring_def)
  ultimately show ?thesis using that[of xs ys] x r(3) by simp
qed

lemma schedule_run:
  assumes ok: "sched_ok kt B s L" and q: "kt # L = xs @ current_task s # ys" "q = filter (live_task s) (ys @ xs)"
  shows "\<exists>s'. scheduler_schedule kt r s = Some (if q = [] then r else regs_ptr (tasks s (hd q)), s')
    \<and> current_task s' = hd (q @ [current_task s]) \<and> task_ring (tasks s') (current_task s # q)
    \<and> sched_ok kt B s' (filter (\<lambda>t. \<not> reaped (tasks s) (current_task s) t) L)
    \<and> (\<forall>t. live_task s' t = live_task s t) \<and> next_pid s' = next_pid s \<and> regs_ptr (tasks s' (current_task s)) = r
    \<and> theap s' = fold (free_task (tasks s)) (filter (reaped (tasks s) (current_task s)) L) (theap s)"
proof -
  let ?cur = "current_task s" and ?T = "tasks s"
  let ?U = "?T(?cur := (?T ?cur)\<lparr>regs_ptr := r\<rparr>)"
  have h: "task_head s = kt" "task_ring ?T (kt # L)" "?cur \<in> set (kt # L)" using ok by (auto simp: sched_ok_def)
  have nz: "?cur \<noteq> 0" "kt \<noteq> 0" using h by (auto simp: task_ring_def)
  have dist: "distinct (kt # L)" using h(2) by (simp add: task_ring_def)
  have r0: "task_ring ?U (kt # L)" using h(2) task_ring_cong[of "kt # L" ?U ?T] by simp
  have f0: "free_task ?U = free_task ?T" "reaped ?U = reaped ?T" "stack_base (?U t) = stack_base (?T t)" "tstate (?U t) = tstate (?T t)" for t
    by (auto simp: fun_eq_iff free_task_def reaped_def)
  let ?L = "filter (\<lambda>t. \<not> reaped ?T ?cur t) L"
  let ?h = "fold (free_task ?T) (filter (reaped ?T ?cur) L) (theap s)"
  have "tnext (?U kt) = hd (L @ [kt])" using task_ring_walk[OF r0] by (cases L) auto
  then obtain T1 where T1: "reap_zombies kt ?cur (tnext (?U kt)) ?U (theap s) = Some (T1, ?h)" "same_data ?U T1" "task_ring T1 (kt # ?L)"
    using reap_zombies_walk[of ?U kt "[]" L ?cur "theap s"] r0 by (auto simp: f0)
  have keep: "kt # ?L = filter (\<lambda>t. \<not> reaped ?T ?cur t) xs @ ?cur # filter (\<lambda>t. \<not> reaped ?T ?cur t) ys"
  proof -
    have "\<not> reaped ?T ?cur kt" using ok by (auto simp: sched_ok_def reaped_def)
    then have "kt # ?L = filter (\<lambda>t. \<not> reaped ?T ?cur t) (kt # L)" by simp
    also have "\<dots> = filter (\<lambda>t. \<not> reaped ?T ?cur t) xs @ ?cur # filter (\<lambda>t. \<not> reaped ?T ?cur t) ys"
      unfolding q(1) by (simp add: reaped_def)
    finally show ?thesis .
  qed
  have "filter (\<lambda>t. \<not> reaped ?T ?cur t) (ys @ xs) = q"
    unfolding q(2) using dist q(1) by (intro filter_cong) (auto simp: reaped_def live_task_def)
  then have rq: "task_ring T1 (?cur # q)"
    using task_ring_split[of T1 "filter (\<lambda>t. \<not> reaped ?T ?cur t) xs" "?cur # filter (\<lambda>t. \<not> reaped ?T ?cur t) ys"] T1(3) keep by simp
  note sd = same_dataD[OF T1(2)]
  have st: "tstate (T1 t) = tstate (?T t)" "stack_base (T1 t) = stack_base (?T t)" "tid (T1 t) = tid (?T t)" for t using sd by simp_all
  have qr: "tstate (?T t) = TASK_STATE_READY" "t \<noteq> ?cur" if "t \<in> set q" for t
  proof -
    have "t \<in> set (kt # L)" "t \<noteq> ?cur" "live_task s t" using that q dist by auto
    then show "tstate (?T t) = TASK_STATE_READY" "t \<noteq> ?cur" using ok unfolding sched_ok_def live_task_def by metis+
  qed
  have pick: "pick_next T1 ?cur (tnext (T1 ?cur)) = Some (hd (q @ [?cur]))"
  proof -
    have "linked T1 (?cur # q @ [?cur])" "?cur \<notin> set q" using task_ring_walk[OF rq] by simp_all
    then have "tnext (T1 ?cur) = hd (q @ [?cur])" "linked T1 (q @ [?cur])" by (cases q; simp)+
    moreover have "List.find (\<lambda>t. runnable (T1 t)) q = (if q = [] then None else Some (hd q))" using qr st by (cases q) auto
    ultimately show ?thesis using pick_next_walk[of T1 q ?cur] \<open>?cur \<notin> set q\<close> by simp
  qed
  have heap: "task_heap B ?h (task_blocks T1 ?L) \<and> heap_base_addr ?h = heap_base_addr (theap s) \<and> heap_max_limit ?h = heap_max_limit (theap s)"
    using free_tasks_heap[of B "theap s" "[]" ?T L ?h "reaped ?T ?cur"] ok task_blocks_cong[of ?L T1 ?T] st by (simp add: sched_ok_def)
  have mem: "set (kt # ?L) = insert ?cur (set q)" unfolding keep \<open>filter (\<lambda>t. \<not> reaped ?T ?cur t) (ys @ xs) = q\<close>[symmetric] by auto
  have cur: "tstate (?T ?cur) = TASK_STATE_RUNNING \<or> tstate (?T ?cur) = TASK_STATE_ZOMBIE" using ok h(3) by (auto simp: sched_ok_def)
  have "length ?L \<le> length L" by (rule length_filter_le)
  then have ktz: "tstate (?T kt) \<noteq> TASK_STATE_ZOMBIE" "tid (?T kt) = 0" "length ?L < MAX_TASKS"
    using ok unfolding sched_ok_def by linarith+
  show ?thesis
  proof (cases "q = []")
    case True
    then have "?cur = kt" using mem by auto
    then have "tstate (T1 ?cur) = TASK_STATE_RUNNING" using cur ktz(1) st by auto
    let ?s = "s\<lparr>tasks := T1, theap := ?h\<rparr>"
    have "scheduler_schedule kt r s = Some (r, ?s)"
      using nz h(1) T1(1) pick True \<open>tstate (T1 ?cur) = TASK_STATE_RUNNING\<close> sd(5)[of ?cur]
      by (simp add: scheduler_schedule_def Let_def)
    moreover have "sched_ok kt B ?s ?L"
      using T1(3) h(1) ktz st heap ok mem True heap_fits_cong[of ?h "theap s"] cur unfolding sched_ok_def by auto
    ultimately show ?thesis using True rq st sd(5)[of ?cur] by (simp add: live_task_def)
  next
    case False
    let ?n = "hd q"
    have n: "?n \<in> set q" "?n \<noteq> ?cur" using False qr by auto
    let ?V = "\<lambda>t. if t = ?n then (T1 t)\<lparr>tstate := TASK_STATE_RUNNING\<rparr>
      else if t = ?cur \<and> tstate (?T t) = TASK_STATE_RUNNING then (T1 t)\<lparr>tstate := TASK_STATE_READY\<rparr> else T1 t"
    let ?s = "s\<lparr>tasks := ?V, theap := ?h, current_task := ?n\<rparr>"
    have upd: "(T1(?cur := (T1 ?cur)\<lparr>tstate := TASK_STATE_READY\<rparr>))(?n := (T1 ?n)\<lparr>tstate := TASK_STATE_RUNNING\<rparr>) = ?V"
      if "tstate (?T ?cur) = TASK_STATE_RUNNING" using that n(2) by (auto simp: fun_eq_iff)
    have upd': "T1(?n := (T1 ?n)\<lparr>tstate := TASK_STATE_RUNNING\<rparr>) = ?V" if "tstate (?T ?cur) \<noteq> TASK_STATE_RUNNING"
      using that by (auto simp: fun_eq_iff)
    have "scheduler_schedule kt r s = Some (regs_ptr (?T ?n), ?s)"
      using nz h(1) T1(1) pick False n sd(5)[of ?n] upd upd' st
      by (cases "tstate (?T ?cur) = TASK_STATE_RUNNING") (simp_all add: scheduler_schedule_def Let_def set_tstate_def)
    moreover have "sched_ok kt B ?s ?L"
    proof -
      have "task_ring ?V (kt # ?L)" using T1(3) task_ring_cong[of "kt # ?L" ?V T1] by simp
      moreover have "?n \<in> set (kt # ?L)" using mem n(1) by blast
      moreover have "tstate (?V t) = TASK_STATE_ZOMBIE \<or> tstate (?V t) = (if t = ?n then TASK_STATE_RUNNING else TASK_STATE_READY)"
        if "t \<in> set (kt # ?L)" for t
        using that qr cur st unfolding mem by auto
      moreover have "task_blocks ?V ?L = task_blocks T1 ?L" by (rule task_blocks_cong) simp
      moreover have "tstate (?V kt) \<noteq> TASK_STATE_ZOMBIE" "tid (?V kt) = 0" using ktz(1,2) st by auto
      ultimately show ?thesis
        using h(1) ktz(3) heap sched_okD(9,10)[OF ok] heap_fits_cong[of ?h "theap s"] by (intro sched_okI) simp_all
    qed
    moreover have "task_ring ?V (?cur # q)" using rq task_ring_cong[of "?cur # q" ?V T1] by simp
    moreover have "live_task ?s t = live_task s t" for t using st qr[OF n(1)] by (auto simp: live_task_def)
    ultimately show ?thesis using False n(2) sd(5)[of ?cur] by simp
  qed
qed

text \<open>Fields of the task structures that neither the ring, the states nor the heap depend on.\<close>

lemma sched_ok_cong:
  assumes "sched_ok kt B s L" "task_head s' = task_head s" "current_task s' = current_task s" "theap s' = theap s"
    "\<And>t. tnext (tasks s' t) = tnext (tasks s t)" "\<And>t. tprev (tasks s' t) = tprev (tasks s t)" "\<And>t. tid (tasks s' t) = tid (tasks s t)"
    "\<And>t. tstate (tasks s' t) = tstate (tasks s t)" "\<And>t. stack_base (tasks s' t) = stack_base (tasks s t)"
  shows "sched_ok kt B s' L"
proof -
  have "task_ring (tasks s') (kt # L)" using task_ring_cong[of "kt # L" "tasks s'" "tasks s"] sched_okD(2)[OF assms(1)] assms(5,6) by simp
  moreover have "task_blocks (tasks s') L = task_blocks (tasks s) L" using assms(9) by (intro task_blocks_cong)
  ultimately show ?thesis using sched_okD[OF assms(1)] assms by (intro sched_okI) simp_all
qed

lemma zombie_ok:
  assumes ok: "sched_ok kt B s L" and t: "t \<noteq> kt"
  shows "sched_ok kt B (set_tstate t TASK_STATE_ZOMBIE s) L"
proof -
  let ?s = "set_tstate t TASK_STATE_ZOMBIE s"
  have f: "tasks ?s a = (if a = t then (tasks s t)\<lparr>tstate := TASK_STATE_ZOMBIE\<rparr> else tasks s a)" "current_task ?s = current_task s"
    "task_head ?s = task_head s" "theap ?s = theap s" for a by (simp_all add: set_tstate_def)
  have "task_ring (tasks ?s) (kt # L)" using task_ring_cong[of "kt # L" "tasks ?s" "tasks s"] sched_okD(2)[OF ok] by (simp add: f)
  moreover have "task_blocks (tasks ?s) L = task_blocks (tasks s) L" by (rule task_blocks_cong) (simp add: f)
  moreover have "tstate (tasks ?s a) = TASK_STATE_ZOMBIE \<or> tstate (tasks ?s a) = (if a = current_task ?s then TASK_STATE_RUNNING else TASK_STATE_READY)"
    if "a \<in> set (kt # L)" for a using sched_okD(7)[OF ok that] by (cases "a = t") (simp_all add: f)
  ultimately show ?thesis using sched_okD(1-6,8-10)[OF ok] t by (intro sched_okI) (simp_all add: f)
qed

lemma task_kill_run:
  assumes ok: "sched_ok kt B s L"
  shows "\<exists>rc s'. task_kill pid s = Some (rc, s') \<and> sched_ok kt B s' L"
proof -
  let ?P = "\<lambda>t. tid (tasks s t) = pid \<and> tstate (tasks s t) \<noteq> TASK_STATE_ZOMBIE"
  have w: "linked (tasks s) (kt # L @ [kt])" "kt \<notin> set L" "kt \<noteq> 0" using task_ring_walk[OF sched_okD(2)[OF ok]] by auto
  have k: "kill_from (tasks s) kt pid kt = Some (List.find ?P (kt # L))" by (rule kill_from_walk[OF w(1,2)])
  show ?thesis
  proof (cases "pid = 0 \<or> List.find ?P (kt # L) = None")
    case True
    then show ?thesis using ok k sched_okD(1)[OF ok] by (auto simp: task_kill_def)
  next
    case False
    then obtain t where t: "List.find ?P (kt # L) = Some t" "pid \<noteq> 0" by auto
    then have "?P t" unfolding find_Some_iff by blast
    then have "t \<noteq> kt" using sched_okD(5)[OF ok] t(2) by auto
    then show ?thesis using zombie_ok[OF ok, of t] k t w(3) sched_okD(1)[OF ok] by (simp add: task_kill_def)
  qed
qed

lemma task_exit_run: "sched_ok kt B s L \<Longrightarrow> task_exit s = Some s' \<Longrightarrow> sched_ok kt B s' L"
  using zombie_ok[of kt B s L "current_task s"] sched_okD(5)[of kt B s L] by (auto simp: task_exit_def split: if_splits)

lemma schedule_total:
  assumes "sched_ok kt B s L"
  shows "\<exists>r' s' L'. scheduler_schedule kt r s = Some (r', s') \<and> sched_ok kt B s' L'"
proof -
  obtain xs ys where "kt # L = xs @ current_task s # ys" using sched_ok_cur[OF assms] by blast
  from schedule_run[OF assms this refl, of r] show ?thesis by blast
qed

definition charge_tick :: "sched \<Rightarrow> sched" where
  "charge_tick s = s\<lparr>sched_tick := sched_tick s + 1,
     tasks := (tasks s)(current_task s := (tasks s (current_task s))\<lparr>cpu_ticks := cpu_ticks (tasks s (current_task s)) + 1\<rparr>)\<rparr>"

lemma tick_charge:
  assumes "sched_ok kt B s L"
  shows "scheduler_tick kt r s = scheduler_schedule kt r (charge_tick s)" "sched_ok kt B (charge_tick s) L"
proof -
  have "current_task s \<noteq> 0" using sched_okD(2,4)[OF assms] by (auto simp: task_ring_def)
  then show "scheduler_tick kt r s = scheduler_schedule kt r (charge_tick s)" by (simp add: scheduler_tick_def charge_tick_def Let_def)
  show "sched_ok kt B (charge_tick s) L" using assms by (rule sched_ok_cong) (simp_all add: charge_tick_def)
qed

lemma init_ok:
  assumes "heap_holds (theap s) B" "heap_fits (theap s) STACK_SIZE" "kt \<noteq> 0" "unat kt < unat (heap_base_addr (theap s))"
  shows "sched_ok kt B (scheduler_init kt s) []"
  using assms by (auto simp: sched_ok_def scheduler_init_def task_ring_def task_heap_def)

section \<open>Creating a task\<close>

definition frame_words :: "u32 \<Rightarrow> u32 \<Rightarrow> u32 \<Rightarrow> u32 list" where
  "frame_words esp entry ex = [0x10, 0x10, 0x10, 0x10, 0, 0, esp, esp, 0, 0, 0, 0, 0, 0, entry, 0x08, 0x202, ex]"

lemma push_fold:
  fixes tp :: u32
  shows "length vs < 1000 \<Longrightarrow> \<exists>m'. fold push vs (tp, m) = (tp - of_nat (4 * length vs), m')
    \<and> (\<forall>i < length vs. load32 m' (tp - of_nat (4 * Suc i)) = vs ! i)
    \<and> (\<forall>x. 4 * length vs \<le> unat (x - (tp - of_nat (4 * length vs))) \<longrightarrow> m' x = m x)"
proof (induction vs rule: rev_induct)
  case (snoc v vs)
  let ?n = "length vs"
  define a where "a = tp - of_nat (4 * ?n)"
  obtain m' where f: "fold push vs (tp, m) = (a, m')" and IH: "\<And>i. i < ?n \<Longrightarrow> load32 m' (tp - of_nat (4 * Suc i)) = vs ! i"
    "\<And>x. 4 * ?n \<le> unat (x - a) \<Longrightarrow> m' x = m x"
    using snoc.IH snoc.prems unfolding a_def by auto
  have p: "fold push (vs @ [v]) (tp, m) = (a - 4, store32 m' (a - 4) v)" using f by (simp add: push_def)
  have a4: "a - 4 = tp - of_nat (4 * Suc ?n)" by (simp add: a_def)
  have "load32 (store32 m' (a - 4) v) (tp - of_nat (4 * Suc i)) = (vs @ [v]) ! i" if i: "i < Suc ?n" for i
  proof (cases "i = ?n")
    case True
    then show ?thesis unfolding a4 True load32_store32 by simp
  next
    case False
    then have lt: "i < ?n" using i by simp
    define d where "d = ?n - i"
    have d: "?n = i + d" "0 < d" using lt by (auto simp: d_def)
    let ?b = "tp - of_nat (4 * Suc i)"
    have ba: "?b - (a - 4) = of_nat (4 * d)" unfolding a4 d(1) by (simp add: algebra_simps)
    then have ab: "(a - 4) - ?b = - of_nat (4 * d)" by (metis minus_diff_eq)
    have u: "unat (of_nat (4 * d) :: u32) = 4 * d" using d(1) snoc.prems(1) by (intro unat_of_nat_u32) simp
    then have "4 \<le> (of_nat (4 * d) :: u32)" using d(2) by (simp add: word_le_nat_alt del: of_nat_mult)
    moreover have "unat (0 - (of_nat (4 * d) :: u32)) = 4294967296 - 4 * d"
      unfolding unat_sub_if' u using d(2) by simp
    then have "4 \<le> - (of_nat (4 * d) :: u32)" using d(1) snoc.prems(1) by (simp add: word_le_nat_alt del: of_nat_mult)
    ultimately have "load32 (store32 m' (a - 4) v) ?b = load32 m' ?b" using ba ab by (intro load32_store32_other) simp_all
    then show ?thesis using IH(1)[OF lt] lt by (simp add: nth_append)
  qed
  moreover have "store32 m' (a - 4) v x = m x" if "4 * Suc ?n \<le> unat (x - (a - 4))" for x
  proof -
    let ?z = "x - (a - 4)"
    have z: "4 * ?n + 4 \<le> unat ?z" using that by simp
    have "unat (?z - 4) = unat ?z - 4" using z unat_sub[of 4 ?z] by (simp add: word_le_nat_alt)
    then have "4 * ?n \<le> unat (x - a)" using z by simp
    moreover have "store32 m' (a - 4) v x = m' x" using z by (intro store32_other) (simp add: word_le_nat_alt)
    ultimately show ?thesis using IH(2) by simp
  qed
  ultimately show ?case using p a4 by (simp del: of_nat_mult of_nat_Suc mult_Suc_right)
qed simp

lemma task_frame_run:
  assumes "tp = ALIGN_DOWN (stack + STACK_SIZE) 16"
  shows "\<exists>m'. task_frame ex entry stack m = (tp - 72, m')
    \<and> (\<forall>i < 18. load32 m' (tp - 72 + of_nat (4 * i)) = frame_words (tp - 40) entry ex ! i)
    \<and> (\<forall>x. 72 \<le> unat (x - (tp - 72)) \<longrightarrow> m' x = m x)"
proof -
  define vs where "vs = [ex, 0x202, 0x08, entry, 0, 0, 0, 0, 0, 0] @ [tp - 40, tp - 40, 0, 0, 0x10, 0x10, 0x10, 0x10]"
  have len: "length vs = 18" by (simp add: vs_def)
  have fw: "frame_words (tp - 40) entry ex = rev vs" by (simp add: frame_words_def vs_def)
  have "fst (fold push [ex, 0x202, 0x08, entry, 0, 0, 0, 0, 0, 0] (tp, m)) = tp - 40" by (simp add: push_def)
  then have f: "task_frame ex entry stack m = fold push vs (tp, m)"
    unfolding task_frame_def Let_def assms[symmetric] vs_def fold_append comp_def by (simp add: case_prod_unfold)
  obtain m' where m': "fold push vs (tp, m) = (tp - of_nat (4 * 18), m')"
    "\<And>i. i < 18 \<Longrightarrow> load32 m' (tp - of_nat (4 * Suc i)) = vs ! i" "\<And>x. 4 * 18 \<le> unat (x - (tp - of_nat (4 * 18))) \<Longrightarrow> m' x = m x"
    using push_fold[of vs tp m] unfolding len by auto
  have "load32 m' (tp - 72 + of_nat (4 * i)) = frame_words (tp - 40) entry ex ! i" if "i < 18" for i
  proof -
    define j where "j = 17 - i"
    then have j: "j < 18" "4 * i = 72 - 4 * Suc j" "18 - Suc i = j" using that by auto
    have "tp - 72 + of_nat (4 * i) = tp - of_nat (4 * Suc j)" unfolding j(2) using j(1) by (simp add: of_nat_diff)
    moreover have "rev vs ! i = vs ! j" using rev_nth[of i vs] that unfolding len j(3) by simp
    ultimately show ?thesis using m'(2)[OF j(1)] unfolding fw by (simp only:)
  qed
  then show ?thesis using m' f by simp
qed

text \<open>What a new task looks like: ready, linked behind the others, with a frame on its own stack.\<close>

definition new_task :: "u32 \<Rightarrow> u32 \<Rightarrow> sched \<Rightarrow> u32 \<Rightarrow> sched \<Rightarrow> bool" where
  "new_task ex entry s t s' \<longleftrightarrow>
     (let tk = tasks s' t; stack = stack_base tk; tp = ALIGN_DOWN (stack + STACK_SIZE) 16 in
      tid tk = next_pid s \<and> next_pid s' = next_pid s + 1 \<and> tstate tk = TASK_STATE_READY \<and> cpu_ticks tk = 0
      \<and> current_task s' = current_task s
      \<and> unat stack \<le> unat (regs_ptr tk) \<and> unat (regs_ptr tk) + 72 \<le> unat stack + 8192
      \<and> (\<forall>i < 18. load32 (mem (theap s')) (regs_ptr tk + of_nat (4 * i)) = frame_words (regs_ptr tk + 32) entry ex ! i))"

lemma frame_in_stack:
  assumes "unat stack + 8192 < 4294967296" and "tp = ALIGN_DOWN (stack + STACK_SIZE) 16"
  shows "unat stack \<le> unat (tp - 72)" "unat (tp - 72) + 72 \<le> unat stack + 8192"
proof -
  have v: "unat (stack + STACK_SIZE) = unat stack + 8192" using assms(1) by (simp add: unat_word_ariths)
  have tp: "unat tp = (unat stack + 8192) div 16 * 16" using unat_ALIGN_DOWN[of "stack + STACK_SIZE" 4] assms(2) by (simp add: v)
  have b: "unat stack + 8192 - 15 \<le> unat tp" "unat tp \<le> unat stack + 8192" unfolding tp by linarith+
  then have "unat (tp - 72) = unat tp - 72" by (simp add: unat_sub word_le_nat_alt)
  then show "unat stack \<le> unat (tp - 72)" "unat (tp - 72) + 72 \<le> unat stack + 8192" using b by linarith+
qed

lemma frame_heap:
  assumes own: "own_block B h stack 8192 as" and tp: "tp = ALIGN_DOWN (stack + STACK_SIZE) 16"
    and m: "\<And>x. 72 \<le> unat (x - (tp - 72)) \<Longrightarrow> m x = mem h x"
  shows "task_heap B (h\<lparr>mem := m\<rparr>) (stack # as)" "unat stack \<le> unat (tp - 72)" "unat (tp - 72) + 72 \<le> unat stack + 8192"
proof -
  obtain k where k: "8192 \<le> k" "unat stack + k < 4294967296"
    "\<forall>m. (\<forall>x. \<not> (unat stack \<le> unat x \<and> unat x < unat stack + k) \<longrightarrow> m x = mem h x) \<longrightarrow> task_heap B (h\<lparr>mem := m\<rparr>) (stack # as)"
    using own unfolding own_block_def by blast
  have "unat stack + 8192 < 4294967296" using k by linarith
  note f = frame_in_stack[OF this tp]
  show "unat stack \<le> unat (tp - 72)" "unat (tp - 72) + 72 \<le> unat stack + 8192" by (rule f)+
  have "m x = mem h x" if "\<not> (unat stack \<le> unat x \<and> unat x < unat stack + k)" for x
  proof (rule m, rule ccontr)
    assume "\<not> 72 \<le> unat (x - (tp - 72))"
    then have "unat (tp - 72) \<le> unat x \<and> unat x < unat (tp - 72) + 72" using f k by (intro in_range_diff) auto
    then show False using that f k by linarith
  qed
  then show "task_heap B (h\<lparr>mem := m\<rparr>) (stack # as)" using k(3) by blast
qed

text \<open>Linking a task whose two blocks were just allocated.\<close>

lemma link_new_task:
  assumes ok: "sched_ok kt B s L" and len: "Suc (length L) < MAX_TASKS"
    and heap: "task_heap B h (stack # t # task_blocks (tasks s) L)" "heap_base_addr h = heap_base_addr (theap s)"
      "heap_max_limit h = heap_max_limit (theap s)"
    and tk: "tstate tk = TASK_STATE_READY" "stack_base tk = stack"
    and s': "tasks s' = link_tail kt t ((tasks s)(t := tk))" "theap s' = h" "task_head s' = task_head s" "current_task s' = current_task s"
  shows "sched_ok kt B s' (L @ [t])" "t \<notin> set (kt # L)" "\<And>a. same_data ((tasks s)(t := tk)) (tasks s')"
proof -
  let ?T = "(tasks s)(t := tk)"
  have d: "t \<notin> set L" "distinct (stack # t # task_blocks (tasks s) L)"
    using heap(1) by (auto simp: task_heap_def task_blocks_def)
  have "t \<noteq> 0 \<and> unat (heap_base_addr h) < unat t" by (rule task_heap_nonzero[OF heap(1)]) simp
  then have t: "t \<noteq> 0" "t \<noteq> kt" using sched_okD(10)[OF ok] heap(2) by auto
  then show new: "t \<notin> set (kt # L)" using d(1) by simp
  show sd: "same_data ?T (tasks s')" unfolding s'(1) by (rule link_tail_data)
  note f = same_dataD[OF sd]
  have "task_ring ?T (kt # L)" using task_ring_cong[of "kt # L" ?T "tasks s"] sched_okD(2)[OF ok] new by fastforce
  then have ring: "task_ring (tasks s') (kt # L @ [t])" unfolding s'(1) using new t(1) by (intro link_tail_ring)
  have "task_blocks (tasks s') L = task_blocks (tasks s) L" by (rule task_blocks_cong) (use d(1) f(6) in auto)
  then have "task_blocks (tasks s') (L @ [t]) = task_blocks (tasks s) L @ [t, stack]" using f(6)[of t] tk(2) by simp
  then have "task_heap B h (task_blocks (tasks s') (L @ [t]))" using d(2) heap(1) by (intro task_heap_perm[OF heap(1)]) auto
  moreover have "tstate (tasks s' a) = TASK_STATE_ZOMBIE \<or> tstate (tasks s' a) = (if a = current_task s' then TASK_STATE_RUNNING else TASK_STATE_READY)"
    if "a \<in> set (kt # L @ [t])" for a
    using that new sched_okD(4)[OF ok] sched_okD(7)[OF ok, of a] f(3)[of a] tk(1) s'(4) by (cases "a = t") auto
  ultimately show "sched_ok kt B s' (L @ [t])"
    using ring len sched_okD(1,4,5,6,9,10)[OF ok] f(1,3) t(2) s' heap(2,3) heap_fits_cong[of h "theap s"]
    by (intro sched_okI) auto
qed

lemma task_create_run:
  assumes ok: "sched_ok kt B s L"
  shows "\<exists>t s'. task_create ex tm name entry s = Some (t, s') \<and> (t = 0 \<longrightarrow> sched_ok kt B s' L)
    \<and> (t \<noteq> 0 \<longrightarrow> sched_ok kt B s' (L @ [t]) \<and> t \<notin> set (kt # L) \<and> new_task ex entry s t s')"
proof -
  have w: "linked (tasks s) (kt # L @ [kt])" "kt \<notin> set L" "kt \<noteq> 0" using task_ring_walk[OF sched_okD(2)[OF ok]] by auto
  have cnt: "scheduler_get_task_list s = Some (kt, Suc (length L))"
    using count_tasks_walk[OF w(1,2), of 0] w(3) sched_okD(1)[OF ok] by (simp add: scheduler_get_task_list_def)
  note heap = sched_okD(8)[OF ok] and fits = sched_okD(9)[OF ok]
  have fits64: "heap_fits (theap s) TASK_SIZE" using fits by (simp add: heap_fits_def)
  have pos: "0 < unat TASK_SIZE" "0 < unat STACK_SIZE" by simp_all
  obtain t h1 where t: "kzalloc TASK_SIZE (theap s) = Some (t, h1)" "heap_base_addr h1 = heap_base_addr (theap s)"
    "heap_max_limit h1 = heap_max_limit (theap s)" "t = 0 \<longrightarrow> h1 = theap s" "t \<noteq> 0 \<longrightarrow> task_heap B h1 (t # task_blocks (tasks s) L)"
    by (rule task_heap_alloc[OF heap pos(1) fits64])
  show ?thesis
  proof (cases "entry = 0 \<or> MAX_TASKS \<le> Suc (length L) \<or> t = 0")
    case True
    then have "task_create ex tm name entry s = Some (0, s)"
      using cnt t(1,4) sched_okD(1)[OF ok] w(3) by (auto simp: task_create_def)
    then show ?thesis using ok by simp
  next
    case False
    then have th: "task_heap B h1 (t # task_blocks (tasks s) L)" "t \<noteq> 0" using t(5) by auto
    have fits1: "heap_fits h1 STACK_SIZE" using fits heap_fits_cong[OF t(3)] by simp
    obtain stack h2 where st: "kzalloc STACK_SIZE h1 = Some (stack, h2)" "heap_base_addr h2 = heap_base_addr h1"
      "heap_max_limit h2 = heap_max_limit h1" "stack = 0 \<longrightarrow> h2 = h1" "stack \<noteq> 0 \<longrightarrow> task_heap B h2 (stack # t # task_blocks (tasks s) L)"
      "stack \<noteq> 0 \<longrightarrow> own_block B h2 stack (unat STACK_SIZE) (t # task_blocks (tasks s) L)"
      by (rule task_heap_alloc[OF th(1) pos(2) fits1])
    show ?thesis
    proof (cases "stack = 0")
      case True
      let ?s = "s\<lparr>theap := kfree t h1\<rparr>"
      have "task_create ex tm name entry s = Some (0, ?s)"
        using cnt t(1) st(1,4) sched_okD(1)[OF ok] w(3) False True by (simp add: task_create_def)
      moreover have "sched_ok kt B ?s L"
        using sched_okD[OF ok] task_heap_free[OF th(1)] t(2,3) heap_fits_cong[of "kfree t h1" "theap s"] by (intro sched_okI) simp_all
      ultimately show ?thesis by simp
    next
      case nz: False
      define tp where "tp = ALIGN_DOWN (stack + STACK_SIZE) 16"
      obtain m where m: "task_frame ex entry stack (mem h2) = (tp - 72, m)"
        "\<forall>i < 18. load32 m (tp - 72 + of_nat (4 * i)) = frame_words (tp - 40) entry ex ! i" "\<And>x. 72 \<le> unat (x - (tp - 72)) \<Longrightarrow> m x = mem h2 x"
        using task_frame_run[OF tp_def, of ex entry "mem h2"] by blast
      have own: "own_block B h2 stack 8192 (t # task_blocks (tasks s) L)" using st(6) nz by simp
      note fh = frame_heap[OF own tp_def m(3)]
      define nm where "nm = task_name (case name of Some n \<Rightarrow> n | None \<Rightarrow> map of_char ''thread'')"
      define tk where "tk = \<lparr>tid = next_pid s, tname = nm, tstate = TASK_STATE_READY, cpu_ticks = 0,
                              regs_ptr = tp - 72, stack_base = stack, page_dir = 0, tnext = 0, tprev = 0\<rparr>"
      define s' where "s' = s\<lparr>tasks := link_tail (task_head s) t ((tasks s)(t := tk)), next_pid := next_pid s + 1, theap := h2\<lparr>mem := m\<rparr>,
          tlog := klog_writeln (Some (map of_char ''sched'')) (Some (takeWhile (\<lambda>c. c \<noteq> 0) nm)) tm (tlog s)\<rparr>"
      have run: "task_create ex tm name entry s = Some (t, s')"
        using cnt t(1) st(1) sched_okD(1)[OF ok] w(3) False nz m(1) by (simp add: task_create_def s'_def tk_def nm_def Let_def)
      have l: "sched_ok kt B s' (L @ [t])" "t \<notin> set (kt # L)" "same_data ((tasks s)(t := tk)) (tasks s')"
        using link_new_task[OF ok _ fh(1), of tk s'] False t(2,3) st(2,3) sched_okD(1)[OF ok] by (simp_all add: s'_def tk_def)
      have "new_task ex entry s t s'"
        using same_dataD[OF l(3), of t] fh(2,3) m(2) by (simp add: new_task_def Let_def s'_def tk_def)
      then show ?thesis using run l(1,2) th(2) by simp
    qed
  qed
qed

section \<open>Turns\<close>

lemma linked_unique: "linked T (b # xs @ [a]) \<Longrightarrow> linked T (b # ys @ [a]) \<Longrightarrow> a \<notin> set xs \<Longrightarrow> a \<notin> set ys \<Longrightarrow> xs = ys"
proof (induction xs arbitrary: b ys)
  case Nil
  then show ?case by (cases ys) auto
next
  case (Cons x xs)
  then show ?case by (cases ys) auto
qed

lemma schedule_turn:
  assumes ok: "sched_ok kt B s L" and q: "ready_queue s q"
  shows "\<exists>s' L'. scheduler_schedule kt r s = Some (if q = [] then r else regs_ptr (tasks s (hd q)), s') \<and> sched_ok kt B s' L'
    \<and> current_task s' = hd (q @ [current_task s]) \<and> set (kt # L') = insert (current_task s) (set q) \<and> regs_ptr (tasks s' (current_task s)) = r
    \<and> theap s' = fold (free_task (tasks s)) (filter (reaped (tasks s) (current_task s)) L) (theap s)
    \<and> (q \<noteq> [] \<longrightarrow> ready_queue s' (tl q @ filter (live_task s) [current_task s]))"
proof -
  let ?c = "current_task s"
  obtain xs ys where x: "kt # L = xs @ ?c # ys" "task_ring (tasks s) (?c # ys @ xs)" using sched_ok_cur[OF ok] by blast
  obtain ws where ws: "task_ring (tasks s) (?c # ws)" "q = filter (live_task s) ws" using q by (auto simp: ready_queue_def)
  have "ws = ys @ xs" using linked_unique[of "tasks s" ?c ws ?c "ys @ xs"] task_ring_walk[OF ws(1)] task_ring_walk[OF x(2)] by simp
  then have qq: "q = filter (live_task s) (ys @ xs)" using ws(2) by simp
  let ?L = "filter (\<lambda>t. \<not> reaped (tasks s) ?c t) L"
  obtain s' where s': "scheduler_schedule kt r s = Some (if q = [] then r else regs_ptr (tasks s (hd q)), s')"
    "current_task s' = hd (q @ [?c])" "task_ring (tasks s') (?c # q)" "sched_ok kt B s' ?L" "\<forall>t. live_task s' t = live_task s t"
    "theap s' = fold (free_task (tasks s)) (filter (reaped (tasks s) ?c) L) (theap s)" "regs_ptr (tasks s' ?c) = r"
    using schedule_run[OF ok x(1) qq, of r] by blast
  have mem: "set (kt # ?L) = insert ?c (set q)"
  proof -
    have "\<not> reaped (tasks s) ?c kt" using sched_okD(6)[OF ok] by (simp add: reaped_def)
    then have "set (kt # ?L) = {t \<in> set (kt # L). \<not> reaped (tasks s) ?c t}" by auto
    also have "\<dots> = insert ?c (set q)" unfolding x(1) qq by (auto simp: reaped_def live_task_def)
    finally show ?thesis .
  qed
  have "ready_queue s' (tl q @ filter (live_task s) [?c])" if ne: "q \<noteq> []"
  proof -
    have "task_ring (tasks s') (current_task s' # tl q @ [?c])" using task_ring_rotate[OF s'(3)] ne s'(2) by (cases q) auto
    moreover have "\<forall>t \<in> set q. live_task s t" using ws(2) by simp
    then have "filter (live_task s') (tl q) = tl q" using s'(5) ne list.set_sel(2)[of q] by (intro filter_True) blast
    then have "tl q @ filter (live_task s) [?c] = filter (live_task s') (tl q @ [?c])" using s'(5) by simp
    ultimately show ?thesis unfolding ready_queue_def by blast
  qed
  then show ?thesis using s'(1,2,4,6,7) mem by blast
qed

lemma tick_queue: "ready_queue (charge_tick s) q = ready_queue s q"
proof -
  have "task_ring (tasks (charge_tick s)) xs = task_ring (tasks s) xs" for xs by (rule task_ring_cong) (simp add: charge_tick_def)
  moreover have "live_task (charge_tick s) = live_task s" by (simp add: fun_eq_iff live_task_def charge_tick_def)
  ultimately show ?thesis by (simp add: ready_queue_def charge_tick_def)
qed

fun run_ticks :: "u32 \<Rightarrow> u32 list \<Rightarrow> sched \<Rightarrow> sched option" where
  "run_ticks kt [] s = Some s"
| "run_ticks kt (r # rs) s = (case scheduler_tick kt r s of None \<Rightarrow> None | Some (_, s') \<Rightarrow> run_ticks kt rs s')"

lemma ticks_turn:
  "sched_ok kt B s L \<Longrightarrow> ready_queue s q \<Longrightarrow> i < length q \<Longrightarrow> length rs = Suc i
   \<Longrightarrow> \<exists>s'. run_ticks kt rs s = Some s' \<and> current_task s' = q ! i"
proof (induction i arbitrary: s L q rs)
  case 0
  then obtain r where r: "rs = [r]" by (metis length_0_conv length_Suc_conv)
  note c = tick_charge(1)[OF 0(1), of r] tick_charge(2)[OF 0(1)]
  have "ready_queue (charge_tick s) q" using 0(2) tick_queue by simp
  from schedule_turn[OF c(2) this, of r] show ?case using r 0(3) c(1) by (cases q) auto
next
  case (Suc i)
  then obtain r rs' where r: "rs = r # rs'" "length rs' = Suc i" by (metis length_Suc_conv)
  note c = tick_charge(1)[OF Suc.prems(1), of r] tick_charge(2)[OF Suc.prems(1)]
  have "ready_queue (charge_tick s) q" using Suc.prems(2) tick_queue by simp
  moreover have ne: "q \<noteq> []" using Suc.prems(3) by auto
  ultimately obtain s' L' q' where s': "scheduler_tick kt r s = Some (regs_ptr (tasks (charge_tick s) (hd q)), s')" "sched_ok kt B s' L'"
    "ready_queue s' (tl q @ q')"
    using schedule_turn[OF c(2), of q r] c(1) by auto
  have "i < length (tl q @ q')" "(tl q @ q') ! i = q ! Suc i" using Suc.prems(3) by (auto simp: nth_append nth_tl)
  then show ?case using Suc.IH[OF s'(2,3) _ r(2)] s'(1) r(1) by auto
qed

section \<open>The operations in any order\<close>

inductive sched_step :: "u32 \<Rightarrow> u32 \<Rightarrow> sched \<Rightarrow> sched \<Rightarrow> bool" for kt ex where
  Create: "task_create ex tm name entry s = Some (t, s') \<Longrightarrow> sched_step kt ex s s'"
| Kill: "task_kill pid s = Some (rc, s') \<Longrightarrow> sched_step kt ex s s'"
| Tick: "scheduler_tick kt r s = Some (r', s') \<Longrightarrow> sched_step kt ex s s'"
| Yield: "scheduler_schedule kt r s = Some (r', s') \<Longrightarrow> sched_step kt ex s s'"
| Exit: "task_exit s = Some s1 \<Longrightarrow> scheduler_schedule kt r s1 = Some (r', s') \<Longrightarrow> sched_step kt ex s s'"

lemma sched_step_ok: "sched_step kt ex s s' \<Longrightarrow> sched_ok kt B s L \<Longrightarrow> \<exists>L'. sched_ok kt B s' L'"
proof (induction rule: sched_step.induct)
  case (Create tm name entry s t s')
  then show ?case using task_create_run[OF Create(2), of ex tm name entry] by (cases "t = 0") auto
next
  case (Kill pid s rc s')
  then show ?case using task_kill_run[OF Kill(2), of pid] by auto
next
  case (Tick r s r' s')
  then show ?case using schedule_total[OF tick_charge(2)[OF Tick(2)], of r] tick_charge(1)[OF Tick(2), of r] by auto
next
  case (Yield r s r' s')
  then show ?case using schedule_total[OF Yield(2), of r] by auto
next
  case (Exit s s1 r r' s')
  then show ?case using schedule_total[OF task_exit_run[OF Exit(3,1)], of r] by auto
qed

text \<open>The scheduler at boot, with the freshly initialised heap.\<close>

definition sched_bss :: sched where
  "sched_bss = \<lparr>sched_tick = 0, tasks = (\<lambda>_. \<lparr>tid = 0, tname = [], tstate = 0, cpu_ticks = 0, regs_ptr = 0,
       stack_base = 0, page_dir = 0, tnext = 0, tprev = 0\<rparr>), current_task = 0, task_head = 0, next_pid = 0, theap = heap_init heap_bss,
     tlog = (\<lparr>klog_buf = replicate 16384 0, klog_len = 0\<rparr>, \<lparr>default_port = 0x3F8, serial_present = False,
       serial_rx_ring = \<lparr>cells = (\<lambda>_. 0), head = 0, tail = 0\<rparr>, uart_scratch = False, uart_floating = True, uart_rx = [], uart_tx = [],
       uart_config = []\<rparr>)\<rparr>"

definition sched_boot :: sched where
  "sched_boot = scheduler_init 0x200000 sched_bss"

definition timer_boot :: timer_state where
  "timer_boot = \<lparr>ticks = 0, seconds = 0, frequency = 100, irq_enabled = True, speaker_port = 0, pit_writes = []\<rparr>"

lemma heap_init_base: "heap_base_addr (heap_init st) = 0x400000"
  by (simp add: heap_init_def heap_init_at_def)

lemma sched_boot_heap: "theap sched_boot = heap_init heap_bss"
  by (simp add: sched_boot_def scheduler_init_def sched_bss_def)

lemma sched_boot_ok: "sched_ok 0x200000 {} sched_boot []"
  unfolding sched_boot_def by (rule init_ok) (simp_all add: sched_bss_def heap_init_holds heap_fits_def heap_init_base)

lemma boot_kzalloc:
  "\<exists>t h1 stack h2. kzalloc TASK_SIZE (heap_init heap_bss) = Some (t, h1) \<and> t \<noteq> 0 \<and> kzalloc STACK_SIZE h1 = Some (stack, h2) \<and> stack \<noteq> 0"
proof -
  let ?h = "heap_init heap_bss"
  let ?h1 = "take_state (of_nat 0x400000) (of_nat 64) ?h"
  let ?bs = "taken 64 0x1FFFE8"
  have r: "round8 64 = 64" "round8 8192 = 8192" by (simp_all add: round8_def)
  have base: "unat (heap_base_addr ?h) = 0x400000" by (simp add: heap_init_base)
  have k1: "kmalloc TASK_SIZE ?h = Some (0x400018, ?h1)"
    using kmalloc_fit[OF heap_init_ok, of TASK_SIZE "[]" "0x1FFFE8" "[]" "0x400000" heap_bss] base r by simp
  have t: "heap_ok ?h1 ([] @ ?bs @ [])" "keeps ?h [(0x1FFFE8, True)] ?h1"
    using take_state_ok[of ?h "[]" "0x1FFFE8" "[]" "0x400000" 64] heap_init_ok[of heap_bss] base by auto
  let ?h2 = "?h1\<lparr>mem := memset 0x400018 0 TASK_SIZE (mem ?h1)\<rparr>"
  have "heap_ok ?h2 ([] @ ?bs @ [])"
  proof (rule heap_ok_user_write[OF t(1)])
    fix x :: u32
    assume x: "unat x \<notin> used_at (unat (heap_base_addr ?h1)) ([] @ ?bs @ [])"
    have "heap_base_addr ?h1 = 0x400000" using t(2) by (simp add: keeps_def heap_init_base)
    then have "\<not> (0x400018 \<le> unat x \<and> unat x < 0x400018 + 64)" using x by (auto simp: used_at_live)
    then have "\<not> unat (x - 0x400018) < 64" using in_range_diff[of "0x400018" 64 x] by auto
    then show "memset 0x400018 0 TASK_SIZE (mem ?h1) x = mem ?h1 x" by (simp add: memset_eq_mfill mfill_def)
  qed
  moreover have lim: "heap_max_limit ?h2 = HEAP_MAX_SIZE" using t(2) by (simp add: keeps_def)
  moreover have "\<exists>b\<in>set ([] @ ?bs @ []). snd b \<and> round8 (unat STACK_SIZE) \<le> fst b" by (simp add: r)
  ultimately obtain p h' where "kmalloc STACK_SIZE ?h2 = Some (p, h')" "alloc_result ?h2 ([] @ ?bs @ []) (unat STACK_SIZE) p h'"
    using kmalloc_cases[of ?h2 "[] @ ?bs @ []" STACK_SIZE] by auto
  moreover from this have "p \<noteq> 0" by (simp add: alloc_result_def)
  ultimately show ?thesis using k1 by (auto simp: kzalloc_def)
qed

lemma boot_create: "\<exists>t s'. task_create 0x100400 timer_boot None 0x100800 sched_boot = Some (t, s') \<and> t \<noteq> 0"
proof -
  obtain t h1 stack h2 where k: "kzalloc TASK_SIZE (heap_init heap_bss) = Some (t, h1)" "t \<noteq> 0" "kzalloc STACK_SIZE h1 = Some (stack, h2)" "stack \<noteq> 0"
    using boot_kzalloc by blast
  have w: "linked (tasks sched_boot) (0x200000 # [] @ [0x200000])" "0x200000 \<notin> set ([] :: u32 list)"
    using task_ring_walk[OF sched_okD(2)[OF sched_boot_ok]] by auto
  have "scheduler_get_task_list sched_boot = Some (0x200000, 1)"
    using count_tasks_walk[OF w, of 0] sched_okD(1)[OF sched_boot_ok] by (simp add: scheduler_get_task_list_def)
  then show ?thesis using k sched_okD(1)[OF sched_boot_ok]
    by (simp add: task_create_def sched_boot_heap Let_def case_prod_unfold)
qed

text \<open>C4. The scheduler stays in order whatever happens: from \<^verbatim>\<open>scheduler_init\<close> on a well-formed heap, after any sequence of task
  creations, kills, exits, yields and timer ticks, the tasks form one circular doubly linked list of at most 64 tasks around
  the kernel task, which is never a zombie; the current task is in the list and is the only one that can be RUNNING; the heap
  is well formed and its live blocks are those of the rest of the kernel and one structure and one stack for every task but
  the kernel task, so nothing is leaked or freed twice; and each operation, with all its walks of the list, returns.\<close>

theorem scheduler_invariant:
  assumes "heap_holds (theap s0) B" and "heap_fits (theap s0) STACK_SIZE" and "kt \<noteq> 0" and "unat kt < unat (heap_base_addr (theap s0))"
    and "(sched_step kt ex)\<^sup>*\<^sup>* (scheduler_init kt s0) s"
  shows "\<exists>L. sched_ok kt B s L \<and> scheduler_get_task_list s = Some (kt, Suc (length L)) \<and> scheduler_schedule kt r s \<noteq> None
    \<and> scheduler_tick kt r s \<noteq> None \<and> task_kill pid s \<noteq> None \<and> task_create ex tm name entry s \<noteq> None"
proof -
  have "\<exists>L. sched_ok kt B s L"
    using assms(5)
  proof (induction rule: rtranclp_induct)
    case base
    then show ?case using init_ok[OF assms(1-4)] by blast
  next
    case (step s s')
    then show ?case using sched_step_ok by blast
  qed
  then obtain L where ok: "sched_ok kt B s L" by blast
  have w: "linked (tasks s) (kt # L @ [kt])" "kt \<notin> set L" "kt \<noteq> 0" using task_ring_walk[OF sched_okD(2)[OF ok]] by auto
  have "scheduler_get_task_list s = Some (kt, Suc (length L))"
    using count_tasks_walk[OF w(1,2), of 0] w(3) sched_okD(1)[OF ok] by (simp add: scheduler_get_task_list_def)
  moreover have "scheduler_tick kt r s \<noteq> None" using schedule_total[OF tick_charge(2)[OF ok], of r] tick_charge(1)[OF ok, of r] by auto
  ultimately show ?thesis
    using ok schedule_total[OF ok, of r] task_kill_run[OF ok, of pid] task_create_run[OF ok, of ex tm name entry] by auto
qed

theorem scheduler_invariant_witness:
  "\<exists>s L. (sched_step 0x200000 0x100400)\<^sup>*\<^sup>* sched_boot s \<and> s \<noteq> sched_boot \<and> sched_ok 0x200000 {} s L"
proof -
  obtain t s' where c: "task_create 0x100400 timer_boot None 0x100800 sched_boot = Some (t, s')" "t \<noteq> 0" using boot_create by blast
  have steps: "(sched_step 0x200000 0x100400)\<^sup>*\<^sup>* (scheduler_init 0x200000 sched_bss) s'"
    using sched_step.Create[OF c(1)] unfolding sched_boot_def by blast
  have "next_pid s' = next_pid sched_boot + 1"
    using task_create_run[OF sched_boot_ok, of "0x100400" timer_boot None "0x100800"] c by (auto simp: new_task_def Let_def)
  then have "s' \<noteq> sched_boot" by auto
  then show ?thesis
    using scheduler_invariant[OF _ _ _ _ steps, of "{}"] steps
    by (fastforce simp: sched_bss_def heap_init_holds heap_fits_def heap_init_base sched_boot_def)
qed

text \<open>C8. Scheduling is round robin: when the tasks after the current one in ring order that are not zombies are \<open>q\<close>,
  \<^verbatim>\<open>scheduler_schedule\<close> saves the frame of the current task, frees the stack and the structure of exactly the zombies other than
  the current task, leaves the current task and \<open>q\<close> as the tasks of the list, and switches to the frame of the first task of
  \<open>q\<close>; the current task, unless it is a zombie, becomes the last of the next queue.  With no other task it returns the frame it
  was given.\<close>

theorem schedule_round_robin:
  assumes "sched_ok kt B s L" and "ready_queue s q"
  shows "\<exists>s' L'. scheduler_schedule kt r s = Some (if q = [] then r else regs_ptr (tasks s (hd q)), s') \<and> sched_ok kt B s' L'
    \<and> current_task s' = hd (q @ [current_task s]) \<and> set (kt # L') = insert (current_task s) (set q)
    \<and> regs_ptr (tasks s' (current_task s)) = r
    \<and> theap s' = fold (free_task (tasks s)) (filter (reaped (tasks s) (current_task s)) L) (theap s)
    \<and> (q \<noteq> [] \<longrightarrow> ready_queue s' (tl q @ filter (live_task s) [current_task s]))"
  using schedule_turn[OF assms, of r] by blast

lemma boot_queue:
  "\<exists>t s'. task_create 0x100400 timer_boot None 0x100800 sched_boot = Some (t, s') \<and> t \<noteq> 0 \<and> sched_ok 0x200000 {} s' [t]
    \<and> new_task 0x100400 0x100800 sched_boot t s' \<and> ready_queue s' [t]"
proof -
  obtain t s' where c: "task_create 0x100400 timer_boot None 0x100800 sched_boot = Some (t, s')" "t \<noteq> 0" using boot_create by blast
  then have ok: "sched_ok 0x200000 {} s' ([] @ [t])" "new_task 0x100400 0x100800 sched_boot t s'"
    using task_create_run[OF sched_boot_ok, of "0x100400" timer_boot None "0x100800"] by auto
  have cur: "current_task s' = 0x200000" using ok(2) by (simp add: new_task_def Let_def sched_boot_def scheduler_init_def)
  have "task_ring (tasks s') (0x200000 # [t])" using sched_okD(2)[OF ok(1)] by simp
  moreover have "live_task s' t" using ok(2) by (simp add: live_task_def new_task_def Let_def)
  ultimately have "ready_queue s' [t]" unfolding ready_queue_def cur by (intro exI[of _ "[t]"]) simp
  then show ?thesis using c ok by auto
qed

theorem schedule_round_robin_witness:
  "\<exists>t s s' r'. task_create 0x100400 timer_boot None 0x100800 sched_boot = Some (t, s) \<and> t \<noteq> 0
     \<and> scheduler_schedule 0x200000 0x1FF000 s = Some (r', s') \<and> r' = regs_ptr (tasks s t) \<and> current_task s' = t"
proof -
  obtain t s where t: "task_create 0x100400 timer_boot None 0x100800 sched_boot = Some (t, s)" "t \<noteq> 0" "sched_ok 0x200000 {} s [t]" "ready_queue s [t]"
    using boot_queue by blast
  show ?thesis using schedule_round_robin[OF t(3,4), of "0x1FF000"] t(1,2) by auto
qed

text \<open>C14. No task starves: when a task is the \<open>i\<close>-th of those that wait, counting from 0, it is the running task after
  exactly \<open>i + 1\<close> timer ticks, whatever frames the interrupts save.\<close>

theorem no_starvation:
  assumes "sched_ok kt B s L" and "ready_queue s q" and "i < length q" and "length rs = Suc i"
  shows "\<exists>s'. run_ticks kt rs s = Some s' \<and> current_task s' = q ! i"
  using ticks_turn[OF assms] .

theorem no_starvation_witness:
  "\<exists>t s s'. task_create 0x100400 timer_boot None 0x100800 sched_boot = Some (t, s) \<and> t \<noteq> 0
     \<and> run_ticks 0x200000 [0x1FF000] s = Some s' \<and> current_task s' = t"
proof -
  obtain t s where t: "task_create 0x100400 timer_boot None 0x100800 sched_boot = Some (t, s)" "t \<noteq> 0" "sched_ok 0x200000 {} s [t]" "ready_queue s [t]"
    using boot_queue by blast
  show ?thesis using no_starvation[OF t(3,4), of 0 "[0x1FF000]"] t(1,2) by auto
qed

text \<open>C18. A new task is ready to run: \<^verbatim>\<open>task_create\<close> gives it the next process id and the state READY, puts it behind the other tasks
  of the list, and builds on its own stack the frame that the interrupt return pops: kernel data segments, the entry point with
  the kernel code segment and interrupts enabled, and \<^verbatim>\<open>task_exit\<close> as the return address of the entry point.\<close>

theorem task_create_frame:
  assumes "sched_ok kt B s L" and "task_create ex tm name entry s = Some (t, s')" and "t \<noteq> 0"
  shows "sched_ok kt B s' (L @ [t]) \<and> t \<notin> set (kt # L) \<and> tid (tasks s' t) = next_pid s \<and> tstate (tasks s' t) = TASK_STATE_READY
    \<and> unat (stack_base (tasks s' t)) \<le> unat (regs_ptr (tasks s' t))
    \<and> unat (regs_ptr (tasks s' t)) + 72 \<le> unat (stack_base (tasks s' t)) + 8192
    \<and> (\<forall>i < 18. load32 (mem (theap s')) (regs_ptr (tasks s' t) + of_nat (4 * i))
         = [0x10, 0x10, 0x10, 0x10, 0, 0, regs_ptr (tasks s' t) + 32, regs_ptr (tasks s' t) + 32, 0, 0, 0, 0, 0, 0, entry, 0x08, 0x202, ex] ! i)"
  using task_create_run[OF assms(1), of ex tm name entry] assms(2,3) unfolding new_task_def Let_def frame_words_def by auto

theorem task_create_frame_witness:
  "\<exists>t s. task_create 0x100400 timer_boot None 0x100800 sched_boot = Some (t, s)
     \<and> load32 (mem (theap s)) (regs_ptr (tasks s t) + 56) = 0x100800"
proof -
  obtain t s where t: "task_create 0x100400 timer_boot None 0x100800 sched_boot = Some (t, s)" "t \<noteq> 0" using boot_create by blast
  have "\<forall>i < 18. load32 (mem (theap s)) (regs_ptr (tasks s t) + of_nat (4 * i))
     = [0x10, 0x10, 0x10, 0x10, 0, 0, regs_ptr (tasks s t) + 32, regs_ptr (tasks s t) + 32, 0, 0, 0, 0, 0, 0, 0x100800, 0x08, 0x202, 0x100400] ! i"
    using task_create_frame[OF sched_boot_ok t] by blast
  from this[rule_format, of 14] show ?thesis using t(1) by simp
qed

end
