(* ===== verification/Vbe.thy ===== *)
theory Vbe
  imports Font Memops Paging
begin

text \<open>
  The frame buffer driver \<^verbatim>\<open>src/kernel/vbe.c\<close>: pixels, rectangles, scrolling and text in the 24 and 32 bit modes, over byte memory.
  The frame buffer is mapped one to one, so its addresses are those of the memory the page tables live in.  A C string is the
  list of its bytes.
\<close>

unbundle bit_operations_syntax

section \<open>The driver\<close>

record vbe =
  initialized :: bool
  fb_type :: u8
  fb_width :: u32
  fb_height :: u32
  fb_pitch :: u32
  fb_bpp :: u8
  phys_addr :: u32
  virt_addr :: u32
  red_pos :: u8
  red_size :: u8
  green_pos :: u8
  green_size :: u8
  blue_pos :: u8
  blue_size :: u8
  vbe_fg_color :: u32
  vbe_bg_color :: u32

abbreviation FB_TYPE_RGB :: u8 where "FB_TYPE_RGB \<equiv> 1"
abbreviation VBE_WHITE :: u32 where "VBE_WHITE \<equiv> 0x00FFFFFF"

definition vbe_palette :: "u32 list" where
  "vbe_palette =
     [0x000000, 0x0000AA, 0x00AA00, 0x00AAAA,
      0xAA0000, 0xAA00AA, 0xAA5500, 0xAAAAAA,
      0x555555, 0x5555FF, 0x55FF55, 0x55FFFF,
      0xFF5555, 0xFF55FF, 0xFFFF55, 0xFFFFFF]"

definition vbe_rgb :: "u8 \<Rightarrow> u8 \<Rightarrow> u8 \<Rightarrow> u32" where
  "vbe_rgb r g b = push_bit 16 (ucast r) OR push_bit 8 (ucast g) OR ucast b"

definition pack_hw_color :: "vbe \<Rightarrow> u32 \<Rightarrow> u32" where
  "pack_hw_color fb rgb =
     (if red_pos fb = 16 \<and> green_pos fb = 8 \<and> blue_pos fb = 0 then rgb
      else
        let r = drop_bit 16 rgb AND 0xFF;
            g = drop_bit 8 rgb AND 0xFF;
            b = rgb AND 0xFF
        in push_bit (unat (red_pos fb)) r OR push_bit (unat (green_pos fb)) g OR push_bit (unat (blue_pos fb)) b)"

definition unpack_hw_color :: "vbe \<Rightarrow> u32 \<Rightarrow> u32" where
  "unpack_hw_color fb hw =
     (if red_pos fb = 16 \<and> green_pos fb = 8 \<and> blue_pos fb = 0 then hw AND 0x00FFFFFF
      else
        let r = drop_bit (unat (red_pos fb)) hw AND 0xFF;
            g = drop_bit (unat (green_pos fb)) hw AND 0xFF;
            b = drop_bit (unat (blue_pos fb)) hw AND 0xFF
        in push_bit 16 r OR push_bit 8 g OR b)"

definition vbe_putpixel :: "vbe \<Rightarrow> u32 \<Rightarrow> u32 \<Rightarrow> u32 \<Rightarrow> memory \<Rightarrow> memory" where
  "vbe_putpixel fb x y color m =
     (if \<not> initialized fb \<or> x \<ge> fb_width fb \<or> y \<ge> fb_height fb then m
      else
        let hw = pack_hw_color fb color in
        if fb_bpp fb = 32 then store32 m (virt_addr fb + y * fb_pitch fb + 4 * x) hw
        else if fb_bpp fb = 24 then
          let p = virt_addr fb + y * fb_pitch fb + x * 3 in
          m(p := ucast hw, p + 1 := ucast (drop_bit 8 hw), p + 2 := ucast (drop_bit 16 hw))
        else m)"

definition vbe_getpixel :: "vbe \<Rightarrow> u32 \<Rightarrow> u32 \<Rightarrow> memory \<Rightarrow> u32" where
  "vbe_getpixel fb x y m =
     (if \<not> initialized fb \<or> x \<ge> fb_width fb \<or> y \<ge> fb_height fb then 0
      else if fb_bpp fb = 32 then unpack_hw_color fb (load32 m (virt_addr fb + y * fb_pitch fb + 4 * x))
      else if fb_bpp fb = 24 then
        let p = virt_addr fb + y * fb_pitch fb + x * 3 in
        unpack_hw_color fb (ucast (m p) OR push_bit 8 (ucast (m (p + 1))) OR push_bit 16 (ucast (m (p + 2))))
      else 0)"

definition vbe_fill_rect :: "vbe \<Rightarrow> u32 \<Rightarrow> u32 \<Rightarrow> u32 \<Rightarrow> u32 \<Rightarrow> u32 \<Rightarrow> memory \<Rightarrow> memory" where
  "vbe_fill_rect fb x y w h color m =
     (if \<not> initialized fb \<or> w = 0 \<or> h = 0 then m
      else if x \<ge> fb_width fb \<or> y \<ge> fb_height fb then m
      else
        let w = (if x + w > fb_width fb then fb_width fb - x else w);
            h = (if y + h > fb_height fb then fb_height fb - y else h)
        in if fb_bpp fb = 32 then
             let hw = pack_hw_color fb color in
             for_u32 0 h (\<lambda>row m.
               let dst = virt_addr fb + (y + row) * fb_pitch fb + 4 * x in
               for_u32 0 w (\<lambda>col m. store32 m (dst + 4 * col) hw) m) m
           else for_u32 0 h (\<lambda>row m. for_u32 0 w (\<lambda>col m. vbe_putpixel fb (x + col) (y + row) color m) m) m)"

definition vbe_draw_rect :: "vbe \<Rightarrow> u32 \<Rightarrow> u32 \<Rightarrow> u32 \<Rightarrow> u32 \<Rightarrow> u32 \<Rightarrow> u32 \<Rightarrow> memory \<Rightarrow> memory" where
  "vbe_draw_rect fb x y w h color thickness m =
     (if \<not> initialized fb \<or> thickness = 0 \<or> w = 0 \<or> h = 0 then m
      else
        let thickness = (if thickness > h div 2 then h div 2 else thickness);
            thickness = (if thickness > w div 2 then w div 2 else thickness);
            thickness = (if thickness = 0 then 1 else thickness);
            m = vbe_fill_rect fb x y w thickness color m;
            m = (if h > thickness then vbe_fill_rect fb x (y + h - thickness) w thickness color m else m)
        in if h > 2 * thickness then
             let m = vbe_fill_rect fb x (y + thickness) thickness (h - 2 * thickness) color m in
             if w > thickness then vbe_fill_rect fb (x + w - thickness) (y + thickness) thickness (h - 2 * thickness) color m
             else m
           else m)"

definition vbe_draw_hline :: "vbe \<Rightarrow> u32 \<Rightarrow> u32 \<Rightarrow> u32 \<Rightarrow> u32 \<Rightarrow> memory \<Rightarrow> memory" where
  "vbe_draw_hline fb x y len color = vbe_fill_rect fb x y len 1 color"

definition vbe_draw_vline :: "vbe \<Rightarrow> u32 \<Rightarrow> u32 \<Rightarrow> u32 \<Rightarrow> u32 \<Rightarrow> memory \<Rightarrow> memory" where
  "vbe_draw_vline fb x y len color = vbe_fill_rect fb x y 1 len color"

definition vbe_clear_color :: "vbe \<Rightarrow> u32 \<Rightarrow> memory \<Rightarrow> memory" where
  "vbe_clear_color fb color m = (if \<not> initialized fb then m else vbe_fill_rect fb 0 0 (fb_width fb) (fb_height fb) color m)"

definition vbe_clear :: "vbe \<Rightarrow> memory \<Rightarrow> memory" where
  "vbe_clear fb = vbe_clear_color fb (vbe_bg_color fb)"

definition vbe_scroll_region :: "vbe \<Rightarrow> u32 \<Rightarrow> u32 \<Rightarrow> u32 \<Rightarrow> u32 \<Rightarrow> memory \<Rightarrow> memory" where
  "vbe_scroll_region fb top_y region_h n_lines bg_color m =
     (if \<not> initialized fb \<or> n_lines = 0 \<or> region_h = 0 then m
      else if top_y \<ge> fb_height fb then m
      else
        let region_h = (if top_y + region_h > fb_height fb then fb_height fb - top_y else region_h) in
        if n_lines \<ge> region_h then vbe_fill_rect fb 0 top_y (fb_width fb) region_h bg_color m
        else
          let copy_lines = region_h - n_lines;
              m = memcpy (virt_addr fb + top_y * fb_pitch fb) (virt_addr fb + (top_y + n_lines) * fb_pitch fb)
                    (copy_lines * fb_pitch fb) m
          in vbe_fill_rect fb 0 (top_y + copy_lines) (fb_width fb) n_lines bg_color m)"

definition vbe_scroll :: "vbe \<Rightarrow> u32 \<Rightarrow> memory \<Rightarrow> memory" where
  "vbe_scroll fb n_lines = vbe_scroll_region fb 0 (fb_height fb) n_lines (vbe_bg_color fb)"

definition glyph_index :: "u8 \<Rightarrow> nat" where
  "glyph_index c = (let index = uint c - FONT_FIRST_CHAR in if index < 0 \<or> index \<ge> FONT_NUM_CHARS then 0 else nat index)"

definition vbe_draw_char :: "vbe \<Rightarrow> u32 \<Rightarrow> u32 \<Rightarrow> u8 \<Rightarrow> u32 \<Rightarrow> u32 \<Rightarrow> memory \<Rightarrow> memory" where
  "vbe_draw_char fb x y c fg bg m =
     (if \<not> initialized fb then m
      else if x + FONT_WIDTH > fb_width fb \<or> y + FONT_HEIGHT > fb_height fb then m
      else
        let glyph = font_8x16 ! glyph_index c in
        if fb_bpp fb = 32 then
          let hw_fg = pack_hw_color fb fg; hw_bg = pack_hw_color fb bg in
          for_u32 0 FONT_HEIGHT (\<lambda>row m.
            let bits = glyph ! unat row;
                dst = virt_addr fb + (y + row) * fb_pitch fb + 4 * x;
                m = store32 m dst (if bits AND 0x80 \<noteq> 0 then hw_fg else hw_bg);
                m = store32 m (dst + 4) (if bits AND 0x40 \<noteq> 0 then hw_fg else hw_bg);
                m = store32 m (dst + 8) (if bits AND 0x20 \<noteq> 0 then hw_fg else hw_bg);
                m = store32 m (dst + 12) (if bits AND 0x10 \<noteq> 0 then hw_fg else hw_bg);
                m = store32 m (dst + 16) (if bits AND 0x08 \<noteq> 0 then hw_fg else hw_bg);
                m = store32 m (dst + 20) (if bits AND 0x04 \<noteq> 0 then hw_fg else hw_bg);
                m = store32 m (dst + 24) (if bits AND 0x02 \<noteq> 0 then hw_fg else hw_bg)
            in store32 m (dst + 28) (if bits AND 0x01 \<noteq> 0 then hw_fg else hw_bg)) m
        else
          for_u32 0 FONT_HEIGHT (\<lambda>row m.
            let bits = glyph ! unat row in
            for_u32 0 FONT_WIDTH (\<lambda>col m.
              vbe_putpixel fb (x + col) (y + row) (if bits AND push_bit (unat (7 - col)) 1 \<noteq> 0 then fg else bg) m) m) m)"

definition newline :: "vbe \<Rightarrow> u32 \<Rightarrow> memory \<Rightarrow> u32 \<times> memory" where
  "newline fb cur_y m =
     (let cur_y = cur_y + FONT_HEIGHT in
      if cur_y + FONT_HEIGHT > fb_height fb then (cur_y - FONT_HEIGHT, vbe_scroll fb FONT_HEIGHT m) else (cur_y, m))"

fun draw_chars :: "vbe \<Rightarrow> u32 \<Rightarrow> u32 \<Rightarrow> u32 \<Rightarrow> u8 list \<Rightarrow> u32 \<Rightarrow> u32 \<Rightarrow> memory \<Rightarrow> memory" where
  "draw_chars fb x cur_x cur_y [] fg bg m = m"
| "draw_chars fb x cur_x cur_y (ch # str) fg bg m =
     (if ch = 0x0A then let (cur_y, m) = newline fb cur_y m in draw_chars fb x x cur_y str fg bg m
      else if ch = 0x0D then draw_chars fb x x cur_y str fg bg m
      else
        let m = vbe_draw_char fb cur_x cur_y ch fg bg m;
            cur_x = cur_x + FONT_WIDTH
        in if cur_x + FONT_WIDTH > fb_width fb
           then let (cur_y, m) = newline fb cur_y m in draw_chars fb x x cur_y str fg bg m
           else draw_chars fb x cur_x cur_y str fg bg m)"

definition vbe_draw_string :: "vbe \<Rightarrow> u32 \<Rightarrow> u32 \<Rightarrow> u8 list option \<Rightarrow> u32 \<Rightarrow> u32 \<Rightarrow> memory \<Rightarrow> memory" where
  "vbe_draw_string fb x y str fg bg m =
     (case str of None \<Rightarrow> m | Some str \<Rightarrow> if \<not> initialized fb then m else draw_chars fb x x y str fg bg m)"

definition vbe_puts :: "vbe \<Rightarrow> u32 \<Rightarrow> u32 \<Rightarrow> u8 list option \<Rightarrow> memory \<Rightarrow> memory" where
  "vbe_puts fb x y str = vbe_draw_string fb x y str (vbe_fg_color fb) (vbe_bg_color fb)"

definition vbe_vga_to_rgb :: "u8 \<Rightarrow> u32" where
  "vbe_vga_to_rgb vga_color = (if vga_color < 16 then vbe_palette ! unat vga_color else VBE_WHITE)"

definition vbe_is_active :: "vbe \<Rightarrow> bool" where
  "vbe_is_active fb = initialized fb"

record vbe_mode =
  mode_addr :: u64
  mode_pitch :: u32
  mode_width :: u32
  mode_height :: u32
  mode_bpp :: u8
  mode_type :: u8
  mode_red_pos :: u8
  mode_red_size :: u8
  mode_green_pos :: u8
  mode_green_size :: u8
  mode_blue_pos :: u8
  mode_blue_size :: u8

definition vbe_init :: "u32 \<Rightarrow> vbe_mode \<Rightarrow> vbe \<Rightarrow> paging_state \<Rightarrow> bool \<times> vbe \<times> paging_state" where
  "vbe_init mbi_flags md fb pg =
     (let fb0 = \<lparr>initialized = False, fb_type = 0, fb_width = 0, fb_height = 0, fb_pitch = 0, fb_bpp = 0, phys_addr = 0,
           virt_addr = 0, red_pos = 0, red_size = 0, green_pos = 0, green_size = 0, blue_pos = 0, blue_size = 0,
           vbe_fg_color = vbe_fg_color fb, vbe_bg_color = vbe_bg_color fb\<rparr> in
      if mbi_flags AND push_bit 12 1 = 0 then (False, fb0, pg)
      else if mode_type md \<noteq> FB_TYPE_RGB then (False, fb0, pg)
      else if mode_bpp md \<noteq> 24 \<and> mode_bpp md \<noteq> 32 then (False, fb0, pg)
      else if mode_addr md = 0 \<or> mode_addr md > 0xFFFF0000 then (False, fb0, pg)
      else if mode_width md = 0 \<or> mode_height md = 0 \<or> mode_pitch md = 0 then (False, fb0, pg)
      else
        let addr = ucast (mode_addr md);
            fb = \<lparr>initialized = True, fb_type = mode_type md, fb_width = mode_width md, fb_height = mode_height md,
              fb_pitch = mode_pitch md, fb_bpp = mode_bpp md, phys_addr = addr, virt_addr = addr,
              red_pos = (if mode_red_size md \<noteq> 0 then mode_red_pos md else 16),
              red_size = (if mode_red_size md \<noteq> 0 then mode_red_size md else 8),
              green_pos = (if mode_green_size md \<noteq> 0 then mode_green_pos md else 8),
              green_size = (if mode_green_size md \<noteq> 0 then mode_green_size md else 8),
              blue_pos = (if mode_blue_size md \<noteq> 0 then mode_blue_pos md else 0),
              blue_size = (if mode_blue_size md \<noteq> 0 then mode_blue_size md else 8),
              vbe_fg_color = vbe_fg_color fb, vbe_bg_color = vbe_bg_color fb\<rparr>;
            fb_size = mode_pitch md * mode_height md;
            pg = paging_map_region (virt_addr fb) (phys_addr fb) fb_size (PAGE_PRESENT OR PAGE_WRITABLE) pg
        in (True, fb, pg\<lparr>pg_mem := vbe_clear fb (pg_mem pg)\<rparr>))"

section \<open>Pixels in memory\<close>

definition px_bytes :: "vbe \<Rightarrow> nat" where
  "px_bytes fb = (if fb_bpp fb = 32 then 4 else 3)"

text \<open>A mode the driver can draw in: rows long enough for their pixels, a buffer inside the address space, and colour channels of
  eight bits that do not overlap.\<close>

definition channels_ok :: "vbe \<Rightarrow> bool" where
  "channels_ok fb \<longleftrightarrow> (let r = unat (red_pos fb); g = unat (green_pos fb); b = unat (blue_pos fb); n = unat (fb_bpp fb) in
     r + 8 \<le> n \<and> g + 8 \<le> n \<and> b + 8 \<le> n
     \<and> (r + 8 \<le> g \<or> g + 8 \<le> r) \<and> (r + 8 \<le> b \<or> b + 8 \<le> r) \<and> (g + 8 \<le> b \<or> b + 8 \<le> g))"

definition fb_ok :: "vbe \<Rightarrow> bool" where
  "fb_ok fb \<longleftrightarrow> initialized fb \<and> (fb_bpp fb = 24 \<or> fb_bpp fb = 32) \<and> channels_ok fb
     \<and> unat (fb_width fb) * px_bytes fb \<le> unat (fb_pitch fb)
     \<and> unat (virt_addr fb) + unat (fb_pitch fb) * unat (fb_height fb) < 4294967296"

end
