(* ===== verification/Vbe_Props.thy ===== *)
theory Vbe_Props
  imports Vbe
begin

text \<open>
  What the frame buffer driver draws.  In a mode it accepts, reading a pixel after drawing gives the colour drawn there, all other
  pixels keep their colour, and no byte outside the frame buffer changes; the fast 32 bit loops draw what pixel by pixel
  drawing draws.
\<close>

unbundle bit_operations_syntax

section \<open>Colours\<close>

lemma mask_8: "(0xFF :: u32) = mask 8" and mask_24: "(0x00FFFFFF :: u32) = mask 24"
  by (simp_all add: mask_eq_exp_minus_1)

lemma channels_okD:
  assumes "channels_ok fb" "fb_bpp fb = 24 \<or> fb_bpp fb = 32"
  shows "unat (red_pos fb) + 8 \<le> unat (fb_bpp fb)" "unat (green_pos fb) + 8 \<le> unat (fb_bpp fb)"
    "unat (blue_pos fb) + 8 \<le> unat (fb_bpp fb)" "unat (fb_bpp fb) \<le> 32"
  using assms by (auto simp: channels_ok_def Let_def)

lemma bit_unpack:
  assumes "channels_ok fb" "fb_bpp fb = 24 \<or> fb_bpp fb = 32"
  shows "bit (unpack_hw_color fb hw) n \<longleftrightarrow>
    (if n < 8 then bit hw (unat (blue_pos fb) + n)
     else if n < 16 then bit hw (unat (green_pos fb) + (n - 8))
     else n < 24 \<and> bit hw (unat (red_pos fb) + (n - 16)))"
proof (cases "red_pos fb = 16 \<and> green_pos fb = 8 \<and> blue_pos fb = 0")
  case True
  then show ?thesis by (auto simp: unpack_hw_color_def mask_24 bit_simps simp flip: take_bit_eq_mask)
next
  case False
  show ?thesis unfolding unpack_hw_color_def if_not_P[OF False] Let_def mask_8 take_bit_eq_mask[symmetric]
    by (auto simp: bit_simps add.commute)
qed

lemma bit_pack:
  assumes "channels_ok fb" "fb_bpp fb = 24 \<or> fb_bpp fb = 32" "i < 8"
  shows "bit (pack_hw_color fb c) (unat (red_pos fb) + i) \<longleftrightarrow> bit c (16 + i)"
    and "bit (pack_hw_color fb c) (unat (green_pos fb) + i) \<longleftrightarrow> bit c (8 + i)"
    and "bit (pack_hw_color fb c) (unat (blue_pos fb) + i) \<longleftrightarrow> bit c i"
  unfolding atomize_conj
proof (cases "red_pos fb = 16 \<and> green_pos fb = 8 \<and> blue_pos fb = 0")
  case True
  then show "(bit (pack_hw_color fb c) (unat (red_pos fb) + i) \<longleftrightarrow> bit c (16 + i))
    \<and> (bit (pack_hw_color fb c) (unat (green_pos fb) + i) \<longleftrightarrow> bit c (8 + i)) \<and> (bit (pack_hw_color fb c) (unat (blue_pos fb) + i) \<longleftrightarrow> bit c i)"
    by (simp add: pack_hw_color_def)
next
  case False
  obtain r g b n where n: "unat (red_pos fb) = r" "unat (green_pos fb) = g" "unat (blue_pos fb) = b" "unat (fb_bpp fb) = n" "n \<le> 32"
    using channels_okD(4)[OF assms(1,2)] by blast
  have d: "r + 8 \<le> n" "g + 8 \<le> n" "b + 8 \<le> n" "r + 8 \<le> g \<or> g + 8 \<le> r" "r + 8 \<le> b \<or> b + 8 \<le> r" "g + 8 \<le> b \<or> b + 8 \<le> g"
    using assms(1) unfolding channels_ok_def Let_def n by blast+
  have e: "pack_hw_color fb c = push_bit r (take_bit 8 (drop_bit 16 c)) OR push_bit g (take_bit 8 (drop_bit 8 c)) OR push_bit b (take_bit 8 c)"
    unfolding pack_hw_color_def if_not_P[OF False] Let_def mask_8 take_bit_eq_mask[symmetric] n ..
  show "(bit (pack_hw_color fb c) (unat (red_pos fb) + i) \<longleftrightarrow> bit c (16 + i))
    \<and> (bit (pack_hw_color fb c) (unat (green_pos fb) + i) \<longleftrightarrow> bit c (8 + i)) \<and> (bit (pack_hw_color fb c) (unat (blue_pos fb) + i) \<longleftrightarrow> bit c i)"
    unfolding e n using d n(5) assms(3) by (auto simp: bit_simps)
qed

text \<open>A colour survives the channel layout of the card; bits above the channels do not matter.\<close>

lemma unpack_pack:
  assumes "channels_ok fb" "fb_bpp fb = 24 \<or> fb_bpp fb = 32"
  shows "unpack_hw_color fb (take_bit (unat (fb_bpp fb)) (pack_hw_color fb c)) = c AND 0x00FFFFFF"
proof (rule bit_word_eqI)
  fix n
  note b = channels_okD[OF assms]
  show "bit (unpack_hw_color fb (take_bit (unat (fb_bpp fb)) (pack_hw_color fb c))) n = bit (c AND 0x00FFFFFF) n"
    unfolding bit_unpack[OF assms] mask_24 take_bit_eq_mask[symmetric] bit_take_bit_iff
    using bit_pack[OF assms, of "n - 16" c] bit_pack[OF assms, of "n - 8" c] bit_pack[OF assms, of n c] b
    by (auto simp: le_add_diff_inverse)
qed

section \<open>Addresses of pixels\<close>

definition px_load :: "vbe \<Rightarrow> memory \<Rightarrow> u32 \<Rightarrow> u32" where
  "px_load fb m a = (if fb_bpp fb = 32 then load32 m a
     else ucast (m a) OR push_bit 8 (ucast (m (a + 1))) OR push_bit 16 (ucast (m (a + 2))))"

definition px_store :: "vbe \<Rightarrow> memory \<Rightarrow> u32 \<Rightarrow> u32 \<Rightarrow> memory" where
  "px_store fb m a v = (if fb_bpp fb = 32 then store32 m a v
     else m(a := ucast v, a + 1 := ucast (drop_bit 8 v), a + 2 := ucast (drop_bit 16 v)))"

lemma bytes_24:
  "ucast (ucast v :: u8) OR push_bit 8 (ucast (ucast (drop_bit 8 v) :: u8)) OR push_bit 16 (ucast (ucast (drop_bit 16 v) :: u8)) = take_bit 24 (v :: u32)"
  by (simp add: word_all_bits bit_simps)

lemma px_load_store:
  assumes "fb_bpp fb = 24 \<or> fb_bpp fb = 32"
  shows "px_load fb (px_store fb m a v) a = take_bit (unat (fb_bpp fb)) v"
proof (cases "fb_bpp fb = 32")
  case True
  then show ?thesis by (simp add: px_load_def px_store_def take_bit_word_eq_self)
next
  case False
  then have "fb_bpp fb = 24" using assms by blast
  then show ?thesis by (simp add: px_load_def px_store_def bytes_24)
qed

lemma nat_diff_ge: "unat (b - a :: u32) < n \<Longrightarrow> unat a + n \<le> 4294967296 \<Longrightarrow> unat a \<le> unat b \<and> unat b < unat a + n"
  using unat_u32_less[of b] by (auto simp: unat_sub_if' word_le_nat_alt split: if_splits)

lemma store32_bytes: "\<not> unat (b - a) < 4 \<Longrightarrow> store32 m a v b = m b"
  by (rule store32_other) (simp add: word_le_nat_alt)

lemma px_store_other:
  assumes "\<not> unat (b - a) < px_bytes fb"
  shows "px_store fb m a v b = m b"
proof (cases "fb_bpp fb = 32")
  case True
  then show ?thesis using assms store32_bytes by (simp add: px_store_def px_bytes_def)
next
  case False
  then have "b \<noteq> a" "b \<noteq> a + 1" "b \<noteq> a + 2" using assms by (auto simp: px_bytes_def)
  then show ?thesis using False by (simp add: px_store_def)
qed

lemma px_load_cong:
  assumes "\<And>i. unat i < px_bytes fb \<Longrightarrow> m (a + i) = m' (a + i)"
  shows "px_load fb m a = px_load fb m' a"
proof (cases "fb_bpp fb = 32")
  case True
  then show ?thesis using assms by (auto simp: px_load_def px_bytes_def word_less_nat_alt intro!: load32_cong)
next
  case False
  then show ?thesis using assms[of 0] assms[of 1] assms[of 2] by (simp add: px_load_def px_bytes_def)
qed

definition pix :: "vbe \<Rightarrow> u32 \<Rightarrow> u32 \<Rightarrow> u32" where
  "pix fb x y = virt_addr fb + y * fb_pitch fb + of_nat (px_bytes fb) * x"

abbreviation on_screen :: "vbe \<Rightarrow> u32 \<Rightarrow> u32 \<Rightarrow> bool" where
  "on_screen fb x y \<equiv> x < fb_width fb \<and> y < fb_height fb"

lemma fb_okD:
  assumes "fb_ok fb"
  shows "initialized fb" "fb_bpp fb = 24 \<or> fb_bpp fb = 32" "channels_ok fb" "unat (fb_width fb) * px_bytes fb \<le> unat (fb_pitch fb)"
    "unat (virt_addr fb) + unat (fb_pitch fb) * unat (fb_height fb) < 4294967296"
  using assms by (simp_all add: fb_ok_def)

lemma row_bound:
  assumes "fb_ok fb" "on_screen fb x y"
  shows "unat y * unat (fb_pitch fb) + unat x * px_bytes fb + px_bytes fb \<le> unat (fb_pitch fb) * (unat y + 1)"
    and "unat (fb_pitch fb) * (unat y + 1) \<le> unat (fb_pitch fb) * unat (fb_height fb)"
proof -
  have "(unat x + 1) * px_bytes fb \<le> unat (fb_width fb) * px_bytes fb"
    using assms(2) by (intro mult_le_mono1) (simp add: word_less_nat_alt Suc_leI)
  then show "unat y * unat (fb_pitch fb) + unat x * px_bytes fb + px_bytes fb \<le> unat (fb_pitch fb) * (unat y + 1)"
    using fb_okD(4)[OF assms(1)] by (simp add: algebra_simps)
  show "unat (fb_pitch fb) * (unat y + 1) \<le> unat (fb_pitch fb) * unat (fb_height fb)"
    using assms(2) by (intro mult_le_mono2) (simp add: word_less_nat_alt Suc_leI)
qed

lemma px_bytes_pos: "0 < px_bytes fb"
  by (simp add: px_bytes_def)

lemma unat_pix:
  assumes "fb_ok fb" "on_screen fb x y"
  shows "unat (pix fb x y) = unat (virt_addr fb) + unat y * unat (fb_pitch fb) + unat x * px_bytes fb"
    and "unat (pix fb x y) + px_bytes fb \<le> unat (virt_addr fb) + unat (fb_pitch fb) * unat (fb_height fb)"
proof -
  let ?n = "unat (virt_addr fb) + unat y * unat (fb_pitch fb) + unat x * px_bytes fb"
  have le: "?n + px_bytes fb \<le> unat (virt_addr fb) + unat (fb_pitch fb) * unat (fb_height fb)"
    using row_bound[OF assms] by linarith
  have "pix fb x y = of_nat ?n" by (simp add: pix_def mult.commute)
  moreover have "?n < 4294967296" using le fb_okD(5)[OF assms(1)] px_bytes_pos[of fb] by linarith
  ultimately show "unat (pix fb x y) = ?n" by (simp only: unat_of_nat_u32)
  then show "unat (pix fb x y) + px_bytes fb \<le> unat (virt_addr fb) + unat (fb_pitch fb) * unat (fb_height fb)" using le by simp
qed

lemma pix_apart:
  assumes "fb_ok fb" "on_screen fb x y" "on_screen fb x' y'" "x \<noteq> x' \<or> y \<noteq> y'"
  shows "unat (pix fb x y) + px_bytes fb \<le> unat (pix fb x' y') \<or> unat (pix fb x' y') + px_bytes fb \<le> unat (pix fb x y)"
proof -
  have step: "unat (pix fb x y) + px_bytes fb \<le> unat (pix fb x' y')"
    if "on_screen fb x y" "on_screen fb x' y'" "y < y' \<or> y = y' \<and> x < x'" for x y x' y'
  proof (cases "y = y'")
    case True
    then have "(unat x + 1) * px_bytes fb \<le> unat x' * px_bytes fb"
      using that(3) by (intro mult_le_mono1) (simp add: word_less_nat_alt Suc_leI)
    then show ?thesis using unat_pix(1)[OF assms(1) that(1)] unat_pix(1)[OF assms(1) that(2)] True by simp
  next
    case False
    then have "unat (fb_pitch fb) * (unat y + 1) \<le> unat (fb_pitch fb) * unat y'"
      using that(3) by (intro mult_le_mono2) (simp add: word_less_nat_alt Suc_leI)
    then show ?thesis
      using unat_pix(1)[OF assms(1) that(1)] unat_pix(1)[OF assms(1) that(2)] row_bound(1)[OF assms(1) that(1)]
      by (simp add: mult.commute)
  qed
  consider "y < y' \<or> y = y' \<and> x < x'" | "y' < y \<or> y' = y \<and> x' < x" using assms(4) by (metis linorder_neqE)
  then show ?thesis using step assms(2,3) by cases blast+
qed

lemma putpixel_store: "fb_ok fb \<Longrightarrow> on_screen fb x y \<Longrightarrow> vbe_putpixel fb x y c m = px_store fb m (pix fb x y) (pack_hw_color fb c)"
  by (auto simp: vbe_putpixel_def px_store_def pix_def px_bytes_def fb_ok_def Let_def mult.commute simp flip: not_less)

lemma getpixel_load: "fb_ok fb \<Longrightarrow> on_screen fb x y \<Longrightarrow> vbe_getpixel fb x y m = unpack_hw_color fb (px_load fb m (pix fb x y))"
  by (auto simp: vbe_getpixel_def px_load_def pix_def px_bytes_def fb_ok_def Let_def mult.commute simp flip: not_less)

lemma putpixel_off: "\<not> on_screen fb x y \<Longrightarrow> vbe_putpixel fb x y c m = m"
  by (auto simp: vbe_putpixel_def not_less)

section \<open>Pictures\<close>

text \<open>The memory after drawing: pixel \<open>(x, y)\<close> has the colour \<open>c\<close> where the picture says \<open>Some c\<close>, the other pixels and all memory outside
  the frame buffer are as before.\<close>

definition outside :: "vbe \<Rightarrow> u32 \<Rightarrow> bool" where
  "outside fb a \<longleftrightarrow> unat a < unat (virt_addr fb) \<or> unat (virt_addr fb) + unat (fb_pitch fb) * unat (fb_height fb) \<le> unat a"

definition painted :: "vbe \<Rightarrow> (u32 \<Rightarrow> u32 \<Rightarrow> u32 option) \<Rightarrow> memory \<Rightarrow> memory \<Rightarrow> bool" where
  "painted fb p m m' \<longleftrightarrow>
     (\<forall>x y. on_screen fb x y \<longrightarrow>
        vbe_getpixel fb x y m' = (case p x y of Some c \<Rightarrow> c AND 0x00FFFFFF | None \<Rightarrow> vbe_getpixel fb x y m))
     \<and> (\<forall>a. outside fb a \<longrightarrow> m' a = m a)"

lemma painted_none: "painted fb (\<lambda>_ _. None) m m"
  by (simp add: painted_def)

lemma painted_cong: "painted fb p m m' \<Longrightarrow> (\<And>x y. on_screen fb x y \<Longrightarrow> p x y = q x y) \<Longrightarrow> painted fb q m m'"
  unfolding painted_def by simp

lemma painted_trans:
  assumes "painted fb p m m1" "painted fb q m1 m2"
  shows "painted fb (\<lambda>x y. case q x y of Some c \<Rightarrow> Some c | None \<Rightarrow> p x y) m m2"
  using assms unfolding painted_def by (auto split: option.splits)

lemma putpixel_painted:
  assumes "fb_ok fb"
  shows "painted fb (\<lambda>x' y'. if x' = x \<and> y' = y then Some c else None) m (vbe_putpixel fb x y c m)"
proof (cases "on_screen fb x y")
  case True
  note ok = assms
  let ?m = "vbe_putpixel fb x y c m"
  have st: "?m = px_store fb m (pix fb x y) (pack_hw_color fb c)" by (rule putpixel_store[OF ok True])
  note bd = unat_pix(2)[OF ok True] fb_okD(5)[OF ok]
  have other: "vbe_getpixel fb x' y' ?m = vbe_getpixel fb x' y' m" if s: "on_screen fb x' y'" and ne: "\<not> (x' = x \<and> y' = y)" for x' y'
    unfolding getpixel_load[OF ok s] st
  proof (rule arg_cong[of _ _ "unpack_hw_color fb"], rule px_load_cong, rule px_store_other)
    fix i :: u32 assume i: "unat i < px_bytes fb"
    let ?a = "pix fb x' y'" and ?b = "pix fb x y"
    have a: "unat (?a + i) = unat ?a + unat i"
      using unat_pix(2)[OF ok s] bd(2) i by (simp add: unat_add_lem[THEN iffD1])
    show "\<not> unat (?a + i - ?b) < px_bytes fb"
    proof
      assume "unat (?a + i - ?b) < px_bytes fb"
      from nat_diff_ge[OF this] bd have "unat ?b \<le> unat (?a + i)" "unat (?a + i) < unat ?b + px_bytes fb" by linarith+
      then show False using pix_apart[OF ok s True] ne a i by linarith
    qed
  qed
  have "vbe_getpixel fb x y ?m = c AND 0x00FFFFFF"
    unfolding getpixel_load[OF ok True] st px_load_store[OF fb_okD(2)[OF ok]] by (rule unpack_pack[OF fb_okD(3,2)[OF ok]])
  moreover have "?m a = m a" if "outside fb a" for a
    unfolding st
  proof (rule px_store_other, rule notI)
    assume "unat (a - pix fb x y) < px_bytes fb"
    from nat_diff_ge[OF this] bd unat_pix(1)[OF ok True] that show False unfolding outside_def by linarith
  qed
  ultimately show ?thesis using other unfolding painted_def by auto
next
  case False
  then show ?thesis by (auto simp: painted_def putpixel_off)
qed

section \<open>Rectangles\<close>

definition in_rect :: "u32 \<Rightarrow> u32 \<Rightarrow> u32 \<Rightarrow> u32 \<Rightarrow> u32 \<Rightarrow> u32 \<Rightarrow> bool" where
  "in_rect x y w h x' y' \<longleftrightarrow> x' - x < w \<and> y' - y < h"

lemma diff_less_add1: "k < w \<Longrightarrow> (a - x :: u32) < k + 1 \<longleftrightarrow> a - x < k \<or> a = x + k"
proof -
  assume k: "k < w"
  have "a - x = k \<longleftrightarrow> a = x + k" by (auto simp: algebra_simps)
  moreover have "(a - x) < k + 1 \<longleftrightarrow> (a - x) \<le> k" using less_add1_iff[OF k] add1_le_iff[OF k] by (metis not_less)
  ultimately show ?thesis by (auto simp: le_less)
qed

lemma row_painted:
  assumes "fb_ok fb"
  shows "painted fb (\<lambda>x' y'. if x' - x < w \<and> y' = y then Some (c (x' - x)) else None) m
    (for_u32 0 w (\<lambda>col m. vbe_putpixel fb (x + col) y (c col) m) m)"
proof (rule for_u32_invariant[where P = "\<lambda>k. painted fb (\<lambda>x' y'. if x' - x < k \<and> y' = y then Some (c (x' - x)) else None) m"])
  fix k m1 assume k: "k < w" and p: "painted fb (\<lambda>x' y'. if x' - x < k \<and> y' = y then Some (c (x' - x)) else None) m m1"
  show "painted fb (\<lambda>x' y'. if x' - x < k + 1 \<and> y' = y then Some (c (x' - x)) else None) m (vbe_putpixel fb (x + k) y (c k) m1)"
    by (rule painted_cong[OF painted_trans[OF p putpixel_painted[OF assms]]]) (auto simp: diff_less_add1[OF k])
qed (simp_all add: painted_none)

lemma rect_painted:
  assumes "fb_ok fb"
  shows "painted fb (\<lambda>x' y'. if in_rect x y w h x' y' then Some (c (x' - x) (y' - y)) else None) m
    (for_u32 0 h (\<lambda>row m. for_u32 0 w (\<lambda>col m. vbe_putpixel fb (x + col) (y + row) (c col row) m) m) m)"
proof (rule for_u32_invariant[where P = "\<lambda>k. painted fb (\<lambda>x' y'. if in_rect x y w k x' y' then Some (c (x' - x) (y' - y)) else None) m"])
  fix k m1 assume k: "k < h" and p: "painted fb (\<lambda>x' y'. if in_rect x y w k x' y' then Some (c (x' - x) (y' - y)) else None) m m1"
  show "painted fb (\<lambda>x' y'. if in_rect x y w (k + 1) x' y' then Some (c (x' - x) (y' - y)) else None) m
      (for_u32 0 w (\<lambda>col m. vbe_putpixel fb (x + col) (y + k) (c col k) m) m1)"
    by (rule painted_cong[OF painted_trans[OF p row_painted[OF assms]]]) (auto simp: in_rect_def diff_less_add1[OF k])
qed (simp_all add: painted_none in_rect_def)

lemma unat_plus_less:
  assumes "k < w" "unat x + unat w \<le> n" "n < 4294967296"
  shows "unat (x + k :: u32) = unat x + unat k" "unat (x + k) < n"
proof -
  have "unat x + unat k < n" using assms(1,2) by (simp add: word_less_nat_alt)
  then show "unat (x + k) = unat x + unat k" "unat (x + k) < n" using assms(3) by (simp_all add: unat_add_lem[THEN iffD1])
qed

lemma plus_on_screen:
  assumes "unat x + unat w \<le> unat (fb_width fb)" "unat y + unat h \<le> unat (fb_height fb)" "col < w" "row < h"
  shows "on_screen fb (x + col) (y + row)"
  using unat_plus_less(2)[OF assms(3,1) unat_u32_less] unat_plus_less(2)[OF assms(4,2) unat_u32_less] by (simp add: word_less_nat_alt)

lemma putpixel_32:
  assumes "fb_ok fb" "on_screen fb (x + col) (y + row)" "fb_bpp fb = 32"
  shows "vbe_putpixel fb (x + col) (y + row) c m
    = store32 m (virt_addr fb + (y + row) * fb_pitch fb + 4 * x + 4 * col) (pack_hw_color fb c)"
  unfolding putpixel_store[OF assms(1,2)] by (simp add: px_store_def pix_def px_bytes_def assms(3) algebra_simps)

lemma fill_rect_pixels:
  assumes "fb_ok fb" "unat x + unat w \<le> unat (fb_width fb)" "unat y + unat h \<le> unat (fb_height fb)" "fb_bpp fb = 32"
  shows "for_u32 0 h (\<lambda>row m. let dst = virt_addr fb + (y + row) * fb_pitch fb + 4 * x in
      for_u32 0 w (\<lambda>col m. store32 m (dst + 4 * col) (pack_hw_color fb c)) m) m
    = for_u32 0 h (\<lambda>row m. for_u32 0 w (\<lambda>col m. vbe_putpixel fb (x + col) (y + row) c m) m) m"
  unfolding Let_def by (intro for_u32_cong) (simp add: putpixel_32[OF assms(1) plus_on_screen[OF assms(2,3)] assms(4)])

text \<open>The clipped extent draws the same pixels of the screen as the full one.\<close>

lemma clip_extent:
  assumes "unat x + unat w < 4294967296" "x < width"
  defines "w' \<equiv> if x + w > width then width - x else w"
  shows "unat x + unat w' \<le> unat width" and "x' < width \<Longrightarrow> x' - x < w' \<longleftrightarrow> unat x \<le> unat x' \<and> unat x' < unat x + unat (w :: u32)"
proof -
  have xw: "unat (x + w) = unat x + unat w" using assms(1) by (simp add: unat_add_lem[THEN iffD1])
  have wx: "unat (width - x) = unat width - unat x" using assms(2) by (simp add: unat_sub word_less_nat_alt word_le_nat_alt)
  have u: "unat w' = (if unat x + unat w > unat width then unat width - unat x else unat w)"
    unfolding w'_def using xw wx by (simp add: word_less_nat_alt)
  then show "unat x + unat w' \<le> unat width" using assms(2) by (simp add: word_less_nat_alt)
  assume "x' < width"
  then show "x' - x < w' \<longleftrightarrow> unat x \<le> unat x' \<and> unat x' < unat x + unat w"
    using assms(1,2) unat_u32_less[of x'] unat_u32_less[of width] u by (auto simp: word_less_nat_alt unat_sub_if' word_le_nat_alt split: if_splits)
qed

lemma fill_rect_painted:
  assumes "fb_ok fb" "unat x + unat w < 4294967296" "unat y + unat h < 4294967296"
  shows "painted fb (\<lambda>x' y'. if unat x \<le> unat x' \<and> unat x' < unat x + unat w \<and> unat y \<le> unat y' \<and> unat y' < unat y + unat h
      then Some c else None) m (vbe_fill_rect fb x y w h c m)"
proof (cases "w = 0 \<or> h = 0 \<or> \<not> on_screen fb x y")
  case True
  then have "vbe_fill_rect fb x y w h c m = m" by (auto simp: vbe_fill_rect_def not_less)
  moreover have "painted fb (\<lambda>x' y'. if unat x \<le> unat x' \<and> unat x' < unat x + unat w \<and> unat y \<le> unat y' \<and> unat y' < unat y + unat h
      then Some c else None) m m"
    by (rule painted_cong[OF painted_none]) (use True in \<open>auto simp: word_less_nat_alt\<close>)
  ultimately show ?thesis by simp
next
  case False
  define w' where "w' = (if x + w > fb_width fb then fb_width fb - x else w)"
  define h' where "h' = (if y + h > fb_height fb then fb_height fb - y else h)"
  have s: "x < fb_width fb" "y < fb_height fb" using False by auto
  note cx = clip_extent[OF assms(2) s(1), folded w'_def] and cy = clip_extent[OF assms(3) s(2), folded h'_def]
  have g1: "\<not> (\<not> initialized fb \<or> w = 0 \<or> h = 0)" and g2: "\<not> (fb_width fb \<le> x \<or> fb_height fb \<le> y)"
    using False fb_okD(1)[OF assms(1)] by auto
  have "vbe_fill_rect fb x y w h c m = for_u32 0 h' (\<lambda>row m. for_u32 0 w' (\<lambda>col m. vbe_putpixel fb (x + col) (y + row) c m) m) m"
    using fill_rect_pixels[OF assms(1) cx(1) cy(1), of c m]
    unfolding vbe_fill_rect_def if_not_P[OF g1] if_not_P[OF g2] w'_def[symmetric] h'_def[symmetric] by (simp add: Let_def)
  then show ?thesis
    using painted_cong[OF rect_painted[OF assms(1), of x y w' h' "\<lambda>_ _. c" m]] by (simp add: in_rect_def cx(2) cy(2))
qed

lemma clear_color_painted:
  assumes "fb_ok fb"
  shows "painted fb (\<lambda>_ _. Some c) m (vbe_clear_color fb c m)"
proof -
  have "painted fb (\<lambda>_ _. Some c) m (vbe_fill_rect fb 0 0 (fb_width fb) (fb_height fb) c m)"
    by (rule painted_cong[OF fill_rect_painted[OF assms]]) (use unat_u32_less in \<open>auto simp: word_less_nat_alt\<close>)
  then show ?thesis using fb_okD(1)[OF assms] by (simp add: vbe_clear_color_def)
qed

section \<open>Characters\<close>

definition glyph_pixel :: "u8 \<Rightarrow> nat \<Rightarrow> nat \<Rightarrow> bool" where
  "glyph_pixel c i j \<longleftrightarrow> bit (font_8x16 ! glyph_index c ! j) (7 - i)"

lemma glyph_masks:
  "((b :: u8) AND 0x80 \<noteq> 0) = bit b 7" "(b AND 0x40 \<noteq> 0) = bit b 6" "(b AND 0x20 \<noteq> 0) = bit b 5" "(b AND 0x10 \<noteq> 0) = bit b 4"
  "(b AND 0x08 \<noteq> 0) = bit b 3" "(b AND 0x04 \<noteq> 0) = bit b 2" "(b AND 0x02 \<noteq> 0) = bit b 1" "(b AND 0x01 \<noteq> 0) = bit b 0"
  unfolding bit_iff_and_push_bit_not_eq_0 by (simp_all add: push_bit_eq_mult)

lemma for_u32_8: "for_u32 0 8 f m = f 7 (f 6 (f 5 (f 4 (f 3 (f 2 (f 1 (f 0 m)))))))"
  by (simp add: for_u32.simps)

definition glyph_color :: "u8 \<Rightarrow> u32 \<Rightarrow> u32 \<Rightarrow> u32 \<Rightarrow> u32 \<Rightarrow> u32" where
  "glyph_color c fg bg col row = (if glyph_pixel c (unat col) (unat row) then fg else bg)"

lemma draw_char_pixels:
  assumes "fb_ok fb" "unat x + 8 \<le> unat (fb_width fb)" "unat y + 16 \<le> unat (fb_height fb)"
  shows "vbe_draw_char fb x y c fg bg m
    = for_u32 0 16 (\<lambda>row m. for_u32 0 8 (\<lambda>col m. vbe_putpixel fb (x + col) (y + row) (glyph_color c fg bg col row) m) m) m"
proof -
  let ?glyph = "font_8x16 ! glyph_index c"
  have xy: "unat (x + 8) = unat x + 8" "unat (y + 16) = unat y + 16"
    using assms(2,3) unat_u32_less[of "fb_width fb"] unat_u32_less[of "fb_height fb"] by (simp_all add: unat_word_ariths)
  have g: "\<not> \<not> initialized fb" "\<not> (fb_width fb < x + FONT_WIDTH \<or> fb_height fb < y + FONT_HEIGHT)"
    using fb_okD(1)[OF assms(1)] assms(2,3) xy by (simp_all add: word_less_nat_alt)
  note on = plus_on_screen[of x 8 fb y 16, simplified, OF assms(2,3)]
  show ?thesis
  proof (cases "fb_bpp fb = 32")
    case True
    have st: "store32 m (virt_addr fb + (y + row) * fb_pitch fb + 4 * x + 4 * col) (if b then pack_hw_color fb fg else pack_hw_color fb bg)
        = vbe_putpixel fb (x + col) (y + row) (if b then fg else bg) m" if "col < 8" "row < 16" for b col row m
      using putpixel_32[OF assms(1) on[OF that] True] by simp
    show ?thesis
      unfolding vbe_draw_char_def if_not_P[OF g(1)] if_not_P[OF g(2)] Let_def if_P[OF True]
    proof (rule for_u32_cong)
      fix row :: u32 and m :: memory assume r: "row < 16"
      show "store32 (store32 (store32 (store32 (store32 (store32 (store32 (store32 m
          (virt_addr fb + (y + row) * fb_pitch fb + 4 * x) (if ?glyph ! unat row AND 0x80 \<noteq> 0 then pack_hw_color fb fg else pack_hw_color fb bg))
          (virt_addr fb + (y + row) * fb_pitch fb + 4 * x + 4) (if ?glyph ! unat row AND 0x40 \<noteq> 0 then pack_hw_color fb fg else pack_hw_color fb bg))
          (virt_addr fb + (y + row) * fb_pitch fb + 4 * x + 8) (if ?glyph ! unat row AND 0x20 \<noteq> 0 then pack_hw_color fb fg else pack_hw_color fb bg))
          (virt_addr fb + (y + row) * fb_pitch fb + 4 * x + 12) (if ?glyph ! unat row AND 0x10 \<noteq> 0 then pack_hw_color fb fg else pack_hw_color fb bg))
          (virt_addr fb + (y + row) * fb_pitch fb + 4 * x + 16) (if ?glyph ! unat row AND 0x08 \<noteq> 0 then pack_hw_color fb fg else pack_hw_color fb bg))
          (virt_addr fb + (y + row) * fb_pitch fb + 4 * x + 20) (if ?glyph ! unat row AND 0x04 \<noteq> 0 then pack_hw_color fb fg else pack_hw_color fb bg))
          (virt_addr fb + (y + row) * fb_pitch fb + 4 * x + 24) (if ?glyph ! unat row AND 0x02 \<noteq> 0 then pack_hw_color fb fg else pack_hw_color fb bg))
          (virt_addr fb + (y + row) * fb_pitch fb + 4 * x + 28) (if ?glyph ! unat row AND 0x01 \<noteq> 0 then pack_hw_color fb fg else pack_hw_color fb bg)
        = for_u32 0 8 (\<lambda>col m. vbe_putpixel fb (x + col) (y + row) (glyph_color c fg bg col row) m) m"
        unfolding for_u32_8 glyph_masks glyph_color_def glyph_pixel_def
        using st[OF _ r, of 0, simplified] st[OF _ r, of 1, simplified] st[OF _ r, of 2, simplified] st[OF _ r, of 3, simplified]
          st[OF _ r, of 4, simplified] st[OF _ r, of 5, simplified] st[OF _ r, of 6, simplified] st[OF _ r, of 7, simplified] by simp
    qed
  next
    case False
    have "unat (7 - col) = 7 - unat col" if "col < 8" for col :: u32
      using that by (simp add: word_less_nat_alt unat_sub word_le_nat_alt)
    then show ?thesis
      unfolding vbe_draw_char_def if_not_P[OF g(1)] if_not_P[OF g(2)] Let_def if_not_P[OF False]
      by (intro for_u32_cong) (simp add: glyph_color_def glyph_pixel_def bit_iff_and_push_bit_not_eq_0)
  qed
qed

lemma in_rect_nat:
  assumes "unat x + unat w < 4294967296" "unat y + unat h < 4294967296"
  shows "in_rect x y w h x' y' \<longleftrightarrow> unat x \<le> unat x' \<and> unat x' < unat x + unat w \<and> unat y \<le> unat y' \<and> unat y' < unat y + unat h"
  using assms unat_u32_less[of x'] unat_u32_less[of y']
  by (auto simp: in_rect_def word_less_nat_alt unat_sub_if' word_le_nat_alt split: if_splits)

lemma draw_char_painted:
  assumes "fb_ok fb" "unat x + 8 \<le> unat (fb_width fb)" "unat y + 16 \<le> unat (fb_height fb)"
  shows "painted fb (\<lambda>x' y'. if in_rect x y 8 16 x' y' then Some (glyph_color c fg bg (x' - x) (y' - y)) else None) m (vbe_draw_char fb x y c fg bg m)"
  unfolding draw_char_pixels[OF assms] by (rule rect_painted[OF assms(1)])

section \<open>Scrolling\<close>

lemma unpack_24: "channels_ok fb \<Longrightarrow> fb_bpp fb = 24 \<or> fb_bpp fb = 32 \<Longrightarrow> unpack_hw_color fb v AND 0x00FFFFFF = unpack_hw_color fb v"
  by (rule bit_word_eqI) (auto simp: bit_unpack mask_24 bit_simps simp flip: take_bit_eq_mask)

text \<open>Moving rows up: row \<open>y\<close> of the region gets the pixels of the row \<open>n\<close> below it.\<close>

lemma move_rows_painted:
  assumes "fb_ok fb" "unat t + unat n + unat k \<le> unat (fb_height fb)"
  shows "painted fb (\<lambda>x y. if unat t \<le> unat y \<and> unat y < unat t + unat k then Some (vbe_getpixel fb x (y + n) m) else None) m
    (memcpy (virt_addr fb + t * fb_pitch fb) (virt_addr fb + (t + n) * fb_pitch fb) (k * fb_pitch fb) m)"
proof -
  let ?p = "unat (fb_pitch fb)" and ?v = "unat (virt_addr fb)" and ?H = "unat (fb_height fb)"
  define d where "d = virt_addr fb + t * fb_pitch fb"
  define s where "s = virt_addr fb + (t + n) * fb_pitch fb"
  let ?m = "memcpy d s (k * fb_pitch fb) m"
  note ok = assms(1) and H = fb_okD(5)[OF assms(1)]
  have fit: "unat t * ?p + unat n * ?p + unat k * ?p \<le> ?p * ?H"
    using mult_le_mono2[OF assms(2), of ?p] by (simp add: algebra_simps)
  have small: "unat (of_nat j :: u32) = j" if "j \<le> ?v + (unat t * ?p + unat n * ?p + unat k * ?p)" for j
    using that fit H by (intro unat_of_nat_u32) linarith
  have "d = of_nat (?v + unat t * ?p)" "s = of_nat (?v + (unat t * ?p + unat n * ?p))" "k * fb_pitch fb = of_nat (unat k * ?p)"
    by (simp_all add: d_def s_def algebra_simps)
  then have ud: "unat d = ?v + unat t * ?p" and us: "unat s = ?v + (unat t * ?p + unat n * ?p)" and uk: "unat (k * fb_pitch fb) = unat k * ?p"
    using small by (simp_all only: le_add1 add_le_cancel_left trans_le_add2 le_refl add.assoc)
  have cp: "?m = mcopy d s (unat k * ?p) m"
    using fit H ud us uk by (subst memcpy_eq_mcopy) simp_all
  have sd: "s = d + n * fb_pitch fb" by (simp add: s_def d_def algebra_simps)
  have pixel: "vbe_getpixel fb x y ?m = (case if unat t \<le> unat y \<and> unat y < unat t + unat k then Some (vbe_getpixel fb x (y + n) m) else None of
      Some c \<Rightarrow> c AND 0x00FFFFFF | None \<Rightarrow> vbe_getpixel fb x y m)" if on: "on_screen fb x y" for x y
  proof -
    have off: "unat (pix fb x y + i) = unat (pix fb x y) + unat i" if "unat i < px_bytes fb" for i
      using unat_pix(2)[OF ok on] H that by (simp add: unat_add_lem[THEN iffD1])
    note pv = unat_pix(1)[OF ok on] and rb = row_bound(1)[OF ok on]
    have rb': "unat x * px_bytes fb + px_bytes fb \<le> ?p" using rb by (simp add: algebra_simps)
    show ?thesis
    proof (cases "unat t \<le> unat y \<and> unat y < unat t + unat k")
      case True
      have yn: "unat (y + n) = unat y + unat n" "on_screen fb x (y + n)"
        using True assms(2) on unat_u32_less[of "fb_height fb"] by (simp_all add: unat_add_lem[THEN iffD1] word_less_nat_alt)
      have "(unat y + 1) * ?p \<le> (unat t + unat k) * ?p" "unat t * ?p \<le> unat y * ?p" using True by (intro mult_le_mono1; simp)+
      then have rows: "unat y * ?p + ?p \<le> unat t * ?p + unat k * ?p" "unat t * ?p \<le> unat y * ?p" by (simp_all add: algebra_simps)
      have "unat (pix fb x y + i - d) < unat k * ?p" if "unat i < px_bytes fb" for i
      proof -
        have a: "unat (pix fb x y + i) < unat d + unat k * ?p" "unat d \<le> unat (pix fb x y + i)"
          using off[OF that] pv rb' ud that rows by linarith+
        then have "unat (pix fb x y + i - d) = unat (pix fb x y + i) - unat d" by (simp add: unat_sub word_le_nat_alt)
        then show ?thesis using a by linarith
      qed
      moreover have "s + (pix fb x y + i - d) = pix fb x (y + n) + i" for i by (simp add: sd pix_def algebra_simps)
      ultimately have "px_load fb ?m (pix fb x y) = px_load fb (\<lambda>a. m (a + (pix fb x (y + n) - pix fb x y))) (pix fb x y)"
        unfolding cp by (intro px_load_cong) (simp add: mcopy_def algebra_simps)
      also have "\<dots> = px_load fb m (pix fb x (y + n))"
        by (simp add: px_load_def load32_def algebra_simps)
      finally show ?thesis using True unpack_24[OF fb_okD(3,2)[OF ok]] by (simp add: getpixel_load[OF ok on] getpixel_load[OF ok yn(2)])
    next
      case False
      have "\<not> unat (pix fb x y + i - d) < unat k * ?p" if i: "unat i < px_bytes fb" for i
      proof
        assume "unat (pix fb x y + i - d) < unat k * ?p"
        from nat_diff_ge[OF this] ud fit H off[OF i] pv rb i
        have b: "unat t * ?p \<le> unat y * ?p + unat x * px_bytes fb + unat i"
          "unat y * ?p + unat x * px_bytes fb + unat i < unat t * ?p + unat k * ?p" by linarith+
        have "unat t * ?p < (unat y + 1) * ?p" "unat y * ?p < (unat t + unat k) * ?p" using b rb' i by (simp_all only: add_mult_distrib mult_1)
        then have "unat t < unat y + 1" "unat y < unat t + unat k" by (simp_all only: mult_less_cancel2)
        then show False using False by linarith
      qed
      then have "px_load fb ?m (pix fb x y) = px_load fb m (pix fb x y)"
        unfolding cp by (intro px_load_cong) (simp add: mcopy_def)
      then show ?thesis unfolding if_not_P[OF False] by (simp add: getpixel_load[OF ok on])
    qed
  qed
  have "?m a = m a" if "outside fb a" for a
  proof -
    have "\<not> unat (a - d) < unat k * ?p"
    proof
      assume "unat (a - d) < unat k * ?p"
      from nat_diff_ge[OF this] ud fit H that show False unfolding outside_def by linarith
    qed
    then show ?thesis unfolding cp by (simp add: mcopy_def)
  qed
  with pixel show ?thesis unfolding painted_def d_def s_def by blast
qed

lemma scroll_region_painted:
  assumes ok: "fb_ok fb" and r: "unat t + unat r \<le> unat (fb_height fb)" and n: "0 < n" "n < r"
  shows "painted fb (\<lambda>x y. if unat t \<le> unat y \<and> unat y < unat t + unat r
      then Some (if unat y + unat n < unat t + unat r then vbe_getpixel fb x (y + n) m else bg) else None) m
    (vbe_scroll_region fb t r n bg m)"
proof -
  let ?m = "memcpy (virt_addr fb + t * fb_pitch fb) (virt_addr fb + (t + n) * fb_pitch fb) ((r - n) * fb_pitch fb) m"
  have k: "unat (r - n) = unat r - unat n" "unat n < unat r" using n(2) by (simp_all add: unat_sub word_less_nat_alt word_le_nat_alt)
  have tr: "unat (t + r) = unat t + unat r" "unat (t + (r - n)) = unat t + (unat r - unat n)"
    using r k unat_u32_less[of "fb_height fb"] by (simp_all add: unat_add_lem[THEN iffD1])
  have g: "\<not> (\<not> initialized fb \<or> n = 0 \<or> r = 0)" "\<not> fb_height fb \<le> t" "\<not> fb_height fb < t + r" "\<not> r \<le> n"
    using fb_okD(1)[OF ok] n r k(2) tr by (auto simp: word_less_nat_alt word_le_nat_alt)
  have e: "vbe_scroll_region fb t r n bg m = vbe_fill_rect fb 0 (t + (r - n)) (fb_width fb) n bg ?m"
    unfolding vbe_scroll_region_def Let_def if_not_P[OF g(1)] if_not_P[OF g(2)] if_not_P[OF g(3)] if_not_P[OF g(4)] ..
  have f: "painted fb (\<lambda>x' y'. if unat (0 :: u32) \<le> unat x' \<and> unat x' < unat (0 :: u32) + unat (fb_width fb)
      \<and> unat (t + (r - n)) \<le> unat y' \<and> unat y' < unat (t + (r - n)) + unat n then Some bg else None) ?m (vbe_scroll_region fb t r n bg m)"
    unfolding e by (rule fill_rect_painted[OF ok]) (use unat_u32_less[of "fb_width fb"] tr(2) k r unat_u32_less[of "fb_height fb"] in simp_all)
  have fit: "unat t + unat n + unat (r - n) \<le> unat (fb_height fb)" using r k by simp
  show ?thesis
  proof (rule painted_cong[OF painted_trans[OF move_rows_painted[OF ok fit] f]])
    fix x y assume "on_screen fb x y"
    then have x: "unat x < unat (fb_width fb)" by (simp add: word_less_nat_alt)
    have c: "unat t + (unat r - unat n) \<le> unat y \<longleftrightarrow> \<not> unat y + unat n < unat t + unat r"
      "unat y < unat t + (unat r - unat n) + unat n \<longleftrightarrow> unat y < unat t + unat r"
      "unat y < unat t + (unat r - unat n) \<longleftrightarrow> unat y + unat n < unat t + unat r" using k(2) by linarith+
    show "(case if unat (0 :: u32) \<le> unat x \<and> unat x < unat (0 :: u32) + unat (fb_width fb) \<and> unat (t + (r - n)) \<le> unat y
        \<and> unat y < unat (t + (r - n)) + unat n then Some bg else None of
        None \<Rightarrow> if unat t \<le> unat y \<and> unat y < unat t + unat (r - n) then Some (vbe_getpixel fb x (y + n) m) else None | Some c \<Rightarrow> Some c)
      = (if unat t \<le> unat y \<and> unat y < unat t + unat r then Some (if unat y + unat n < unat t + unat r then vbe_getpixel fb x (y + n) m else bg) else None)"
      unfolding tr(2) k(1) c using x k(2) by simp
  qed
qed

section \<open>Modes\<close>

lemma vbe_init_rejects:
  assumes "\<not> bit mbi_flags 12 \<or> mode_type md \<noteq> FB_TYPE_RGB \<or> mode_bpp md \<notin> {24, 32} \<or> mode_addr md = 0 \<or> mode_addr md > 0xFFFF0000
    \<or> mode_width md = 0 \<or> mode_height md = 0 \<or> mode_pitch md = 0"
  shows "\<exists>fb'. vbe_init mbi_flags md fb pg = (False, fb', pg) \<and> \<not> initialized fb'"
proof -
  have "mbi_flags AND push_bit 12 1 = 0 \<longleftrightarrow> \<not> bit mbi_flags 12" by (simp add: bit_iff_and_push_bit_not_eq_0)
  then show ?thesis using assms unfolding vbe_init_def Let_def by auto
qed

text \<open>A mode that the boot loader reports with all its rows inside the address space is one the driver can draw in, and the screen is
  cleared.\<close>

lemma vbe_init_clears:
  assumes "vbe_init mbi_flags md fb pg = (True, fb', pg')"
    and "unat (mode_width md) * (unat (mode_bpp md) div 8) \<le> unat (mode_pitch md)"
    and "unat (mode_addr md) + unat (mode_pitch md) * unat (mode_height md) < 4294967296" and "channels_ok fb'"
  shows "fb_ok fb'" and "on_screen fb' x y \<Longrightarrow> vbe_getpixel fb' x y (pg_mem pg') = vbe_bg_color fb AND 0x00FFFFFF"
proof -
  have f: "initialized fb'" "fb_bpp fb' = 24 \<or> fb_bpp fb' = 32" "fb_bpp fb' = mode_bpp md" "fb_width fb' = mode_width md"
    "fb_height fb' = mode_height md" "fb_pitch fb' = mode_pitch md" "virt_addr fb' = ucast (mode_addr md)" "vbe_bg_color fb' = vbe_bg_color fb"
    using assms(1) by (auto simp: vbe_init_def Let_def split: if_splits)
  have m: "\<exists>m0. pg_mem pg' = vbe_clear fb' m0"
    using assms(1) unfolding vbe_init_def Let_def by (simp split: if_splits) (auto intro: exI)
  have "unat (mode_addr md) < 4294967296" using assms(3) by simp
  then have "unat (virt_addr fb') = unat (mode_addr md)" unfolding f(7) by (simp add: unsigned_ucast_eq take_bit_nat_eq_self)
  then show ok: "fb_ok fb'" using f assms(2-4) by (auto simp: fb_ok_def px_bytes_def)
  assume "on_screen fb' x y"
  then show "vbe_getpixel fb' x y (pg_mem pg') = vbe_bg_color fb AND 0x00FFFFFF"
    using m clear_color_painted[OF ok] f(8) unfolding vbe_clear_def painted_def by auto
qed

lemma draw_char_reads:
  assumes "fb_ok fb" and "unat x + 8 \<le> unat (fb_width fb)" and "unat y + 16 \<le> unat (fb_height fb)"
  shows "let m' = vbe_draw_char fb x y c fg bg m in
    (\<forall>x' y'. on_screen fb x' y' \<longrightarrow> vbe_getpixel fb x' y' m' =
      (if unat x \<le> unat x' \<and> unat x' < unat x + 8 \<and> unat y \<le> unat y' \<and> unat y' < unat y + 16
       then (if glyph_pixel c (unat x' - unat x) (unat y' - unat y) then fg else bg) AND 0x00FFFFFF
       else vbe_getpixel fb x' y' m))
    \<and> (\<forall>a. outside fb a \<longrightarrow> m' a = m a)"
proof -
  have b: "unat x + unat (8 :: u32) < 4294967296" "unat y + unat (16 :: u32) < 4294967296"
    using assms(2,3) unat_u32_less[of "fb_width fb"] unat_u32_less[of "fb_height fb"] by simp_all
  have "unat (x' - x) = unat x' - unat x" if "unat x \<le> unat x'" for x' x :: u32 using that by (simp add: unat_sub word_le_nat_alt)
  then show ?thesis using draw_char_painted[OF assms(1-3), of c fg bg m]
    unfolding painted_def Let_def by (auto simp: in_rect_nat[OF b] glyph_color_def)
qed


definition vga_mode :: vbe where
  "vga_mode = \<lparr>initialized = True, fb_type = FB_TYPE_RGB, fb_width = 640, fb_height = 480, fb_pitch = 2560, fb_bpp = 32,
     phys_addr = 0xFD000000, virt_addr = 0xFD000000, red_pos = 16, red_size = 8, green_pos = 8, green_size = 8, blue_pos = 0,
     blue_size = 8, vbe_fg_color = 0xFFFF55, vbe_bg_color = 0\<rparr>"

lemma vga_mode_ok: "fb_ok vga_mode"
  by (simp add: fb_ok_def vga_mode_def channels_ok_def px_bytes_def)


end
