(* ===== verification/Console.thy ===== *)
theory Console
  imports "HOL-Library.Signed_Division" Vbe Serial Net_Props Rtc
begin

text \<open>
  The console of \<^verbatim>\<open>src/kernel/shell.c\<close>: a grid of character cells kept in memory and shown on the graphical frame buffer or on the
  80 by 25 text screen, the cursor, scrolling, and the mirror on the serial port.  The cursor registers of the text screen are
  the index and data ports of its controller.  The top bar shows a network and a storage indicator and the clock: the
  network configuration, the kind of disk and the time of day are fields of the state here, which their own components change.
  A string argument is the list of its bytes before the terminating NUL, or None for a null pointer.
\<close>

unbundle bit_operations_syntax

section \<open>State\<close>

abbreviation VGA_MEMORY :: u32 where "VGA_MEMORY \<equiv> 0xB8000"
abbreviation MAX_GRID_COLS :: int where "MAX_GRID_COLS \<equiv> 200"
abbreviation MAX_GRID_ROWS :: int where "MAX_GRID_ROWS \<equiv> 100"
abbreviation VBE_TOPBAR_HEIGHT :: u32 where "VBE_TOPBAR_HEIGHT \<equiv> 28"

record console_cell =
  ch :: u8
  attr :: u8

record console =
  shadow_grid :: "int \<Rightarrow> int \<Rightarrow> console_cell"
  con_cols :: int
  con_rows :: int
  cur_x :: int
  cur_y :: int
  drawn_cur_x :: int
  drawn_cur_y :: int
  cur_visible :: bool
  default_attr :: u8
  con_fb :: vbe
  con_mem :: memory
  crtc_index :: u8
  crtc_regs :: "u8 \<Rightarrow> u8"
  con_serial :: serial_state
  bar_net :: net_config_t
  bar_ramdisk :: bool
  bar_time :: rtc_time

definition shell_theme_palette :: "u32 list" where
  "shell_theme_palette =
     [0x000D1117, 0x001F6FEB, 0x002EA043, 0x0039C5CF,
      0x00DA3633, 0x008957E5, 0x00D29922, 0x00C9D1D9,
      0x006E7681, 0x0058A6FF, 0x003FB950, 0x0056D4DD,
      0x00F85149, 0x00BC8CFF, 0x00FFA657, 0x00F0F6FC]"

definition ser_putc :: "u8 \<Rightarrow> console \<Rightarrow> console" where
  "ser_putc c con = con\<lparr>con_serial := serial_write_char COM1_PORT c (con_serial con)\<rparr>"

definition ser_puts :: "u8 list \<Rightarrow> console \<Rightarrow> console" where
  "ser_puts s con = con\<lparr>con_serial := serial_write_str s (con_serial con)\<rparr>"

section \<open>Cursor and cells\<close>

text \<open>Writes to the index port \<^verbatim>\<open>0x3D4\<close> and the data port \<^verbatim>\<open>0x3D5\<close>.\<close>

definition crtc_write :: "u8 \<Rightarrow> u8 \<Rightarrow> console \<Rightarrow> console" where
  "crtc_write i v con = con\<lparr>crtc_index := i, crtc_regs := (crtc_regs con)(i := v)\<rparr>"

definition vga_hw_set_cursor :: "int \<Rightarrow> int \<Rightarrow> bool \<Rightarrow> console \<Rightarrow> console" where
  "vga_hw_set_cursor x y visible con =
     (if \<not> visible then crtc_write 0x0A 0x20 con
      else
        let con = crtc_write 0x0A ((crtc_regs con 0x0A AND 0xC0) OR 13) con;
            con = crtc_write 0x0B ((crtc_regs con 0x0B AND 0xE0) OR 15) con;
            pos = of_int (y * 80 + x) :: u16;
            con = crtc_write 0x0F (ucast (pos AND 0xFF)) con
        in crtc_write 0x0E (ucast (drop_bit 8 pos AND 0xFF)) con)"

definition draw_cell :: "int \<Rightarrow> int \<Rightarrow> u8 \<Rightarrow> u32 \<Rightarrow> u32 \<Rightarrow> console \<Rightarrow> console" where
  "draw_cell col row c fg bg con =
     (let px = of_int (col * 8); py = of_int (28 + row * 16) in
      con\<lparr>con_mem := vbe_draw_char (con_fb con) px py (if c \<noteq> 0 then c else 0x20) fg bg (con_mem con)\<rparr>)"

definition vbe_render_cell_raw :: "int \<Rightarrow> int \<Rightarrow> u8 \<Rightarrow> u8 \<Rightarrow> console \<Rightarrow> console" where
  "vbe_render_cell_raw col row c a con =
     (let fg = shell_theme_palette ! unat (a AND 0x0F);
          bg = shell_theme_palette ! unat (drop_bit 4 a AND 0x0F)
      in draw_cell col row c fg bg con)"

definition vbe_undraw_cursor :: "console \<Rightarrow> console" where
  "vbe_undraw_cursor con =
     (if \<not> vbe_is_active (con_fb con) then con
      else
        let x = drawn_cur_x con; y = drawn_cur_y con;
            con = (if x \<ge> 0 \<and> x < con_cols con \<and> y \<ge> 0 \<and> y < con_rows con then
                     let cell = shadow_grid con y x in vbe_render_cell_raw x y (ch cell) (attr cell) con
                   else con)
        in con\<lparr>drawn_cur_x := -1, drawn_cur_y := -1\<rparr>)"

definition vbe_draw_cursor_at :: "int \<Rightarrow> int \<Rightarrow> console \<Rightarrow> console" where
  "vbe_draw_cursor_at col row con =
     (if \<not> vbe_is_active (con_fb con) \<or> \<not> cur_visible con then con
      else if col < 0 \<or> col \<ge> con_cols con \<or> row < 0 \<or> row \<ge> con_rows con then con
      else
        let cell = shadow_grid con row col;
            con = draw_cell col row (ch cell) 0x000D1117 0x00FFA657 con
        in con\<lparr>drawn_cur_x := col, drawn_cur_y := row\<rparr>)"

definition console_cols :: "console \<Rightarrow> int" where "console_cols con = con_cols con"
definition console_rows :: "console \<Rightarrow> int" where "console_rows con = con_rows con"

text \<open>A cell of the text screen is two bytes, the character and its attribute.\<close>

definition vga_put :: "int \<Rightarrow> u16 \<Rightarrow> memory \<Rightarrow> memory" where
  "vga_put i v m = (let a = VGA_MEMORY + 2 * of_int i in m(a := ucast v, a + 1 := ucast (drop_bit 8 v)))"

definition vga_get :: "int \<Rightarrow> memory \<Rightarrow> u16" where
  "vga_get i m = (let a = VGA_MEMORY + 2 * of_int i in ucast (m a) OR push_bit 8 (ucast (m (a + 1))))"

definition vga_cell :: "u8 \<Rightarrow> u8 \<Rightarrow> u16" where
  "vga_cell c a = ucast c OR push_bit 8 (ucast a)"

definition set_cell :: "int \<Rightarrow> int \<Rightarrow> u8 \<Rightarrow> u8 \<Rightarrow> console \<Rightarrow> console" where
  "set_cell col row c a con =
     con\<lparr>shadow_grid := (shadow_grid con)(row := (shadow_grid con row)(col := \<lparr>ch = c, attr = a\<rparr>))\<rparr>"

definition console_put_cell :: "int \<Rightarrow> int \<Rightarrow> u8 \<Rightarrow> u8 \<Rightarrow> console \<Rightarrow> console" where
  "console_put_cell col row c a con =
     (if col < 0 \<or> col \<ge> con_cols con \<or> row < 0 \<or> row \<ge> con_rows con then con
      else
        let con = set_cell col row c a con in
        if vbe_is_active (con_fb con) then
          let con = (if col = drawn_cur_x con \<and> row = drawn_cur_y con then con\<lparr>drawn_cur_x := -1, drawn_cur_y := -1\<rparr> else con)
          in vbe_render_cell_raw col row c a con
        else con\<lparr>con_mem := vga_put (row * 80 + col) (vga_cell c a) (con_mem con)\<rparr>)"

definition console_set_cursor :: "int \<Rightarrow> int \<Rightarrow> bool \<Rightarrow> console \<Rightarrow> console" where
  "console_set_cursor col row visible con =
     (let col = (if col < 0 then 0 else col);
          col = (if col \<ge> con_cols con then con_cols con - 1 else col);
          row = (if row < 0 then 0 else row);
          row = (if row \<ge> con_rows con then con_rows con - 1 else row);
          con = con\<lparr>cur_x := col, cur_y := row, cur_visible := visible\<rparr>
      in if vbe_is_active (con_fb con) then
           let con = vbe_undraw_cursor con in if visible then vbe_draw_cursor_at col row con else con
         else vga_hw_set_cursor col row visible con)"

section \<open>The top bar\<close>

text \<open>The texts of the indicators, with the address as \<^verbatim>\<open>net_format_ip\<close> prints it.\<close>

definition topbar_mid :: "console \<Rightarrow> u8 list" where
  "topbar_mid con =
     (if configured (bar_net con) then bytes_of ''NET: '' @ dotted (cfg_ip (bar_net con)) 3 else bytes_of ''NET: offline'')
      @ bytes_of (if bar_ramdisk con then ''  |  FS: RAMDisk'' else ''  |  FS: ATA HDD'')"

definition topbar_clock :: "console \<Rightarrow> u8 list" where
  "topbar_clock con = rtc_format_time (bar_time con) @ bytes_of '' UTC''"

definition bar_string :: "int \<Rightarrow> u8 list \<Rightarrow> u32 \<Rightarrow> console \<Rightarrow> console" where
  "bar_string x s fg con = con\<lparr>con_mem := vbe_draw_string (con_fb con) (of_int x) 6 (Some s) fg 0x00161B22 (con_mem con)\<rparr>"

definition bar_title :: "u8 list" where
  "bar_title = bytes_of ''BENGAL TIGER OS v1.0.0''"

definition console_refresh_topbar :: "console \<Rightarrow> console" where
  "console_refresh_topbar con =
     (if \<not> vbe_is_active (con_fb con) then con
      else
        let fb = con_fb con; w = fb_width fb;
            m = vbe_fill_rect fb 0 0 w (VBE_TOPBAR_HEIGHT - 2) 0x00161B22 (con_mem con);
            m = vbe_fill_rect fb 0 (VBE_TOPBAR_HEIGHT - 2) w 2 0x00FF7B00 m;
            con = bar_string 12 bar_title 0x00FFA657 (con\<lparr>con_mem := m\<rparr>);
            mid_x = (sint w - int (length (topbar_mid con)) * 8) sdiv 2;
            con = (if mid_x > 220 then bar_string mid_x (topbar_mid con) 0x008B949E con else con);
            rx = sint w - int (length (topbar_clock con)) * 8 - 12
        in if rx > 0 then bar_string rx (topbar_clock con) 0x0056D4DD con else con)"

section \<open>Clearing, scrolling, writing\<close>

definition grid_fill :: "u8 \<Rightarrow> (int \<Rightarrow> int \<Rightarrow> console_cell) \<Rightarrow> int \<Rightarrow> int \<Rightarrow> int \<Rightarrow> int \<Rightarrow> console_cell" where
  "grid_fill a g rows cols = (\<lambda>r c. if 0 \<le> r \<and> r < rows \<and> 0 \<le> c \<and> c < cols then \<lparr>ch = 0x20, attr = a\<rparr> else g r c)"

definition console_clear_cells :: "u8 \<Rightarrow> console \<Rightarrow> console" where
  "console_clear_cells a con =
     (let con = con\<lparr>drawn_cur_x := -1, drawn_cur_y := -1, shadow_grid := grid_fill a (shadow_grid con) (con_rows con) (con_cols con)\<rparr>;
          con =
            (if vbe_is_active (con_fb con) then
               let bg = shell_theme_palette ! unat (drop_bit 4 a AND 0x0F); fb = con_fb con in
               console_refresh_topbar (con\<lparr>con_mem :=
                 vbe_fill_rect fb 0 VBE_TOPBAR_HEIGHT (fb_width fb) (fb_height fb - VBE_TOPBAR_HEIGHT) bg (con_mem con)\<rparr>)
             else con\<lparr>con_mem := fold (\<lambda>i. vga_put (int i) (vga_cell 0x20 a)) [0..<80 * 25] (con_mem con)\<rparr>)
      in console_set_cursor 0 0 True con)"

definition grid_scroll :: "u8 \<Rightarrow> (int \<Rightarrow> int \<Rightarrow> console_cell) \<Rightarrow> int \<Rightarrow> int \<Rightarrow> int \<Rightarrow> int \<Rightarrow> console_cell" where
  "grid_scroll a g rows cols = (\<lambda>r c. if 0 \<le> r \<and> r < rows \<and> 0 \<le> c \<and> c < cols
     then if r = rows - 1 then \<lparr>ch = 0x20, attr = a\<rparr> else g (r + 1) c else g r c)"

definition console_scroll_up :: "console \<Rightarrow> console" where
  "console_scroll_up con =
     (let con = (if vbe_is_active (con_fb con) then vbe_undraw_cursor con else con);
          con = con\<lparr>shadow_grid := grid_scroll (default_attr con) (shadow_grid con) (con_rows con) (con_cols con)\<rparr>
      in if vbe_is_active (con_fb con) then
           let region_h = of_int (con_rows con * 16) in
           con\<lparr>con_mem := vbe_scroll_region (con_fb con) VBE_TOPBAR_HEIGHT region_h FONT_HEIGHT (shell_theme_palette ! 0) (con_mem con)\<rparr>
         else
           let m = fold (\<lambda>i m. vga_put (int i) (vga_get (int i + 80) m) m) [0..<80 * 24] (con_mem con)
           in con\<lparr>con_mem := fold (\<lambda>c. vga_put (24 * 80 + int c) (vga_cell 0x20 (default_attr con))) [0..<80] m\<rparr>)"

function scroll_to_fit :: "console \<Rightarrow> console" where
  "scroll_to_fit con =
     (if cur_y con \<ge> con_rows con then scroll_to_fit ((console_scroll_up con)\<lparr>cur_y := cur_y con - 1\<rparr>) else con)"
  by auto

lemma draw_cell_fields [simp]:
  "cur_y (draw_cell col row c fg bg con) = cur_y con" "con_rows (draw_cell col row c fg bg con) = con_rows con"
  by (simp_all add: draw_cell_def Let_def)

lemma undraw_fields [simp]:
  "cur_y (vbe_undraw_cursor con) = cur_y con" "con_rows (vbe_undraw_cursor con) = con_rows con"
  by (simp_all add: vbe_undraw_cursor_def vbe_render_cell_raw_def Let_def)

lemma scroll_up_fields [simp]:
  "cur_y (console_scroll_up con) = cur_y con" "con_rows (console_scroll_up con) = con_rows con"
  by (simp_all add: console_scroll_up_def Let_def)

termination scroll_to_fit
  by (relation "measure (\<lambda>con. nat (cur_y con - con_rows con + 1))") auto

declare scroll_to_fit.simps [simp del]

definition console_advance :: "u8 \<Rightarrow> u8 \<Rightarrow> console \<Rightarrow> console" where
  "console_advance c color con =
     (if c = 0x0A then con\<lparr>cur_x := 0, cur_y := cur_y con + 1\<rparr>
      else if c = 0x0D then con\<lparr>cur_x := 0\<rparr>
      else if c = 0x08 then
        let con =
              (if cur_x con > 0 then con\<lparr>cur_x := cur_x con - 1\<rparr>
               else if cur_y con > 0 then con\<lparr>cur_y := cur_y con - 1, cur_x := con_cols con - 1\<rparr>
               else con)
        in console_put_cell (cur_x con) (cur_y con) 0x20 (default_attr con) con
      else if c \<ge> 32 then
        let con = console_put_cell (cur_x con) (cur_y con) c color con;
            con = con\<lparr>cur_x := cur_x con + 1\<rparr>
        in if cur_x con \<ge> con_cols con then con\<lparr>cur_x := 0, cur_y := cur_y con + 1\<rparr> else con
      else con)"

definition console_write_plain :: "u8 \<Rightarrow> u8 \<Rightarrow> console \<Rightarrow> console" where
  "console_write_plain c color con =
     (let con = (if vbe_is_active (con_fb con) then vbe_undraw_cursor con else con);
          con = scroll_to_fit (console_advance c color con)
      in console_set_cursor (cur_x con) (cur_y con) True con)"

definition console_write_char_color :: "u8 \<Rightarrow> u8 \<Rightarrow> bool \<Rightarrow> console \<Rightarrow> console" where
  "console_write_char_color c color mirror_serial con =
     (let con =
            (if mirror_serial then if c = 0x08 then ser_puts [0x08, 0x20, 0x08] con else ser_putc c con else con)
      in if c = 0x09 then
           let con = (if vbe_is_active (con_fb con) then vbe_undraw_cursor con else con);
               spaces = 4 - cur_x con mod 4
           in (console_write_plain 0x20 color ^^ nat spaces) con
         else console_write_plain c color con)"

section \<open>Printing\<close>

definition shell_clear :: "console \<Rightarrow> console" where
  "shell_clear con = ser_puts (0x1B # bytes_of ''[2J'' @ 0x1B # bytes_of ''[H'') (console_clear_cells (default_attr con) con)"

definition shell_putchar :: "u8 \<Rightarrow> console \<Rightarrow> console" where
  "shell_putchar c con = console_write_char_color c (default_attr con) True con"

definition shell_print_color :: "u8 list option \<Rightarrow> u8 \<Rightarrow> console \<Rightarrow> console" where
  "shell_print_color str color con =
     (case str of None \<Rightarrow> con | Some s \<Rightarrow> fold (\<lambda>c. console_write_char_color c color True) s con)"

definition shell_print :: "u8 list option \<Rightarrow> console \<Rightarrow> console" where
  "shell_print str con =
     (case str of None \<Rightarrow> con | Some s \<Rightarrow> fold (\<lambda>c con. console_write_char_color c (default_attr con) True con) s con)"

definition shell_print_int :: "int \<Rightarrow> console \<Rightarrow> console" where
  "shell_print_int num = shell_print (Some (itoa_dec num))"

text \<open>The digits \<^verbatim>\<open>k_utoa\<close> writes in base 16.\<close>

definition hex_text :: "u32 \<Rightarrow> u8 list" where
  "hex_text num = (if num = 0 then [0x30] else rev (utoa_digits (unat num) 16))"

definition shell_print_hex :: "u32 \<Rightarrow> console \<Rightarrow> console" where
  "shell_print_hex num con =
     (let con = shell_print (Some (bytes_of ''0x'')) con;
          con = (if length (hex_text num) < 2 then shell_print (Some [0x30]) con else con)
      in shell_print (Some (hex_text num)) con)"

definition hex_pad :: "u32 \<Rightarrow> nat \<Rightarrow> u8 list" where
  "hex_pad val digits = rev (map (\<lambda>i. digit_char (unat (drop_bit (4 * i) val AND 0xF))) [0..<digits])"

definition print_hex_pad :: "u32 \<Rightarrow> nat \<Rightarrow> console \<Rightarrow> console" where
  "print_hex_pad val digits = shell_print (Some (hex_pad val digits))"

text \<open>The size of the grid, as \<^verbatim>\<open>shell_init\<close> chooses it before it clears the screen.\<close>

definition console_size :: "console \<Rightarrow> console" where
  "console_size con =
     (if vbe_is_active (con_fb con) then
        let cols = sint (fb_width (con_fb con)) sdiv 8;
            rows = (sint (fb_height (con_fb con)) - 28) sdiv 16;
            cols = (if cols > MAX_GRID_COLS then MAX_GRID_COLS else cols);
            rows = (if rows > MAX_GRID_ROWS then MAX_GRID_ROWS else rows);
            cols = (if cols < 40 then 40 else cols);
            rows = (if rows < 15 then 15 else rows)
        in con\<lparr>con_cols := cols, con_rows := rows\<rparr>
      else con\<lparr>con_cols := 80, con_rows := 25\<rparr>)"

section \<open>Runs\<close>

text \<open>The calls of the console's interface, and the changes of the state the top bar shows.\<close>

datatype console_op =
    Clear
  | Clear_Cells u8
  | Putchar u8
  | Print "u8 list option"
  | Print_Color "u8 list option" u8
  | Print_Int int
  | Print_Hex u32
  | Put_Cell int int u8 u8
  | Set_Cursor int int bool
  | Refresh_Topbar
  | Bar_Change net_config_t bool rtc_time

fun console_run :: "console_op \<Rightarrow> console \<Rightarrow> console" where
  "console_run Clear con = shell_clear con"
| "console_run (Clear_Cells a) con = console_clear_cells a con"
| "console_run (Putchar c) con = shell_putchar c con"
| "console_run (Print s) con = shell_print s con"
| "console_run (Print_Color s color) con = shell_print_color s color con"
| "console_run (Print_Int num) con = shell_print_int num con"
| "console_run (Print_Hex num) con = shell_print_hex num con"
| "console_run (Put_Cell col row c a) con = console_put_cell col row c a con"
| "console_run (Set_Cursor col row visible) con = console_set_cursor col row visible con"
| "console_run Refresh_Topbar con = console_refresh_topbar con"
| "console_run (Bar_Change cfg ramdisk t) con = con\<lparr>bar_net := cfg, bar_ramdisk := ramdisk, bar_time := t\<rparr>"

end
