(* ===== verification/Console_Props.thy ===== *)
theory Console_Props
  imports Console Vbe_Props
begin

text \<open>
  The console shows its grid.  After every sequence of console operations, from a cleared screen on, the cursor is inside the
  grid and the screen holds exactly the cells of the grid: character and attribute bytes on the text screen, the pixels of the
  glyphs in the colours of their attributes on the frame buffer, with the cell under the drawn cursor in the cursor's colours.
\<close>

unbundle bit_operations_syntax

section \<open>The text screen\<close>

lemma unat_vga: "0 \<le> i \<Longrightarrow> i < 2000 \<Longrightarrow> unat (VGA_MEMORY + 2 * of_int i) = 753664 + 2 * nat i"
  "0 \<le> i \<Longrightarrow> i < 2000 \<Longrightarrow> unat (VGA_MEMORY + 2 * of_int i + 1) = 753665 + 2 * nat i"
proof -
  assume i: "0 \<le> i" "i < 2000"
  have "VGA_MEMORY + 2 * of_int i = of_int (753664 + 2 * i)" "VGA_MEMORY + 2 * of_int i + 1 = of_int (753665 + 2 * i)" by simp_all
  then show "unat (VGA_MEMORY + 2 * of_int i) = 753664 + 2 * nat i" "unat (VGA_MEMORY + 2 * of_int i + 1) = 753665 + 2 * nat i"
    using i by (simp_all add: unat_of_int_u32 nat_add_distrib nat_mult_distrib del: of_int_add of_int_mult)
qed

lemma two_bytes: "ucast (ucast v :: u8) OR push_bit 8 (ucast (ucast (drop_bit 8 v) :: u8)) = (v :: u16)"
  by (simp add: word_all_bits bit_simps)

lemma vga_get_put:
  assumes "0 \<le> i" "i < 2000" "0 \<le> k" "k < 2000"
  shows "vga_get k (vga_put i v m) = (if k = i then v else vga_get k m)"
proof (cases "k = i")
  case True
  then show ?thesis by (simp add: vga_get_def vga_put_def two_bytes)
next
  case False
  let ?a = "VGA_MEMORY + 2 * of_int i" and ?b = "VGA_MEMORY + 2 * of_int k"
  have "nat k \<noteq> nat i" using False assms by simp
  then have "unat ?b \<noteq> unat ?a" "unat ?b \<noteq> unat (?a + 1)" "unat (?b + 1) \<noteq> unat ?a" "unat (?b + 1) \<noteq> unat (?a + 1)"
    unfolding unat_vga[OF assms(1,2)] unat_vga[OF assms(3,4)] by (auto dest: arg_cong[where f = even])
  then have "?b \<noteq> ?a" "?b \<noteq> ?a + 1" "?b + 1 \<noteq> ?a" "?b + 1 \<noteq> ?a + 1" by metis+
  then show ?thesis using False by (simp only: vga_get_def vga_put_def Let_def fun_upd_other fun_upd_def if_False)
qed

lemma cell_index_inj:
  assumes "0 \<le> c" "c < (80 :: int)" "0 \<le> d" "d < 80"
  shows "r * 80 + c = s * 80 + d \<longleftrightarrow> r = s \<and> c = d"
proof
  assume e: "r * 80 + c = s * 80 + d"
  have "(r * 80 + c) div 80 = r" "(s * 80 + d) div 80 = s" using assms by simp_all
  then have "r = s" using e by simp
  then show "r = s \<and> c = d" using e by simp
qed simp

lemma vga_fill:
  assumes "s + n \<le> 2000" "0 \<le> k" "k < 2000"
  shows "vga_get k (fold (\<lambda>i. vga_put (int s + int i) v) [0..<n] m) = (if int s \<le> k \<and> k < int s + int n then v else vga_get k m)"
  using assms(1)
proof (induction n)
  case (Suc n)
  then show ?case using vga_get_put[of "int s + int n" k v] assms(2,3) by (auto simp: of_nat_Suc)
qed auto

lemma vga_move:
  assumes "n \<le> 1920" "0 \<le> k" "k < 2000"
  shows "vga_get k (fold (\<lambda>i m. vga_put (int i) (vga_get (int i + 80) m) m) [0..<n] m) = (if k < int n then vga_get (k + 80) m else vga_get k m)"
  using assms
proof (induction n arbitrary: k)
  case (Suc n)
  let ?m = "fold (\<lambda>i m. vga_put (int i) (vga_get (int i + 80) m) m) [0..<n] m"
  have "vga_get (int n + 80) ?m = vga_get (int n + 80) m" using Suc.IH[of "int n + 80"] Suc.prems by simp
  then have "vga_get k (vga_put (int n) (vga_get (int n + 80) ?m) ?m) = (if k = int n then vga_get (k + 80) m else vga_get k ?m)"
    using Suc.prems vga_get_put[of "int n" k] by simp
  then show ?case using Suc.IH[of k] Suc.prems by auto
qed simp

section \<open>The geometry\<close>

abbreviation in_grid :: "console \<Rightarrow> int \<Rightarrow> int \<Rightarrow> bool" where
  "in_grid con r c \<equiv> 0 \<le> r \<and> r < con_rows con \<and> 0 \<le> c \<and> c < con_cols con"

text \<open>The console as \<^verbatim>\<open>shell_init\<close> sets it up: the text screen, or a frame buffer whose mode has room for the grid and for the title.\<close>

definition con_geometry :: "console \<Rightarrow> bool" where
  "con_geometry con \<longleftrightarrow> 15 \<le> con_rows con \<and> con_rows con \<le> MAX_GRID_ROWS \<and> 40 \<le> con_cols con \<and> con_cols con \<le> MAX_GRID_COLS
     \<and> drop_bit 4 (default_attr con) AND 0x0F = 0
     \<and> (if initialized (con_fb con)
        then fb_ok (con_fb con) \<and> con_cols con * 8 \<le> int (unat (fb_width (con_fb con)))
          \<and> 28 + con_rows con * 16 \<le> int (unat (fb_height (con_fb con))) \<and> 196 \<le> unat (fb_width (con_fb con))
        else con_cols con = 80 \<and> con_rows con = 25)"

definition cursor_ok :: "console \<Rightarrow> bool" where
  "cursor_ok con \<longleftrightarrow> in_grid con (cur_y con) (cur_x con)
     \<and> (drawn_cur_x con = -1 \<and> drawn_cur_y con = -1 \<or> in_grid con (drawn_cur_y con) (drawn_cur_x con))"

section \<open>Cells on the frame buffer\<close>

definition cell_pixel :: "console \<Rightarrow> int \<Rightarrow> int \<Rightarrow> nat \<Rightarrow> nat \<Rightarrow> u32" where
  "cell_pixel con r c i j = vbe_getpixel (con_fb con) (of_int (c * 8 + int i)) (of_int (28 + r * 16 + int j)) (con_mem con)"

definition glyph_at :: "u8 \<Rightarrow> u32 \<Rightarrow> u32 \<Rightarrow> nat \<Rightarrow> nat \<Rightarrow> u32" where
  "glyph_at x fg bg i j = (if glyph_pixel (if x \<noteq> 0 then x else 0x20) i j then fg else bg) AND 0x00FFFFFF"

definition cell_colors :: "console \<Rightarrow> int \<Rightarrow> int \<Rightarrow> u32 \<times> u32" where
  "cell_colors con r c =
     (if c = drawn_cur_x con \<and> r = drawn_cur_y con then (0x000D1117, 0x00FFA657)
      else (shell_theme_palette ! unat (attr (shadow_grid con r c) AND 0x0F),
            shell_theme_palette ! unat (drop_bit 4 (attr (shadow_grid con r c)) AND 0x0F)))"

definition cell_shown :: "console \<Rightarrow> int \<Rightarrow> int \<Rightarrow> bool" where
  "cell_shown con r c \<longleftrightarrow>
     (if initialized (con_fb con)
      then \<forall>i<8. \<forall>j<16. cell_pixel con r c i j = glyph_at (ch (shadow_grid con r c)) (fst (cell_colors con r c)) (snd (cell_colors con r c)) i j
      else vga_get (r * 80 + c) (con_mem con) = vga_cell (ch (shadow_grid con r c)) (attr (shadow_grid con r c)))"

definition con_shows :: "console \<Rightarrow> bool" where
  "con_shows con \<longleftrightarrow> (\<forall>r c. in_grid con r c \<longrightarrow> cell_shown con r c)"

definition con_ok :: "console \<Rightarrow> bool" where
  "con_ok con \<longleftrightarrow> con_geometry con \<and> cursor_ok con \<and> con_shows con"

lemma geometryD:
  assumes "con_geometry con"
  shows "15 \<le> con_rows con" "con_rows con \<le> MAX_GRID_ROWS" "40 \<le> con_cols con" "con_cols con \<le> MAX_GRID_COLS"
    "drop_bit 4 (default_attr con) AND 0x0F = 0"
    "initialized (con_fb con) \<Longrightarrow> fb_ok (con_fb con)" "initialized (con_fb con) \<Longrightarrow> con_cols con * 8 \<le> int (unat (fb_width (con_fb con)))"
    "initialized (con_fb con) \<Longrightarrow> 28 + con_rows con * 16 \<le> int (unat (fb_height (con_fb con)))"
    "initialized (con_fb con) \<Longrightarrow> 196 \<le> unat (fb_width (con_fb con))"
    "\<not> initialized (con_fb con) \<Longrightarrow> con_cols con = 80" "\<not> initialized (con_fb con) \<Longrightarrow> con_rows con = 25"
  using assms unfolding con_geometry_def by (simp_all split: if_splits)

lemma cell_coord:
  assumes "con_geometry con" "initialized (con_fb con)" "in_grid con r c" "i < 8" "j < 16"
  shows "unat (of_int (c * 8 + int i) :: u32) = nat c * 8 + i" "unat (of_int (28 + r * 16 + int j) :: u32) = 28 + nat r * 16 + j"
    "on_screen (con_fb con) (of_int (c * 8 + int i)) (of_int (28 + r * 16 + int j))"
proof -
  note g = geometryD[OF assms(1)]
  have x: "0 \<le> c * 8 + int i" "c * 8 + int i < con_cols con * 8" and y: "0 \<le> 28 + r * 16 + int j" "28 + r * 16 + int j < 28 + con_rows con * 16"
    using assms(3-5) by linarith+
  show a: "unat (of_int (c * 8 + int i) :: u32) = nat c * 8 + i"
    using x g(4) assms(3) by (subst unat_of_int_u32) (simp_all add: nat_add_distrib nat_mult_distrib)
  show b: "unat (of_int (28 + r * 16 + int j) :: u32) = 28 + nat r * 16 + j"
    using y g(2) assms(3) by (subst unat_of_int_u32) (simp_all add: nat_add_distrib nat_mult_distrib)
  have "int (nat c * 8 + i) < int (unat (fb_width (con_fb con)))" "int (28 + nat r * 16 + j) < int (unat (fb_height (con_fb con)))"
    using x y g(7,8)[OF assms(2)] assms(3) by simp_all
  then show "on_screen (con_fb con) (of_int (c * 8 + int i)) (of_int (28 + r * 16 + int j))"
    using a b by (simp only: word_less_nat_alt of_nat_less_iff)
qed

text \<open>Drawing one cell changes the pixels of that cell only.\<close>

lemma draw_cell_pixel:
  assumes g: "con_geometry con" "initialized (con_fb con)" and rc: "in_grid con row col" "in_grid con r c" and ij: "i < 8" "j < 16"
  shows "cell_pixel (draw_cell col row x fg bg con) r c i j = (if r = row \<and> c = col then glyph_at x fg bg i j else cell_pixel con r c i j)"
proof -
  let ?x = "if x \<noteq> 0 then x else 0x20" and ?fb = "con_fb con"
  note ok = geometryD(6)[OF g]
  have p: "unat (of_int (col * 8) :: u32) = nat col * 8" "unat (of_int (28 + row * 16) :: u32) = 28 + nat row * 16"
    using cell_coord[OF g rc(1), of 0 0] by simp_all
  have fit: "unat (of_int (col * 8) :: u32) + 8 \<le> unat (fb_width ?fb)" "unat (of_int (28 + row * 16) :: u32) + 16 \<le> unat (fb_height ?fb)"
    using cell_coord(3)[OF g rc(1), of 7 15] cell_coord(1,2)[OF g rc(1), of 7 15] p by (simp_all add: word_less_nat_alt)
  note k = cell_coord[OF g rc(2) ij]
  have in_cell: "nat col * 8 \<le> nat c * 8 + i \<and> nat c * 8 + i < nat col * 8 + 8 \<and> 28 + nat row * 16 \<le> 28 + nat r * 16 + j
      \<and> 28 + nat r * 16 + j < 28 + nat row * 16 + 16 \<longleftrightarrow> r = row \<and> c = col"
    using ij rc by linarith
  have "cell_pixel (draw_cell col row x fg bg con) r c i j = (if r = row \<and> c = col
      then (if glyph_pixel ?x (nat c * 8 + i - nat col * 8) (28 + nat r * 16 + j - (28 + nat row * 16)) then fg else bg) AND 0x00FFFFFF
      else cell_pixel con r c i j)"
    using conjunct1[OF draw_char_reads[OF ok fit, of ?x fg bg "con_mem con", unfolded Let_def], rule_format, OF k(3)]
    unfolding k(1,2) p in_cell cell_pixel_def draw_cell_def Let_def by simp
  then show ?thesis by (simp add: glyph_at_def)
qed

section \<open>Operations keep the picture\<close>

text \<open>The fields no console operation changes.\<close>

definition same_setup :: "console \<Rightarrow> console \<Rightarrow> bool" where
  "same_setup con con' \<longleftrightarrow> con_rows con' = con_rows con \<and> con_cols con' = con_cols con \<and> default_attr con' = default_attr con
     \<and> con_fb con' = con_fb con"

lemma same_setup_refl [simp]: "same_setup con con"
  by (simp add: same_setup_def)

lemma same_setup_trans: "same_setup con con' \<Longrightarrow> same_setup con' con'' \<Longrightarrow> same_setup con con''"
  by (simp add: same_setup_def)

lemma same_setup_geometry: "same_setup con con' \<Longrightarrow> con_geometry con' = con_geometry con"
  by (simp add: same_setup_def con_geometry_def)

text \<open>A screen that shows its grid, wherever the cursor variables point.\<close>

definition drawn_ok :: "console \<Rightarrow> bool" where
  "drawn_ok con \<longleftrightarrow> drawn_cur_x con = -1 \<and> drawn_cur_y con = -1 \<or> in_grid con (drawn_cur_y con) (drawn_cur_x con)"

definition screen_ok :: "console \<Rightarrow> bool" where
  "screen_ok con \<longleftrightarrow> con_geometry con \<and> drawn_ok con \<and> con_shows con"

lemma screen_okD: "screen_ok con \<Longrightarrow> con_geometry con" "screen_ok con \<Longrightarrow> drawn_ok con" "screen_ok con \<Longrightarrow> con_shows con"
  by (simp_all add: screen_ok_def)

lemma draw_cell_setup [simp]: "same_setup con (draw_cell col row x fg bg con)"
  by (simp add: same_setup_def draw_cell_def Let_def)

lemma redraw_shows:
  assumes con: "con_geometry con" "initialized (con_fb con)" "con_shows con" and same: "same_setup con con'" and cell: "in_grid con row col"
    and mem: "con_mem con' = con_mem (draw_cell col row (ch (shadow_grid con' row col)) (fst (cell_colors con' row col)) (snd (cell_colors con' row col)) con)"
    and rest: "\<And>r c. in_grid con r c \<Longrightarrow> \<not> (r = row \<and> c = col) \<Longrightarrow>
      shadow_grid con' r c = shadow_grid con r c \<and> cell_colors con' r c = cell_colors con r c"
  shows "con_shows con'"
  unfolding con_shows_def
proof (intro allI impI)
  fix r c assume "in_grid con' r c"
  then have rc: "in_grid con r c" using same by (simp add: same_setup_def)
  have fb: "con_fb con' = con_fb con" using same by (simp add: same_setup_def)
  have px: "cell_pixel con' r c i j = (if r = row \<and> c = col
      then glyph_at (ch (shadow_grid con' row col)) (fst (cell_colors con' row col)) (snd (cell_colors con' row col)) i j
      else cell_pixel con r c i j)" if "i < 8" "j < 16" for i j
    using draw_cell_pixel[OF con(1,2) cell rc that] same mem unfolding cell_pixel_def fb by (simp add: draw_cell_def Let_def)
  show "cell_shown con' r c"
  proof (cases "r = row \<and> c = col")
    case True
    then show ?thesis using px con(2) fb by (simp add: cell_shown_def)
  next
    case False
    then have "cell_shown con r c" using con(3) rc by (simp add: con_shows_def)
    then show ?thesis using px False rest[OF rc False] con(2) fb by (simp add: cell_shown_def)
  qed
qed

lemma undraw_text: "\<not> initialized (con_fb con) \<Longrightarrow> vbe_undraw_cursor con = con"
  by (simp add: vbe_undraw_cursor_def vbe_is_active_def)

lemma undraw_keeps:
  "same_setup con (vbe_undraw_cursor con)" "shadow_grid (vbe_undraw_cursor con) = shadow_grid con"
  "cur_x (vbe_undraw_cursor con) = cur_x con" "cur_y (vbe_undraw_cursor con) = cur_y con" "cur_visible (vbe_undraw_cursor con) = cur_visible con"
  by (simp_all add: vbe_undraw_cursor_def vbe_render_cell_raw_def draw_cell_def same_setup_def Let_def)

lemma undraw_drawn: "initialized (con_fb con) \<Longrightarrow> drawn_cur_x (vbe_undraw_cursor con) = -1 \<and> drawn_cur_y (vbe_undraw_cursor con) = -1"
  by (simp add: vbe_undraw_cursor_def vbe_is_active_def Let_def)

lemma undraw_screen:
  assumes "screen_ok con"
  shows "screen_ok (vbe_undraw_cursor con)"
proof (cases "initialized (con_fb con)")
  case True
  let ?con = "vbe_undraw_cursor con"
  note s = screen_okD[OF assms]
  have d: "drawn_cur_x ?con = -1" "drawn_cur_y ?con = -1" using undraw_drawn[OF True] by simp_all
  have "con_shows ?con"
  proof (cases "in_grid con (drawn_cur_y con) (drawn_cur_x con)")
    case in_grid: True
    show ?thesis
    proof (rule redraw_shows[OF s(1) True s(3) undraw_keeps(1) in_grid])
      show "con_mem ?con = con_mem (draw_cell (drawn_cur_x con) (drawn_cur_y con) (ch (shadow_grid ?con (drawn_cur_y con) (drawn_cur_x con)))
         (fst (cell_colors ?con (drawn_cur_y con) (drawn_cur_x con))) (snd (cell_colors ?con (drawn_cur_y con) (drawn_cur_x con))) con)"
        unfolding undraw_keeps(2) cell_colors_def d using in_grid True
        by (simp add: vbe_undraw_cursor_def vbe_render_cell_raw_def vbe_is_active_def Let_def draw_cell_def)
      show "shadow_grid ?con r c = shadow_grid con r c \<and> cell_colors ?con r c = cell_colors con r c"
        if "in_grid con r c" "\<not> (r = drawn_cur_y con \<and> c = drawn_cur_x con)" for r c
        using that d by (auto simp: undraw_keeps(2) cell_colors_def)
    qed
  next
    case False
    then have "drawn_cur_x con = -1" "drawn_cur_y con = -1" using s(2) by (auto simp: drawn_ok_def)
    then have "?con = con" using False True by (cases con) (simp add: vbe_undraw_cursor_def vbe_is_active_def Let_def)
    then show ?thesis using s(3) by simp
  qed
  then show ?thesis using s(1) d by (simp add: screen_ok_def drawn_ok_def same_setup_geometry[OF undraw_keeps(1)])
next
  case False
  then show ?thesis using assms by (simp add: undraw_text)
qed

lemma put_cell_setup: "same_setup con (console_put_cell col row x a con)"
  by (simp add: console_put_cell_def set_cell_def vbe_render_cell_raw_def draw_cell_def same_setup_def Let_def)

lemma put_cell_grid:
  "shadow_grid (console_put_cell col row x a con) =
     (if in_grid con row col then (shadow_grid con)(row := (shadow_grid con row)(col := \<lparr>ch = x, attr = a\<rparr>)) else shadow_grid con)"
  by (auto simp: console_put_cell_def set_cell_def vbe_render_cell_raw_def draw_cell_def Let_def)

lemma put_cell_cursor [simp]:
  "cur_x (console_put_cell col row x a con) = cur_x con" "cur_y (console_put_cell col row x a con) = cur_y con"
  by (simp_all add: console_put_cell_def set_cell_def vbe_render_cell_raw_def draw_cell_def Let_def)

lemma put_cell_screen:
  assumes "screen_ok con"
  shows "screen_ok (console_put_cell col row x a con)"
proof (cases "in_grid con row col")
  case True
  let ?con = "console_put_cell col row x a con"
  note s = screen_okD[OF assms]
  have fb: "con_fb ?con = con_fb con" "con_rows ?con = con_rows con" "con_cols ?con = con_cols con"
    using put_cell_setup[of con col row x a] by (simp_all add: same_setup_def)
  have g: "shadow_grid ?con r c = (if r = row \<and> c = col then \<lparr>ch = x, attr = a\<rparr> else shadow_grid con r c)" for r c
    using put_cell_grid[of col row x a con] True by simp
  show ?thesis
  proof (cases "initialized (con_fb con)")
    case act: True
    have d: "(drawn_cur_x ?con, drawn_cur_y ?con) = (if col = drawn_cur_x con \<and> row = drawn_cur_y con then (-1, -1) else (drawn_cur_x con, drawn_cur_y con))"
      using True act by (auto simp: console_put_cell_def set_cell_def vbe_render_cell_raw_def draw_cell_def vbe_is_active_def Let_def)
    have cc: "cell_colors ?con row col = (shell_theme_palette ! unat (a AND 0x0F), shell_theme_palette ! unat (drop_bit 4 a AND 0x0F))"
      using d True g by (auto simp: cell_colors_def split: if_splits)
    have "con_shows ?con"
    proof (rule redraw_shows[OF s(1) act s(3) put_cell_setup True])
      show "con_mem ?con = con_mem (draw_cell col row (ch (shadow_grid ?con row col)) (fst (cell_colors ?con row col)) (snd (cell_colors ?con row col)) con)"
        unfolding cc g using True act
        by (simp add: console_put_cell_def set_cell_def vbe_render_cell_raw_def draw_cell_def vbe_is_active_def Let_def)
      show "shadow_grid ?con r c = shadow_grid con r c \<and> cell_colors ?con r c = cell_colors con r c"
        if "in_grid con r c" "\<not> (r = row \<and> c = col)" for r c
        using that d g by (auto simp: cell_colors_def split: if_splits)
    qed
    moreover have "drawn_ok ?con" using s(2) d fb unfolding drawn_ok_def by (auto split: if_splits)
    ultimately show ?thesis using s(1) by (simp add: screen_ok_def same_setup_geometry[OF put_cell_setup])
  next
    case False
    note size = geometryD(10,11)[OF s(1) False]
    have m: "con_mem ?con = vga_put (row * 80 + col) (vga_cell x a) (con_mem con)" and d: "drawn_cur_x ?con = drawn_cur_x con" "drawn_cur_y ?con = drawn_cur_y con"
      using True False by (simp_all add: console_put_cell_def set_cell_def vbe_is_active_def Let_def)
    have "cell_shown ?con r c" if rc: "in_grid con r c" for r c
    proof -
      have e: "r * 80 + c = row * 80 + col \<longleftrightarrow> r = row \<and> c = col" by (rule cell_index_inj) (use rc True size in auto)
      have "vga_get (r * 80 + c) (con_mem ?con) = (if r = row \<and> c = col then vga_cell x a else vga_get (r * 80 + c) (con_mem con))"
        unfolding m e[symmetric] by (rule vga_get_put) (use rc True size in auto)
      moreover have "cell_shown con r c" using s(3) rc by (simp add: con_shows_def)
      ultimately show ?thesis using False g fb by (simp add: cell_shown_def)
    qed
    then have "con_shows ?con" using fb by (simp add: con_shows_def)
    moreover have "drawn_ok ?con" using s(2) d fb unfolding drawn_ok_def by simp
    ultimately show ?thesis using s(1) by (simp add: screen_ok_def same_setup_geometry[OF put_cell_setup])
  qed
next
  case False
  then have "console_put_cell col row x a con = con" by (auto simp: console_put_cell_def)
  then show ?thesis using assms by simp
qed

definition clamp :: "int \<Rightarrow> int \<Rightarrow> int" where
  "clamp n x = (let x = (if x < 0 then 0 else x) in if x \<ge> n then n - 1 else x)"

lemma set_cursor_unfold:
  "console_set_cursor col row v con =
     (let con = con\<lparr>cur_x := clamp (con_cols con) col, cur_y := clamp (con_rows con) row, cur_visible := v\<rparr> in
      if initialized (con_fb con) then
        let con = vbe_undraw_cursor con in if v then vbe_draw_cursor_at (cur_x con) (cur_y con) con else con
      else vga_hw_set_cursor (cur_x con) (cur_y con) v con)"
  by (simp add: console_set_cursor_def clamp_def vbe_is_active_def Let_def undraw_keeps(3,4))

lemma draw_cursor_setup: "same_setup con (vbe_draw_cursor_at col row con)"
  by (simp add: vbe_draw_cursor_at_def draw_cell_def same_setup_def Let_def)

lemma vga_cursor_setup: "same_setup con (vga_hw_set_cursor x y v con)"
  by (simp add: vga_hw_set_cursor_def crtc_write_def same_setup_def Let_def)

lemma set_cursor_setup: "same_setup con (console_set_cursor col row v con)"
proof -
  define con1 where "con1 = con\<lparr>cur_x := clamp (con_cols con) col, cur_y := clamp (con_rows con) row, cur_visible := v\<rparr>"
  have s: "same_setup con con1" by (simp add: same_setup_def con1_def)
  show ?thesis unfolding set_cursor_unfold[of col row v con, folded con1_def, unfolded Let_def]
    using same_setup_trans[OF s undraw_keeps(1)] same_setup_trans[OF s same_setup_trans[OF undraw_keeps(1) draw_cursor_setup]]
      same_setup_trans[OF s vga_cursor_setup] by simp
qed

lemma clamp_range: "0 < n \<Longrightarrow> 0 \<le> clamp n x \<and> clamp n x < n"
  by (auto simp: clamp_def Let_def)

lemma draw_cursor_screen:
  assumes "screen_ok con" "initialized (con_fb con)" "drawn_cur_x con = -1" "drawn_cur_y con = -1"
  shows "screen_ok (vbe_draw_cursor_at col row con)"
proof (cases "cur_visible con \<and> in_grid con row col")
  case True
  let ?con = "vbe_draw_cursor_at col row con"
  note s = screen_okD[OF assms(1)]
  have e: "?con = (draw_cell col row (ch (shadow_grid con row col)) 0x000D1117 0x00FFA657 con)\<lparr>drawn_cur_x := col, drawn_cur_y := row\<rparr>"
    using True assms(2) by (simp add: vbe_draw_cursor_at_def vbe_is_active_def Let_def not_le)
  have same: "same_setup con ?con" "shadow_grid ?con = shadow_grid con" "drawn_cur_x ?con = col" "drawn_cur_y ?con = row"
    unfolding e by (simp_all add: same_setup_def draw_cell_def Let_def)
  have "con_shows ?con"
  proof (rule redraw_shows[OF s(1) assms(2) s(3) same(1)])
    show "in_grid con row col" using True by simp
    show "con_mem ?con = con_mem (draw_cell col row (ch (shadow_grid ?con row col)) (fst (cell_colors ?con row col)) (snd (cell_colors ?con row col)) con)"
      unfolding same cell_colors_def unfolding e by simp
    show "shadow_grid ?con r c = shadow_grid con r c \<and> cell_colors ?con r c = cell_colors con r c"
      if "in_grid con r c" "\<not> (r = row \<and> c = col)" for r c
      using that same assms(3,4) by (auto simp: cell_colors_def)
  qed
  moreover have "drawn_ok ?con" using True same by (simp add: drawn_ok_def same_setup_def)
  ultimately show ?thesis using s(1) by (simp add: screen_ok_def same_setup_geometry[OF same(1)])
next
  case False
  then have "vbe_draw_cursor_at col row con = con" by (auto simp: vbe_draw_cursor_at_def)
  then show ?thesis using assms(1) by simp
qed

lemma cursor_vars_screen: "screen_ok (con\<lparr>cur_x := x, cur_y := y, cur_visible := v\<rparr>) = screen_ok con"
  by (simp add: screen_ok_def con_geometry_def drawn_ok_def con_shows_def cell_shown_def cell_pixel_def cell_colors_def)

lemma crtc_screen: "screen_ok (crtc_write i x con) = screen_ok con"
  by (simp add: crtc_write_def screen_ok_def con_geometry_def drawn_ok_def con_shows_def cell_shown_def cell_pixel_def cell_colors_def)

lemma set_cursor_screen:
  assumes "screen_ok con"
  shows "screen_ok (console_set_cursor col row v con)"
proof -
  define con1 where "con1 = con\<lparr>cur_x := clamp (con_cols con) col, cur_y := clamp (con_rows con) row, cur_visible := v\<rparr>"
  have s: "screen_ok con1" using assms by (simp add: cursor_vars_screen con1_def)
  note unf = set_cursor_unfold[of col row v con, folded con1_def, unfolded Let_def]
  show ?thesis
  proof (cases "initialized (con_fb con1)")
    case True
    note u = undraw_screen[OF s]
    have act: "initialized (con_fb (vbe_undraw_cursor con1))" using True undraw_keeps(1)[of con1] by (simp add: same_setup_def)
    show ?thesis unfolding unf if_P[OF True] using u draw_cursor_screen[OF u act] undraw_drawn[OF True] by simp
  next
    case False
    show ?thesis unfolding unf if_not_P[OF False] vga_hw_set_cursor_def Let_def using s by (simp add: crtc_screen)
  qed
qed

lemma draw_cursor_keeps:
  "cur_x (vbe_draw_cursor_at col row con) = cur_x con" "cur_y (vbe_draw_cursor_at col row con) = cur_y con"
  "shadow_grid (vbe_draw_cursor_at col row con) = shadow_grid con"
  by (simp_all add: vbe_draw_cursor_at_def draw_cell_def Let_def)

lemma vga_cursor_keeps:
  "cur_x (vga_hw_set_cursor x y v con) = cur_x con" "cur_y (vga_hw_set_cursor x y v con) = cur_y con"
  "shadow_grid (vga_hw_set_cursor x y v con) = shadow_grid con"
  by (simp_all add: vga_hw_set_cursor_def crtc_write_def Let_def)

lemma set_cursor_fields:
  "cur_x (console_set_cursor col row v con) = clamp (con_cols con) col" "cur_y (console_set_cursor col row v con) = clamp (con_rows con) row"
  "shadow_grid (console_set_cursor col row v con) = shadow_grid con"
  unfolding set_cursor_unfold Let_def by (simp_all add: undraw_keeps draw_cursor_keeps vga_cursor_keeps)

lemma set_cursor_ok:
  assumes "screen_ok con"
  shows "con_ok (console_set_cursor col row v con)"
proof -
  let ?con = "console_set_cursor col row v con"
  have s: "screen_ok ?con" by (rule set_cursor_screen[OF assms])
  note g = geometryD(1,3)[OF screen_okD(1)[OF assms]]
  have "con_rows ?con = con_rows con" "con_cols ?con = con_cols con" using set_cursor_setup[of con col row v] by (simp_all add: same_setup_def)
  then have "in_grid ?con (cur_y ?con) (cur_x ?con)"
    using g clamp_range[of "con_rows con" row] clamp_range[of "con_cols con" col] by (simp add: set_cursor_fields)
  then show ?thesis using screen_okD[OF s] by (simp add: con_ok_def cursor_ok_def drawn_ok_def)
qed

lemma con_ok_screen: "con_ok con \<Longrightarrow> screen_ok con"
  by (simp add: con_ok_def screen_ok_def cursor_ok_def drawn_ok_def)

lemma con_okD: "con_ok con \<Longrightarrow> con_geometry con" "con_ok con \<Longrightarrow> in_grid con (cur_y con) (cur_x con)"
  by (simp_all add: con_ok_def cursor_ok_def)

section \<open>Scrolling\<close>

lemma space_glyph: "j < 16 \<Longrightarrow> \<not> glyph_pixel 0x20 i j"
proof -
  assume "j < 16"
  moreover have "font_8x16 ! glyph_index 0x20 = replicate 16 0"
  proof -
    have "glyph_index 0x20 = 0" by (simp add: glyph_index_def)
    moreover have "font_8x16 ! 0 = replicate 16 0" unfolding font_8x16_def nth_Cons_0 by (simp add: numeral_eq_Suc)
    ultimately show ?thesis by simp
  qed
  ultimately show ?thesis by (simp add: glyph_pixel_def)
qed

lemma scroll_up_unfold:
  assumes "con1 = vbe_undraw_cursor con"
  shows "initialized (con_fb con) \<Longrightarrow> console_scroll_up con =
      con1\<lparr>shadow_grid := grid_scroll (default_attr con1) (shadow_grid con1) (con_rows con1) (con_cols con1),
        con_mem := vbe_scroll_region (con_fb con1) 28 (of_int (con_rows con1 * 16)) 16 (shell_theme_palette ! 0) (con_mem con1)\<rparr>"
    and "\<not> initialized (con_fb con) \<Longrightarrow> console_scroll_up con =
      con\<lparr>shadow_grid := grid_scroll (default_attr con) (shadow_grid con) (con_rows con) (con_cols con),
        con_mem := fold (\<lambda>c. vga_put (int 1920 + int c) (vga_cell 0x20 (default_attr con))) [0..<80]
          (fold (\<lambda>i m. vga_put (int i) (vga_get (int i + 80) m) m) [0..<1920] (con_mem con))\<rparr>"
proof -
  assume a: "initialized (con_fb con)"
  have "con_fb con1 = con_fb con" using undraw_keeps(1)[of con] assms by (simp add: same_setup_def)
  then show "console_scroll_up con =
      con1\<lparr>shadow_grid := grid_scroll (default_attr con1) (shadow_grid con1) (con_rows con1) (con_cols con1),
        con_mem := vbe_scroll_region (con_fb con1) 28 (of_int (con_rows con1 * 16)) 16 (shell_theme_palette ! 0) (con_mem con1)\<rparr>"
    using a by (simp add: console_scroll_up_def vbe_is_active_def Let_def assms)
next
  assume "\<not> initialized (con_fb con)"
  then show "console_scroll_up con =
      con\<lparr>shadow_grid := grid_scroll (default_attr con) (shadow_grid con) (con_rows con) (con_cols con),
        con_mem := fold (\<lambda>c. vga_put (int 1920 + int c) (vga_cell 0x20 (default_attr con))) [0..<80]
          (fold (\<lambda>i m. vga_put (int i) (vga_get (int i + 80) m) m) [0..<1920] (con_mem con))\<rparr>"
    by (simp add: console_scroll_up_def vbe_is_active_def Let_def)
qed

lemma scroll_up_setup: "same_setup con (console_scroll_up con)"
proof (cases "initialized (con_fb con)")
  case True
  then show ?thesis using undraw_keeps(1)[of con] unfolding scroll_up_unfold(1)[OF refl True] by (simp add: same_setup_def)
next
  case False
  then show ?thesis unfolding scroll_up_unfold(2)[OF refl False] by (simp add: same_setup_def)
qed

text \<open>The pixels of the grid area after the rows have moved up.\<close>

lemma scroll_pixel:
  assumes g: "con_geometry con" "initialized (con_fb con)" and rc: "in_grid con r c" "i < 8" "j < 16"
  shows "vbe_getpixel (con_fb con) (of_int (c * 8 + int i)) (of_int (28 + r * 16 + int j))
      (vbe_scroll_region (con_fb con) 28 (of_int (con_rows con * 16)) 16 bg (con_mem con))
    = (if r = con_rows con - 1 then bg AND 0x00FFFFFF else cell_pixel con (r + 1) c i j)"
proof -
  let ?fb = "con_fb con" and ?m = "con_mem con"
  define x y R where "x = (of_int (c * 8 + int i) :: u32)" and "y = (of_int (28 + r * 16 + int j) :: u32)" and "R = (of_int (con_rows con * 16) :: u32)"
  note G = geometryD[OF g(1)]
  note k = cell_coord[OF g rc, folded x_def y_def]
  have ur: "unat R = nat (con_rows con) * 16" unfolding R_def using G(1,2) by (subst unat_of_int_u32) (simp_all add: nat_mult_distrib)
  have "28 + nat (con_rows con) * 16 \<le> unat (fb_height ?fb)" using G(8)[OF g(2)] G(1) by linarith
  then have fit: "unat (28 :: u32) + unat R \<le> unat (fb_height ?fb)" unfolding ur by simp
  have n: "(0 :: u32) < 16" "(16 :: u32) < R" unfolding word_less_nat_alt ur using G(1) by simp_all
  have y: "28 \<le> unat y" "unat y < 28 + unat R" and last: "unat y + 16 < 28 + unat R \<longleftrightarrow> r \<noteq> con_rows con - 1"
    unfolding k(2) ur using rc by auto
  have mask: "vbe_getpixel ?fb x y m AND 0x00FFFFFF = vbe_getpixel ?fb x y m" if "on_screen ?fb x y" for x y m
    using that G(6)[OF g(2)] by (simp add: getpixel_load unpack_24 fb_okD)
  have "vbe_getpixel ?fb x y (vbe_scroll_region ?fb 28 R 16 bg ?m)
      = (if r \<noteq> con_rows con - 1 then vbe_getpixel ?fb x (y + 16) ?m else bg) AND 0x00FFFFFF"
    using conjunct1[OF scroll_region_painted[OF G(6)[OF g(2)] fit n, of ?m bg, unfolded painted_def], rule_format, OF k(3)] y last by simp
  moreover have "vbe_getpixel ?fb x (y + 16) ?m AND 0x00FFFFFF = cell_pixel con (r + 1) c i j" if "r \<noteq> con_rows con - 1"
  proof -
    have rc': "in_grid con (r + 1) c" using that rc(1) by auto
    have e: "y + 16 = of_int (28 + (r + 1) * 16 + int j)" by (simp add: y_def algebra_simps)
    show ?thesis unfolding cell_pixel_def e x_def by (rule mask[OF cell_coord(3)[OF g rc' rc(2,3)]])
  qed
  ultimately show ?thesis unfolding x_def y_def R_def by simp
qed

lemma scroll_up_screen:
  assumes "screen_ok con"
  shows "screen_ok (console_scroll_up con)"
proof -
  note same = scroll_up_setup[of con]
  have geo: "con_geometry (console_scroll_up con)" using screen_okD(1)[OF assms] by (simp add: same_setup_geometry[OF same])
  have dims: "con_rows (console_scroll_up con) = con_rows con" "con_cols (console_scroll_up con) = con_cols con" "con_fb (console_scroll_up con) = con_fb con"
    using same by (simp_all add: same_setup_def)
  show ?thesis
  proof (cases "initialized (con_fb con)")
    case True
    define con1 where "con1 = vbe_undraw_cursor con"
    have s1: "screen_ok con1" unfolding con1_def by (rule undraw_screen[OF assms])
    have f1: "con_rows con1 = con_rows con" "con_cols con1 = con_cols con" "con_fb con1 = con_fb con" "default_attr con1 = default_attr con"
      using undraw_keeps(1)[of con] by (simp_all add: same_setup_def con1_def)
    have d1: "drawn_cur_x con1 = -1" "drawn_cur_y con1 = -1" using undraw_drawn[OF True] by (simp_all add: con1_def)
    note unf = scroll_up_unfold(1)[OF con1_def True]
    have "cell_shown (console_scroll_up con) r c" if rc: "in_grid con r c" for r c
    proof -
      have px: "cell_pixel (console_scroll_up con) r c i j = (if r = con_rows con - 1 then shell_theme_palette ! 0 AND 0x00FFFFFF else cell_pixel con1 (r + 1) c i j)"
        if "i < 8" "j < 16" for i j
        using scroll_pixel[OF screen_okD(1)[OF s1], of r c i j "shell_theme_palette ! 0"] that rc True f1 unfolding unf by (simp add: cell_pixel_def)
      have colors: "cell_colors (console_scroll_up con) r c = (let a = attr (if r = con_rows con - 1 then \<lparr>ch = 0x20, attr = default_attr con\<rparr> else shadow_grid con1 (r + 1) c)
          in (shell_theme_palette ! unat (a AND 0x0F), shell_theme_palette ! unat (drop_bit 4 a AND 0x0F)))"
        unfolding unf using d1 rc f1 by (simp add: cell_colors_def grid_scroll_def Let_def)
      have cell: "shadow_grid (console_scroll_up con) r c = (if r = con_rows con - 1 then \<lparr>ch = 0x20, attr = default_attr con\<rparr> else shadow_grid con1 (r + 1) c)"
        unfolding unf using rc f1 by (simp add: grid_scroll_def)
      show ?thesis
      proof (cases "r = con_rows con - 1")
        case last: True
        show ?thesis unfolding cell_shown_def cell colors dims Let_def if_P[OF last] if_P[OF True]
          using px[unfolded if_P[OF last]] geometryD(5)[OF screen_okD(1)[OF assms]] by (simp add: glyph_at_def space_glyph)
      next
        case False
        then have "cell_shown con1 (r + 1) c" using screen_okD(3)[OF s1] rc f1 by (simp add: con_shows_def)
        then show ?thesis using True d1 rc unfolding cell_shown_def cell colors dims Let_def if_not_P[OF False]
          by (simp add: f1 cell_colors_def px[unfolded if_not_P[OF False]])
      qed
    qed
    moreover have "drawn_ok (console_scroll_up con)" unfolding unf using d1 by (simp add: drawn_ok_def)
    ultimately show ?thesis using geo dims by (simp add: screen_ok_def con_shows_def)
  next
    case False
    note unf = scroll_up_unfold(2)[OF refl False]
    note size = geometryD(10,11)[OF screen_okD(1)[OF assms] False]
    have "cell_shown (console_scroll_up con) r c" if rc: "in_grid con r c" for r c
    proof -
      have cell: "shadow_grid (console_scroll_up con) r c = (if r = 24 then \<lparr>ch = 0x20, attr = default_attr con\<rparr> else shadow_grid con (r + 1) c)"
        unfolding unf using rc size by (simp add: grid_scroll_def)
      have idx: "0 \<le> r * 80 + c" "r * 80 + c < 2000" "1920 \<le> r * 80 + c \<longleftrightarrow> r = 24" "r * 80 + c < 1920 \<longleftrightarrow> r \<noteq> 24" "r * 80 + 80 + c = r * 80 + c + 80"
        using rc size by auto
      have "vga_get (r * 80 + c) (con_mem (console_scroll_up con)) = (if r = 24 then vga_cell 0x20 (default_attr con) else vga_get ((r + 1) * 80 + c) (con_mem con))"
        unfolding unf using vga_fill[of 1920 80 "r * 80 + c"] vga_move[of 1920 "r * 80 + c"] idx(1-4) by (simp add: distrib_right idx(5))
      moreover have "cell_shown con (r + 1) c" if "r \<noteq> 24" using screen_okD(3)[OF assms] rc that size by (simp add: con_shows_def)
      ultimately show ?thesis using False by (simp add: cell_shown_def dims cell)
    qed
    moreover have "drawn_ok (console_scroll_up con)" using screen_okD(2)[OF assms] unfolding unf by (simp add: drawn_ok_def)
    ultimately show ?thesis using geo dims by (simp add: screen_ok_def con_shows_def)
  qed
qed

lemma cursor_x_screen: "screen_ok (con\<lparr>cur_x := x\<rparr>) = screen_ok con" "screen_ok (con\<lparr>cur_y := y\<rparr>) = screen_ok con"
  by (simp_all add: screen_ok_def con_geometry_def drawn_ok_def con_shows_def cell_shown_def cell_pixel_def cell_colors_def)

lemma serial_screen: "con_ok (con\<lparr>con_serial := s\<rparr>) = con_ok con"
  by (simp add: con_ok_def cursor_ok_def con_geometry_def con_shows_def cell_shown_def cell_pixel_def cell_colors_def)

lemma scroll_to_fit_screen: "screen_ok con \<Longrightarrow> screen_ok (scroll_to_fit con)"
proof (induction con rule: scroll_to_fit.induct)
  case (1 con)
  show ?case
  proof (cases "cur_y con \<ge> con_rows con")
    case True
    have "screen_ok ((console_scroll_up con)\<lparr>cur_y := cur_y con - 1\<rparr>)" using scroll_up_screen[OF "1.prems"] by (simp add: cursor_x_screen)
    then show ?thesis using 1(1)[OF True] True by (subst scroll_to_fit.simps) simp
  qed (use 1 in \<open>subst scroll_to_fit.simps, simp\<close>)
qed

lemma advance_screen: "screen_ok con \<Longrightarrow> screen_ok (console_advance c color con)"
  by (simp add: console_advance_def Let_def cursor_x_screen put_cell_screen)

lemma write_plain_ok: "screen_ok con \<Longrightarrow> con_ok (console_write_plain c color con)"
  unfolding console_write_plain_def Let_def
  by (intro set_cursor_ok scroll_to_fit_screen advance_screen) (simp add: undraw_screen)

lemma write_char_ok:
  assumes "con_ok con"
  shows "con_ok (console_write_char_color c color mirror con)"
proof -
  define con1 where "con1 = (if mirror then if c = 0x08 then ser_puts [0x08, 0x20, 0x08] con else ser_putc c con else con)"
  have ok: "con_ok con1" using assms by (simp add: con1_def ser_puts_def ser_putc_def serial_screen)
  have "con_ok ((console_write_plain 0x20 color ^^ Suc n) k)" if "screen_ok k" for n k
    by (induction n) (use that in \<open>auto intro!: write_plain_ok con_ok_screen\<close>)
  then have rep: "screen_ok k \<Longrightarrow> 0 < n \<Longrightarrow> con_ok ((console_write_plain 0x20 color ^^ n) k)" for n k by (cases n) auto
  have pos: "0 < nat (4 - x mod 4)" for x :: int by simp
  show ?thesis unfolding console_write_char_color_def con1_def[symmetric] Let_def
    using ok rep pos by (simp add: write_plain_ok con_ok_screen undraw_screen)
qed

lemma fold_ok: "(\<And>x con. P con \<Longrightarrow> P (f x con)) \<Longrightarrow> P con \<Longrightarrow> P (fold f xs con)"
  by (induction xs arbitrary: con) auto

lemma print_ok: "con_ok con \<Longrightarrow> con_ok (shell_print s con)" "con_ok con \<Longrightarrow> con_ok (shell_print_color s color con)"
  unfolding shell_print_def shell_print_color_def
  by (cases s; simp; rule fold_ok[where P = con_ok]; simp add: write_char_ok)+

section \<open>The top bar\<close>

definition below_bar :: "vbe \<Rightarrow> memory \<Rightarrow> memory \<Rightarrow> bool" where
  "below_bar fb m m' \<longleftrightarrow> (\<forall>x y. on_screen fb x y \<and> 28 \<le> unat y \<longrightarrow> vbe_getpixel fb x y m' = vbe_getpixel fb x y m)"

lemma below_bar_refl [simp]: "below_bar fb m m"
  by (simp add: below_bar_def)

lemma below_bar_trans: "below_bar fb m m1 \<Longrightarrow> below_bar fb m1 m2 \<Longrightarrow> below_bar fb m m2"
  by (simp add: below_bar_def)

definition plain_text :: "u8 list \<Rightarrow> bool" where
  "plain_text s \<longleftrightarrow> 0x0A \<notin> set s \<and> 0x0D \<notin> set s"

lemma bar_rect: "fb_ok fb \<Longrightarrow> unat y + unat h \<le> 28 \<Longrightarrow> below_bar fb m (vbe_fill_rect fb 0 y (fb_width fb) h c m)"
  using fill_rect_painted[of fb 0 "fb_width fb" y h c m] unat_u32_less[of "fb_width fb"] by (auto simp: below_bar_def painted_def)

lemma bar_chars:
  assumes "fb_ok fb" "64 \<le> unat (fb_height fb)"
  shows "plain_text s \<Longrightarrow> unat cx + 8 * length s \<le> unat (fb_width fb) \<Longrightarrow> below_bar fb m (draw_chars fb x cx 6 s fg bg m)"
proof (induction s arbitrary: cx m)
  case (Cons c s)
  let ?m = "vbe_draw_char fb cx 6 c fg bg m"
  have plain: "c \<noteq> 0x0A" "c \<noteq> 0x0D" "plain_text s" using Cons.prems(1) by (auto simp: plain_text_def)
  have one: "below_bar fb m ?m"
    using draw_char_reads[OF assms(1), of cx 6 c fg bg m] Cons.prems(2) assms(2) by (simp add: below_bar_def Let_def)
  have "unat cx + 8 < 4294967296" using Cons.prems(2) unat_u32_less[of "fb_width fb"] by simp
  then have u: "unat (cx + 8) = unat cx + 8" by (simp add: unat_word_ariths)
  have nl: "newline fb 6 ?m = (22, ?m)" using assms(2) by (simp add: newline_def word_less_nat_alt)
  show ?case
  proof (cases s)
    case Nil
    then show ?thesis using plain one nl by (simp add: Let_def)
  next
    case (Cons c' s')
    have "unat (cx + 8) + 8 \<le> unat (fb_width fb)" using \<open>unat cx + 8 * length (c # s) \<le> unat (fb_width fb)\<close> Cons u by simp
    moreover from this have "unat (cx + 8 + 8) = unat (cx + 8) + 8"
      using unat_u32_less[of "fb_width fb"] by (subst unat_word_ariths(1)) simp
    ultimately have "\<not> cx + 8 + 8 > fb_width fb" by (simp only: word_less_nat_alt not_less)
    then have "draw_chars fb x cx 6 (c # s) fg bg m = draw_chars fb x (cx + 8) 6 s fg bg ?m" using plain by (simp add: Let_def)
    then show ?thesis using below_bar_trans[OF one Cons.IH[OF plain(3)]] u Cons.prems(2) by simp
  qed
qed simp

lemma unat_width: "fb_ok fb \<Longrightarrow> unat (fb_width fb) < 2147483648"
proof -
  assume ok: "fb_ok fb"
  have "unat (fb_width fb) * 3 \<le> unat (fb_width fb) * px_bytes fb" by (intro mult_le_mono2) (simp add: px_bytes_def)
  then show ?thesis using fb_okD(4)[OF ok] unat_u32_less[of "fb_pitch fb"] by linarith
qed

lemma sint_small: "unat (w :: u32) < 2147483648 \<Longrightarrow> sint w = int (unat w)"
proof -
  assume "unat w < 2147483648"
  then have "uint w < 2147483648" unfolding uint_nat by linarith
  moreover have "- 2147483648 \<le> uint w" by (rule order_trans[of _ 0]) simp_all
  ultimately show ?thesis unfolding sint_uint uint_nat[symmetric] by (intro signed_take_bit_int_eq_self) simp_all
qed

lemma plain_append [simp]: "plain_text (s @ t) \<longleftrightarrow> plain_text s \<and> plain_text t"
  by (auto simp: plain_text_def)

lemma plain_digits: "\<forall>c \<in> set s. 0x2E \<le> c \<Longrightarrow> plain_text s"
  unfolding plain_text_def by (auto simp: word_le_nat_alt)

lemma dotted_plain: "plain_text (dotted ip n)"
proof -
  have "0x2E \<le> c" if "c \<in> set (dec (octet ip i))" for c i
    using dec_octet(3)[of ip i] that by (auto intro: order_trans[of _ "0x30"])
  then have "\<forall>c \<in> set (dotted ip n). 0x2E \<le> c" by (induction n) auto
  then show ?thesis by (rule plain_digits)
qed

lemma topbar_plain: "plain_text (topbar_mid con)" "plain_text (topbar_clock con)" "plain_text bar_title"
proof -
  show "plain_text (topbar_mid con)" by (simp add: topbar_mid_def dotted_plain) (simp add: plain_text_def bytes_of_def)
  have d: "0x2E \<le> 0x30 + v div 10" "0x2E \<le> 0x30 + v mod 10" for v :: u8
  proof -
    have "unat v div 10 \<le> 25" "unat v mod 10 < 10" using unsigned_less[of v, where ?'a = nat] by simp_all
    then show "0x2E \<le> 0x30 + v div 10" "0x2E \<le> 0x30 + v mod 10" by (simp_all add: word_le_nat_alt unat_word_ariths unat_div unat_mod)
  qed
  have "plain_text (rtc_format_time (bar_time con))" by (rule plain_digits) (simp add: rtc_format_time_def d)
  then show "plain_text (topbar_clock con)" by (simp add: topbar_clock_def) (simp add: plain_text_def bytes_of_def)
  show "plain_text bar_title" by (simp add: plain_text_def bar_title_def bytes_of_def)
qed

lemma bar_string_keeps:
  assumes "con_geometry con" "initialized (con_fb con)" "plain_text s" "0 \<le> x" "x + 8 * int (length s) \<le> int (unat (fb_width (con_fb con)))"
  shows "below_bar (con_fb con) (con_mem con) (con_mem (bar_string x s fg con))"
proof -
  have "x < 4294967296" using assms(5) unat_u32_less[of "fb_width (con_fb con)"] by linarith
  then have "unat (of_int x :: u32) = nat x" using assms(4) by (intro unat_of_int_u32) simp_all
  moreover have "64 \<le> unat (fb_height (con_fb con))" using geometryD(1,8)[OF assms(1)] assms(2) by linarith
  moreover have "nat x + 8 * length s \<le> unat (fb_width (con_fb con))" using assms(4,5) by linarith
  ultimately show ?thesis
    using bar_chars[OF geometryD(6)[OF assms(1,2)], of s "of_int x"] assms(2,3) by (simp add: bar_string_def vbe_draw_string_def)
qed

lemma bar_string_fields:
  "bar_string x s fg con = con\<lparr>con_mem := con_mem (bar_string x s fg con)\<rparr>"
  by (simp add: bar_string_def)

lemma refresh_fields: "console_refresh_topbar con = con\<lparr>con_mem := con_mem (console_refresh_topbar con)\<rparr>"
  by (simp add: console_refresh_topbar_def bar_string_def Let_def)

lemma bar_string_setup: "same_setup con (bar_string x s fg con)" "topbar_mid (bar_string x s fg con) = topbar_mid con"
  "topbar_clock (bar_string x s fg con) = topbar_clock con"
  by (simp_all add: bar_string_def same_setup_def topbar_mid_def topbar_clock_def)

lemma sdiv_half: "n < k sdiv 2 \<Longrightarrow> 0 \<le> n \<Longrightarrow> 0 \<le> k sdiv 2 \<and> 2 * (k sdiv 2) \<le> (k :: int)"
  by (auto simp: signed_divide_int_def sgn_if split: if_splits)

lemma refresh_below:
  assumes g: "con_geometry con" "initialized (con_fb con)"
  shows "below_bar (con_fb con) (con_mem con) (con_mem (console_refresh_topbar con))"
proof -
  define fb where "fb = con_fb con"
  define W where "W = int (unat (fb_width fb))"
  note ok = geometryD(6)[OF g, folded fb_def]
  have wide: "196 \<le> W" using geometryD(9)[OF g, folded fb_def] unfolding W_def by linarith
  define con0 where "con0 = con\<lparr>con_mem := vbe_fill_rect fb 0 26 (fb_width fb) 2 0x00FF7B00 (vbe_fill_rect fb 0 0 (fb_width fb) 26 0x00161B22 (con_mem con))\<rparr>"
  define con1 where "con1 = bar_string 12 bar_title 0x00FFA657 con0"
  define mx where "mx = (sint (fb_width fb) - int (length (topbar_mid con)) * 8) sdiv 2"
  define con2 where "con2 = (if mx > 220 then bar_string mx (topbar_mid con) 0x008B949E con1 else con1)"
  define rx where "rx = sint (fb_width fb) - int (length (topbar_clock con)) * 8 - 12"
  define con3 where "con3 = (if rx > 0 then bar_string rx (topbar_clock con) 0x0056D4DD con2 else con2)"
  have texts: "topbar_mid con0 = topbar_mid con" "topbar_clock con0 = topbar_clock con" by (simp_all add: con0_def topbar_mid_def topbar_clock_def)
  have eq: "console_refresh_topbar con = con3"
    using g(2) by (simp add: console_refresh_topbar_def Let_def vbe_is_active_def con3_def con2_def con1_def rx_def mx_def texts bar_string_setup con0_def[symmetric] fb_def[symmetric])
  have s0: "same_setup con con0" by (simp add: same_setup_def con0_def)
  have s1: "same_setup con con1" unfolding con1_def by (rule same_setup_trans[OF s0 bar_string_setup(1)])
  have s2: "same_setup con con2" unfolding con2_def using s1 same_setup_trans[OF s1 bar_string_setup(1)] by simp
  have w: "sint (fb_width fb) = W" unfolding W_def by (rule sint_small[OF unat_width[OF ok]])
  have str: "below_bar fb (con_mem k) (con_mem (bar_string x s fg k))"
    if "same_setup con k" "plain_text s" "0 \<le> x" "x + 8 * int (length s) \<le> W" for k x s fg
  proof -
    have f: "con_fb k = fb" using that(1) by (simp add: same_setup_def fb_def)
    show ?thesis using bar_string_keeps[of k s x fg] same_setup_geometry[OF that(1)] g that(2,3) that(4)[unfolded W_def] f by (simp only: fb_def)
  qed
  have "below_bar fb (con_mem con) (con_mem con0)" unfolding con0_def
    by (simp, rule below_bar_trans[OF bar_rect[OF ok] bar_rect[OF ok]]) simp_all
  moreover have "below_bar fb (con_mem con0) (con_mem con1)" unfolding con1_def
    by (rule str[OF s0 topbar_plain(3)]) (use wide in \<open>simp_all add: bar_title_def bytes_of_def\<close>)
  moreover have "below_bar fb (con_mem con1) (con_mem con2)"
    using sdiv_half[of 220 "sint (fb_width fb) - int (length (topbar_mid con)) * 8", folded mx_def] str[OF s1 topbar_plain(1)[of con], of mx]
    unfolding con2_def w by (cases "220 < mx") simp_all
  moreover have "below_bar fb (con_mem con2) (con_mem con3)"
    using str[OF s2 topbar_plain(2)[of con], of rx] unfolding con3_def rx_def w by (cases "0 < rx") (simp_all add: rx_def w)
  ultimately show ?thesis unfolding eq fb_def[symmetric] by (blast intro: below_bar_trans)
qed

lemma refresh_pixel:
  assumes "con_geometry con" "initialized (con_fb con)" "in_grid con r c" "i < 8" "j < 16"
  shows "cell_pixel (console_refresh_topbar con) r c i j = cell_pixel con r c i j"
proof -
  have "con_fb (console_refresh_topbar con) = con_fb con" by (subst refresh_fields) simp
  then show ?thesis using refresh_below[OF assms(1,2)] cell_coord(2,3)[OF assms] unfolding cell_pixel_def below_bar_def by simp
qed

lemma refresh_keeps:
  "con_rows (console_refresh_topbar con) = con_rows con" "con_cols (console_refresh_topbar con) = con_cols con"
  "con_fb (console_refresh_topbar con) = con_fb con" "default_attr (console_refresh_topbar con) = default_attr con"
  "shadow_grid (console_refresh_topbar con) = shadow_grid con" "drawn_cur_x (console_refresh_topbar con) = drawn_cur_x con"
  "drawn_cur_y (console_refresh_topbar con) = drawn_cur_y con"
  by (subst refresh_fields, simp)+

lemma refresh_screen:
  assumes "screen_ok con"
  shows "screen_ok (console_refresh_topbar con)"
proof (cases "initialized (con_fb con)")
  case True
  let ?con = "console_refresh_topbar con"
  note s = screen_okD[OF assms]
  note f = refresh_keeps[of con]
  have "cell_shown ?con r c" if "in_grid con r c" for r c
    using s(3) that refresh_pixel[OF s(1) True that] True f by (simp add: con_shows_def cell_shown_def cell_colors_def)
  moreover have "con_geometry ?con = con_geometry con" using f by (intro same_setup_geometry) (simp add: same_setup_def)
  ultimately show ?thesis using s f by (simp add: screen_ok_def con_shows_def drawn_ok_def)
next
  case False
  then show ?thesis using assms by (simp add: console_refresh_topbar_def vbe_is_active_def)
qed

lemma refresh_ok: "con_ok con \<Longrightarrow> con_ok (console_refresh_topbar con)"
proof -
  assume ok: "con_ok con"
  have "cursor_ok (console_refresh_topbar con) = cursor_ok con" by (subst refresh_fields) (simp add: cursor_ok_def)
  then show ?thesis using ok refresh_screen[OF con_ok_screen[OF ok]] by (simp add: con_ok_def screen_ok_def)
qed

section \<open>Clearing\<close>

lemma clear_pixel:
  assumes g: "con_geometry con" "initialized (con_fb con)" and rc: "in_grid con r c" "i < 8" "j < 16"
  shows "cell_pixel (con\<lparr>con_mem := vbe_fill_rect (con_fb con) 0 28 (fb_width (con_fb con)) (fb_height (con_fb con) - 28) bg m\<rparr>) r c i j
    = bg AND 0x00FFFFFF"
proof -
  let ?fb = "con_fb con"
  have "28 \<le> unat (fb_height ?fb)" using geometryD(1,8)[OF g(1)] g(2) by linarith
  then have h: "unat (fb_height ?fb - 28) = unat (fb_height ?fb) - 28" by (simp add: unat_sub word_le_nat_alt)
  have fits: "unat (0 :: u32) + unat (fb_width ?fb) < 4294967296" "unat (28 :: u32) + unat (fb_height ?fb - 28) < 4294967296"
    using unat_u32_less[of "fb_width ?fb"] unat_u32_less[of "fb_height ?fb"] \<open>28 \<le> _\<close> unfolding h by simp_all
  note k = cell_coord[OF g rc]
  have "unat (of_int (c * 8 + int i) :: u32) < unat (fb_width ?fb)" "28 \<le> unat (of_int (28 + r * 16 + int j) :: u32)"
    "unat (of_int (28 + r * 16 + int j) :: u32) < 28 + unat (fb_height ?fb - 28)"
    using k(3) unfolding h word_less_nat_alt k(1,2) by simp_all
  then show ?thesis
    using conjunct1[OF fill_rect_painted[OF geometryD(6)[OF g] fits, of bg m, unfolded painted_def], rule_format, OF k(3)]
    by (simp add: cell_pixel_def del: of_int_add of_int_mult)
qed

lemma clear_ok:
  assumes "con_geometry con"
  shows "con_ok (console_clear_cells a con)"
proof -
  define con0 where "con0 = con\<lparr>drawn_cur_x := -1, drawn_cur_y := -1, shadow_grid := grid_fill a (shadow_grid con) (con_rows con) (con_cols con)\<rparr>"
  have g0: "con_geometry con0" using assms same_setup_geometry[of con con0] by (simp add: con0_def same_setup_def)
  have cell: "shadow_grid con0 r c = \<lparr>ch = 0x20, attr = a\<rparr>" if "in_grid con r c" for r c using that by (simp add: con0_def grid_fill_def)
  show ?thesis
  proof (cases "initialized (con_fb con)")
    case True
    define bg where "bg = shell_theme_palette ! unat (drop_bit 4 a AND 0x0F)"
    define con1 where "con1 = con0\<lparr>con_mem := vbe_fill_rect (con_fb con0) 0 28 (fb_width (con_fb con0)) (fb_height (con_fb con0) - 28) bg (con_mem con0)\<rparr>"
    have g1: "con_geometry con1" using g0 same_setup_geometry[of con0 con1] by (simp add: con1_def same_setup_def)
    have f: "con_rows con1 = con_rows con" "con_cols con1 = con_cols con" "initialized (con_fb con0)" "initialized (con_fb con1)"
      "con_rows con0 = con_rows con" "con_cols con0 = con_cols con" "drawn_cur_x con1 = -1" "drawn_cur_y con1 = -1" "shadow_grid con1 = shadow_grid con0"
      using True by (simp_all add: con1_def con0_def)
    have "cell_shown con1 r c" if rc: "in_grid con r c" for r c
    proof -
      have "cell_pixel con1 r c i j = bg AND 0x00FFFFFF" if "i < 8" "j < 16" for i j
        unfolding con1_def by (rule clear_pixel[OF g0 f(3)]) (use rc that f in simp_all)
      then show ?thesis using f rc cell[OF rc] by (simp add: cell_shown_def cell_colors_def glyph_at_def space_glyph bg_def)
    qed
    then have "screen_ok con1" using g1 f by (simp add: screen_ok_def con_shows_def drawn_ok_def)
    moreover have "console_clear_cells a con = console_set_cursor 0 0 True (console_refresh_topbar con1)"
      using True by (simp add: console_clear_cells_def con0_def con1_def bg_def vbe_is_active_def Let_def)
    ultimately show ?thesis by (simp add: set_cursor_ok refresh_screen)
  next
    case False
    define con1 where "con1 = con0\<lparr>con_mem := fold (\<lambda>i. vga_put (int i) (vga_cell 0x20 a)) [0..<2000] (con_mem con0)\<rparr>"
    have g1: "con_geometry con1" using g0 same_setup_geometry[of con0 con1] by (simp add: con1_def same_setup_def)
    have f: "con_rows con1 = 25" "con_cols con1 = 80" "\<not> initialized (con_fb con1)" "drawn_cur_x con1 = -1" "drawn_cur_y con1 = -1"
      "shadow_grid con1 = shadow_grid con0" "con_rows con = 25" "con_cols con = 80"
      using False geometryD(10,11)[OF assms False] by (simp_all add: con1_def con0_def)
    have "cell_shown con1 r c" if rc: "in_grid con r c" for r c
    proof -
      have "0 \<le> r * 80 + c" "r * 80 + c < 2000" using rc f by auto
      then have "vga_get (r * 80 + c) (con_mem con1) = vga_cell 0x20 a" using vga_fill[of 0 2000 "r * 80 + c" "vga_cell 0x20 a"] by (simp add: con1_def)
      then show ?thesis using f cell[OF rc] by (simp add: cell_shown_def)
    qed
    then have "screen_ok con1" using g1 f by (simp add: screen_ok_def con_shows_def drawn_ok_def)
    moreover have "console_clear_cells a con = console_set_cursor 0 0 True con1"
      using False by (simp add: console_clear_cells_def con0_def con1_def vbe_is_active_def Let_def)
    ultimately show ?thesis by (simp add: set_cursor_ok)
  qed
qed

lemma clear_fields:
  assumes "con_geometry con"
  shows "cur_x (console_clear_cells a con) = 0" "cur_y (console_clear_cells a con) = 0"
    "shadow_grid (console_clear_cells a con) = grid_fill a (shadow_grid con) (con_rows con) (con_cols con)"
    "con_rows (console_clear_cells a con) = con_rows con" "con_cols (console_clear_cells a con) = con_cols con"
    "default_attr (console_clear_cells a con) = default_attr con"
  using geometryD(1,3)[OF assms] set_cursor_setup
  by (simp_all add: console_clear_cells_def Let_def set_cursor_fields refresh_keeps clamp_def same_setup_def)

section \<open>Runs\<close>

lemma ser_ok: "con_ok (ser_puts s con) = con_ok con"
  by (simp add: ser_puts_def serial_screen)

lemma put_cell_ok:
  assumes "con_ok con"
  shows "con_ok (console_put_cell col row x a con)"
proof -
  have "con_rows (console_put_cell col row x a con) = con_rows con" "con_cols (console_put_cell col row x a con) = con_cols con"
    using put_cell_setup[of con col row x a] by (simp_all add: same_setup_def)
  then show ?thesis using assms put_cell_screen[OF con_ok_screen[OF assms], of col row x a] unfolding con_ok_def screen_ok_def cursor_ok_def drawn_ok_def by simp
qed

lemma console_run_ok: "con_ok con \<Longrightarrow> con_ok (console_run op con)"
proof (induction op)
  case (Bar_Change cfg ramdisk t)
  let ?con = "con\<lparr>bar_net := cfg, bar_ramdisk := ramdisk, bar_time := t\<rparr>"
  have "con_geometry ?con = con_geometry con" by (rule same_setup_geometry) (simp add: same_setup_def)
  moreover have "cell_pixel ?con = cell_pixel con" "cell_colors ?con = cell_colors con" by (intro ext, simp add: cell_pixel_def cell_colors_def)+
  ultimately show ?case using Bar_Change by (simp add: con_ok_def cursor_ok_def con_shows_def cell_shown_def)
qed (simp_all add: shell_clear_def ser_ok clear_ok shell_putchar_def write_char_ok print_ok shell_print_int_def shell_print_hex_def Let_def
      put_cell_ok set_cursor_ok con_ok_screen refresh_ok clear_ok con_okD)

lemma size_geometry:
  assumes "drop_bit 4 (default_attr con) AND 0x0F = 0"
    and "initialized (con_fb con) \<Longrightarrow> fb_ok (con_fb con) \<and> 320 \<le> unat (fb_width (con_fb con)) \<and> 268 \<le> unat (fb_height (con_fb con))"
  shows "con_geometry (console_size con)"
proof (cases "initialized (con_fb con)")
  case True
  define W H where "W = int (unat (fb_width (con_fb con)))" and "H = int (unat (fb_height (con_fb con)))"
  have ok: "fb_ok (con_fb con)" and big: "320 \<le> W" "268 \<le> H" using assms(2)[OF True] unfolding W_def H_def by linarith+
  have "1 * unat (fb_height (con_fb con)) \<le> unat (fb_pitch (con_fb con)) * unat (fb_height (con_fb con))"
    and "960 \<le> unat (fb_pitch (con_fb con))"
  proof -
    have "320 * 3 \<le> unat (fb_width (con_fb con)) * px_bytes (con_fb con)"
      by (rule mult_le_mono) (use assms(2)[OF True] in \<open>simp_all add: px_bytes_def\<close>)
    then show "960 \<le> unat (fb_pitch (con_fb con))" using fb_okD(4)[OF ok] by linarith
    then show "1 * unat (fb_height (con_fb con)) \<le> unat (fb_pitch (con_fb con)) * unat (fb_height (con_fb con))"
      by (intro mult_le_mono1) linarith
  qed
  moreover have "960 * unat (fb_height (con_fb con)) \<le> unat (fb_pitch (con_fb con)) * unat (fb_height (con_fb con))"
    using calculation(2) by (rule mult_le_mono1)
  ultimately have "unat (fb_height (con_fb con)) < 2147483648" using fb_okD(5)[OF ok] by linarith
  then have s: "sint (fb_width (con_fb con)) = W" "sint (fb_height (con_fb con)) = H"
    using sint_small unat_width[OF ok] by (simp_all only: W_def H_def)
  have q: "W sdiv 8 = W div 8" "(H - 28) sdiv 16 = (H - 28) div 16" using big by (simp_all add: signed_divide_int_def sgn_if)
  have size: "console_size con = con\<lparr>con_cols := min (W div 8) 200, con_rows := min ((H - 28) div 16) 100\<rparr>"
    using True big unfolding console_size_def Let_def s q vbe_is_active_def by (simp add: min_def)
  have "40 \<le> W div 8" "W div 8 * 8 \<le> W" "15 \<le> (H - 28) div 16" "(H - 28) div 16 * 16 \<le> H - 28" using big by linarith+
  then have "40 \<le> min (W div 8) 200" "min (W div 8) 200 * 8 \<le> W" "15 \<le> min ((H - 28) div 16) 100" "28 + min ((H - 28) div 16) 100 * 16 \<le> H"
    by (auto simp: min_def)
  moreover have "196 \<le> unat (fb_width (con_fb con))" using assms(2)[OF True] by linarith
  moreover have f: "con_fb (console_size con) = con_fb con" "con_cols (console_size con) = min (W div 8) 200"
    "con_rows (console_size con) = min ((H - 28) div 16) 100" "default_attr (console_size con) = default_attr con"
    unfolding size by simp_all
  moreover have "min ((H - 28) div 16) 100 \<le> 100" "min (W div 8) 200 \<le> 200" by (rule min.cobounded2)+
  ultimately show ?thesis using assms(1) True ok unfolding con_geometry_def f W_def[symmetric] H_def[symmetric] by (simp only: if_True simp_thms)
next
  case False
  then show ?thesis using assms(1) by (simp add: con_geometry_def console_size_def vbe_is_active_def)
qed

section \<open>Printing\<close>

lemma clamp_id: "0 \<le> x \<Longrightarrow> x < n \<Longrightarrow> clamp n x = x"
  by (simp add: clamp_def)

lemma undraw_if: "(if vbe_is_active (con_fb con) then vbe_undraw_cursor con else con) = vbe_undraw_cursor con"
  by (simp add: vbe_undraw_cursor_def)

lemma same_setupD: "same_setup con con' \<Longrightarrow> con_rows con' = con_rows con" "same_setup con con' \<Longrightarrow> con_cols con' = con_cols con"
  "same_setup con con' \<Longrightarrow> default_attr con' = default_attr con" "same_setup con con' \<Longrightarrow> con_fb con' = con_fb con"
  by (simp_all add: same_setup_def)

lemma serial_fields:
  "same_setup con (ser_putc c con)" "shadow_grid (ser_putc c con) = shadow_grid con" "cur_x (ser_putc c con) = cur_x con" "cur_y (ser_putc c con) = cur_y con"
  by (simp_all add: ser_putc_def same_setup_def)

text \<open>A printable character inside a line is stored at the cursor, which moves one column to the right.\<close>

lemma write_printable:
  assumes "con_ok con" "32 \<le> c" "cur_x con + 1 < con_cols con"
    and con'_def: "con' = console_write_char_color c color True con"
  shows "cur_x con' = cur_x con + 1" "cur_y con' = cur_y con"
    "shadow_grid con' = (shadow_grid con)(cur_y con := (shadow_grid con (cur_y con))(cur_x con := \<lparr>ch = c, attr = color\<rparr>))"
    "same_setup con con'"
proof -
  have n: "c \<noteq> 0x0A" "c \<noteq> 0x0D" "c \<noteq> 0x08" "c \<noteq> 0x09" using assms(2) by auto
  note pos = con_okD(2)[OF assms(1)]
  define con1 where "con1 = vbe_undraw_cursor (ser_putc c con)"
  have s1: "same_setup con con1" unfolding con1_def by (rule same_setup_trans[OF serial_fields(1) undraw_keeps(1)])
  have f1: "cur_x con1 = cur_x con" "cur_y con1 = cur_y con" "shadow_grid con1 = shadow_grid con"
    by (simp_all add: con1_def undraw_keeps serial_fields)
  define con2 where "con2 = (console_put_cell (cur_x con1) (cur_y con1) c color con1)\<lparr>cur_x := cur_x con1 + 1\<rparr>"
  have s2: "same_setup con con2"
    using same_setup_trans[OF s1 put_cell_setup[of con1 "cur_x con1" "cur_y con1" c color]] by (simp add: con2_def same_setup_def)
  have adv: "console_advance c color con1 = con2"
    using n assms(2,3) f1 same_setupD(2)[OF s2] by (simp add: console_advance_def Let_def con2_def)
  have f2: "cur_x con2 = cur_x con + 1" "cur_y con2 = cur_y con" by (simp_all add: con2_def f1)
  have fit: "scroll_to_fit con2 = con2" using pos f2 same_setupD(1)[OF s2] by (subst scroll_to_fit.simps) simp
  have eq: "con' = console_set_cursor (cur_x con2) (cur_y con2) True con2"
    unfolding con'_def console_write_char_color_def Let_def console_write_plain_def undraw_if using n by (simp add: con1_def[symmetric] adv fit)
  show "cur_x con' = cur_x con + 1" "cur_y con' = cur_y con"
    unfolding eq set_cursor_fields using pos assms(3) f2 same_setupD(1,2)[OF s2] by (simp_all add: clamp_id)
  show "shadow_grid con' = (shadow_grid con)(cur_y con := (shadow_grid con (cur_y con))(cur_x con := \<lparr>ch = c, attr = color\<rparr>))"
    unfolding eq set_cursor_fields using pos same_setupD(1,2)[OF s1] by (simp add: con2_def put_cell_grid f1)
  show "same_setup con con'" unfolding eq by (rule same_setup_trans[OF s2 set_cursor_setup])
qed

definition text_grid :: "(int \<Rightarrow> int \<Rightarrow> console_cell) \<Rightarrow> int \<Rightarrow> int \<Rightarrow> u8 list \<Rightarrow> u8 \<Rightarrow> int \<Rightarrow> int \<Rightarrow> console_cell" where
  "text_grid g y x s color = (\<lambda>r c. if r = y \<and> x \<le> c \<and> c < x + int (length s) then \<lparr>ch = s ! nat (c - x), attr = color\<rparr> else g r c)"

lemma text_grid_Cons: "text_grid (g(y := (g y)(x := \<lparr>ch = c, attr = color\<rparr>))) y (x + 1) s color = text_grid g y x (c # s) color"
proof (intro ext)
  fix r k
  have "nat (k - x) = Suc (nat (k - (x + 1)))" if "x < k" using that by simp
  then show "text_grid (g(y := (g y)(x := \<lparr>ch = c, attr = color\<rparr>))) y (x + 1) s color r k = text_grid g y x (c # s) color r k"
    by (cases "k = x") (auto simp: text_grid_def)
qed

abbreviation write_text :: "u8 \<Rightarrow> u8 list \<Rightarrow> console \<Rightarrow> console" where
  "write_text color s \<equiv> fold (\<lambda>c. console_write_char_color c color True) s"

lemma write_text_cells:
  assumes "con_ok con" "\<forall>c \<in> set s. 32 \<le> c" "cur_x con + int (length s) < con_cols con"
  shows "cur_x (write_text color s con) = cur_x con + int (length s) \<and> cur_y (write_text color s con) = cur_y con
    \<and> shadow_grid (write_text color s con) = text_grid (shadow_grid con) (cur_y con) (cur_x con) s color
    \<and> same_setup con (write_text color s con) \<and> con_ok (write_text color s con)"
  using assms
proof (induction s arbitrary: con)
  case Nil
  then show ?case by (auto simp: text_grid_def fun_eq_iff)
next
  case (Cons c s)
  let ?con = "console_write_char_color c color True con"
  have w: "32 \<le> c" "cur_x con + 1 < con_cols con" using Cons.prems(2,3) by simp_all
  note f = write_printable[OF Cons.prems(1) w refl, where color = color]
  have "cur_x (write_text color s ?con) = cur_x ?con + int (length s) \<and> cur_y (write_text color s ?con) = cur_y ?con
    \<and> shadow_grid (write_text color s ?con) = text_grid (shadow_grid ?con) (cur_y ?con) (cur_x ?con) s color
    \<and> same_setup ?con (write_text color s ?con) \<and> con_ok (write_text color s ?con)"
    by (rule Cons.IH[OF write_char_ok[OF Cons.prems(1)]]) (use Cons.prems(2,3) f same_setupD(2)[OF f(4)] in simp_all)
  then show ?case using f same_setup_trans[OF f(4)] by (simp add: text_grid_Cons)
qed

lemma scroll_up_grid: "shadow_grid (console_scroll_up con) = grid_scroll (default_attr con) (shadow_grid con) (con_rows con) (con_cols con)"
  using undraw_keeps(1,2)[of con] by (simp add: console_scroll_up_def Let_def same_setup_def)

lemma scroll_up_cur_x: "cur_x (console_scroll_up con) = cur_x con"
  by (simp add: console_scroll_up_def Let_def undraw_keeps)

text \<open>A newline moves the cursor to the start of the next line; on the last line the grid moves up instead.\<close>

lemma write_newline:
  assumes "con_ok con"
    and con'_def: "con' = console_write_char_color 0x0A color True con"
  shows "cur_x con' = 0" "cur_y con' = min (cur_y con + 1) (con_rows con - 1)"
    "shadow_grid con' = (if cur_y con = con_rows con - 1
       then grid_scroll (default_attr con) (shadow_grid con) (con_rows con) (con_cols con) else shadow_grid con)"
proof -
  note pos = con_okD(2)[OF assms(1)]
  define con1 where "con1 = vbe_undraw_cursor (ser_putc 0x0A con)"
  have s1: "same_setup con con1" unfolding con1_def by (rule same_setup_trans[OF serial_fields(1) undraw_keeps(1)])
  have f1: "cur_x con1 = cur_x con" "cur_y con1 = cur_y con" "shadow_grid con1 = shadow_grid con"
    by (simp_all add: con1_def undraw_keeps serial_fields)
  define con2 where "con2 = con1\<lparr>cur_x := 0, cur_y := cur_y con + 1\<rparr>"
  have s2: "same_setup con con2" using s1 by (simp add: con2_def same_setup_def)
  have f2: "cur_x con2 = 0" "cur_y con2 = cur_y con + 1" "shadow_grid con2 = shadow_grid con" by (simp_all add: con2_def f1)
  define con3 where "con3 = scroll_to_fit con2"
  have eq: "con' = console_set_cursor (cur_x con3) (cur_y con3) True con3"
    unfolding con'_def console_write_char_color_def Let_def console_write_plain_def undraw_if
    by (simp add: con1_def[symmetric] console_advance_def con3_def con2_def f1)
  have con3: "con3 = (if cur_y con = con_rows con - 1 then (console_scroll_up con2)\<lparr>cur_y := cur_y con\<rparr> else con2)"
  proof (cases "cur_y con = con_rows con - 1")
    case True
    then show ?thesis unfolding con3_def using f2 same_setupD(1)[OF s2]
      by (subst scroll_to_fit.simps, subst scroll_to_fit.simps) simp
  next
    case False
    then show ?thesis unfolding con3_def using f2 pos same_setupD(1)[OF s2] by (subst scroll_to_fit.simps) simp
  qed
  have f3: "cur_x con3 = 0" "cur_y con3 = min (cur_y con + 1) (con_rows con - 1)" "con_rows con3 = con_rows con" "con_cols con3 = con_cols con"
    "shadow_grid con3 = (if cur_y con = con_rows con - 1
       then grid_scroll (default_attr con) (shadow_grid con) (con_rows con) (con_cols con) else shadow_grid con)"
    using pos f2 same_setupD[OF s2] same_setupD[OF scroll_up_setup[of con2]] unfolding con3 by (auto simp: scroll_up_cur_x scroll_up_grid)
  note g = geometryD(1,3)[OF con_okD(1)[OF assms(1)]]
  show "cur_x con' = 0" "cur_y con' = min (cur_y con + 1) (con_rows con - 1)"
    "shadow_grid con' = (if cur_y con = con_rows con - 1
       then grid_scroll (default_attr con) (shadow_grid con) (con_rows con) (con_cols con) else shadow_grid con)"
    unfolding eq set_cursor_fields f3 using pos g by (auto intro!: clamp_id)
qed

section \<open>Numbers\<close>

lemma k_utoa_hex: "cstr (k_utoa val buf 16 m) buf (hex_text val)"
proof (cases "val = 0")
  case True
  then show ?thesis by (simp add: k_utoa_def hex_text_def)
next
  case False
  let ?t = "utoa_digits (unat val) 16"
  have "length ?t \<le> 32" using utoa_digits_props(3)[of 16 "unat val" 32] unat_u32_less[of val] by simp
  moreover have "0 \<notin> set ?t" using utoa_digits_props(1)[of 16 "unat val"] digit_char_props(2) by fastforce
  ultimately show ?thesis using utoa_out_writes[of "length ?t" ?t buf 0 m] False by (simp add: k_utoa_def hex_text_def Let_def)
qed

lemma hex_digit: "unat (drop_bit (4 * i) (val :: u32) AND 0xF) = unat val div 16 ^ i mod 16"
proof -
  have "drop_bit (4 * i) val AND 0xF = take_bit 4 (drop_bit (4 * i) val)" by (simp add: take_bit_eq_mask mask_numeral)
  moreover have "(2 :: nat) ^ (4 * i) = 16 ^ i" by (simp add: power_mult)
  moreover have "unat (drop_bit (4 * i) val) = unat val div 2 ^ (4 * i)" unfolding unsigned_drop_bit_eq unfolding drop_bit_eq_div using unat_u32_less[of val] by (simp add: take_bit_nat_eq_self)
  ultimately show ?thesis by (simp add: take_bit_eq_mod unat_mod)
qed

lemma hex_pad_value: "length (hex_pad val n) = n" "foldl (\<lambda>v c. v * 16 + digit_val c) 0 (hex_pad val n) = unat val mod 16 ^ n"
proof -
  show "length (hex_pad val n) = n" by (simp add: hex_pad_def)
  have "foldr (\<lambda>c v. v * 16 + digit_val c) (map (\<lambda>i. digit_char (k div 16 ^ i mod 16)) [0..<n]) 0 = k mod 16 ^ n" for k
  proof (induction n arbitrary: k)
    case (Suc n)
    have "[0..<Suc n] = 0 # map Suc [0..<n]" by (simp add: upt_conv_Cons map_Suc_upt del: upt_Suc)
    then have "foldr (\<lambda>c v. v * 16 + digit_val c) (map (\<lambda>i. digit_char (k div 16 ^ i mod 16)) [0..<Suc n]) 0
        = foldr (\<lambda>c v. v * 16 + digit_val c) (map (\<lambda>i. digit_char (k div 16 div 16 ^ i mod 16)) [0..<n]) 0 * 16 + k mod 16"
      by (simp add: digit_char_props(1) div_mult2_eq comp_def del: upt_Suc)
    also have "\<dots> = k mod 16 ^ Suc n" unfolding Suc.IH by (simp add: mod_mult2_eq)
    finally show ?case .
  qed simp
  from this[of "unat val"] show "foldl (\<lambda>v c. v * 16 + digit_val c) 0 (hex_pad val n) = unat val mod 16 ^ n"
    by (simp add: hex_pad_def hex_digit foldl_conv_foldr)
qed

section \<open>Properties\<close>

text \<open>C10. The screen shows the console's grid: from the cleared screen of \<^verbatim>\<open>shell_init\<close> on, after any sequence of console calls the cursor
  is inside the grid, and every cell of the grid is on the screen, on a frame buffer with at least 320 by 268 pixels as the
  glyph of its character in the colours of its attribute, or in the cursor's colours where the cursor is drawn, and on the text
  screen as its two bytes.\<close>

theorem console_shows_grid:
  assumes "default_attr con = 0x07"
    and "initialized (con_fb con) \<longrightarrow> fb_ok (con_fb con) \<and> 320 \<le> unat (fb_width (con_fb con)) \<and> 268 \<le> unat (fb_height (con_fb con))"
  shows "let con' = fold console_run ops (shell_clear (console_size con)) in
    in_grid con' (cur_y con') (cur_x con') \<and> (\<forall>r c. in_grid con' r c \<longrightarrow> cell_shown con' r c)"
proof -
  have "con_geometry (console_size con)" by (rule size_geometry) (use assms in simp_all)
  then have "con_ok (shell_clear (console_size con))" by (simp add: shell_clear_def ser_ok clear_ok)
  then have "con_ok (fold console_run ops (shell_clear (console_size con)))" by (rule fold_ok[where P = con_ok, rotated]) (rule console_run_ok)
  then show ?thesis by (simp add: Let_def con_ok_def cursor_ok_def con_shows_def)
qed

definition boot_console :: console where
  "boot_console = \<lparr>shadow_grid = \<lambda>_ _. \<lparr>ch = 0, attr = 0\<rparr>, con_cols = 80, con_rows = 25, cur_x = 0, cur_y = 0, drawn_cur_x = -1,
     drawn_cur_y = -1, cur_visible = True, default_attr = 0x07, con_fb = vga_mode, con_mem = \<lambda>_. 0, crtc_index = 0, crtc_regs = \<lambda>_. 0,
     con_serial = \<lparr>default_port = COM1_PORT, serial_present = False, serial_rx_ring = \<lparr>cells = \<lambda>_. 0, head = 0, tail = 0\<rparr>,
       uart_scratch = False, uart_floating = True, uart_rx = [], uart_tx = [], uart_config = []\<rparr>,
     bar_net = \<lparr>configured = False, dhcp_leased = False, cfg_ip = 0, netmask = 0, gateway = 0, dns = 0, dhcp_server = 0,
       rx_eth = 0, rx_arp = 0, rx_ipv4 = 0, rx_icmp = 0, rx_udp = 0\<rparr>,
     bar_ramdisk = True, bar_time = \<lparr>rtc_seconds = 0, rtc_minutes = 0, rtc_hours = 12, rtc_day = 1, rtc_month = 1, rtc_year = 2026,
       rtc_weekday = 5\<rparr>\<rparr>"

lemma boot_console_fields: "default_attr boot_console = 0x07" "con_fb boot_console = vga_mode" "initialized vga_mode"
  "unat (fb_width vga_mode) = 640" "unat (fb_height vga_mode) = 480" "fb_width vga_mode = 640" "fb_height vga_mode = 480"
  by (simp_all add: boot_console_def vga_mode_def)

theorem console_shows_grid_witness:
  "let con' = fold console_run [Print (Some (bytes_of ''Bengal Tiger OS'')), Putchar 0x0A, Print_Hex 0xCAFE, Set_Cursor 3 4 True]
      (shell_clear (console_size boot_console)) in
    in_grid con' (cur_y con') (cur_x con') \<and> (\<forall>r c. in_grid con' r c \<longrightarrow> cell_shown con' r c)"
  by (rule console_shows_grid) (simp_all add: boot_console_fields vga_mode_ok)

text \<open>C11. Printing a line of text: printable characters that fit on the line, followed by a newline, are stored in the grid from the cursor
  on in the given colour, and nothing else is changed; the cursor goes to the start of the next line, or, on the last line, the grid
  scrolls up by one line with a blank line below.  The screen shows the result.\<close>

theorem console_prints_line:
  assumes "con_ok con" and "\<forall>c \<in> set s. 32 \<le> c" and "cur_x con + int (length s) < con_cols con"
  shows "let con' = shell_print_color (Some (s @ [0x0A])) color con; g = text_grid (shadow_grid con) (cur_y con) (cur_x con) s color in
    cur_x con' = 0 \<and> cur_y con' = min (cur_y con + 1) (con_rows con - 1)
    \<and> shadow_grid con' = (if cur_y con = con_rows con - 1
        then \<lambda>r c. if in_grid con r c then if r = con_rows con - 1 then \<lparr>ch = 0x20, attr = default_attr con\<rparr> else g (r + 1) c else g r c
        else g)
    \<and> con_ok con'"
proof -
  note t = write_text_cells[OF assms, of color]
  have "con_ok (write_text color s con)" using t by simp
  note n = write_newline[OF this refl, where color = color] and ok = write_char_ok[OF this, of "0x0A" color True]
  have "let con' = shell_print_color (Some (s @ [0x0A])) color con; g = text_grid (shadow_grid con) (cur_y con) (cur_x con) s color in
    cur_x con' = 0 \<and> cur_y con' = min (cur_y con + 1) (con_rows con - 1)
    \<and> shadow_grid con' = (if cur_y con = con_rows con - 1 then grid_scroll (default_attr con) g (con_rows con) (con_cols con) else g) \<and> con_ok con'"
    using t n ok same_setupD[of con "write_text color s con"] unfolding shell_print_color_def Let_def by simp
  then show ?thesis unfolding Let_def grid_scroll_def .
qed

theorem console_prints_line_witness:
  "let con' = shell_print_color (Some (bytes_of ''Hi'' @ [0x0A])) 0x0E (shell_clear (console_size boot_console)) in
    cur_y con' = 1 \<and> shadow_grid con' 0 1 = \<lparr>ch = 0x69, attr = 0x0E\<rparr> \<and> shadow_grid con' 0 2 = \<lparr>ch = 0x20, attr = 0x07\<rparr>"
proof -
  let ?con = "shell_clear (console_size boot_console)"
  have g: "con_geometry (console_size boot_console)" by (rule size_geometry) (simp_all add: boot_console_fields vga_mode_ok)
  have ok: "con_ok ?con" using clear_ok[OF g] by (simp add: shell_clear_def ser_ok)
  have size: "con_rows (console_size boot_console) = 28" "con_cols (console_size boot_console) = 80"
    by (simp_all add: console_size_def Let_def vbe_is_active_def boot_console_fields signed_divide_int_def)
  have f: "cur_x ?con = 0" "cur_y ?con = 0" "shadow_grid ?con 0 2 = \<lparr>ch = 0x20, attr = 0x07\<rparr>" "con_cols ?con = 80" "con_rows ?con = 28"
    using clear_fields[OF g, of "default_attr (console_size boot_console)"] size
    by (simp_all add: shell_clear_def ser_puts_def grid_fill_def) (simp add: console_size_def Let_def boot_console_fields)
  show ?thesis using console_prints_line[OF ok, of "bytes_of ''Hi''" "0x0E"] f unfolding Let_def
    by (simp add: bytes_of_def text_grid_def)
qed

end
