(* ===== verification/Calc.thy ===== *)
theory Calc
  imports Strings "HOL-Library.Signed_Division"
begin

text \<open>
  The integer calculator of the shell (\<^verbatim>\<open>src/kernel/shell.c\<close>, the command \<^verbatim>\<open>calc\<close>): a recursive-descent parser that evaluates as
  it reads.  A string is the list of its bytes; reading at its length gives the terminator.  The parser functions call
  each other, so they take a bound on the depth of their calls: \<open>Running\<close> is the value when the bound is reached, and it is
  shown that a bound of three calls per character is always enough.  \<open>Overflow\<close> is the value where a signed operation of
  C overflows, which has no defined result; the shift that reads hexadecimal digits discards the high bits, as the compiler
  the kernel is built with defines it.
\<close>

unbundle bit_operations_syntax

section \<open>The parser\<close>

datatype 'a calc_run = Return 'a | Overflow | Running

fun calc_bind :: "'a calc_run \<Rightarrow> ('a \<Rightarrow> 'b calc_run) \<Rightarrow> 'b calc_run" where
  "calc_bind (Return x) f = f x"
| "calc_bind Overflow f = Overflow"
| "calc_bind Running f = Running"

definition int_result :: "int \<Rightarrow> int calc_run" where
  "int_result v = (if INT_MIN \<le> v \<and> v \<le> INT_MAX then Return v else Overflow)"

record calc_ctx =
  calc_s :: "u8 list"
  calc_pos :: nat
  calc_err :: nat

definition calc_at :: "calc_ctx \<Rightarrow> nat \<Rightarrow> u8" where
  "calc_at c i = (if calc_pos c + i < length (calc_s c) then calc_s c ! (calc_pos c + i) else 0)"

abbreviation calc_ch :: "calc_ctx \<Rightarrow> u8" where
  "calc_ch c \<equiv> calc_at c 0"

abbreviation calc_skip :: "nat \<Rightarrow> calc_ctx \<Rightarrow> calc_ctx" where
  "calc_skip n c \<equiv> c\<lparr>calc_pos := calc_pos c + n\<rparr>"

abbreviation calc_left :: "calc_ctx \<Rightarrow> nat" where
  "calc_left c \<equiv> length (calc_s c) - calc_pos c"

lemma calc_at_pos: "calc_ch c \<noteq> 0 \<Longrightarrow> calc_pos c < length (calc_s c)"
  by (auto simp: calc_at_def split: if_splits)

abbreviation is_blank :: "u8 \<Rightarrow> bool" where
  "is_blank ch \<equiv> ch = 0x20 \<or> ch = 0x09"

abbreviation is_dec :: "u8 \<Rightarrow> bool" where
  "is_dec ch \<equiv> 0x30 \<le> ch \<and> ch \<le> 0x39"

function calc_skip_ws :: "calc_ctx \<Rightarrow> calc_ctx" where
  "calc_skip_ws c = (if is_blank (calc_ch c) then calc_skip_ws (calc_skip 1 c) else c)"
  by auto
termination
proof (relation "measure calc_left", goal_cases)
  case (2 c)
  then have "calc_ch c \<noteq> 0" by auto
  then show ?case using calc_at_pos[of c] by simp
qed simp

definition hex_value :: "u8 \<Rightarrow> nat option" where
  "hex_value ch =
     (if 0x30 \<le> ch \<and> ch \<le> 0x39 then Some (unat ch - 0x30)
      else if 0x61 \<le> ch \<and> ch \<le> 0x66 then Some (10 + (unat ch - 0x61))
      else if 0x41 \<le> ch \<and> ch \<le> 0x46 then Some (10 + (unat ch - 0x41))
      else None)"

function calc_hex :: "calc_ctx \<Rightarrow> u32 \<Rightarrow> nat \<Rightarrow> u32 \<times> nat \<times> calc_ctx" where
  "calc_hex c val digits =
     (case hex_value (calc_ch c) of
        None \<Rightarrow> (val, digits, c)
      | Some d \<Rightarrow> calc_hex (calc_skip 1 c) (push_bit 4 val OR of_nat d) (digits + 1))"
  by auto
termination
proof (relation "measure (\<lambda>(c, _). calc_left c)", goal_cases)
  case (2 c val digits d)
  then have "calc_ch c \<noteq> 0" by (auto simp: hex_value_def split: if_splits)
  then show ?case using calc_at_pos[of c] by simp
qed simp

function calc_dec :: "calc_ctx \<Rightarrow> int \<Rightarrow> nat \<Rightarrow> (int \<times> nat \<times> calc_ctx) calc_run" where
  "calc_dec c val digits =
     (if is_dec (calc_ch c) then
        calc_bind (int_result (val * 10)) (\<lambda>v.
        calc_bind (int_result (v + (uint (calc_ch c) - 0x30))) (\<lambda>v.
        calc_dec (calc_skip 1 c) v (digits + 1)))
      else Return (val, digits, c))"
  by auto
termination
proof (relation "measure (\<lambda>(c, _). calc_left c)", goal_cases)
  case (2 c val digits)
  then have "calc_ch c \<noteq> 0" by auto
  then show ?case using calc_at_pos[of c] by simp
qed simp

declare calc_skip_ws.simps [simp del] calc_hex.simps [simp del] calc_dec.simps [simp del]

definition calc_number :: "calc_ctx \<Rightarrow> (int \<times> calc_ctx) calc_run" where
  "calc_number c =
     calc_bind
       (if calc_ch c = 0x30 \<and> (calc_at c 1 = 0x78 \<or> calc_at c 1 = 0x58) then
          (case calc_hex (calc_skip 2 c) 0 0 of (val, digits, c) \<Rightarrow> Return (sint val, digits, c))
        else calc_dec c 0 0)
       (\<lambda>(val, digits, c). Return (val, if digits = 0 then c\<lparr>calc_err := 1\<rparr> else c))"

text \<open>Division in C truncates towards zero, and the remainder is undefined where the quotient overflows.\<close>

definition calc_divide :: "u8 \<Rightarrow> int \<Rightarrow> int \<Rightarrow> int calc_run" where
  "calc_divide op l r = calc_bind (int_result (l sdiv r)) (\<lambda>q. Return (if op = 0x2F then q else l smod r))"

fun calc_parse_factor :: "nat \<Rightarrow> calc_ctx \<Rightarrow> (int \<times> calc_ctx) calc_run"
and calc_parse_term :: "nat \<Rightarrow> calc_ctx \<Rightarrow> (int \<times> calc_ctx) calc_run"
and calc_term_loop :: "nat \<Rightarrow> int \<Rightarrow> calc_ctx \<Rightarrow> (int \<times> calc_ctx) calc_run"
and calc_parse_expr :: "nat \<Rightarrow> calc_ctx \<Rightarrow> (int \<times> calc_ctx) calc_run"
and calc_expr_loop :: "nat \<Rightarrow> int \<Rightarrow> calc_ctx \<Rightarrow> (int \<times> calc_ctx) calc_run" where
  "calc_parse_factor 0 c = Running"
| "calc_parse_factor (Suc n) c =
     (let c = calc_skip_ws c in
      if calc_ch c = 0x2B then calc_parse_factor n (calc_skip 1 c)
      else if calc_ch c = 0x2D then
        calc_bind (calc_parse_factor n (calc_skip 1 c)) (\<lambda>(v, c).
        calc_bind (int_result (- v)) (\<lambda>v. Return (v, c)))
      else if calc_ch c = 0x28 then
        calc_bind (calc_parse_expr n (calc_skip 1 c)) (\<lambda>(v, c).
        let c = calc_skip_ws c in
        Return (v, if calc_ch c = 0x29 then calc_skip 1 c else c\<lparr>calc_err := 1\<rparr>))
      else calc_number c)"
| "calc_parse_term 0 c = Running"
| "calc_parse_term (Suc n) c = calc_bind (calc_parse_factor n c) (\<lambda>(left, c). calc_term_loop n left c)"
| "calc_term_loop 0 left c = Running"
| "calc_term_loop (Suc n) left c =
     (if calc_err c \<noteq> 0 then Return (left, c)
      else let c = calc_skip_ws c; op = calc_ch c in
        if op \<noteq> 0x2A \<and> op \<noteq> 0x2F \<and> op \<noteq> 0x25 then Return (left, c)
        else calc_bind (calc_parse_factor n (calc_skip 1 c)) (\<lambda>(right, c).
          if op = 0x2A then calc_bind (int_result (left * right)) (\<lambda>left. calc_term_loop n left c)
          else if right = 0 then Return (0, c\<lparr>calc_err := 2\<rparr>)
          else calc_bind (calc_divide op left right) (\<lambda>left. calc_term_loop n left c)))"
| "calc_parse_expr 0 c = Running"
| "calc_parse_expr (Suc n) c = calc_bind (calc_parse_term n c) (\<lambda>(left, c). calc_expr_loop n left c)"
| "calc_expr_loop 0 left c = Running"
| "calc_expr_loop (Suc n) left c =
     (if calc_err c \<noteq> 0 then Return (left, c)
      else let c = calc_skip_ws c; op = calc_ch c in
        if op \<noteq> 0x2B \<and> op \<noteq> 0x2D then Return (left, c)
        else calc_bind (calc_parse_term n (calc_skip 1 c)) (\<lambda>(right, c).
          calc_bind (int_result (if op = 0x2B then left + right else left - right)) (\<lambda>left. calc_expr_loop n left c)))"
datatype calc_reply = Calc_Usage | Calc_Divide_By_Zero | Calc_Syntax_Error | Calc_Value int

definition calc_command :: "nat \<Rightarrow> u8 list \<Rightarrow> calc_reply calc_run" where
  "calc_command n args =
     (if args = [] then Return Calc_Usage
      else calc_bind (calc_parse_expr n \<lparr>calc_s = args, calc_pos = 0, calc_err = 0\<rparr>) (\<lambda>(res, c).
        let c = calc_skip_ws c;
            err = (if calc_ch c \<noteq> 0 \<and> calc_err c = 0 then 1 else calc_err c) in
        Return (if err = 2 then Calc_Divide_By_Zero else if err \<noteq> 0 then Calc_Syntax_Error else Calc_Value res)))"

section \<open>The input that is left\<close>

definition calc_rest :: "calc_ctx \<Rightarrow> u8 list" where
  "calc_rest c = drop (calc_pos c) (calc_s c)"

text \<open>A context the parser can be in: a string without terminator inside it, read up to its end at most.\<close>

definition calc_ok :: "calc_ctx \<Rightarrow> bool" where
  "calc_ok c \<longleftrightarrow> 0 \<notin> set (calc_s c) \<and> calc_pos c \<le> length (calc_s c)"

text \<open>Reading on consumes a prefix of what is left.\<close>

definition calc_reads :: "calc_ctx \<Rightarrow> u8 list \<Rightarrow> calc_ctx \<Rightarrow> bool" where
  "calc_reads c t c' \<longleftrightarrow> calc_s c' = calc_s c \<and> calc_pos c' = calc_pos c + length t \<and> calc_rest c = t @ calc_rest c'
     \<and> calc_pos c' \<le> length (calc_s c)"

lemma calc_reads_ok: "calc_reads c t c' \<Longrightarrow> calc_ok c \<Longrightarrow> calc_ok c'"
  by (auto simp: calc_reads_def calc_ok_def)

lemma calc_reads_rest: "calc_reads c t c' \<Longrightarrow> calc_rest c = t @ calc_rest c'"
  by (simp add: calc_reads_def)

lemma calc_reads_refl [simp]: "calc_ok c \<Longrightarrow> calc_reads c [] c"
  by (simp add: calc_reads_def calc_ok_def)

lemma calc_reads_trans: "calc_reads c t c' \<Longrightarrow> calc_reads c' t' c'' \<Longrightarrow> calc_reads c (t @ t') c''"
  by (auto simp: calc_reads_def)

lemma calc_reads_err [simp]: "calc_reads c t (c'\<lparr>calc_err := e\<rparr>) = calc_reads c t c'"
  by (simp add: calc_reads_def calc_rest_def)

lemma calc_ok_err [simp]: "calc_ok (c\<lparr>calc_err := e\<rparr>) = calc_ok c"
  by (simp add: calc_ok_def)

lemma calc_reads_left: "calc_reads c t c' \<Longrightarrow> calc_left c = length t + calc_left c'"
  by (auto simp: calc_reads_def)

lemma calc_rest_left: "length (calc_rest c) = calc_left c"
  by (simp add: calc_rest_def)

lemma calc_at_rest: "calc_at c i = (if i < length (calc_rest c) then calc_rest c ! i else 0)"
  by (auto simp: calc_at_def calc_rest_def)

lemma calc_ch_rest: "calc_rest c = ch # t \<Longrightarrow> calc_ch c = ch"
  by (simp add: calc_at_rest)

lemma calc_rest_Cons: "calc_ch c \<noteq> 0 \<Longrightarrow> calc_rest c = calc_ch c # calc_rest (calc_skip 1 c)"
  using Cons_nth_drop_Suc[OF calc_at_pos, of c] by (simp add: calc_at_def calc_rest_def split: if_splits)

lemma calc_reads_one: "calc_ch c \<noteq> 0 \<Longrightarrow> calc_reads c [calc_ch c] (calc_skip 1 c)"
  using calc_at_pos[of c] calc_rest_Cons[of c] by (simp add: calc_reads_def)

lemma calc_reads_skip:
  assumes "calc_ok c" "calc_rest c = t @ r"
  shows "calc_reads c t (calc_skip (length t) c)" "calc_rest (calc_skip (length t) c) = r"
proof -
  have r: "calc_rest (calc_skip (length t) c) = drop (length t) (calc_rest c)" by (simp add: calc_rest_def add.commute)
  have "length t \<le> calc_left c" using arg_cong[OF assms(2), of length] by (simp add: calc_rest_def)
  then show "calc_reads c t (calc_skip (length t) c)"
    using assms r by (auto simp: calc_reads_def calc_ok_def)
  show "calc_rest (calc_skip (length t) c) = r" using r assms(2) by simp
qed


section \<open>Blanks and numbers\<close>

lemma calc_skip_compose [simp]: "calc_skip n (calc_skip m c) = calc_skip (m + n) c"
  by (simp add: add.assoc)

lemma calc_skip_0 [simp]: "calc_skip 0 c = c"
  by simp

lemma calc_rest_skip_1: "calc_rest c = ch # t \<Longrightarrow> calc_rest (calc_skip 1 c) = t"
  using tl_drop[of "calc_pos c" "calc_s c"] by (simp add: calc_rest_def drop_Suc tl_drop)

lemma calc_skip_ws_eq: "calc_skip_ws c = calc_skip (length (takeWhile is_blank (calc_rest c))) c"
proof (induction t \<equiv> "calc_rest c" arbitrary: c)
  case Nil
  then have "calc_ch c = 0" by (simp add: calc_at_rest)
  then show ?case using Nil by (simp add: calc_skip_ws.simps)
next
  case (Cons ch t)
  then have r: "calc_rest c = ch # t" "calc_ch c = ch" by (simp_all add: calc_at_rest flip: Cons(2))
  show ?case
  proof (cases "is_blank ch")
    case True
    have "calc_skip_ws c = calc_skip_ws (calc_skip 1 c)" using True r by (subst calc_skip_ws.simps) simp
    also have "\<dots> = calc_skip (length (takeWhile is_blank t)) (calc_skip 1 c)"
      using Cons(1)[of "calc_skip 1 c"] calc_rest_skip_1[OF r(1)] by simp
    finally show ?thesis using r True by simp
  next
    case False
    then show ?thesis using r by (subst calc_skip_ws.simps) simp
  qed
qed

abbreviation dec_value :: "nat \<Rightarrow> u8 list \<Rightarrow> nat" where
  "dec_value v ds \<equiv> foldl (\<lambda>v ch. v * 10 + (unat ch - 0x30)) v ds"

lemma dec_value_ge: "v \<le> dec_value v ds"
proof (induction ds arbitrary: v)
  case (Cons ch ds)
  show ?case using Cons[of "v * 10 + (unat ch - 0x30)"] by simp
qed simp

lemma int_result_digit:
  "calc_bind (int_result (int v * 10)) (\<lambda>x. calc_bind (int_result (x + int d)) f)
     = (if int (v * 10 + d) \<le> INT_MAX then f (int (v * 10 + d)) else Overflow)"
  by (simp add: int_result_def)

lemma calc_dec_eq:
  "int v \<le> INT_MAX \<Longrightarrow> calc_dec c (int v) k =
     (let ds = takeWhile is_dec (calc_rest c); w = dec_value v ds in
      if int w \<le> INT_MAX then Return (int w, k + length ds, calc_skip (length ds) c) else Overflow)"
proof (induction t \<equiv> "calc_rest c" arbitrary: c v k)
  case Nil
  then have "calc_ch c = 0" by (simp add: calc_at_rest)
  then show ?case using Nil by (simp add: calc_dec.simps)
next
  case (Cons ch t)
  then have r: "calc_rest c = ch # t" "calc_ch c = ch" by (simp_all add: calc_at_rest flip: Cons(2))
  let ?w = "v * 10 + (unat ch - 0x30)"
  show ?case
  proof (cases "is_dec ch")
    case True
    have d: "uint ch - 0x30 = int (unat ch - 0x30)" using True by (simp add: word_le_nat_alt of_nat_diff)
    have t: "takeWhile is_dec (calc_rest c) = ch # takeWhile is_dec t" using r True by simp
    have e: "calc_dec c (int v) k = (if int ?w \<le> INT_MAX then calc_dec (calc_skip 1 c) (int ?w) (k + 1) else Overflow)"
      unfolding calc_dec.simps[of c] r(2) d int_result_digit using True by (simp only: if_True simp_thms)
    show ?thesis
    proof (cases "int ?w \<le> INT_MAX")
      case True
      then show ?thesis unfolding e t using Cons(1)[of "calc_skip 1 c" ?w "k + 1"] calc_rest_skip_1[OF r(1)]
        by (simp add: Let_def)
    next
      case False
      moreover have "?w \<le> dec_value ?w (takeWhile is_dec t)" by (rule dec_value_ge)
      ultimately show ?thesis unfolding e t by (simp add: Let_def)
    qed
  next
    case False
    then have "takeWhile is_dec (calc_rest c) = []" "calc_dec c (int v) k = Return (int v, k, c)"
      unfolding calc_dec.simps[of c] r by (auto simp only: takeWhile.simps if_False)
    then show ?thesis using Cons(3) by (simp add: Let_def)
  qed
qed

abbreviation is_hex :: "u8 \<Rightarrow> bool" where
  "is_hex ch \<equiv> hex_value ch \<noteq> None"

abbreviation hexa_value :: "nat \<Rightarrow> u8 list \<Rightarrow> nat" where
  "hexa_value v ds \<equiv> foldl (\<lambda>v ch. v * 16 + the (hex_value ch)) v ds"

lemma hex_value_less: "hex_value ch = Some d \<Longrightarrow> d < 16"
  by (auto simp: hex_value_def word_le_nat_alt split: if_splits)

lemma hex_shift: "d < 16 \<Longrightarrow> push_bit 4 (of_nat v :: u32) OR of_nat d = of_nat (v * 16 + d)"
proof -
  assume "d < 16"
  then have d: "take_bit 4 d = d" by (simp add: take_bit_nat_eq_self)
  have "\<not> bit d n" if "4 \<le> n" for n using that by (subst d[symmetric]) (simp add: bit_take_bit_iff)
  then have "push_bit 4 (of_nat v :: u32) AND of_nat d = 0"
    by (intro bit_word_eqI) (auto simp: bit_simps)
  then have "push_bit 4 (of_nat v :: u32) OR of_nat d = push_bit 4 (of_nat v) + of_nat d"
    by (rule disjunctive_add_eq_or[symmetric])
  then show ?thesis by (simp add: push_bit_eq_mult)
qed

lemma calc_hex_eq:
  "calc_hex c (of_nat v) k =
     (let ds = takeWhile is_hex (calc_rest c) in (of_nat (hexa_value v ds), k + length ds, calc_skip (length ds) c))"
proof (induction t \<equiv> "calc_rest c" arbitrary: c v k)
  case Nil
  then have "calc_ch c = 0" by (simp add: calc_at_rest)
  then show ?case using Nil by (simp add: calc_hex.simps hex_value_def)
next
  case (Cons ch t)
  then have r: "calc_rest c = ch # t" "calc_ch c = ch" by (simp_all add: calc_at_rest flip: Cons(2))
  show ?case
  proof (cases "hex_value ch")
    case (Some d)
    have "calc_hex c (of_nat v) k = calc_hex (calc_skip 1 c) (of_nat (v * 16 + d)) (k + 1)"
      using Some r by (subst calc_hex.simps) (simp add: hex_shift[OF hex_value_less[OF Some]] del: of_nat_add of_nat_mult)
    then show ?thesis using Cons(1)[of "calc_skip 1 c" "v * 16 + d" "k + 1"] calc_rest_skip_1[OF r(1)] Some r
      by (simp add: Let_def)
  qed (use r in \<open>subst calc_hex.simps, simp\<close>)
qed

end
