(* ===== verification/Calc_Grammar.thy ===== *)
theory Calc_Grammar
  imports Calc
begin

text \<open>
  What the calculator computes.  The grammar of its expressions, with the usual precedences and left-associative operators,
  and their value in C integers; the parser returns on every input and answers with the value of the expression exactly on the texts
  of the grammar.
\<close>

section \<open>Expressions and their texts\<close>

datatype calc_exp =
    E_Dec "u8 list" | E_Hex "u8 list" | E_Neg calc_exp
  | E_Mul calc_exp calc_exp | E_Div calc_exp calc_exp | E_Mod calc_exp calc_exp
  | E_Add calc_exp calc_exp | E_Sub calc_exp calc_exp

definition in_int :: "int \<Rightarrow> int option" where
  "in_int v = (if INT_MIN \<le> v \<and> v \<le> INT_MAX then Some v else None)"

definition both :: "(int \<Rightarrow> int \<Rightarrow> int option) \<Rightarrow> int option \<Rightarrow> int option \<Rightarrow> int option" where
  "both f a b = Option.bind a (\<lambda>x. Option.bind b (f x))"

text \<open>The value of an expression; None where an operation overflows or divides by zero.\<close>

fun calc_value :: "calc_exp \<Rightarrow> int option" where
  "calc_value (E_Dec ds) = in_int (int (dec_value 0 ds))"
| "calc_value (E_Hex ds) = Some (sint (of_nat (hexa_value 0 ds) :: u32))"
| "calc_value (E_Neg e) = Option.bind (calc_value e) (\<lambda>v. in_int (- v))"
| "calc_value (E_Mul a b) = both (\<lambda>x y. in_int (x * y)) (calc_value a) (calc_value b)"
| "calc_value (E_Div a b) = both (\<lambda>x y. if y = 0 then None else in_int (x sdiv y)) (calc_value a) (calc_value b)"
| "calc_value (E_Mod a b) =
     both (\<lambda>x y. if y = 0 \<or> in_int (x sdiv y) = None then None else Some (x smod y)) (calc_value a) (calc_value b)"
| "calc_value (E_Add a b) = both (\<lambda>x y. in_int (x + y)) (calc_value a) (calc_value b)"
| "calc_value (E_Sub a b) = both (\<lambda>x y. in_int (x - y)) (calc_value a) (calc_value b)"

abbreviation blanks :: "u8 list \<Rightarrow> bool" where
  "blanks b \<equiv> \<forall>ch\<in>set b. is_blank ch"

inductive mul_op :: "u8 \<Rightarrow> (calc_exp \<Rightarrow> calc_exp \<Rightarrow> calc_exp) \<Rightarrow> bool" where
  "mul_op 0x2A E_Mul" | "mul_op 0x2F E_Div" | "mul_op 0x25 E_Mod"

inductive add_op :: "u8 \<Rightarrow> (calc_exp \<Rightarrow> calc_exp \<Rightarrow> calc_exp) \<Rightarrow> bool" where
  "add_op 0x2B E_Add" | "add_op 0x2D E_Sub"

inductive factor_text :: "calc_exp \<Rightarrow> u8 list \<Rightarrow> bool"
and term_text :: "calc_exp \<Rightarrow> u8 list \<Rightarrow> bool"
and expr_text :: "calc_exp \<Rightarrow> u8 list \<Rightarrow> bool" where
  factor_dec: "blanks b \<Longrightarrow> ds \<noteq> [] \<Longrightarrow> \<forall>ch\<in>set ds. is_dec ch \<Longrightarrow> factor_text (E_Dec ds) (b @ ds)"
| factor_hex: "blanks b \<Longrightarrow> x \<in> {0x78, 0x58} \<Longrightarrow> ds \<noteq> [] \<Longrightarrow> \<forall>ch\<in>set ds. is_hex ch \<Longrightarrow>
    factor_text (E_Hex ds) (b @ [0x30, x] @ ds)"
| factor_plus: "blanks b \<Longrightarrow> factor_text e t \<Longrightarrow> factor_text e (b @ [0x2B] @ t)"
| factor_minus: "blanks b \<Longrightarrow> factor_text e t \<Longrightarrow> factor_text (E_Neg e) (b @ [0x2D] @ t)"
| factor_paren: "blanks b \<Longrightarrow> expr_text e t \<Longrightarrow> blanks b' \<Longrightarrow> factor_text e (b @ [0x28] @ t @ b' @ [0x29])"
| term_factor: "factor_text e t \<Longrightarrow> term_text e t"
| term_op: "term_text e t \<Longrightarrow> blanks b \<Longrightarrow> mul_op op E \<Longrightarrow> factor_text e' t' \<Longrightarrow>
    term_text (E e e') (t @ b @ [op] @ t')"
| expr_term: "term_text e t \<Longrightarrow> expr_text e t"
| expr_op: "expr_text e t \<Longrightarrow> blanks b \<Longrightarrow> add_op op E \<Longrightarrow> term_text e' t' \<Longrightarrow>
    expr_text (E e e') (t @ b @ [op] @ t')"

section \<open>Every run returns\<close>

text \<open>The run returns, and with a result that satisfies the postcondition unless an operation overflows.\<close>

fun calc_gives :: "'a calc_run \<Rightarrow> ('a \<Rightarrow> bool) \<Rightarrow> bool" where
  "calc_gives (Return x) Q = Q x"
| "calc_gives Overflow Q = True"
| "calc_gives Running Q = False"

lemma calc_gives_bind: "calc_gives r P \<Longrightarrow> (\<And>x. r = Return x \<Longrightarrow> P x \<Longrightarrow> calc_gives (f x) Q) \<Longrightarrow> calc_gives (calc_bind r f) Q"
  by (cases r) simp_all

lemma calc_gives_mono: "calc_gives r P \<Longrightarrow> (\<And>x. P x \<Longrightarrow> Q x) \<Longrightarrow> calc_gives r Q"
  by (cases r) simp_all

lemma int_result_gives: "calc_gives (int_result v) (\<lambda>x. x = v \<and> in_int v = Some v)"
  by (simp add: int_result_def in_int_def)

lemma calc_divide_gives:
  "r \<noteq> 0 \<Longrightarrow> calc_gives (calc_divide op l r)
     (\<lambda>x. in_int (l sdiv r) \<noteq> None \<and> x = (if op = 0x2F then the (in_int (l sdiv r)) else l smod r))"
  by (simp add: calc_divide_def int_result_def in_int_def)

text \<open>Running on from a context only moves forward in the string and never clears an error.\<close>

definition calc_after :: "calc_ctx \<Rightarrow> calc_ctx \<Rightarrow> bool" where
  "calc_after c c' \<longleftrightarrow> (\<exists>t. calc_reads c t c') \<and> (calc_err c \<noteq> 0 \<longrightarrow> calc_err c' \<noteq> 0)"

lemma calc_after_ok: "calc_after c c' \<Longrightarrow> calc_ok c \<Longrightarrow> calc_ok c' \<and> calc_left c' \<le> calc_left c"
  by (metis calc_after_def calc_reads_ok calc_reads_left le_add2)

lemma calc_after_refl: "calc_ok c \<Longrightarrow> calc_after c c"
  unfolding calc_after_def using calc_reads_refl by blast

lemma calc_after_trans: "calc_after c c' \<Longrightarrow> calc_after c' c'' \<Longrightarrow> calc_after c c''"
  unfolding calc_after_def using calc_reads_trans by blast

lemma calc_after_err: "calc_after c c' \<Longrightarrow> e \<noteq> 0 \<Longrightarrow> calc_after c (c'\<lparr>calc_err := e\<rparr>)"
  by (simp add: calc_after_def)

lemma calc_after_reads: "calc_reads c t c' \<Longrightarrow> calc_err c' = calc_err c \<Longrightarrow> calc_after c c'"
  by (auto simp: calc_after_def)

lemma takeWhile_reads: "calc_ok c \<Longrightarrow> calc_reads c (takeWhile P (calc_rest c)) (calc_skip (length (takeWhile P (calc_rest c))) c)"
  by (rule calc_reads_skip(1)[where r = "dropWhile P (calc_rest c)"]) simp_all

lemma skip_ws_reads:
  assumes "calc_ok c"
  obtains b where "calc_reads c b (calc_skip_ws c)" "blanks b" "calc_err (calc_skip_ws c) = calc_err c" "calc_ok (calc_skip_ws c)"
    "calc_left (calc_skip_ws c) \<le> calc_left c" "calc_after c (calc_skip_ws c)"
proof -
  let ?b = "takeWhile is_blank (calc_rest c)"
  have r: "calc_reads c ?b (calc_skip_ws c)" and e: "calc_err (calc_skip_ws c) = calc_err c"
    using takeWhile_reads[OF assms] by (simp_all add: calc_skip_ws_eq)
  have "blanks ?b" by (auto dest: set_takeWhileD)
  then show ?thesis using that r e calc_reads_ok[OF r assms] calc_reads_left[OF r] calc_after_reads[OF r e] by simp
qed

text \<open>What a parser function leaves behind when it has set no error: the text of an expression is read and the value is its value.\<close>

definition calc_post :: "(calc_exp \<Rightarrow> u8 list \<Rightarrow> bool) \<Rightarrow> calc_ctx \<Rightarrow> int \<times> calc_ctx \<Rightarrow> bool" where
  "calc_post G c = (\<lambda>(v, c'). calc_after c c' \<and>
     (calc_err c' = 0 \<longrightarrow> (\<exists>e t. calc_reads c t c' \<and> G e t \<and> calc_value e = Some v)))"

definition then_blanks :: "(calc_exp \<Rightarrow> u8 list \<Rightarrow> bool) \<Rightarrow> calc_exp \<Rightarrow> u8 list \<Rightarrow> bool" where
  "then_blanks G e t \<longleftrightarrow> (\<exists>t' b. t = t' @ b \<and> G e t' \<and> blanks b)"

definition calc_loop_post :: "(calc_exp \<Rightarrow> u8 list \<Rightarrow> bool) \<Rightarrow> int \<Rightarrow> calc_ctx \<Rightarrow> int \<times> calc_ctx \<Rightarrow> bool" where
  "calc_loop_post G l c = (\<lambda>(v, c'). calc_after c c' \<and>
     (calc_err c' = 0 \<longrightarrow> (\<forall>e s. then_blanks G e s \<longrightarrow> calc_value e = Some l \<longrightarrow>
        (\<exists>e' t. calc_reads c t c' \<and> then_blanks G e' (s @ t) \<and> calc_value e' = Some v))))"

lemma number_gives:
  assumes "calc_ok c"
  shows "calc_gives (calc_number c) (\<lambda>(v, c'). calc_after c c' \<and> (calc_err c' = 0 \<longrightarrow>
    (\<exists>e t. calc_reads c t c' \<and> calc_value e = Some v \<and> (\<forall>b. blanks b \<longrightarrow> factor_text e (b @ t)))))"
proof (cases "calc_ch c = 0x30 \<and> (calc_at c 1 = 0x78 \<or> calc_at c 1 = 0x58)")
  case True
  let ?c = "calc_skip 2 c" and ?x = "calc_at c 1"
  let ?ds = "takeWhile is_hex (calc_rest ?c)"
  have "calc_rest c = [0x30, ?x] @ drop 2 (calc_rest c)"
    using True by (cases "calc_rest c" rule: remdups_adj.cases) (auto simp: calc_at_rest split: if_splits)
  then have r: "calc_reads c [0x30, ?x] ?c" using calc_reads_skip(1)[OF assms, of "[0x30, ?x]"] by simp
  note r' = takeWhile_reads[OF calc_reads_ok[OF r assms], of is_hex]
  have rr: "calc_reads c ([0x30, ?x] @ ?ds) (calc_skip (length ?ds) ?c)" by (rule calc_reads_trans[OF r r'])
  have num: "calc_number c = Return (sint (of_nat (hexa_value 0 ?ds) :: u32),
      let c' = calc_skip (length ?ds) ?c in if ?ds = [] then c'\<lparr>calc_err := 1\<rparr> else c')"
    using True calc_hex_eq[of ?c 0 0] by (simp add: calc_number_def Let_def)
  have "factor_text (E_Hex ?ds) (b @ [0x30, ?x] @ ?ds)" if "?ds \<noteq> []" "blanks b" for b
    using that True by (intro factor_hex) (auto dest: set_takeWhileD)
  then show ?thesis unfolding num using rr calc_after_reads[OF rr] calc_after_err[OF calc_after_reads[OF rr], of 1]
    by (auto simp: Let_def intro!: exI[of _ "E_Hex ?ds"] exI[of _ "[0x30, ?x] @ ?ds"])
next
  case False
  let ?ds = "takeWhile is_dec (calc_rest c)"
  note r = takeWhile_reads[OF assms, of is_dec]
  have num: "calc_number c = (if int (dec_value 0 ?ds) \<le> INT_MAX then
      Return (int (dec_value 0 ?ds), let c' = calc_skip (length ?ds) c in if ?ds = [] then c'\<lparr>calc_err := 1\<rparr> else c')
    else Overflow)"
    using calc_dec_eq[of 0 c 0] unfolding calc_number_def if_not_P[OF False] by (simp add: Let_def)
  have "factor_text (E_Dec ?ds) (b @ ?ds)" if "?ds \<noteq> []" "blanks b" for b
    using that by (intro factor_dec) (auto dest: set_takeWhileD)
  then show ?thesis unfolding num using r calc_after_reads[OF r] calc_after_err[OF calc_after_reads[OF r], of 1]
    by (auto simp: Let_def in_int_def intro!: exI[of _ "E_Dec ?ds"] exI[of _ ?ds])
qed

lemma calc_postI:
  assumes "calc_after c c'" and "calc_err c' = 0 \<Longrightarrow> \<exists>e t. calc_reads c t c' \<and> G e t \<and> calc_value e = Some v"
  shows "calc_post G c (v, c')"
  using assms by (simp add: calc_post_def)

lemma calc_postD:
  assumes "calc_post G c (v, c')"
  shows "calc_after c c'" and "calc_err c' = 0 \<Longrightarrow> \<exists>e t. calc_reads c t c' \<and> G e t \<and> calc_value e = Some v"
  using assms by (simp_all add: calc_post_def)

lemma calc_loop_postI:
  assumes "calc_after c c'" and "\<And>e s. calc_err c' = 0 \<Longrightarrow> then_blanks G e s \<Longrightarrow> calc_value e = Some l \<Longrightarrow>
      \<exists>e' t. calc_reads c t c' \<and> then_blanks G e' (s @ t) \<and> calc_value e' = Some v"
  shows "calc_loop_post G l c (v, c')"
  using assms by (simp add: calc_loop_post_def)

lemma calc_loop_postD:
  assumes "calc_loop_post G l c (v, c')"
  shows "calc_after c c'" and "calc_err c' = 0 \<Longrightarrow> then_blanks G e s \<Longrightarrow> calc_value e = Some l \<Longrightarrow>
      \<exists>e' t. calc_reads c t c' \<and> then_blanks G e' (s @ t) \<and> calc_value e' = Some v"
  using assms by (simp_all add: calc_loop_post_def)

lemma calc_after_no_err: "calc_after c c' \<Longrightarrow> calc_err c' = 0 \<Longrightarrow> calc_err c = 0"
  by (auto simp: calc_after_def)

lemma post_prefix:
  assumes "calc_reads c p c1" "calc_err c1 = calc_err c" "calc_post G c1 (v, c')"
    and "\<And>e t. G e t \<Longrightarrow> calc_value e = Some v \<Longrightarrow> \<exists>e'. G' e' (p @ t) \<and> calc_value e' = Some v'"
  shows "calc_post G' c (v', c')"
proof (rule calc_postI)
  show "calc_after c c'" using calc_after_trans[OF calc_after_reads[OF assms(1,2)] calc_postD(1)[OF assms(3)]] .
  assume "calc_err c' = 0"
  then show "\<exists>e t. calc_reads c t c' \<and> G' e t \<and> calc_value e = Some v'"
    using calc_postD(2)[OF assms(3)] assms(4) calc_reads_trans[OF assms(1)] by meson
qed

lemma post_loop:
  assumes "calc_post G c (l, c1)" "calc_loop_post G' l c1 (v, c')" and "\<And>e t. G e t \<Longrightarrow> then_blanks G' e t"
  shows "calc_post (then_blanks G') c (v, c')"
proof (rule calc_postI)
  show "calc_after c c'" using calc_after_trans[OF calc_postD(1)[OF assms(1)] calc_loop_postD(1)[OF assms(2)]] .
  assume e: "calc_err c' = 0"
  have "calc_err c1 = 0" using calc_after_no_err[OF calc_loop_postD(1)[OF assms(2)] e] .
  then obtain e1 t1 where 1: "calc_reads c t1 c1" "G e1 t1" "calc_value e1 = Some l" using calc_postD(2)[OF assms(1)] by blast
  show "\<exists>e t. calc_reads c t c' \<and> then_blanks G' e t \<and> calc_value e = Some v"
    using calc_loop_postD(2)[OF assms(2) e assms(3)[OF 1(2)] 1(3)] calc_reads_trans[OF 1(1)] by blast
qed

lemma loop_step:
  assumes "calc_reads c p c2" "calc_err c2 = calc_err c" "calc_post H c2 (r, c3)" "calc_loop_post G l' c3 (v, c')"
    and "\<And>e s e2 t2. then_blanks G e s \<Longrightarrow> calc_value e = Some l \<Longrightarrow> H e2 t2 \<Longrightarrow> calc_value e2 = Some r \<Longrightarrow>
      \<exists>e'. then_blanks G e' (s @ p @ t2) \<and> calc_value e' = Some l'"
  shows "calc_loop_post G l c (v, c')"
proof (rule calc_loop_postI)
  show "calc_after c c'"
    using calc_after_trans[OF calc_after_reads[OF assms(1,2)] calc_after_trans[OF calc_postD(1)[OF assms(3)] calc_loop_postD(1)[OF assms(4)]]] .
  fix e s assume e: "calc_err c' = 0" and es: "then_blanks G e s" "calc_value e = Some l"
  have "calc_err c3 = 0" using calc_after_no_err[OF calc_loop_postD(1)[OF assms(4)] e] .
  then obtain e2 t2 where 2: "calc_reads c2 t2 c3" "H e2 t2" "calc_value e2 = Some r" using calc_postD(2)[OF assms(3)] by blast
  obtain e3 where 3: "then_blanks G e3 (s @ p @ t2)" "calc_value e3 = Some l'" using assms(5)[OF es 2(2,3)] by blast
  obtain e' t where 4: "calc_reads c3 t c'" "then_blanks G e' ((s @ p @ t2) @ t)" "calc_value e' = Some v"
    using calc_loop_postD(2)[OF assms(4) e 3] by blast
  show "\<exists>e' t. calc_reads c t c' \<and> then_blanks G e' (s @ t) \<and> calc_value e' = Some v"
    using 4(2,3) calc_reads_trans[OF assms(1) calc_reads_trans[OF 2(1) 4(1)]] by (auto intro!: exI[of _ e'])
qed

lemma loop_exit:
  assumes "calc_reads c b c'" "calc_err c' = calc_err c" "blanks b"
  shows "calc_loop_post G l c (l, c')"
proof (rule calc_loop_postI)
  show "calc_after c c'" by (rule calc_after_reads[OF assms(1,2)])
  fix e s assume "then_blanks G e s" "calc_value e = Some l"
  moreover from this(1) assms(3) have "then_blanks G e (s @ b)" unfolding then_blanks_def by (metis UnE append.assoc set_append)
  ultimately show "\<exists>e' t. calc_reads c t c' \<and> then_blanks G e' (s @ t) \<and> calc_value e' = Some l" using assms(1) by blast
qed

text \<open>The statements for the five parser functions, by the depth of the calls.\<close>

definition factor_total :: "nat \<Rightarrow> bool" where
  "factor_total n \<longleftrightarrow> (\<forall>c. calc_ok c \<longrightarrow> 3 * calc_left c + 1 \<le> n \<longrightarrow> calc_gives (calc_parse_factor n c) (calc_post factor_text c))"

definition term_total :: "nat \<Rightarrow> bool" where
  "term_total n \<longleftrightarrow> (\<forall>c. calc_ok c \<longrightarrow> 3 * calc_left c + 2 \<le> n \<longrightarrow>
     calc_gives (calc_parse_term n c) (calc_post (then_blanks term_text) c))"

definition term_loop_total :: "nat \<Rightarrow> bool" where
  "term_loop_total n \<longleftrightarrow> (\<forall>l c. calc_ok c \<longrightarrow> 3 * calc_left c + 1 \<le> n \<longrightarrow>
     calc_gives (calc_term_loop n l c) (calc_loop_post term_text l c))"

definition expr_total :: "nat \<Rightarrow> bool" where
  "expr_total n \<longleftrightarrow> (\<forall>c. calc_ok c \<longrightarrow> 3 * calc_left c + 3 \<le> n \<longrightarrow>
     calc_gives (calc_parse_expr n c) (calc_post (then_blanks expr_text) c))"

definition expr_loop_total :: "nat \<Rightarrow> bool" where
  "expr_loop_total n \<longleftrightarrow> (\<forall>l c. calc_ok c \<longrightarrow> 3 * calc_left c + 1 \<le> n \<longrightarrow>
     calc_gives (calc_expr_loop n l c) (calc_loop_post expr_text l c))"

lemma next_char:
  assumes "calc_reads c b c1" "calc_ok c1" "calc_ch c1 \<noteq> 0"
  shows "calc_reads c (b @ [calc_ch c1]) (calc_skip 1 c1)" "calc_ok (calc_skip 1 c1)" "calc_left (calc_skip 1 c1) < calc_left c"
  using calc_reads_trans[OF assms(1) calc_reads_one[OF assms(3)]] calc_reads_ok[OF calc_reads_one[OF assms(3)] assms(2)]
    calc_reads_left[OF assms(1)] calc_reads_left[OF calc_reads_one[OF assms(3)]] by simp_all

lemma paren_post:
  assumes c: "calc_ok c" "calc_reads c (b @ [0x28]) c1" "calc_err c1 = calc_err c" "blanks b"
    and p: "calc_post (then_blanks expr_text) c1 (v, c')"
  defines "d \<equiv> calc_skip_ws c'"
  shows "calc_post factor_text c (v, if calc_ch d = 0x29 then calc_skip 1 d else d\<lparr>calc_err := 1\<rparr>)"
proof -
  have a: "calc_after c c'" by (rule calc_after_trans[OF calc_after_reads[OF c(2,3)] calc_postD(1)[OF p]])
  obtain b' where b': "calc_reads c' b' d" "blanks b'" "calc_err d = calc_err c'" "calc_ok d" "calc_left d \<le> calc_left c'" "calc_after c' d"
    unfolding d_def by (rule skip_ws_reads[OF conjunct1[OF calc_after_ok[OF a c(1)]]])
  show ?thesis
  proof (cases "calc_ch d = 0x29")
    case True
    have rd: "calc_reads c' (b' @ [0x29]) (calc_skip 1 d)" using next_char(1)[OF b'(1,4)] True by simp
    have "calc_post factor_text c (v, calc_skip 1 d)"
    proof (rule calc_postI)
      show "calc_after c (calc_skip 1 d)"
        by (rule calc_after_trans[OF a calc_after_reads[OF rd]]) (simp add: b'(3))
      assume "calc_err (calc_skip 1 d) = 0"
      then have "calc_err c' = 0" using b'(3) by simp
      then obtain e t where et: "calc_reads c1 t c'" "then_blanks expr_text e t" "calc_value e = Some v"
        using calc_postD(2)[OF p] by blast
      then obtain t' b2 where t': "t = t' @ b2" "expr_text e t'" "blanks b2" unfolding then_blanks_def by blast
      have "factor_text e (b @ [0x28] @ t' @ (b2 @ b') @ [0x29])"
        using t'(3) b'(2) by (intro factor_paren c(4) t'(2)) auto
      moreover have "calc_reads c ((b @ [0x28]) @ t @ b' @ [0x29]) (calc_skip 1 d)"
        by (rule calc_reads_trans[OF c(2) calc_reads_trans[OF et(1) rd]])
      ultimately show "\<exists>e t. calc_reads c t (calc_skip 1 d) \<and> factor_text e t \<and> calc_value e = Some v"
        using et(3) by (intro exI[of _ e] exI[of _ "b @ [0x28] @ t' @ (b2 @ b') @ [0x29]"]) (simp add: t'(1))
    qed
    then show ?thesis using True by simp
  next
    case False
    then show ?thesis using calc_after_err[OF calc_after_trans[OF a b'(6)], of 1] by (simp add: calc_post_def)
  qed
qed

lemma factor_total_Suc:
  assumes "factor_total n" "expr_total n"
  shows "factor_total (Suc n)"
  unfolding factor_total_def
proof (intro allI impI)
  fix c assume c: "calc_ok c" "3 * calc_left c + 1 \<le> Suc n"
  define c0 where "c0 = calc_skip_ws c"
  define c1 where "c1 = calc_skip 1 c0"
  obtain b where b: "calc_reads c b c0" "blanks b" "calc_err c0 = calc_err c" "calc_ok c0" "calc_left c0 \<le> calc_left c" "calc_after c c0"
    unfolding c0_def by (rule skip_ws_reads[OF c(1)])
  have e1: "calc_err c1 = calc_err c" by (simp add: c1_def b(3))
  note n = next_char[OF b(1,4), folded c1_def]
  have fac: "calc_gives (calc_parse_factor n c1) (calc_post factor_text c1)" if "calc_ch c0 \<noteq> 0"
    using assms(1) n[OF that] c(2) unfolding factor_total_def by simp
  have unf: "calc_parse_factor (Suc n) c =
     (if calc_ch c0 = 0x2B then calc_parse_factor n c1
      else if calc_ch c0 = 0x2D then calc_bind (calc_parse_factor n c1) (\<lambda>(v, c). calc_bind (int_result (- v)) (\<lambda>v. Return (v, c)))
      else if calc_ch c0 = 0x28 then
        calc_bind (calc_parse_expr n c1) (\<lambda>(v, c). let c = calc_skip_ws c in
          Return (v, if calc_ch c = 0x29 then calc_skip 1 c else c\<lparr>calc_err := 1\<rparr>))
      else calc_number c0)"
    unfolding calc_parse_factor.simps Let_def c0_def c1_def ..
  consider "calc_ch c0 = 0x2B" | "calc_ch c0 = 0x2D" | "calc_ch c0 = 0x28" | "calc_ch c0 \<notin> {0x2B, 0x2D, 0x28}" by blast
  then show "calc_gives (calc_parse_factor (Suc n) c) (calc_post factor_text c)"
  proof cases
    case 1
    then have nz: "calc_ch c0 \<noteq> 0" by simp
    have "calc_post factor_text c (v, c')" if "calc_post factor_text c1 (v, c')" for v c'
      using factor_plus[OF b(2)] by (intro post_prefix[OF n(1)[OF nz] e1 that]) (auto simp: 1)
    then show ?thesis unfolding unf using 1 by (auto intro: calc_gives_mono[OF fac[OF nz]])
  next
    case 2
    then have nz: "calc_ch c0 \<noteq> 0" by simp
    have "calc_post factor_text c (- v, c')" if "calc_post factor_text c1 (v, c')" "in_int (- v) = Some (- v)" for v c'
      using factor_minus[OF b(2)] that(2)
      by (intro post_prefix[OF n(1)[OF nz] e1 that(1)]) (rule exI[of _ "E_Neg _"], auto simp: 2)
    then show ?thesis unfolding unf using 2
      by (auto intro!: calc_gives_bind[OF fac[OF nz]] calc_gives_bind[OF int_result_gives])
  next
    case 3
    then have nz: "calc_ch c0 \<noteq> 0" by simp
    have ex: "calc_gives (calc_parse_expr n c1) (calc_post (then_blanks expr_text) c1)"
      using assms(2) n[OF nz] c(2) unfolding expr_total_def by simp
    show ?thesis unfolding unf using 3 paren_post[OF c(1) n(1)[OF nz, unfolded 3] e1 b(2)]
      by (auto simp: Let_def intro!: calc_gives_bind[OF ex])
  next
    case 4
    have "calc_post factor_text c x" if "case x of (v, c') \<Rightarrow> calc_after c0 c' \<and> (calc_err c' = 0 \<longrightarrow>
      (\<exists>e t. calc_reads c0 t c' \<and> calc_value e = Some v \<and> (\<forall>b. blanks b \<longrightarrow> factor_text e (b @ t))))" for x
    proof -
      have "calc_post (\<lambda>e t. \<forall>b. blanks b \<longrightarrow> factor_text e (b @ t)) c0 (fst x, snd x)" using that by (auto intro!: calc_postI)
      from post_prefix[OF b(1,3) this] b(2) show ?thesis by fastforce
    qed
    then show ?thesis unfolding unf using 4 calc_gives_mono[OF number_gives[OF b(4)]] by simp
  qed
qed

lemma factor_then_blanks: "factor_text e t \<Longrightarrow> then_blanks term_text e t"
  unfolding then_blanks_def by (rule exI[of _ t], rule exI[of _ "[]"]) (simp add: term_factor)

lemma term_then_blanks: "then_blanks term_text e t \<Longrightarrow> then_blanks expr_text e t"
  unfolding then_blanks_def using expr_term by blast

lemma term_op_blanks:
  assumes "then_blanks term_text e s" "blanks b" "mul_op op E" "factor_text e' t'"
  shows "then_blanks term_text (E e e') (s @ (b @ [op]) @ t')"
proof -
  obtain t b0 where t: "s = t @ b0" "term_text e t" "blanks b0" using assms(1) unfolding then_blanks_def by blast
  have "term_text (E e e') (t @ (b0 @ b) @ [op] @ t')" using t(3) assms(2) by (intro term_op[OF t(2) _ assms(3,4)]) auto
  then show ?thesis unfolding then_blanks_def t(1) by (intro exI[of _ "t @ (b0 @ b) @ [op] @ t'"] exI[of _ "[]"]) simp
qed

lemma expr_op_blanks:
  assumes "then_blanks expr_text e s" "blanks b" "add_op op E" "then_blanks term_text e' t'"
  shows "then_blanks expr_text (E e e') (s @ (b @ [op]) @ t')"
proof -
  obtain t b0 where t: "s = t @ b0" "expr_text e t" "blanks b0" using assms(1) unfolding then_blanks_def by blast
  obtain u b1 where u: "t' = u @ b1" "term_text e' u" "blanks b1" using assms(4) unfolding then_blanks_def by blast
  have "expr_text (E e e') (t @ (b0 @ b) @ [op] @ u)" using t(3) assms(2) by (intro expr_op[OF t(2) _ assms(3) u(2)]) auto
  then show ?thesis unfolding then_blanks_def t(1) u(1)
    by (intro exI[of _ "t @ (b0 @ b) @ [op] @ u"] exI[of _ b1]) (simp add: u(3))
qed

lemma term_total_Suc:
  assumes "factor_total n" "term_loop_total n"
  shows "term_total (Suc n)"
  unfolding term_total_def
proof (intro allI impI)
  fix c assume c: "calc_ok c" "3 * calc_left c + 2 \<le> Suc n"
  have f: "calc_gives (calc_parse_factor n c) (calc_post factor_text c)" using assms(1) c unfolding factor_total_def by simp
  show "calc_gives (calc_parse_term (Suc n) c) (calc_post (then_blanks term_text) c)"
    unfolding calc_parse_term.simps
  proof (rule calc_gives_bind[OF f], clarify)
    fix l c1 assume p: "calc_post factor_text c (l, c1)"
    have "calc_gives (calc_term_loop n l c1) (calc_loop_post term_text l c1)"
      using assms(2) calc_after_ok[OF calc_postD(1)[OF p] c(1)] c(2) unfolding term_loop_total_def by simp
    then show "calc_gives (calc_term_loop n l c1) (calc_post (then_blanks term_text) c)"
      using post_loop[OF p _ factor_then_blanks] by (auto elim!: calc_gives_mono)
  qed
qed

lemma expr_total_Suc:
  assumes "term_total n" "expr_loop_total n"
  shows "expr_total (Suc n)"
  unfolding expr_total_def
proof (intro allI impI)
  fix c assume c: "calc_ok c" "3 * calc_left c + 3 \<le> Suc n"
  have f: "calc_gives (calc_parse_term n c) (calc_post (then_blanks term_text) c)" using assms(1) c unfolding term_total_def by simp
  show "calc_gives (calc_parse_expr (Suc n) c) (calc_post (then_blanks expr_text) c)"
    unfolding calc_parse_expr.simps
  proof (rule calc_gives_bind[OF f], clarify)
    fix l c1 assume p: "calc_post (then_blanks term_text) c (l, c1)"
    have "calc_gives (calc_expr_loop n l c1) (calc_loop_post expr_text l c1)"
      using assms(2) calc_after_ok[OF calc_postD(1)[OF p] c(1)] c(2) unfolding expr_loop_total_def by simp
    then show "calc_gives (calc_expr_loop n l c1) (calc_post (then_blanks expr_text) c)"
      using post_loop[OF p _ term_then_blanks] by (auto elim!: calc_gives_mono)
  qed
qed

lemma ex_conjI: "P x \<Longrightarrow> Q x \<Longrightarrow> \<exists>x. P x \<and> Q x"
  by blast

text \<open>Both loops read blanks, an operator and an operand, and go on with the value of the operation.\<close>

lemma operand_loop:
  assumes c: "calc_reads c p c1" "calc_err c1 = calc_err c" and post: "calc_post H c1 (r, c2)"
    and loop: "\<And>l. calc_gives (loop l c2) (calc_loop_post G l c2)"
    and val: "calc_gives run (\<lambda>l'. \<forall>e s e2 t2. then_blanks G e s \<longrightarrow> calc_value e = Some l \<longrightarrow> H e2 t2 \<longrightarrow>
      calc_value e2 = Some r \<longrightarrow> (\<exists>e'. then_blanks G e' (s @ p @ t2) \<and> calc_value e' = Some l'))"
  shows "calc_gives (calc_bind run (\<lambda>l. loop l c2)) (calc_loop_post G l c)"
proof (rule calc_gives_bind[OF val])
  fix l' assume v: "\<forall>e s e2 t2. then_blanks G e s \<longrightarrow> calc_value e = Some l \<longrightarrow> H e2 t2 \<longrightarrow>
      calc_value e2 = Some r \<longrightarrow> (\<exists>e'. then_blanks G e' (s @ p @ t2) \<and> calc_value e' = Some l')"
  have "calc_loop_post G l c x" if "calc_loop_post G l' c2 x" for x
  proof (cases x)
    case (Pair v' c')
    show ?thesis unfolding Pair using v by (intro loop_step[OF c post that[unfolded Pair]]) blast
  qed
  then show "calc_gives (loop l' c2) (calc_loop_post G l c)" using loop[of l'] calc_gives_mono by blast
qed

lemma expr_loop_total_Suc:
  assumes "term_total n" "expr_loop_total n"
  shows "expr_loop_total (Suc n)"
  unfolding expr_loop_total_def
proof (intro allI impI)
  fix l c assume c: "calc_ok c" "3 * calc_left c + 1 \<le> Suc n"
  define c0 where "c0 = calc_skip_ws c"
  define c1 where "c1 = calc_skip 1 c0"
  define op where "op = calc_ch c0"
  obtain b where b: "calc_reads c b c0" "blanks b" "calc_err c0 = calc_err c" "calc_ok c0" "calc_left c0 \<le> calc_left c" "calc_after c c0"
    unfolding c0_def by (rule skip_ws_reads[OF c(1)])
  have e1: "calc_err c1 = calc_err c" by (simp add: c1_def b(3))
  note n = next_char[OF b(1,4), folded c1_def op_def]
  have unf: "calc_expr_loop (Suc n) l c = (if calc_err c \<noteq> 0 then Return (l, c) else if op \<noteq> 0x2B \<and> op \<noteq> 0x2D then Return (l, c0)
      else calc_bind (calc_parse_term n c1) (\<lambda>(r, c). calc_bind (int_result (if op = 0x2B then l + r else l - r)) (\<lambda>l. calc_expr_loop n l c)))"
    unfolding calc_expr_loop.simps Let_def c0_def c1_def op_def ..
  show "calc_gives (calc_expr_loop (Suc n) l c) (calc_loop_post expr_text l c)"
  proof (cases "calc_err c \<noteq> 0 \<or> op \<noteq> 0x2B \<and> op \<noteq> 0x2D")
    case True
    then show ?thesis unfolding unf using loop_exit[OF b(1,3,2)] calc_after_refl[OF c(1)] by (auto simp: calc_loop_post_def)
  next
    case False
    then have nz: "op \<noteq> 0" by auto
    have f: "calc_gives (calc_parse_term n c1) (calc_post (then_blanks term_text) c1)"
      using assms(1) n[OF nz] c(2) unfolding term_total_def by simp
    have "calc_gives (calc_bind (int_result (if op = 0x2B then l + r else l - r)) (\<lambda>l. calc_expr_loop n l c2)) (calc_loop_post expr_text l c)"
      if p: "calc_post (then_blanks term_text) c1 (r, c2)" for r c2
    proof (rule operand_loop[OF n(1)[OF nz] e1 p])
      show "calc_gives (calc_expr_loop n l c2) (calc_loop_post expr_text l c2)" for l
        using assms(2) calc_after_ok[OF calc_postD(1)[OF p] n(2)[OF nz]] n(3)[OF nz] c(2) unfolding expr_loop_total_def by simp
      show "calc_gives (int_result (if op = 0x2B then l + r else l - r)) (\<lambda>l'. \<forall>e s e2 t2. then_blanks expr_text e s \<longrightarrow>
        calc_value e = Some l \<longrightarrow> then_blanks term_text e2 t2 \<longrightarrow> calc_value e2 = Some r \<longrightarrow>
          (\<exists>e'. then_blanks expr_text e' (s @ (b @ [op]) @ t2) \<and> calc_value e' = Some l'))"
      proof (rule calc_gives_mono[OF int_result_gives], intro allI impI)
        fix l' e s e2 t2 assume *: "l' = (if op = 0x2B then l + r else l - r) \<and> in_int (if op = 0x2B then l + r else l - r) = Some (if op = 0x2B then l + r else l - r)"
          "then_blanks expr_text e s" "calc_value e = Some l" "then_blanks term_text e2 t2" "calc_value e2 = Some r"
        have "add_op op (if op = 0x2B then E_Add else E_Sub)" using False add_op.intros by auto
        from expr_op_blanks[OF *(2) b(2) this *(4)] show "\<exists>e'. then_blanks expr_text e' (s @ (b @ [op]) @ t2) \<and> calc_value e' = Some l'"
          by (rule ex_conjI) (use *(1,3,5) in \<open>auto simp: both_def\<close>)
      qed
    qed
    then show ?thesis unfolding unf using False by (auto intro!: calc_gives_bind[OF f])
  qed
qed

lemma divide_value:
  assumes "calc_value e = Some l" "calc_value e2 = Some r" "r \<noteq> 0" "in_int (l sdiv r) \<noteq> None"
  shows "calc_value ((if op = 0x2F then E_Div else E_Mod) e e2) = Some (if op = 0x2F then the (in_int (l sdiv r)) else l smod r)"
  using assms by (auto simp: both_def)

lemma term_loop_total_Suc:
  assumes "factor_total n" "term_loop_total n"
  shows "term_loop_total (Suc n)"
  unfolding term_loop_total_def
proof (intro allI impI)
  fix l c assume c: "calc_ok c" "3 * calc_left c + 1 \<le> Suc n"
  define c0 where "c0 = calc_skip_ws c"
  define c1 where "c1 = calc_skip 1 c0"
  define op where "op = calc_ch c0"
  obtain b where b: "calc_reads c b c0" "blanks b" "calc_err c0 = calc_err c" "calc_ok c0" "calc_left c0 \<le> calc_left c" "calc_after c c0"
    unfolding c0_def by (rule skip_ws_reads[OF c(1)])
  have e1: "calc_err c1 = calc_err c" by (simp add: c1_def b(3))
  note n = next_char[OF b(1,4), folded c1_def op_def]
  have unf: "calc_term_loop (Suc n) l c = (if calc_err c \<noteq> 0 then Return (l, c)
      else if op \<noteq> 0x2A \<and> op \<noteq> 0x2F \<and> op \<noteq> 0x25 then Return (l, c0)
      else calc_bind (calc_parse_factor n c1) (\<lambda>(r, c).
        if op = 0x2A then calc_bind (int_result (l * r)) (\<lambda>l. calc_term_loop n l c)
        else if r = 0 then Return (0, c\<lparr>calc_err := 2\<rparr>)
        else calc_bind (calc_divide op l r) (\<lambda>l. calc_term_loop n l c)))"
    unfolding calc_term_loop.simps Let_def c0_def c1_def op_def ..
  show "calc_gives (calc_term_loop (Suc n) l c) (calc_loop_post term_text l c)"
  proof (cases "calc_err c \<noteq> 0 \<or> op \<noteq> 0x2A \<and> op \<noteq> 0x2F \<and> op \<noteq> 0x25")
    case True
    then show ?thesis unfolding unf using loop_exit[OF b(1,3,2)] calc_after_refl[OF c(1)] by (auto simp: calc_loop_post_def)
  next
    case False
    then have nz: "op \<noteq> 0" by auto
    have f: "calc_gives (calc_parse_factor n c1) (calc_post factor_text c1)"
      using assms(1) n[OF nz] c(2) unfolding factor_total_def by simp
    have loop: "calc_gives (calc_term_loop n l c2) (calc_loop_post term_text l c2)" if p: "calc_post factor_text c1 (r, c2)" for l r c2
      using assms(2) calc_after_ok[OF calc_postD(1)[OF p] n(2)[OF nz]] n(3)[OF nz] c(2) unfolding term_loop_total_def by simp
    have mul: "calc_gives (calc_bind (int_result (l * r)) (\<lambda>l. calc_term_loop n l c2)) (calc_loop_post term_text l c)"
      if p: "calc_post factor_text c1 (r, c2)" and op: "op = 0x2A" for r c2
    proof (rule operand_loop[where loop = "calc_term_loop n", OF n(1)[OF nz] e1 p loop[OF p]], rule calc_gives_mono[OF int_result_gives], intro allI impI)
      fix l' e s e2 t2 assume *: "l' = l * r \<and> in_int (l * r) = Some (l * r)"
        "then_blanks term_text e s" "calc_value e = Some l" "factor_text e2 t2" "calc_value e2 = Some r"
      from term_op_blanks[OF *(2) b(2) mul_op.intros(1) *(4)]
      show "\<exists>e'. then_blanks term_text e' (s @ (b @ [op]) @ t2) \<and> calc_value e' = Some l'"
        unfolding op by (rule ex_conjI) (use *(1,3,5) in \<open>simp add: both_def\<close>)
    qed
    have divi: "calc_gives (calc_bind (calc_divide op l r) (\<lambda>l. calc_term_loop n l c2)) (calc_loop_post term_text l c)"
      if p: "calc_post factor_text c1 (r, c2)" and op: "op \<noteq> 0x2A" "r \<noteq> 0" for r c2
    proof (rule operand_loop[where loop = "calc_term_loop n", OF n(1)[OF nz] e1 p loop[OF p]], rule calc_gives_mono[OF calc_divide_gives[OF op(2)]], intro allI impI)
      fix l' e s e2 t2
      assume *: "in_int (l sdiv r) \<noteq> None \<and> l' = (if op = 0x2F then the (in_int (l sdiv r)) else l smod r)"
        "then_blanks term_text e s" "calc_value e = Some l" "factor_text e2 t2" "calc_value e2 = Some r"
      have "mul_op op (if op = 0x2F then E_Div else E_Mod)" using False op(1) mul_op.intros by auto
      from term_op_blanks[OF *(2) b(2) this *(4)]
      show "\<exists>e'. then_blanks term_text e' (s @ (b @ [op]) @ t2) \<and> calc_value e' = Some l'"
        using divide_value[OF *(3,5) op(2)] *(1) by blast
    qed
    have zero: "calc_loop_post term_text l c (0, c2\<lparr>calc_err := 2\<rparr>)" if p: "calc_post factor_text c1 (r, c2)" for r c2
      using calc_after_err[OF calc_after_trans[OF calc_after_reads[OF n(1)[OF nz] e1] calc_postD(1)[OF p]], of 2]
      by (simp add: calc_loop_post_def)
    show ?thesis unfolding unf using False mul divi zero by (auto intro!: calc_gives_bind[OF f])
  qed
qed

lemma parser_total: "factor_total n \<and> term_total n \<and> term_loop_total n \<and> expr_total n \<and> expr_loop_total n"
proof (induction n)
  case 0
  show ?case by (simp add: factor_total_def term_total_def term_loop_total_def expr_total_def expr_loop_total_def)
next
  case (Suc n)
  then show ?case
    using factor_total_Suc term_total_Suc term_loop_total_Suc expr_total_Suc expr_loop_total_Suc by blast
qed

end
