(* ===== verification/Calc_Props.thy ===== *)
theory Calc_Props
  imports Calc_Grammar
begin

text \<open>
  The texts of the grammar are read by the parser with their value, and the two properties of the command \<^verbatim>\<open>calc\<close>: it always returns,
  and it answers as the reference semantics of \<^verbatim>\<open>Calc_Grammar\<close> says.
\<close>

section \<open>A deeper bound does not change a result\<close>

definition calc_le :: "'a calc_run \<Rightarrow> 'a calc_run \<Rightarrow> bool" where
  "calc_le r r' \<longleftrightarrow> r = Running \<or> r = r'"

lemma calc_le_refl [simp]: "calc_le r r"
  by (simp add: calc_le_def)

lemma calc_le_Running [simp]: "calc_le Running r"
  by (simp add: calc_le_def)

lemma calc_le_bind: "calc_le r r' \<Longrightarrow> (\<And>x. calc_le (f x) (f' x)) \<Longrightarrow> calc_le (calc_bind r f) (calc_bind r' f')"
  by (cases r) (simp_all add: calc_le_def, metis calc_bind.simps(1))

lemma calc_le_split: "(\<And>a b. calc_le (f a b) (f' a b)) \<Longrightarrow> calc_le (case p of (a, b) \<Rightarrow> f a b) (case p of (a, b) \<Rightarrow> f' a b)"
  by (cases p) simp

lemma calc_le_if: "calc_le a a' \<Longrightarrow> calc_le b b' \<Longrightarrow> calc_le (if P then a else b) (if P then a' else b')"
  by simp

lemma calc_le_Let: "calc_le (f x) (g x) \<Longrightarrow> calc_le (Let x f) (Let x g)"
  by simp

lemma parser_depth:
  "(\<forall>c. calc_le (calc_parse_factor n c) (calc_parse_factor (Suc n) c))
   \<and> (\<forall>c. calc_le (calc_parse_term n c) (calc_parse_term (Suc n) c))
   \<and> (\<forall>l c. calc_le (calc_term_loop n l c) (calc_term_loop (Suc n) l c))
   \<and> (\<forall>c. calc_le (calc_parse_expr n c) (calc_parse_expr (Suc n) c))
   \<and> (\<forall>l c. calc_le (calc_expr_loop n l c) (calc_expr_loop (Suc n) l c))"
proof (induction n)
  case (Suc n)
  note IH = Suc[THEN conjunct1, rule_format] Suc[THEN conjunct2, THEN conjunct1, rule_format]
    Suc[THEN conjunct2, THEN conjunct2, THEN conjunct1, rule_format]
    Suc[THEN conjunct2, THEN conjunct2, THEN conjunct2, THEN conjunct1, rule_format]
    Suc[THEN conjunct2, THEN conjunct2, THEN conjunct2, THEN conjunct2, rule_format]
  note rules = calc_le_Let calc_le_if calc_le_bind calc_le_split calc_le_refl IH
  have "calc_le (calc_parse_factor (Suc n) c) (calc_parse_factor (Suc (Suc n)) c)" for c
    by (subst (1 2) calc_parse_factor.simps(2)) (intro rules)
  moreover
  have "calc_le (calc_parse_term (Suc n) c) (calc_parse_term (Suc (Suc n)) c)" for c
    by (subst (1 2) calc_parse_term.simps(2)) (intro rules)
  moreover
  have "calc_le (calc_term_loop (Suc n) l c) (calc_term_loop (Suc (Suc n)) l c)" for l c
    by (subst (1 2) calc_term_loop.simps(2)) (intro rules)
  moreover
  have "calc_le (calc_parse_expr (Suc n) c) (calc_parse_expr (Suc (Suc n)) c)" for c
    by (subst (1 2) calc_parse_expr.simps(2)) (intro rules)
  moreover
  have "calc_le (calc_expr_loop (Suc n) l c) (calc_expr_loop (Suc (Suc n)) l c)" for l c
    by (subst (1 2) calc_expr_loop.simps(2)) (intro rules)
  ultimately show ?case by blast
qed simp

lemma parse_expr_deeper:
  assumes "calc_parse_expr n c \<noteq> Running" "n \<le> m"
  shows "calc_parse_expr m c = calc_parse_expr n c"
  using assms(2)
proof (induction rule: dec_induct)
  case (step k)
  then show ?case using parser_depth[of k] assms(1) by (metis calc_le_def)
qed simp

section \<open>The texts of the grammar are read\<close>

text \<open>The value that all runs with a large enough bound have.\<close>

definition calc_evt :: "(nat \<Rightarrow> 'a calc_run) \<Rightarrow> 'a calc_run \<Rightarrow> bool" where
  "calc_evt f r \<longleftrightarrow> (\<exists>N. \<forall>n\<ge>N. f n = r)"

lemma evt_Suc: "(\<And>n. f (Suc n) = g n) \<Longrightarrow> calc_evt g r \<Longrightarrow> calc_evt f r"
  unfolding calc_evt_def by (metis Suc_le_D Suc_le_mono)

lemma evt_now: "(\<And>n. f (Suc n) = r) \<Longrightarrow> calc_evt f r"
  unfolding calc_evt_def by (metis Suc_le_D)

lemma evt_const: "calc_evt (\<lambda>_. r) r"
  by (simp add: calc_evt_def)

lemma evt_step:
  assumes "calc_evt h (Return x)" and "\<And>n. f (Suc n) = calc_bind (h n) (g n)" and "calc_evt (\<lambda>n. g n x) r"
  shows "calc_evt f r"
proof -
  obtain N M where "\<forall>n\<ge>N. h n = Return x" "\<forall>n\<ge>M. g n x = r" using assms(1,3) unfolding calc_evt_def by blast
  then have "\<forall>n\<ge>max N M. f (Suc n) = r" using assms(2) by simp
  then show ?thesis unfolding calc_evt_def by (metis Suc_le_D Suc_le_mono)
qed

text \<open>What can stand after the text of a factor, and after that of a whole term.\<close>

definition ends :: "u8 list \<Rightarrow> bool" where
  "ends r \<longleftrightarrow> r = [] \<or> hd r \<in> {0x20, 0x09, 0x29, 0x2A, 0x2F, 0x25, 0x2B, 0x2D}"

definition no_mul :: "u8 list \<Rightarrow> bool" where
  "no_mul r \<longleftrightarrow> (let r' = dropWhile is_blank r in r' = [] \<or> hd r' \<notin> {0x2A, 0x2F, 0x25})"

lemma ends_hd: "ends r \<Longrightarrow> r \<noteq> [] \<Longrightarrow> \<not> is_dec (hd r) \<and> \<not> is_hex (hd r) \<and> hd r \<noteq> 0x78 \<and> hd r \<noteq> 0x58"
proof -
  assume "ends r" "r \<noteq> []"
  moreover have "\<forall>ch\<in>{0x20, 0x09, 0x29, 0x2A, 0x2F, 0x25, 0x2B, 0x2D}. \<not> is_dec ch \<and> \<not> is_hex ch \<and> ch \<noteq> 0x78 \<and> ch \<noteq> 0x58"
    by (simp add: hex_value_def)
  ultimately show ?thesis unfolding ends_def by blast
qed

lemma ends_blanks: "blanks b \<Longrightarrow> ends r \<Longrightarrow> ends (b @ r)"
  by (cases b) (auto simp: ends_def)

lemma ends_op: "mul_op op E \<or> add_op op E \<Longrightarrow> ends ([op] @ r)"
  by (auto simp: ends_def elim: mul_op.cases add_op.cases)

lemma takeWhile_exact: "\<forall>x\<in>set ds. P x \<Longrightarrow> r = [] \<or> \<not> P (hd r) \<Longrightarrow> takeWhile P (ds @ r) = ds"
  by (cases r) auto

lemma takeWhile_dropWhile: "takeWhile P (dropWhile P xs) = []"
  by (induction xs) auto

lemma skip_ws_run:
  assumes "calc_ok c" "calc_rest c = b @ r" "blanks b" "r = [] \<or> \<not> is_blank (hd r)"
  shows "calc_skip_ws c = calc_skip (length b) c" "calc_rest (calc_skip_ws c) = r" "calc_ok (calc_skip_ws c)"
proof -
  have "takeWhile is_blank (calc_rest c) = b" unfolding assms(2) by (rule takeWhile_exact[OF assms(3,4)])
  then show e: "calc_skip_ws c = calc_skip (length b) c" by (simp add: calc_skip_ws_eq)
  show "calc_rest (calc_skip_ws c) = r" "calc_ok (calc_skip_ws c)"
    unfolding e using calc_reads_skip[OF assms(1,2)] calc_reads_ok assms(1) by blast+
qed

lemma skip_ws_char:
  assumes "calc_ok c"
  shows "calc_ch (calc_skip_ws c) = (if dropWhile is_blank (calc_rest c) = [] then 0 else hd (dropWhile is_blank (calc_rest c)))"
    and "calc_skip_ws (calc_skip_ws c) = calc_skip_ws c" and "calc_err (calc_skip_ws c) = calc_err c"
proof -
  let ?b = "takeWhile is_blank (calc_rest c)" and ?r = "dropWhile is_blank (calc_rest c)"
  have r: "?r = [] \<or> \<not> is_blank (hd ?r)" using hd_dropWhile[of is_blank "calc_rest c"] by blast
  have "blanks ?b" by (auto dest: set_takeWhileD)
  from skip_ws_run[OF assms _ this r] have e: "calc_rest (calc_skip_ws c) = ?r" by simp
  then show "calc_ch (calc_skip_ws c) = (if ?r = [] then 0 else hd ?r)"
    unfolding calc_at_rest e by (cases ?r) simp_all
  have "takeWhile is_blank ?r = []" by (rule takeWhile_dropWhile)
  then show "calc_skip_ws (calc_skip_ws c) = calc_skip_ws c" using e by (subst calc_skip_ws_eq) simp
  show "calc_err (calc_skip_ws c) = calc_err c" by (simp add: calc_skip_ws_eq)
qed

text \<open>The expression is read in a context that stands before its text, from the blanks before it on.\<close>

definition at_text :: "calc_ctx \<Rightarrow> u8 list \<Rightarrow> u8 list \<Rightarrow> bool" where
  "at_text c t r \<longleftrightarrow> calc_ok c \<and> calc_err c = 0 \<and> calc_rest c = t @ r"

lemma at_text_skip: "at_text c (t @ t') r \<Longrightarrow> at_text (calc_skip (length t) c) t' r"
  unfolding at_text_def using calc_reads_skip[of c t "t' @ r"] calc_reads_ok by auto

lemma at_text_ws:
  assumes "at_text c (b @ ch # t) r" "blanks b" "\<not> is_blank ch"
  shows "calc_skip_ws c = calc_skip (length b) c" "calc_ch (calc_skip_ws c) = ch" "at_text (calc_skip 1 (calc_skip_ws c)) t r"
proof -
  show e: "calc_skip_ws c = calc_skip (length b) c"
    using assms by (intro skip_ws_run(1)[of c b "ch # t @ r"]) (simp_all add: at_text_def)
  have a: "at_text (calc_skip (length b) c) ([ch] @ t) r" using at_text_skip assms(1) by simp
  then show "calc_ch (calc_skip_ws c) = ch" unfolding e by (simp add: at_text_def calc_at_rest)
  show "at_text (calc_skip 1 (calc_skip_ws c)) t r" using at_text_skip[OF a] unfolding e by simp
qed

definition factor_run :: "calc_exp \<Rightarrow> u8 list \<Rightarrow> bool" where
  "factor_run e t \<longleftrightarrow> (\<forall>c r v. at_text c t r \<longrightarrow> ends r \<longrightarrow> calc_value e = Some v \<longrightarrow>
     calc_evt (\<lambda>n. calc_parse_factor n c) (Return (v, calc_skip (length t) c)))"

definition term_run :: "calc_exp \<Rightarrow> u8 list \<Rightarrow> bool" where
  "term_run e t \<longleftrightarrow> (\<forall>c r v res. at_text c t r \<longrightarrow> ends r \<longrightarrow> calc_value e = Some v \<longrightarrow>
     calc_evt (\<lambda>n. calc_term_loop n v (calc_skip (length t) c)) res \<longrightarrow> calc_evt (\<lambda>n. calc_parse_term n c) res)"

definition expr_run :: "calc_exp \<Rightarrow> u8 list \<Rightarrow> bool" where
  "expr_run e t \<longleftrightarrow> (\<forall>c r v res. at_text c t r \<longrightarrow> ends r \<longrightarrow> no_mul r \<longrightarrow> calc_value e = Some v \<longrightarrow>
     calc_evt (\<lambda>n. calc_expr_loop n v (calc_skip (length t) c)) res \<longrightarrow> calc_evt (\<lambda>n. calc_parse_expr n c) res)"

lemma factor_number:
  assumes "at_text c (b @ ch # t) r" "blanks b" "\<not> is_blank ch" "ch \<notin> {0x2B, 0x2D, 0x28}"
    and "calc_number (calc_skip (length b) c) = Return x"
  shows "calc_evt (\<lambda>n. calc_parse_factor n c) (Return x)"
proof (rule evt_now)
  fix n
  note ws = at_text_ws(1,2)[OF assms(1-3)]
  have "ch \<noteq> 0x2B" "ch \<noteq> 0x2D" "ch \<noteq> 0x28" using assms(4) by auto
  then show "calc_parse_factor (Suc n) c = Return x"
    unfolding calc_parse_factor.simps Let_def ws(2) by (simp only: if_False ws(1) assms(5))
qed

lemma factor_run_dec:
  assumes "blanks b" "ds \<noteq> []" "\<forall>ch\<in>set ds. is_dec ch"
  shows "factor_run (E_Dec ds) (b @ ds)"
  unfolding factor_run_def
proof (intro allI impI)
  fix c r v assume a: "at_text c (b @ ds) r" and r: "ends r" and v: "calc_value (E_Dec ds) = Some v"
  obtain ch t where ds: "ds = ch # t" using assms(2) by (cases ds) auto
  have ch: "is_dec ch" using assms(3) ds by simp
  let ?c = "calc_skip (length b) c"
  have c: "calc_rest ?c = ds @ r" using at_text_skip[OF a] by (simp add: at_text_def)
  have "takeWhile is_dec (ds @ r) = ds" using ends_hd[OF r] by (intro takeWhile_exact[OF assms(3)]) blast
  moreover have "\<not> (calc_ch ?c = 0x30 \<and> (calc_at ?c 1 = 0x78 \<or> calc_at ?c 1 = 0x58))"
  proof (cases t)
    case Nil
    then show ?thesis using ends_hd[OF r] c ds by (cases r) (auto simp: calc_at_rest)
  next
    case (Cons d t')
    then have "is_dec d" using assms(3) ds by simp
    then show ?thesis using c ds Cons by (auto simp: calc_at_rest)
  qed
  ultimately have "calc_number ?c = Return (v, calc_skip (length (b @ ds)) c)"
    using calc_dec_eq[of 0 ?c 0] v assms(2) unfolding calc_number_def c
    by (simp only: if_False calc_bind.simps) (simp add: Let_def in_int_def add.assoc split: if_splits)
  moreover have "\<not> is_blank ch" "ch \<notin> {0x2B, 0x2D, 0x28}" using ch by auto
  ultimately show "calc_evt (\<lambda>n. calc_parse_factor n c) (Return (v, calc_skip (length (b @ ds)) c))"
    using factor_number[OF a[unfolded ds] assms(1)] by blast
qed

lemma factor_run_hex:
  assumes "blanks b" "x \<in> {0x78, 0x58}" "ds \<noteq> []" "\<forall>ch\<in>set ds. is_hex ch"
  shows "factor_run (E_Hex ds) (b @ [0x30, x] @ ds)"
  unfolding factor_run_def
proof (intro allI impI)
  fix c r v assume a: "at_text c (b @ [0x30, x] @ ds) r" and r: "ends r" and v: "calc_value (E_Hex ds) = Some v"
  let ?c = "calc_skip (length b) c"
  have a1: "at_text ?c ([0x30, x] @ ds) r" using at_text_skip[OF a] .
  have c2: "calc_rest (calc_skip 2 ?c) = ds @ r" using at_text_skip[OF a1] by (simp add: at_text_def)
  have "takeWhile is_hex (ds @ r) = ds" using ends_hd[OF r] by (intro takeWhile_exact[OF assms(4)]) blast
  moreover have "calc_ch ?c = 0x30 \<and> (calc_at ?c 1 = 0x78 \<or> calc_at ?c 1 = 0x58)"
    using a1 assms(2) by (auto simp: at_text_def calc_at_rest)
  ultimately have "calc_number ?c = Return (v, calc_skip (length (b @ [0x30, x] @ ds)) c)"
    using calc_hex_eq[of "calc_skip 2 ?c" 0 0] v assms(3) unfolding calc_number_def c2
    by (simp add: Let_def add.assoc)
  then show "calc_evt (\<lambda>n. calc_parse_factor n c) (Return (v, calc_skip (length (b @ [0x30, x] @ ds)) c))"
    using a by (intro factor_number[OF _ assms(1), of c "0x30" "x # ds" r]) simp_all
qed

lemma factor_run_sign:
  assumes "factor_run e t" "blanks b"
  shows "factor_run e (b @ [0x2B] @ t)" "factor_run (E_Neg e) (b @ [0x2D] @ t)"
proof -
  have step: "calc_evt (\<lambda>n. calc_parse_factor n (calc_skip 1 (calc_skip_ws c))) (Return (v, calc_skip (length (b @ [s] @ t)) c))
      \<and> calc_ch (calc_skip_ws c) = s"
    if a: "at_text c (b @ [s] @ t) r" and s: "\<not> is_blank s" and r: "ends r" and v: "calc_value e = Some v" for c r v s
  proof -
    note ws = at_text_ws[OF a[simplified] assms(2) s]
    have "calc_skip (length t) (calc_skip 1 (calc_skip_ws c)) = calc_skip (length (b @ [s] @ t)) c"
      unfolding ws(1) by (simp add: add.assoc)
    then show ?thesis using assms(1) ws(2,3) r v unfolding factor_run_def by metis
  qed
  show "factor_run e (b @ [0x2B] @ t)"
    unfolding factor_run_def
  proof (intro allI impI)
    fix c r v assume a: "at_text c (b @ [0x2B] @ t) r" and r: "ends r" and v: "calc_value e = Some v"
    have nb: "\<not> is_blank (0x2B :: u8)" by simp
    note st = step[OF a nb r v]
    have "calc_parse_factor (Suc n) c = calc_parse_factor n (calc_skip 1 (calc_skip_ws c))" for n
      unfolding calc_parse_factor.simps Let_def conjunct2[OF st] by simp
    from evt_Suc[of "\<lambda>n. calc_parse_factor n c", OF this conjunct1[OF st]]
    show "calc_evt (\<lambda>n. calc_parse_factor n c) (Return (v, calc_skip (length (b @ [0x2B] @ t)) c))" .
  qed
  show "factor_run (E_Neg e) (b @ [0x2D] @ t)"
    unfolding factor_run_def
  proof (intro allI impI)
    fix c r w assume a: "at_text c (b @ [0x2D] @ t) r" and r: "ends r" and w: "calc_value (E_Neg e) = Some w"
    then obtain v where v: "calc_value e = Some v" "int_result (- v) = Return w"
      by (auto simp: in_int_def int_result_def split: if_splits bind_splits)
    have nb: "\<not> is_blank (0x2D :: u8)" by simp
    note st = step[OF a nb r v(1)]
    show "calc_evt (\<lambda>n. calc_parse_factor n c) (Return (w, calc_skip (length (b @ [0x2D] @ t)) c))"
    proof (rule evt_step[OF conjunct1[OF st]])
      show "calc_parse_factor (Suc n) c = calc_bind (calc_parse_factor n (calc_skip 1 (calc_skip_ws c)))
        (\<lambda>(v, c). calc_bind (int_result (- v)) (\<lambda>v. Return (v, c)))" for n
        unfolding calc_parse_factor.simps Let_def conjunct2[OF st] by simp
    qed (simp only: prod.case v(2) calc_bind.simps evt_const)
  qed
qed

lemma term_run_stop:
  assumes "term_run e t" "at_text c t r" "ends r" "no_mul r" "calc_value e = Some v"
  shows "calc_evt (\<lambda>n. calc_parse_term n c) (Return (v, calc_skip_ws (calc_skip (length t) c)))"
proof -
  let ?c = "calc_skip (length t) c"
  have c: "at_text ?c [] r" using at_text_skip[of c t "[]" r] assms(2) by simp
  then have "calc_ok ?c" "calc_rest ?c = r" "calc_err ?c = 0" by (simp_all add: at_text_def)
  then have "calc_ch (calc_skip_ws ?c) \<notin> {0x2A, 0x2F, 0x25}" "calc_err ?c = 0"
    using skip_ws_char(1)[of ?c] assms(4) by (auto simp: no_mul_def Let_def)
  then have "calc_term_loop (Suc n) v ?c = Return (v, calc_skip_ws ?c)" for n
    unfolding calc_term_loop.simps Let_def by simp
  from evt_now[of "\<lambda>n. calc_term_loop n v ?c", OF this] show ?thesis using assms(1-3,5) unfolding term_run_def by blast
qed

lemma expr_loop_ws: "calc_ok c \<Longrightarrow> calc_err c = 0 \<Longrightarrow> calc_expr_loop n v (calc_skip_ws c) = calc_expr_loop n v c"
  by (cases n) (simp_all only: calc_expr_loop.simps skip_ws_char(2,3) simp_thms if_False)

lemma expr_loop_at: "at_text c [] r \<Longrightarrow> (\<lambda>n. calc_expr_loop n v (calc_skip_ws c)) = (\<lambda>n. calc_expr_loop n v c)"
  by (rule ext, rule expr_loop_ws) (simp_all add: at_text_def)

lemma expr_loop_stop:
  assumes "at_text c [] r" "hd (dropWhile is_blank r) \<notin> {0x2B, 0x2D} \<or> dropWhile is_blank r = []"
  shows "calc_evt (\<lambda>n. calc_expr_loop n v c) (Return (v, calc_skip_ws c))"
proof -
  have "calc_ok c" "calc_rest c = r" "calc_err c = 0" using assms(1) by (simp_all add: at_text_def)
  then have "calc_ch (calc_skip_ws c) \<notin> {0x2B, 0x2D}" "calc_err c = 0"
    using skip_ws_char(1)[of c] assms(2) by auto
  then have "calc_expr_loop (Suc n) v c = Return (v, calc_skip_ws c)" for n
    unfolding calc_expr_loop.simps Let_def by simp
  from evt_now[of "\<lambda>n. calc_expr_loop n v c", OF this] show ?thesis .
qed

lemma factor_run_paren:
  assumes "expr_run e t" "blanks b" "blanks b'"
  shows "factor_run e (b @ [0x28] @ t @ b' @ [0x29])"
  unfolding factor_run_def
proof (intro allI impI)
  fix c r v assume a: "at_text c (b @ [0x28] @ t @ b' @ [0x29]) r" and v: "calc_value e = Some v"
  note ws = at_text_ws[OF a[simplified] assms(2), simplified]
  define c1 where "c1 = calc_skip 1 (calc_skip_ws c)"
  define c2 where "c2 = calc_skip (length t) c1"
  let ?r = "b' @ [0x29] @ r"
  have a1: "at_text c1 t ?r" and a2: "at_text c2 (b' @ 0x29 # []) r"
    using ws(3) at_text_skip[of c1 t "b' @ [0x29]" r] by (simp_all add: at_text_def c1_def c2_def)
  have "ends ([0x29] @ r)" by (simp add: ends_def)
  then have r: "ends ?r" "dropWhile is_blank ?r = 0x29 # r" "no_mul ?r"
    using assms(3) by (auto simp: no_mul_def Let_def intro!: ends_blanks)
  have "calc_evt (\<lambda>n. calc_expr_loop n v c2) (Return (v, calc_skip_ws c2))"
    using r(2) a2 by (intro expr_loop_stop[of _ ?r]) (simp_all add: at_text_def)
  then have "calc_evt (\<lambda>n. calc_parse_expr n c1) (Return (v, calc_skip_ws c2))"
    using assms(1) a1 r(1,3) v unfolding expr_run_def c2_def by blast
  note ev = this
  note ws2 = at_text_ws[OF a2 assms(3), simplified]
  have idem: "calc_skip_ws (calc_skip_ws c2) = calc_skip_ws c2" using skip_ws_char(2) a2 unfolding at_text_def by blast
  have "calc_evt (\<lambda>n. calc_parse_factor n c) (Return (v, calc_skip 1 (calc_skip_ws c2)))"
  proof (rule evt_step[OF ev])
    show "calc_parse_factor (Suc n) c = calc_bind (calc_parse_expr n c1) (\<lambda>(v, c).
        let c = calc_skip_ws c in Return (v, if calc_ch c = 0x29 then calc_skip 1 c else c\<lparr>calc_err := 1\<rparr>))" for n
      unfolding calc_parse_factor.simps Let_def c1_def ws(2) by simp
  qed (simp only: prod.case idem Let_def ws2(2) simp_thms if_True evt_const)
  then show "calc_evt (\<lambda>n. calc_parse_factor n c) (Return (v, calc_skip (length (b @ [0x28] @ t @ b' @ [0x29])) c))"
    unfolding ws2(1) unfolding c2_def c1_def ws(1) by (simp add: add.assoc)
qed

lemma term_run_factor:
  assumes "factor_run e t"
  shows "term_run e t"
  unfolding term_run_def
proof (intro allI impI)
  fix c r v res assume *: "at_text c t r" "ends r" "calc_value e = Some v"
    "calc_evt (\<lambda>n. calc_term_loop n v (calc_skip (length t) c)) res"
  have "calc_evt (\<lambda>n. calc_parse_factor n c) (Return (v, calc_skip (length t) c))"
    using assms *(1-3) unfolding factor_run_def by blast
  from evt_step[OF this calc_parse_term.simps(2)] show "calc_evt (\<lambda>n. calc_parse_term n c) res"
    using *(4) by simp
qed

lemma mul_op_run:
  assumes "mul_op op E" "calc_value (E e e') = Some w"
  obtains v v' where "calc_value e = Some v" "calc_value e' = Some v'"
    "\<And>k c. (if op = 0x2A then calc_bind (int_result (v * v')) k else if v' = 0 then Return (0 :: int, c :: calc_ctx)
        else calc_bind (calc_divide op v v') k) = k w"
  using assms
  by cases (auto simp: both_def in_int_def int_result_def calc_divide_def split: if_splits bind_splits)

lemma term_run_op:
  assumes "term_run e t" "blanks b" "mul_op op E" "factor_run e' t'"
  shows "term_run (E e e') (t @ b @ [op] @ t')"
  unfolding term_run_def
proof (intro allI impI)
  fix c r w res assume a: "at_text c (t @ b @ [op] @ t') r" and r: "ends r" and w: "calc_value (E e e') = Some w"
    and loop: "calc_evt (\<lambda>n. calc_term_loop n w (calc_skip (length (t @ b @ [op] @ t')) c)) res"
  obtain v v' where v: "calc_value e = Some v" "calc_value e' = Some v'"
    "\<And>k c. (if op = 0x2A then calc_bind (int_result (v * v')) k else if v' = 0 then Return (0 :: int, c :: calc_ctx)
        else calc_bind (calc_divide op v v') k) = k w"
    using mul_op_run[OF assms(3) w] by blast
  have op: "op = 0x2A \<or> op = 0x2F \<or> op = 0x25" "\<not> is_blank op" using assms(3) by (auto elim: mul_op.cases)
  define c1 where "c1 = calc_skip (length t) c"
  have a1: "at_text c1 (b @ op # t') r" using at_text_skip[OF a] by (simp add: c1_def)
  note ws = at_text_ws[OF a1 assms(2) op(2)]
  have e: "calc_err c1 = 0" using a1 by (simp add: at_text_def)
  have "calc_evt (\<lambda>n. calc_parse_factor n (calc_skip 1 (calc_skip_ws c1))) (Return (v', calc_skip (length t') (calc_skip 1 (calc_skip_ws c1))))"
    using assms(4) ws(3) r v(2) unfolding factor_run_def by blast
  note ev = this
  have "calc_skip (length t') (calc_skip 1 (calc_skip_ws c1)) = calc_skip (length (t @ b @ [op] @ t')) c"
    unfolding ws(1) unfolding c1_def by (simp add: add.assoc)
  note loop' = loop[folded this]
  have "calc_evt (\<lambda>n. calc_term_loop n v c1) res"
  proof (rule evt_step[OF ev])
    show "calc_term_loop (Suc n) v c1 = calc_bind (calc_parse_factor n (calc_skip 1 (calc_skip_ws c1))) (\<lambda>(right, c).
          if op = 0x2A then calc_bind (int_result (v * right)) (\<lambda>left. calc_term_loop n left c)
          else if right = 0 then Return (0, c\<lparr>calc_err := 2\<rparr>)
          else calc_bind (calc_divide op v right) (\<lambda>left. calc_term_loop n left c))" for n
      unfolding calc_term_loop.simps Let_def ws(2) using e op(1) by auto
  qed (simp only: prod.case v(3) loop')
  moreover have "at_text c t (b @ [op] @ t' @ r)" using a by (simp add: at_text_def)
  moreover have "ends (b @ [op] @ t' @ r)" using ends_blanks[OF assms(2) ends_op] assms(3) by blast
  ultimately show "calc_evt (\<lambda>n. calc_parse_term n c) res" using assms(1) v(1) unfolding term_run_def c1_def by blast
qed

lemma expr_run_term:
  assumes "term_run e t"
  shows "expr_run e t"
  unfolding expr_run_def
proof (intro allI impI)
  fix c r v res assume *: "at_text c t r" "ends r" "no_mul r" "calc_value e = Some v"
    "calc_evt (\<lambda>n. calc_expr_loop n v (calc_skip (length t) c)) res"
  have "at_text (calc_skip (length t) c) [] r" using at_text_skip[of c t "[]" r] *(1) by simp
  then have "calc_evt (\<lambda>n. calc_expr_loop n v (calc_skip_ws (calc_skip (length t) c))) res"
    using *(5) by (simp only: expr_loop_at)
  with evt_step[OF term_run_stop[OF assms *(1-4)] calc_parse_expr.simps(2)]
  show "calc_evt (\<lambda>n. calc_parse_expr n c) res" by simp
qed

lemma add_op_run:
  assumes "add_op op E" "calc_value (E e e') = Some w"
  obtains v v' where "calc_value e = Some v" "calc_value e' = Some v'" "int_result (if op = 0x2B then v + v' else v - v') = Return w"
  using assms by cases (auto simp: both_def in_int_def int_result_def split: if_splits bind_splits)

lemma expr_run_op:
  assumes "expr_run e t" "blanks b" "add_op op E" "term_run e' t'"
  shows "expr_run (E e e') (t @ b @ [op] @ t')"
  unfolding expr_run_def
proof (intro allI impI)
  fix c r w res assume a: "at_text c (t @ b @ [op] @ t') r" and r: "ends r" "no_mul r" and w: "calc_value (E e e') = Some w"
    and loop: "calc_evt (\<lambda>n. calc_expr_loop n w (calc_skip (length (t @ b @ [op] @ t')) c)) res"
  obtain v v' where v: "calc_value e = Some v" "calc_value e' = Some v'" "int_result (if op = 0x2B then v + v' else v - v') = Return w"
    using add_op_run[OF assms(3) w] by blast
  have op: "op = 0x2B \<or> op = 0x2D" "\<not> is_blank op" using assms(3) by (auto elim: add_op.cases)
  define c1 where "c1 = calc_skip (length t) c"
  have a1: "at_text c1 (b @ op # t') r" using at_text_skip[OF a] by (simp add: c1_def)
  note ws = at_text_ws[OF a1 assms(2) op(2)]
  have e: "calc_err c1 = 0" using a1 by (simp add: at_text_def)
  define c3 where "c3 = calc_skip (length t') (calc_skip 1 (calc_skip_ws c1))"
  note ev = term_run_stop[OF assms(4) ws(3) r v(2), folded c3_def]
  have c3: "c3 = calc_skip (length (t @ b @ [op] @ t')) c"
    unfolding c3_def ws(1) unfolding c1_def by (simp add: add.assoc)
  have "at_text c3 [] r" using at_text_skip[of "calc_skip 1 (calc_skip_ws c1)" t' "[]" r] ws(3) by (simp add: c3_def)
  then have loop': "calc_evt (\<lambda>n. calc_expr_loop n w (calc_skip_ws c3)) res"
    using loop[folded c3] by (simp only: expr_loop_at)
  have "calc_evt (\<lambda>n. calc_expr_loop n v c1) res"
  proof (rule evt_step[OF ev])
    show "calc_expr_loop (Suc n) v c1 = calc_bind (calc_parse_term n (calc_skip 1 (calc_skip_ws c1))) (\<lambda>(right, c).
          calc_bind (int_result (if op = 0x2B then v + right else v - right)) (\<lambda>left. calc_expr_loop n left c))" for n
      unfolding calc_expr_loop.simps Let_def ws(2) using e op(1) by auto
  qed (simp only: prod.case v(3) calc_bind.simps loop')
  moreover have "at_text c t (b @ [op] @ t' @ r)" using a by (simp add: at_text_def)
  moreover have "ends (b @ [op] @ t' @ r)" using ends_blanks[OF assms(2) ends_op] assms(3) by blast
  moreover have "no_mul (b @ [op] @ t' @ r)" using assms(2) op by (auto simp: no_mul_def Let_def)
  ultimately show "calc_evt (\<lambda>n. calc_parse_expr n c) res" using assms(1) v(1) unfolding expr_run_def c1_def by blast
qed

lemma texts_run:
  shows "factor_text e t \<Longrightarrow> factor_run e t" and "term_text e t \<Longrightarrow> term_run e t" and "expr_text e t \<Longrightarrow> expr_run e t"
proof (induction rule: factor_text_term_text_expr_text.inducts)
qed (blast intro: factor_run_dec factor_run_hex factor_run_sign factor_run_paren term_run_factor term_run_op expr_run_term expr_run_op)+

section \<open>The command\<close>

lemma text_nonempty: "factor_text e t \<Longrightarrow> t \<noteq> []" "term_text e t \<Longrightarrow> t \<noteq> []" "expr_text e t \<Longrightarrow> t \<noteq> []"
  by (induction rule: factor_text_term_text_expr_text.inducts) simp_all

abbreviation calc_start :: "u8 list \<Rightarrow> calc_ctx" where
  "calc_start args \<equiv> \<lparr>calc_s = args, calc_pos = 0, calc_err = 0\<rparr>"

lemma calc_start_ok: "0 \<notin> set args \<Longrightarrow> calc_ok (calc_start args)" "calc_rest (calc_start args) = args"
  by (simp_all add: calc_ok_def calc_rest_def)

lemma calc_start_gives:
  assumes "0 \<notin> set args" "3 * length args + 3 \<le> n"
  shows "calc_gives (calc_parse_expr n (calc_start args)) (calc_post (then_blanks expr_text) (calc_start args))"
  using parser_total[of n] calc_start_ok(1)[OF assms(1)] assms(2) unfolding expr_total_def by simp

lemma calc_at_end:
  assumes "calc_ok c"
  shows "calc_ch c = 0 \<longleftrightarrow> calc_rest c = []"
proof (cases "calc_rest c")
  case (Cons ch t)
  have "set (calc_rest c) \<subseteq> set (calc_s c)" unfolding calc_rest_def by (rule set_drop_subset)
  then show ?thesis using assms Cons by (auto simp: calc_at_rest calc_ok_def)
qed (simp add: calc_at_rest)



text \<open>C5. The calculator is equivalent to its reference semantics: \<^verbatim>\<open>calc\<close> answers with the value \<open>v\<close> exactly when its argument is the text of an
  expression of the grammar, with blanks around the tokens, and \<open>v\<close> is the value of that expression, with multiplication,
  division and remainder binding before addition and subtraction, operators of one level grouping to the left, division
  rounding towards zero, and every intermediate value in the range of a 32-bit integer.\<close>

theorem calc_evaluates:
  assumes "0 \<notin> set args" and "3 * length args + 3 \<le> n"
  shows "calc_command n args = Return (Calc_Value v) \<longleftrightarrow>
    (\<exists>e t b. args = t @ b \<and> expr_text e t \<and> blanks b \<and> calc_value e = Some v)"
proof
  assume *: "calc_command n args = Return (Calc_Value v)"
  then obtain w c where p: "calc_parse_expr n (calc_start args) = Return (w, c)"
    by (cases "calc_parse_expr n (calc_start args)") (auto simp: calc_command_def split: if_splits)
  then have post: "calc_post (then_blanks expr_text) (calc_start args) (w, c)" using calc_start_gives[OF assms] by simp
  have c: "calc_ok c" using calc_after_ok[OF calc_postD(1)[OF post]] calc_start_ok(1)[OF assms(1)] by blast
  obtain b where b: "calc_reads c b (calc_skip_ws c)" "blanks b" "calc_err (calc_skip_ws c) = calc_err c" "calc_ok (calc_skip_ws c)"
    "calc_left (calc_skip_ws c) \<le> calc_left c" "calc_after c (calc_skip_ws c)" by (rule skip_ws_reads[OF c])
  have e: "w = v" "calc_err c = 0" "calc_ch (calc_skip_ws c) = 0"
    using * p b(3) by (auto simp: calc_command_def Let_def split: if_splits)
  obtain e t where et: "calc_reads (calc_start args) t c" "then_blanks expr_text e t" "calc_value e = Some v"
    using calc_postD(2)[OF post e(2)] e(1) by blast
  obtain t' b' where t': "t = t' @ b'" "expr_text e t'" "blanks b'" using et(2) unfolding then_blanks_def by blast
  have "args = t @ b"
    using calc_reads_rest[OF calc_reads_trans[OF et(1) b(1)]] calc_at_end[OF b(4)] e(3) by (simp add: calc_start_ok(2))
  then show "\<exists>e t b. args = t @ b \<and> expr_text e t \<and> blanks b \<and> calc_value e = Some v"
    using t' b(2) et(3) by (intro exI[of _ e] exI[of _ t'] exI[of _ "b' @ b"]) auto
next
  assume "\<exists>e t b. args = t @ b \<and> expr_text e t \<and> blanks b \<and> calc_value e = Some v"
  then obtain e t b where et: "args = t @ b" "expr_text e t" "blanks b" "calc_value e = Some v" by blast
  let ?c = "calc_start args"
  let ?d = "calc_skip_ws (calc_skip (length t) ?c)"
  have a: "at_text ?c t b" using et(1) assms(1) by (simp add: at_text_def calc_ok_def calc_rest_def)
  have a': "at_text (calc_skip (length t) ?c) [] b" using at_text_skip[of ?c t "[]" b] a by simp
  have dw: "dropWhile is_blank b = []" using et(3) by simp
  have "ends b" "no_mul b" using ends_blanks[OF et(3), of "[]"] dw by (simp_all add: ends_def no_mul_def)
  then have "calc_evt (\<lambda>n. calc_parse_expr n ?c) (Return (v, ?d))"
    using texts_run(3)[OF et(2)] a et(4) expr_loop_stop[OF a' disjI2[OF dw]] unfolding expr_run_def by blast
  then obtain N where "\<forall>m\<ge>N. calc_parse_expr m ?c = Return (v, ?d)" unfolding calc_evt_def by blast
  moreover have "calc_parse_expr (max n N) ?c = calc_parse_expr n ?c"
    using calc_start_gives[OF assms] by (intro parse_expr_deeper) auto
  ultimately have "calc_parse_expr n ?c = Return (v, ?d)" by (metis max.cobounded2)
  moreover have "calc_skip_ws ?d = ?d" "calc_err ?d = 0" "calc_ch ?d = 0"
    using skip_ws_char[of "calc_skip (length t) ?c"] a' dw unfolding at_text_def by simp_all
  ultimately show "calc_command n args = Return (Calc_Value v)"
    using text_nonempty(3)[OF et(2)] et(1) by (simp add: calc_command_def Let_def)
qed

theorem calc_evaluates_witness:
  "\<exists>e t b. [0x32, 0x20, 0x2B, 0x33, 0x2A, 0x28, 0x2D, 0x34, 0x29] = t @ b \<and> expr_text e t \<and> blanks b \<and> calc_value e = Some (- 10)"
proof -
  have "calc_command 30 [0x32, 0x20, 0x2B, 0x33, 0x2A, 0x28, 0x2D, 0x34, 0x29] = Return (Calc_Value (- 10))" by code_simp
  then show ?thesis
    using calc_evaluates[of "[0x32, 0x20, 0x2B, 0x33, 0x2A, 0x28, 0x2D, 0x34, 0x29]" 30 "- 10"] by simp
qed

end
