(* ===== verification/Spec2Isabelle.thy ===== *)
theory Spec2Isabelle
  imports Kernel_Prelude Memops Pmm Heap Heap_Blocks Heap_Correct Heap_Props Paging Strings Net Net_Props Ring Serial Keyboard
    Timer Pic Klog Rtc Disk Fat Fat_Table Fat_Files Fat_Dir Fat_Fs
    Scheduler Scheduler_Props Font Vbe Vbe_Props Console Console_Props Calc Calc_Grammar Calc_Props
begin

text \<open>
  Verification library for Bengal Tiger OS, a 32-bit x86 kernel written in C (\<^verbatim>\<open>src/kernel\<close>).  The theories model the C functions as
  HOL functions of the same names over the kernel's data, and prove what makes each part correct.

  \<^bold>\<open>The program.\<close>  \<^verbatim>\<open>kmain\<close> initialises the machine (descriptor tables, interrupt controllers, timer), the memory managers
  (physical frames, page tables, heap), the drivers (serial port, keyboard, disk, network card, frame buffer) and the services on top of
  them (FAT volume, network stack, scheduler), and then runs the shell.  Interrupt handlers fill rings that the shell and the network
  stack empty; tasks live in blocks of the heap; files live in sectors of the disk driver; all drawing goes to the frame buffer that the
  page tables map.

  \<^bold>\<open>Conventions.\<close>  A machine integer is a word of its width (\<^typ>\<open>u8\<close>, \<^typ>\<open>u16\<close>, \<^typ>\<open>u32\<close>, \<^typ>\<open>u64\<close>), so that \<open>+\<close> wraps as in C;
  signed values are \<^typ>\<open>int\<close> with the overflow written out.  Memory is a function from addresses to bytes (\<^typ>\<open>memory\<close>).  A struct or the
  globals of a file are a record.  A failing call returns an option or an error value.  A loop that ends by a bound is a function with a
  termination proof; one that may not end is a partial function with the value None when it does not return, and then its return is
  proved.  Port instructions of the disk are parameters in a state monad (\<^verbatim>\<open>port_io\<close>).

  \<^bold>\<open>Theories, and the source they model.\<close>

  \<^item> \<^verbatim>\<open>Kernel_Prelude\<close>: types, loads and stores, alignment macros (\<^verbatim>\<open>common.h\<close>), counting loops, and the word lemmas all theories share.
  \<^item> \<^verbatim>\<open>Memops\<close>, \<^verbatim>\<open>Strings\<close> (\<^verbatim>\<open>common.c\<close>): memory primitives refine byte-wise filling and copying also for overlapping regions; string functions
    against the list a pointer denotes; number printing and parsing round trip.
  \<^item> \<^verbatim>\<open>Pmm\<close> (\<^verbatim>\<open>pmm.c\<close>): the frame bitmap, with the contract \<^verbatim>\<open>frame_pool\<close> and its interpretation.
  \<^item> \<^verbatim>\<open>Paging\<close> (\<^verbatim>\<open>paging.c\<close>): page directory and tables in memory; mapping, unmapping and the identity map against the translation
    the hardware makes.
  \<^item> \<^verbatim>\<open>Heap\<close>, \<^verbatim>\<open>Heap_Blocks\<close>, \<^verbatim>\<open>Heap_Correct\<close>, \<^verbatim>\<open>Heap_Props\<close> (\<^verbatim>\<open>heap.c\<close>): the block list in memory, its invariant, and the allocator
    contract (locale \<^verbatim>\<open>allocator\<close>, interpreted on \<^verbatim>\<open>kmalloc\<close> and \<^verbatim>\<open>kfree\<close>): blocks are disjoint and keep their bytes.
  \<^item> \<^verbatim>\<open>Net\<close>, \<^verbatim>\<open>Net_Props\<close> (\<^verbatim>\<open>net.c\<close>): Ethernet, ARP, IPv4, ICMP, UDP and the DHCP client; answering a ping, checksums, the ARP cache,
    bounds of received packets.
  \<^item> \<^verbatim>\<open>Ring\<close>, \<^verbatim>\<open>Serial\<close>, \<^verbatim>\<open>Keyboard\<close> (\<^verbatim>\<open>serial.c\<close>, \<^verbatim>\<open>keyboard.c\<close>): the input rings refine a bounded queue (locale \<^verbatim>\<open>bounded_queue\<close>);
    scan codes and terminal escape sequences become events.
  \<^item> \<^verbatim>\<open>Timer\<close>, \<^verbatim>\<open>Pic\<close>, \<^verbatim>\<open>Klog\<close>, \<^verbatim>\<open>Rtc\<close> (\<^verbatim>\<open>timer.c\<close>, \<^verbatim>\<open>pic.c\<close>, \<^verbatim>\<open>klog.c\<close>, \<^verbatim>\<open>rtc.c\<close>): sleeping under arriving ticks, interrupt masks, the
    log buffer, and reading a clock that ticks while it is read.
  \<^item> \<^verbatim>\<open>Disk\<close> (\<^verbatim>\<open>disk.c\<close>): ATA programmed input and output and the RAM disk, with the contract \<^verbatim>\<open>block_device\<close>.
  \<^item> \<^verbatim>\<open>Fat\<close>, \<^verbatim>\<open>Fat_Table\<close>, \<^verbatim>\<open>Fat_Files\<close>, \<^verbatim>\<open>Fat_Dir\<close>, \<^verbatim>\<open>Fat_Fs\<close> (\<^verbatim>\<open>fat.c\<close>): the volume on a block device (locale \<^verbatim>\<open>fat_volume\<close>,
    interpreted on the RAM disk).  The allocation table is an array of independent entries, a chain holds the bytes of a file, the
    root directory is a list of slots, and the whole volume refines a map from names to contents: writing and deleting a file are
    updates of that map.
  \<^item> \<^verbatim>\<open>Scheduler\<close>, \<^verbatim>\<open>Scheduler_Props\<close> (\<^verbatim>\<open>scheduler.c\<close>): the circular task list as a list of addresses whose tasks and stacks are
    blocks of the heap; the step relation of the scheduler keeps this invariant, the next runnable task is chosen in ring order, no
    ready task starves, and a new task starts from the frame \<^verbatim>\<open>task_create\<close> builds.
  \<^item> \<^verbatim>\<open>Font\<close>, \<^verbatim>\<open>Vbe\<close>, \<^verbatim>\<open>Vbe_Props\<close> (\<^verbatim>\<open>font.c\<close>, \<^verbatim>\<open>vbe.c\<close>): pixels in frame buffer memory for 24 and 32 bits and any channel
    layout; the fast loops paint what pixel by pixel drawing paints; rectangles, characters and scrolling change exactly the
    pixels they should and no byte outside the frame buffer.
  \<^item> \<^verbatim>\<open>Console\<close>, \<^verbatim>\<open>Console_Props\<close> (the console of \<^verbatim>\<open>shell.c\<close>): the grid of character cells, the cursor, scrolling, the top bar and the
    mirror on the serial port.  After any sequence of console calls the screen, graphical or text, shows exactly the grid, and a printed
    line is stored in the grid where the cursor was.
  \<^item> \<^verbatim>\<open>Calc\<close>, \<^verbatim>\<open>Calc_Grammar\<close>, \<^verbatim>\<open>Calc_Props\<close> (the calculator of \<^verbatim>\<open>shell.c\<close>): the recursive-descent parser, an expression grammar with its
    semantics, and the equivalence of the two.

  \<^bold>\<open>Bounds and fuel.\<close>  Reading and freeing a FAT chain are bounded by the code itself (the number of clusters
  plus two).  Writing takes one step more than there are bytes, which is enough because every cluster takes at least one byte; the lemmas show
  that the bound is not reached.  The calculator takes a bound on the depth of its
  calls; three per character and three more are shown to be enough for every input, and a larger bound does not change the answer.  Sleeping takes
  the list of interrupts that arrive, and it is shown after how many it wakes.

  \<^bold>\<open>Not modelled.\<close>  Code whose effect is on processor or device state outside the kernel's memory has no model here: the
  assembly of \<^verbatim>\<open>boot.s\<close> and \<^verbatim>\<open>isr.s\<close>, control registers and feature detection in \<^verbatim>\<open>cpu.c\<close>, loading the descriptor tables of \<^verbatim>\<open>gdt.c\<close> and
  \<^verbatim>\<open>idt.c\<close>, the interrupt dispatch of \<^verbatim>\<open>isr.c\<close>, the descriptor rings that the cards of \<^verbatim>\<open>nic.c\<close> read by themselves (only the address of
  the card is used by the network stack), the configuration space scan of \<^verbatim>\<open>pci.c\<close>, and the mouse protocol of \<^verbatim>\<open>mouse.c\<close>.  \<^verbatim>\<open>main.c\<close> only
  orders the initialisation and \<^verbatim>\<open>panic.c\<close> prints and halts.  The text editor (\<^verbatim>\<open>editor.c\<close>) and the rest of the shell
  (\<^verbatim>\<open>shell.c\<close>: line editing and the commands, which mostly print reports) are not modelled.  The optimiser, caches and timing
  of the machine are outside the model, and memory ordering between interrupt handlers and the main program is that of
  whole handlers.
\<close>

end
